(* ===== verification/Prelude.thy ===== *)
theory Prelude
  imports Main "HOL-Library.Word" "HOL-Library.Multiset"
begin

text \<open>
  The prelude of the development: what the components share.
  \<^item> C strings. A pointer \<open>const char *p\<close> into a NUL-terminated buffer is the list of
    the characters from \<open>p\<close> on; \<open>cur p\<close> is \<open>*p\<close> and \<open>nthc p i\<close> is \<open>p[i]\<close>, which
    read the terminator at the end of the list. \<open>cstr\<close> cuts a buffer at its first NUL, and
    the functions of \<open>string.h\<close> the sources use are stated over it.
  \<^item> The allocator. \<open>malloc\<close> may fail at any call: the heap state carries a list of
    answers (an exhausted list answers yes) and the number of live blocks, so leak
    freedom is a statement about that number.
  \<^item> Named collections that carry the component proofs.
\<close>

unbundle bit_operations_syntax

named_theorems cstring_simps \<open>facts on C strings\<close>
named_theorems alloc_simps \<open>facts on the allocator\<close>

section \<open>C strings\<close>

abbreviation NUL :: char where
  "NUL \<equiv> CHR 0x00"

text \<open>The value of a character as an \<open>unsigned char\<close>.\<close>

abbreviation byte :: "char \<Rightarrow> nat" where
  "byte c \<equiv> of_char c"

definition cur :: "string \<Rightarrow> char" where
  "cur p = (case p of [] \<Rightarrow> NUL | c # _ \<Rightarrow> c)"

definition nthc :: "string \<Rightarrow> nat \<Rightarrow> char" where
  "nthc p i = (if i < length p then p ! i else NUL)"

definition cstr :: "string \<Rightarrow> string" where
  "cstr p = takeWhile (\<lambda>c. c \<noteq> NUL) p"

definition strlen :: "string \<Rightarrow> nat" where
  "strlen p = length (cstr p)"

text \<open>\<open>strcmp(a, b) == 0\<close> and \<open>strncmp(a, b, n) == 0\<close>.\<close>

definition streq :: "string \<Rightarrow> string \<Rightarrow> bool" where
  "streq a b = (cstr a = cstr b)"

definition strneq :: "string \<Rightarrow> string \<Rightarrow> nat \<Rightarrow> bool" where
  "strneq a b n = (take n (cstr a) = take n (cstr b))"

text \<open>\<open>strchr(p, c)\<close> for \<open>c \<noteq> '\<zero>'\<close>: the offset of the first occurrence.\<close>

definition strchr :: "string \<Rightarrow> char \<Rightarrow> nat option" where
  "strchr p c = (let k = length (takeWhile (\<lambda>d. d \<noteq> c) (cstr p))
                 in if k < strlen p then Some k else None)"

text \<open>\<open>strstr(hay, needle)\<close>: the offset of the first occurrence.\<close>

fun strstr :: "string \<Rightarrow> string \<Rightarrow> nat option" where
  "strstr [] needle = (if cstr needle = [] then Some 0 else None)"
| "strstr (c # cs) needle =
     (if strneq (c # cs) needle (strlen needle) then Some 0
      else if c = NUL then None
      else map_option Suc (strstr cs needle))"

text \<open>\<open>isspace\<close> in the C locale.\<close>

definition isspace :: "char \<Rightarrow> bool" where
  "isspace c = (c = CHR '' '' \<or> (9 \<le> byte c \<and> byte c \<le> 13))"

definition isdigit :: "char \<Rightarrow> bool" where
  "isdigit c = (48 \<le> byte c \<and> byte c \<le> 57)"

text \<open>A buffer is a proper C string when the terminator is its only NUL.\<close>

definition nul_free :: "string \<Rightarrow> bool" where
  "nul_free p = (NUL \<notin> set p)"

lemma cur_simps [simp, cstring_simps]: "cur [] = NUL" "cur (c # p) = c"
  by (simp_all add: cur_def)

lemma nthc_simps [simp, cstring_simps]:
  "nthc [] i = NUL" "nthc (c # p) 0 = c" "nthc (c # p) (Suc i) = nthc p i"
  by (simp_all add: nthc_def)

lemma nthc_numeral [simp, cstring_simps]:
  "nthc (c # p) (numeral k) = nthc p (pred_numeral k)"
  by (simp add: numeral_eq_Suc)

lemma nthc_One [simp, cstring_simps]: "nthc (c # p) 1 = nthc p 0"
  by (simp add: One_nat_def del: One_nat_def [symmetric])

lemma nthc_not_NUL: "nthc p i \<noteq> NUL \<Longrightarrow> i < length p"
  by (auto simp: nthc_def split: if_splits)

lemma cstr_simps [simp, cstring_simps]:
  "cstr [] = []" "cstr (c # p) = (if c = NUL then [] else c # cstr p)"
  by (simp_all add: cstr_def)

lemma cstr_nul_free [simp, cstring_simps]: "nul_free p \<Longrightarrow> cstr p = p"
  by (auto simp: cstr_def nul_free_def takeWhile_eq_all_conv)

lemma nul_free_cstr [simp, intro]: "nul_free (cstr p)"
  by (auto simp: cstr_def nul_free_def dest: set_takeWhileD)

lemma nul_free_simps [simp, cstring_simps]:
  "nul_free []" "nul_free (c # p) = (c \<noteq> NUL \<and> nul_free p)"
  "nul_free (p @ q) = (nul_free p \<and> nul_free q)"
  by (auto simp: nul_free_def)

lemma cstr_cstr [simp]: "cstr (cstr p) = cstr p"
  by simp

lemma nul_free_take [simp]: "nul_free p \<Longrightarrow> nul_free (take n p)"
  by (auto simp: nul_free_def dest: in_set_takeD)

lemma nul_free_drop [simp]: "nul_free p \<Longrightarrow> nul_free (drop n p)"
  by (auto simp: nul_free_def dest: in_set_dropD)

lemma cstr_take_prefix: "cstr (take n p) = take n (cstr p)"
  by (induction p arbitrary: n) (auto simp: take_Cons split: nat.splits)

lemma strlen_nul_free [simp, cstring_simps]: "nul_free p \<Longrightarrow> strlen p = length p"
  by (simp add: strlen_def)

lemma streq_refl [simp]: "streq p p"
  by (simp add: streq_def)

lemma streq_nul_free [simp]: "nul_free a \<Longrightarrow> nul_free b \<Longrightarrow> streq a b = (a = b)"
  by (simp add: streq_def)

lemma cstr_append_NUL: "nul_free a \<Longrightarrow> cstr (a @ NUL # rest) = a" "nul_free a \<Longrightarrow> strlen (a @ NUL # rest) = length a"
  by (induction a) (auto simp: strlen_def)

lemma strchr_None_iff: "strchr p c = None \<longleftrightarrow> c \<notin> set (cstr p)"
  by (induction p) (auto simp: strchr_def strlen_def Let_def)

lemma strchr_SomeD:
  assumes "strchr p c = Some k"
  shows "k < length (cstr p)" "cstr p ! k = c" "c \<notin> set (take k (cstr p))"
proof -
  let ?k = "length (takeWhile (\<lambda>d. d \<noteq> c) (cstr p))"
  from assms have k: "k = ?k" and lt: "?k < length (cstr p)"
    by (auto simp: strchr_def strlen_def Let_def split: if_splits)
  show "k < length (cstr p)" using k lt by simp
  show "cstr p ! k = c" using nth_length_takeWhile [OF lt] k by simp
  show "c \<notin> set (take k (cstr p))"
    unfolding k takeWhile_eq_take [symmetric] by (auto dest: set_takeWhileD)
qed

lemma strneq_length:
  assumes "strneq s t (strlen t)"
  shows "strlen t \<le> length s" and "take (strlen t) s = cstr t"
proof -
  have eq: "take (strlen t) (cstr s) = cstr t"
    using assms by (simp add: strneq_def strlen_def)
  then have le: "strlen t \<le> length (cstr s)"
    by (metis length_take min.cobounded1 strlen_def)
  then show "strlen t \<le> length s"
    by (metis cstr_def le_trans length_takeWhile_le)
  show "take (strlen t) s = cstr t"
    using eq le by (metis cstr_def takeWhile_eq_take take_take min.absorb1)
qed

lemma strstr_bound: "strstr s t = Some k \<Longrightarrow> k + strlen t \<le> length s"
proof (induction s arbitrary: k)
  case Nil
  then show ?case by (simp add: strlen_def split: if_splits)
next
  case (Cons a s)
  then show ?case
    using strneq_length(1) [of "a # s" t] by (auto split: if_splits)
qed

section \<open>The allocator\<close>

record heap =
  answers :: "bool list"
  live :: int

definition malloc :: "heap \<Rightarrow> bool \<times> heap" where
  "malloc h = (case answers h of
       [] \<Rightarrow> (True, h\<lparr>live := live h + 1\<rparr>)
     | b # bs \<Rightarrow> (b, h\<lparr>answers := bs, live := (if b then live h + 1 else live h)\<rparr>))"

text \<open>Releasing \<open>n\<close> blocks; \<open>free(NULL)\<close> is \<open>free_blocks 0\<close>.\<close>

definition free_blocks :: "int \<Rightarrow> heap \<Rightarrow> heap" where
  "free_blocks n h = h\<lparr>live := live h - n\<rparr>"

text \<open>A heap that never refuses.\<close>

definition plenty :: "heap \<Rightarrow> bool" where
  "plenty h = (answers h = [])"

lemma live_free_blocks [simp, alloc_simps]: "live (free_blocks n h) = live h - n"
  by (simp add: free_blocks_def)

lemma answers_free_blocks [simp, alloc_simps]: "answers (free_blocks n h) = answers h"
  by (simp add: free_blocks_def)

lemma plenty_free_blocks [simp, alloc_simps]: "plenty (free_blocks n h) = plenty h"
  by (simp add: plenty_def)

lemma malloc_live [alloc_simps]:
  "malloc h = (ok, h') \<Longrightarrow> live h' = live h + (if ok then 1 else 0)"
  by (auto simp: malloc_def split: list.splits)

lemma live_snd_malloc [simp, alloc_simps]:
  "live (snd (malloc h)) = live h + (if fst (malloc h) then 1 else 0)"
  using malloc_live [of h "fst (malloc h)" "snd (malloc h)"] by simp

lemma malloc_plenty [simp, alloc_simps]:
  "plenty h \<Longrightarrow> malloc h = (True, h\<lparr>live := live h + 1\<rparr>)"
  by (simp add: malloc_def plenty_def)

lemma plenty_live_update [simp, alloc_simps]: "plenty (h\<lparr>live := n\<rparr>) = plenty h"
  by (simp add: plenty_def)

lemma free_after_malloc [simp, alloc_simps]:
  "free_blocks k (h\<lparr>live := n\<rparr>) = h\<lparr>live := n - k\<rparr>"
  by (simp add: free_blocks_def)

section \<open>Bits of naturals\<close>

named_theorems bit_arith \<open>bit operations as arithmetic\<close>

lemma bit_nat_less_exp: "b < 2 ^ n \<Longrightarrow> bit (b::nat) k \<Longrightarrow> k < n"
  by (metis bit_take_bit_iff take_bit_nat_eq_self)

lemma push_bit_or_add [bit_arith]:
  assumes "(b::nat) < 2 ^ n"
  shows "push_bit n a OR b = a * 2 ^ n + b"
proof -
  have "\<not> bit (push_bit n a) k \<or> \<not> bit b k" for k
    using bit_nat_less_exp [OF assms, of k] by (auto simp: bit_push_bit_iff)
  then show ?thesis
    by (simp add: disjunctive_add [symmetric] push_bit_eq_mult)
qed

lemma and_mask_mod [bit_arith]:
  "x AND 0x7 = x mod (8::nat)" "x AND 0xF = x mod (16::nat)" "x AND 0x1F = x mod (32::nat)"
  "x AND 0x3F = x mod (64::nat)" "x AND 0x3FF = x mod (1024::nat)"
  using take_bit_eq_mask [of 3 x] take_bit_eq_mask [of 4 x] take_bit_eq_mask [of 5 x]
    take_bit_eq_mask [of 6 x] take_bit_eq_mask [of 10 x]
  by (simp_all add: take_bit_eq_mod mask_eq_exp_minus_1)

lemma and_shifted_mask: "x AND (mask m * 2 ^ k) = x div 2 ^ k mod 2 ^ m * (2 ^ k :: nat)"
  by (auto simp: bit_eq_iff bit_simps simp flip: push_bit_eq_mult drop_bit_eq_div take_bit_eq_mod)

lemma div_eq_range_iff:
  assumes "0 < (d::nat)"
  shows "n div d = q \<longleftrightarrow> q * d \<le> n \<and> n < q * d + d"
proof
  assume "n div d = q"
  then show "q * d \<le> n \<and> n < q * d + d"
    using div_mult_mod_eq [of n d] mod_less_divisor [OF assms, of n] by auto
next
  assume "q * d \<le> n \<and> n < q * d + d"
  then show "n div d = q"
    by (intro div_nat_eqI) (simp_all add: mult.commute)
qed

text \<open>Testing the high bits of a byte: \<open>mask m * 2\<^sup>k\<close> selects the \<open>m\<close> bits from bit \<open>k\<close> up.\<close>

lemma high_bits_eq_iff:
  assumes "n < 2 ^ (k + m)" and "q < 2 ^ m"
  shows "n AND (mask m * 2 ^ k) = q * 2 ^ k \<longleftrightarrow> q * 2 ^ k \<le> n \<and> n < q * 2 ^ k + (2 ^ k :: nat)"
proof -
  have "n div 2 ^ k mod 2 ^ m = n div 2 ^ k"
    using assms(1) by (simp add: less_mult_imp_div_less power_add mult.commute)
  then show ?thesis
    using div_eq_range_iff [of "2 ^ k" n q] by (simp add: and_shifted_mask)
qed

lemma or_marker_add [bit_arith]:
  "n < 64 \<Longrightarrow> n OR 0x80 = n + (0x80::nat)" "n < 32 \<Longrightarrow> n OR 0xC0 = n + (0xC0::nat)"
  "n < 16 \<Longrightarrow> n OR 0xE0 = n + (0xE0::nat)" "n < 8 \<Longrightarrow> n OR 0xF0 = n + (0xF0::nat)"
  using push_bit_or_add [of n 6 2] push_bit_or_add [of n 5 6] push_bit_or_add [of n 4 14]
    push_bit_or_add [of n 3 30]
  by (simp_all add: push_bit_eq_mult or.commute)

lemma marker_mod [bit_arith]:
  "(0x80 + n) mod 64 = n mod (64::nat)" "(0xC0 + n) mod 32 = n mod (32::nat)"
  "(0xE0 + n) mod 16 = n mod (16::nat)" "(0xF0 + n) mod 8 = n mod (8::nat)"
  using mod_mult_self1 [of n 2 64] mod_mult_self1 [of n 6 32] mod_mult_self1 [of n 14 16]
    mod_mult_self1 [of n 30 8]
  by (simp_all add: add.commute)

lemma base64_digits2: "n div 64 * 64 + n mod 64 = (n::nat)"
  by simp

lemma base64_digits3: "n div 4096 * 4096 + n div 64 mod 64 * 64 + n mod 64 = (n::nat)"
proof -
  have "n div 64 = n div 4096 * 64 + n div 64 mod 64"
    using div_mult_mod_eq [of "n div 64" 64] by (simp add: div_mult2_eq [symmetric])
  with base64_digits2 [of n] show ?thesis by linarith
qed

lemma base64_digits4:
  "n div 262144 * 262144 + n div 4096 mod 64 * 4096 + n div 64 mod 64 * 64 + n mod 64 = (n::nat)"
proof -
  have "n div 4096 = n div 262144 * 64 + n div 4096 mod 64"
    using div_mult_mod_eq [of "n div 4096" 64] by (simp add: div_mult2_eq [symmetric])
  with base64_digits3 [of n] show ?thesis by linarith
qed

lemma base64_undigits:
  assumes "b < 64" "c < 64" "d < (64::nat)"
  shows "(a * 64 + b) div 64 = a" "(a * 64 + b) mod 64 = b"
    "(a * 4096 + b * 64 + c) div 4096 = a" "(a * 4096 + b * 64 + c) div 64 mod 64 = b"
    "(a * 4096 + b * 64 + c) mod 64 = c"
    "(a * 262144 + b * 4096 + c * 64 + d) div 262144 = a" "(a * 262144 + b * 4096 + c * 64 + d) div 4096 mod 64 = b"
    "(a * 262144 + b * 4096 + c * 64 + d) div 64 mod 64 = c" "(a * 262144 + b * 4096 + c * 64 + d) mod 64 = d"
proof -
  have two: "(x * 64 + y) div 64 = x \<and> (x * 64 + y) mod 64 = y" if "y < 64" for x y :: nat
    using that by simp
  show "(a * 64 + b) div 64 = a" "(a * 64 + b) mod 64 = b" using two [OF assms(1)] by auto
  have e3: "a * 4096 + b * 64 + c = (a * 64 + b) * 64 + c" by simp
  have d3: "(a * 4096 + b * 64 + c) div 64 = a * 64 + b"
    unfolding e3 using two [OF assms(2)] by blast
  show "(a * 4096 + b * 64 + c) mod 64 = c"
    unfolding e3 using two [OF assms(2)] by blast
  show "(a * 4096 + b * 64 + c) div 64 mod 64 = b" unfolding d3 using two [OF assms(1)] by blast
  show "(a * 4096 + b * 64 + c) div 4096 = a"
    using d3 two [OF assms(1), of a] div_mult2_eq [of "a * 4096 + b * 64 + c" 64 64] by simp
  have e4: "a * 262144 + b * 4096 + c * 64 + d = (a * 4096 + b * 64 + c) * 64 + d" by simp
  have d4: "(a * 262144 + b * 4096 + c * 64 + d) div 64 = a * 4096 + b * 64 + c"
    unfolding e4 using two [OF assms(3)] by blast
  show "(a * 262144 + b * 4096 + c * 64 + d) mod 64 = d"
    unfolding e4 using two [OF assms(3)] by blast
  show "(a * 262144 + b * 4096 + c * 64 + d) div 64 mod 64 = c"
    unfolding d4 e3 using two [OF assms(2)] by blast
  have d44: "(a * 262144 + b * 4096 + c * 64 + d) div 4096 = a * 64 + b"
    using d4 d3 div_mult2_eq [of "a * 262144 + b * 4096 + c * 64 + d" 64 64] by simp
  show "(a * 262144 + b * 4096 + c * 64 + d) div 4096 mod 64 = b" unfolding d44 using two [OF assms(1)] by blast
  show "(a * 262144 + b * 4096 + c * 64 + d) div 262144 = a"
    using d44 two [OF assms(1), of a] div_mult2_eq [of "a * 262144 + b * 4096 + c * 64 + d" 4096 64] by simp
qed

lemma byte_less [simp]: "byte c < 256"
  by simp

lemma byte_eq_iff: "byte c = byte d \<longleftrightarrow> c = d"
  by simp

lemma char_of_byte_add: "n < 256 \<Longrightarrow> byte (char_of (n::nat)) = n"
  by simp

section \<open>Lists\<close>

lemma dropWhile_length_le: "length (dropWhile P xs) \<le> length xs"
  by (induction xs) auto

lemma map_fst_distinct_lookup:
  "distinct (map fst kvs) \<Longrightarrow> (k, v) \<in> set kvs \<Longrightarrow> map_of kvs k = Some v"
  by simp

lemma in_fst_image: "(a, b) \<in> S \<Longrightarrow> a \<in> fst ` S"
  by force

lemma map_of_update_in_place:
  assumes "i < length kvs" and "fst (kvs ! i) = k" and "k \<notin> fst ` set (take i kvs)"
  shows "map_of (kvs[i := (k, v)]) = (map_of kvs)(k \<mapsto> v)"
proof -
  have id: "kvs = take i kvs @ kvs ! i # drop (Suc i) kvs"
    using assms(1) by (rule id_take_nth_drop)
  have "kvs[i := (k, v)] = take i kvs @ (k, v) # drop (Suc i) kvs"
    using assms(1) by (rule upd_conv_take_nth_drop)
  moreover have "map_of (take i kvs) k = None"
    using assms(3) by (simp add: map_of_eq_None_iff)
  moreover have "kvs ! i = (k, snd (kvs ! i))"
    using assms(2) by (metis prod.collapse)
  moreover have "map_of kvs = (map_of (drop (Suc i) kvs))(k \<mapsto> snd (kvs ! i)) ++ map_of (take i kvs)"
    by (subst id, subst \<open>kvs ! i = (k, snd (kvs ! i))\<close>) simp
  ultimately show ?thesis
    by (auto simp: fun_eq_iff map_add_def split: option.splits)
qed

lemma sum_list_update_int:
  "i < length xs \<Longrightarrow> (\<Sum>x\<leftarrow>xs[i := y]. f x) = (\<Sum>x\<leftarrow>xs. f x) + f y - (f (xs ! i) :: int)"
  by (induction xs arbitrary: i) (auto split: nat.split)

text \<open>Removing an entry by moving the last one into its place.\<close>

lemma mset_swap_remove:
  assumes "i < length xs"
  shows "mset (take (length xs - 1) (if i \<noteq> length xs - 1 then xs[i := xs ! (length xs - 1)] else xs)) + {#xs ! i#} = mset xs"
proof -
  obtain ys z where xs: "xs = ys @ [z]" using assms by (cases xs rule: rev_cases) auto
  show ?thesis
  proof (cases "i = length ys")
    case False
    then have i: "i < length ys" using assms xs by simp
    have "mset ys = add_mset (ys ! i) (mset ys - {#ys ! i#})" using i by simp
    then show ?thesis using i by (simp add: xs nth_append list_update_append mset_update)
  qed (simp add: xs)
qed

lemma map_of_removed:
  assumes "mset ys + {#(k, v)#} = mset xs" "distinct (map fst xs)"
  shows "distinct (map fst ys)" "map_of ys = (map_of xs)(k := None)" "set ys \<subseteq> set xs" "Suc (length ys) = length xs"
proof -
  have perm: "mset ((k, v) # ys) = mset xs" using assms(1) by simp
  then have "mset (map fst ((k, v) # ys)) = mset (map fst xs)" by (metis mset_map)
  then have d: "distinct (map fst ((k, v) # ys))" using assms(2) mset_eq_imp_distinct_iff by blast
  then show "distinct (map fst ys)" by simp
  have "set ((k, v) # ys) = set xs" using perm by (metis set_mset_mset)
  then have "map_of xs = map_of ((k, v) # ys)"
    using d assms(2) by (intro map_of_inject_set [THEN iffD2]) auto
  moreover have "map_of ys k = None" using d by (simp add: map_of_eq_None_iff)
  ultimately show "map_of ys = (map_of xs)(k := None)" by (auto simp: fun_eq_iff)
  show "set ys \<subseteq> set xs" using \<open>set ((k, v) # ys) = set xs\<close> by auto
  show "Suc (length ys) = length xs" using perm by (metis length_Cons mset_eq_length)
qed

section \<open>Providers of finite maps\<close>

text \<open>A component that stores values under keys. \<open>put\<close> and \<open>del\<close> report whether they took
  effect; an operation that did not leaves the stored map alone. \<open>run_ops\<close> performs a sequence
  of operations and \<open>apply_op\<close> is what each of them means for a map.\<close>

datatype ('k, 'v) map_op = Put 'k 'v | Del 'k

fun run_ops ::
  "('s \<Rightarrow> 'k \<Rightarrow> 'v \<Rightarrow> 'h \<Rightarrow> bool \<times> 's \<times> 'h) \<Rightarrow> ('s \<Rightarrow> 'k \<Rightarrow> 'h \<Rightarrow> bool \<times> 's \<times> 'h) \<Rightarrow>
     ('k, 'v) map_op list \<Rightarrow> 's \<Rightarrow> 'h \<Rightarrow> bool list \<times> 's \<times> 'h" where
  "run_ops put del [] s h = ([], s, h)"
| "run_ops put del (Put k v # ops) s h =
     (let (r, s1, h1) = put s k v h; (rs, s2, h2) = run_ops put del ops s1 h1 in (r # rs, s2, h2))"
| "run_ops put del (Del k # ops) s h =
     (let (r, s1, h1) = del s k h; (rs, s2, h2) = run_ops put del ops s1 h1 in (r # rs, s2, h2))"

fun apply_op :: "('k, 'v) map_op \<times> bool \<Rightarrow> ('k \<rightharpoonup> 'v) \<Rightarrow> ('k \<rightharpoonup> 'v)" where
  "apply_op (Put k v, True) m = m(k \<mapsto> v)"
| "apply_op (Del k, True) m = m(k := None)"
| "apply_op (_, False) m = m"

fun op_ok :: "('k \<Rightarrow> bool) \<Rightarrow> ('v \<Rightarrow> bool) \<Rightarrow> ('k, 'v) map_op \<Rightarrow> bool" where
  "op_ok ok_key ok_val (Put k v) = (ok_key k \<and> ok_val v)"
| "op_ok ok_key ok_val (Del k) = ok_key k"

locale map_provider =
  fixes inv :: "'s \<Rightarrow> bool" and abs :: "'s \<Rightarrow> 'k \<Rightarrow> 'v option"
    and ok_key :: "'k \<Rightarrow> bool" and ok_val :: "'v \<Rightarrow> bool"
    and get :: "'s \<Rightarrow> 'k \<Rightarrow> 'v option"
    and put :: "'s \<Rightarrow> 'k \<Rightarrow> 'v \<Rightarrow> 'h \<Rightarrow> bool \<times> 's \<times> 'h"
    and del :: "'s \<Rightarrow> 'k \<Rightarrow> 'h \<Rightarrow> bool \<times> 's \<times> 'h"
  assumes get_abs: "inv s \<Longrightarrow> ok_key k \<Longrightarrow> get s k = abs s k"
    and put_inv: "inv s \<Longrightarrow> ok_key k \<Longrightarrow> ok_val v \<Longrightarrow> put s k v h = (r, s', h') \<Longrightarrow> inv s'"
    and put_abs: "inv s \<Longrightarrow> ok_key k \<Longrightarrow> ok_val v \<Longrightarrow> put s k v h = (r, s', h') \<Longrightarrow>
      abs s' = apply_op (Put k v, r) (abs s)"
    and del_inv: "inv s \<Longrightarrow> ok_key k \<Longrightarrow> del s k h = (r, s', h') \<Longrightarrow> inv s'"
    and del_abs: "inv s \<Longrightarrow> ok_key k \<Longrightarrow> del s k h = (r, s', h') \<Longrightarrow>
      abs s' = apply_op (Del k, r) (abs s)"
begin

lemma run_ops_refine:
  "run_ops put del ops s h = (rs, s', h') \<Longrightarrow> inv s \<Longrightarrow> list_all (op_ok ok_key ok_val) ops \<Longrightarrow>
     inv s' \<and> length rs = length ops \<and> abs s' = fold apply_op (zip ops rs) (abs s)"
proof (induction ops arbitrary: s h rs)
  case (Cons x ops)
  then show ?case
  proof (cases x)
    case (Put k v)
    obtain r s1 h1 where p: "put s k v h = (r, s1, h1)" by (cases "put s k v h")
    with Cons Put put_inv [OF _ _ _ p] put_abs [OF _ _ _ p] show ?thesis
      by (auto split: prod.splits)
  next
    case (Del k)
    obtain r s1 h1 where p: "del s k h = (r, s1, h1)" by (cases "del s k h")
    with Cons Del del_inv [OF _ _ p] del_abs [OF _ _ p] show ?thesis
      by (auto split: prod.splits)
  qed
qed simp

lemma get_after_run:
  "run_ops put del ops s h = (rs, s', h') \<Longrightarrow> inv s \<Longrightarrow> list_all (op_ok ok_key ok_val) ops \<Longrightarrow> ok_key k \<Longrightarrow>
     get s' k = fold apply_op (zip ops rs) (abs s) k"
  using run_ops_refine [of ops s h rs s' h'] get_abs [of s' k] by simp

end

end
