(* ===== verification/Cpp_Base.thy ===== *)
theory Cpp_Base
  imports Prelude "HOL-Library.Char_ord" "HOL-Library.List_Lexorder"
begin

text \<open>
  What the C++ sources use of their language.
  \<^item> Computations that may not return: \<open>'a run\<close> is a failure (an exception nobody catches, an
    access through \<open>NULL\<close> or outside an object, a failed \<open>assert\<close>,
    other undefined behaviour) or a result. An access that
    C++ leaves undefined is a failure here, so a theorem that a function returns a result says
    in particular that none happened.
  \<^item> \<open>std::map\<close> and \<open>std::set\<close>: association lists and lists sorted by key. \<open>std::string\<close> is
    compared byte by byte, which is the order of lists of characters. \<open>insert\<close> keeps an entry
    that is already there, assignment through \<open>operator[]\<close> replaces it.
\<close>

named_theorems run_simps \<open>rules for computations that may fail\<close>

section \<open>Failures\<close>

datatype failure = Thrown string | NullDeref | OutOfBounds | AssertFailed | Undefined | Diverges

type_synonym 'a run = "failure + 'a"

definition run_bind :: "'a run \<Rightarrow> ('a \<Rightarrow> 'b run) \<Rightarrow> 'b run" where
  "run_bind m f = (case m of Inl e \<Rightarrow> Inl e | Inr x \<Rightarrow> f x)"

text \<open>Reading through a pointer, and checking a condition.\<close>

definition deref :: "'a option \<Rightarrow> 'a run" where
  "deref p = (case p of None \<Rightarrow> Inl NullDeref | Some x \<Rightarrow> Inr x)"

definition check :: "failure \<Rightarrow> bool \<Rightarrow> unit run" where
  "check e b = (if b then Inr () else Inl e)"

definition index :: "'a list \<Rightarrow> nat \<Rightarrow> 'a run" where
  "index xs i = (if i < length xs then Inr (xs ! i) else Inl OutOfBounds)"

text \<open>Writing an element of a vector; a loop over a range that may fail, with a state or collecting
  results.\<close>

definition index_set :: "'a list \<Rightarrow> nat \<Rightarrow> 'a \<Rightarrow> 'a list run" where
  "index_set xs i x = (if i < length xs then Inr (xs[i := x]) else Inl OutOfBounds)"

fun run_fold :: "('x \<Rightarrow> 's \<Rightarrow> 's run) \<Rightarrow> 'x list \<Rightarrow> 's \<Rightarrow> 's run" where
  "run_fold f [] s = Inr s"
| "run_fold f (x # xs) s = run_bind (f x s) (run_fold f xs)"

fun run_map :: "('x \<Rightarrow> 'y run) \<Rightarrow> 'x list \<Rightarrow> 'y list run" where
  "run_map f [] = Inr []"
| "run_map f (x # xs) = run_bind (f x) (\<lambda>y. run_bind (run_map f xs) (\<lambda>ys. Inr (y # ys)))"

lemma run_bind_simps [simp, run_simps]: "run_bind (Inl e) f = Inl e" "run_bind (Inr x) f = f x"
  by (simp_all add: run_bind_def)

lemma deref_simps [simp, run_simps]: "deref None = Inl NullDeref" "deref (Some x) = Inr x"
  by (simp_all add: deref_def)

lemma check_simps [simp, run_simps]: "check e True = Inr ()" "check e False = Inl e"
  by (simp_all add: check_def)

lemma index_simps [simp, run_simps]:
  "index [] i = Inl OutOfBounds" "index (x # xs) 0 = Inr x" "index (x # xs) (Suc i) = index xs i"
  by (simp_all add: index_def)

lemma run_bind_eq_Inr [run_simps]: "run_bind m f = Inr y \<longleftrightarrow> (\<exists>x. m = Inr x \<and> f x = Inr y)"
  by (cases m) auto

lemma deref_eq_Inr [run_simps]: "deref p = Inr x \<longleftrightarrow> p = Some x"
  by (cases p) auto

lemma check_eq_Inr [run_simps]: "check e b = Inr u \<longleftrightarrow> b"
  by (simp add: check_def)

lemma index_eq_Inr [run_simps]: "index xs i = Inr x \<longleftrightarrow> i < length xs \<and> xs ! i = x"
  by (auto simp: index_def)

lemma index_set_eq_Inr [run_simps]: "index_set xs i x = Inr ys \<longleftrightarrow> i < length xs \<and> ys = xs[i := x]"
  by (auto simp: index_set_def)

lemma run_map_Inr: "(\<And>x. x \<in> set xs \<Longrightarrow> f x = Inr (g x)) \<Longrightarrow> run_map f xs = Inr (map g xs)"
  by (induction xs) auto

section \<open>Ordered maps\<close>

type_synonym ('k, 'v) std_map = "('k \<times> 'v) list"

fun map_insert :: "'k::linorder \<Rightarrow> 'v \<Rightarrow> ('k, 'v) std_map \<Rightarrow> ('k, 'v) std_map" where
  "map_insert k v [] = [(k, v)]"
| "map_insert k v ((k', v') # m) =
     (if k < k' then (k, v) # (k', v') # m
      else if k = k' then (k', v') # m
      else (k', v') # map_insert k v m)"

fun map_assign :: "'k::linorder \<Rightarrow> 'v \<Rightarrow> ('k, 'v) std_map \<Rightarrow> ('k, 'v) std_map" where
  "map_assign k v [] = [(k, v)]"
| "map_assign k v ((k', v') # m) =
     (if k < k' then (k, v) # (k', v') # m
      else if k = k' then (k, v) # m
      else (k', v') # map_assign k v m)"

definition map_wf :: "('k::linorder, 'v) std_map \<Rightarrow> bool" where
  "map_wf m = sorted_wrt (<) (map fst m)"

definition map_lower_bound :: "'k::linorder \<Rightarrow> ('k, 'v) std_map \<Rightarrow> ('k, 'v) std_map" where
  "map_lower_bound k m = dropWhile (\<lambda>(k', v). k' < k) m"

text \<open>\<open>std::set::insert\<close>.\<close>

fun set_insert :: "'a::linorder \<Rightarrow> 'a list \<Rightarrow> 'a list" where
  "set_insert x [] = [x]"
| "set_insert x (y # ys) = (if x < y then x # y # ys else if x = y then y # ys else y # set_insert x ys)"

text \<open>The contract of an ordered map: the invariant of its representation, what a lookup finds
  after each way of storing, and an iteration that meets every entry once.\<close>

locale ordered_map =
  fixes wf :: "'m \<Rightarrow> bool" and find :: "'m \<Rightarrow> 'k \<Rightarrow> 'v option" and entries :: "'m \<Rightarrow> ('k \<times> 'v) list"
    and ins :: "'k \<Rightarrow> 'v \<Rightarrow> 'm \<Rightarrow> 'm" and asg :: "'k \<Rightarrow> 'v \<Rightarrow> 'm \<Rightarrow> 'm"
  assumes wf_ins: "wf m \<Longrightarrow> wf (ins k v m)"
    and wf_asg: "wf m \<Longrightarrow> wf (asg k v m)"
    and find_ins: "wf m \<Longrightarrow> find (ins k v m) = (if find m k = None then (find m)(k \<mapsto> v) else find m)"
    and find_asg: "wf m \<Longrightarrow> find (asg k v m) = (find m)(k \<mapsto> v)"
    and find_entries: "wf m \<Longrightarrow> find m = map_of (entries m)"
    and distinct_entries: "wf m \<Longrightarrow> distinct (map fst (entries m))"
begin

text \<open>Assigning every entry of one map to another overrides it.\<close>

lemma fold_asg:
  "wf m \<Longrightarrow> distinct (map fst kvs) \<Longrightarrow>
     wf (fold (\<lambda>(k, v). asg k v) kvs m) \<and> find (fold (\<lambda>(k, v). asg k v) kvs m) = find m ++ map_of kvs"
proof (induction kvs arbitrary: m)
  case (Cons kv kvs)
  obtain k v where kv: "kv = (k, v)" by fastforce
  have "map_of kvs k = None" using Cons.prems(2) kv by (auto simp: map_of_eq_None_iff)
  then show ?case
    using Cons.IH [of "asg k v m"] Cons.prems by (auto simp: kv wf_asg find_asg fun_eq_iff map_add_def split: option.splits)
qed simp

lemma assign_all:
  assumes "wf m" "wf u"
  shows "wf (fold (\<lambda>(k, v). asg k v) (entries u) m)" "find (fold (\<lambda>(k, v). asg k v) (entries u) m) = find m ++ find u"
  using fold_asg [OF assms(1) distinct_entries [OF assms(2)]] find_entries [OF assms(2)] by simp_all

text \<open>Inserting a list keeps what was there and, of several values for a key, the first.\<close>

lemma fold_ins:
  "wf m \<Longrightarrow> wf (fold (\<lambda>(k, v). ins k v) kvs m) \<and> find (fold (\<lambda>(k, v). ins k v) kvs m) = map_of kvs ++ find m"
proof (induction kvs arbitrary: m)
  case (Cons kv kvs)
  obtain k v where kv: "kv = (k, v)" by fastforce
  show ?case
    using Cons.IH [of "ins k v m"] Cons.prems by (auto simp: kv wf_ins find_ins fun_eq_iff map_add_def split: option.splits)
qed simp

end

lemma fst_set_map_insert: "fst ` set (map_insert k v m) = insert k (fst ` set m)"
  by (induction k v m rule: map_insert.induct) auto

lemma fst_set_map_assign: "fst ` set (map_assign k v m) = insert k (fst ` set m)"
  by (induction k v m rule: map_assign.induct) auto

lemma map_wf_Cons [simp]: "map_wf ((k, v) # m) \<longleftrightarrow> (\<forall>k' \<in> fst ` set m. k < k') \<and> map_wf m"
  by (auto simp: map_wf_def)

lemma map_wf_Nil [simp]: "map_wf []"
  by (simp add: map_wf_def)

lemma map_wf_insert: "map_wf m \<Longrightarrow> map_wf (map_insert k v m)"
  by (induction k v m rule: map_insert.induct) (auto simp: fst_set_map_insert)

lemma map_wf_assign: "map_wf m \<Longrightarrow> map_wf (map_assign k v m)"
  by (induction k v m rule: map_assign.induct) (auto simp: fst_set_map_assign)

lemma map_of_less: "map_wf ((k', v') # m) \<Longrightarrow> k < k' \<Longrightarrow> map_of m k = None"
  by (fastforce simp: map_of_eq_None_iff)

lemma map_of_map_insert:
  "map_wf m \<Longrightarrow> map_of (map_insert k v m) = (if map_of m k = None then (map_of m)(k \<mapsto> v) else map_of m)"
proof (induction k v m rule: map_insert.induct)
  case (2 k v k' v' m)
  then show ?case using map_of_less [of k' v' m k] by (auto simp: fun_eq_iff)
qed auto

lemma map_of_map_assign: "map_wf m \<Longrightarrow> map_of (map_assign k v m) = (map_of m)(k \<mapsto> v)"
  by (induction k v m rule: map_assign.induct) (auto simp: fun_eq_iff)

interpretation om: ordered_map map_wf map_of "\<lambda>m. m" map_insert map_assign
proof unfold_locales
  show "distinct (map fst m)" if "map_wf m" for m :: "('a \<times> 'b) list"
    using that by (simp add: map_wf_def strict_sorted_iff)
qed (auto simp: map_wf_insert map_wf_assign map_of_map_insert map_of_map_assign)

lemma set_set_insert [simp]: "set (set_insert x xs) = insert x (set xs)"
  by (induction x xs rule: set_insert.induct) auto

lemma sorted_set_insert: "sorted_wrt (<) xs \<Longrightarrow> sorted_wrt (<) (set_insert x xs)"
  by (induction x xs rule: set_insert.induct) auto

text \<open>A sorted list is determined by its elements.\<close>

lemma sorted_unique: "sorted_wrt (<) xs \<Longrightarrow> sorted_wrt (<) ys \<Longrightarrow> set xs = set ys \<Longrightarrow> xs = (ys :: 'a::linorder list)"
  by (metis sorted_wrt_mono_rel less_imp_le sorted_distinct_set_unique strict_sorted_iff)

lemma map_of_keys: "distinct (map fst m) \<Longrightarrow> map (\<lambda>k. (k, the (map_of m k))) (map fst m) = m"
  by (auto intro!: map_idI simp: comp_def)

lemma map_wf_unique: "map_wf m \<Longrightarrow> map_wf m' \<Longrightarrow> map_of m = map_of m' \<Longrightarrow> m = m'"
proof -
  assume wf: "map_wf m" "map_wf m'" and eq: "map_of m = map_of m'"
  have d: "distinct (map fst m)" "distinct (map fst m')" using om.distinct_entries wf by auto
  then have set: "set m = set m'" using map_of_inject_set [OF d] eq by simp
  have "map fst m = map fst m'"
    using wf set by (intro sorted_unique) (auto simp: map_wf_def)
  then show ?thesis using map_of_keys [OF d(1)] map_of_keys [OF d(2)] eq by simp
qed

end
