(* ===== verification/Parson_Chars.thy ===== *)
theory Parson_Chars
  imports Prelude
begin

text \<open>
  The character level of \<^verbatim>\<open>common/json/parson.c\<close>: duplication of strings, hexadecimal
  digits, UTF-8 sequences (\<open>is_valid_utf8\<close> and its helpers), the decoding of \<open>\u\<close> escapes
  (\<open>parse_utf16\<close>), the syntactic filter on numbers (\<open>is_decimal\<close>) and the comment eraser
  (\<open>remove_comments\<close>). \<open>unsigned int\<close> values stay below \<open>2\<^sup>2\<^sup>1\<close> here, so they are naturals.

  The lemmas show that \<open>is_valid_utf8\<close> accepts exactly the UTF-8 encodings of sequences of
  Unicode scalar values, that \<open>parse_utf16\<close> produces such encodings, and that
  \<open>remove_comments\<close> writes only blanks and never changes a length.
\<close>

section \<open>Definitions\<close>

text \<open>\<open>parson_strndup\<close>: \<open>strncpy\<close> stops at a NUL and pads, so the C string in the new
  block is the part of the first \<open>n\<close> characters before a NUL.\<close>

definition parson_strndup :: "string \<Rightarrow> nat \<Rightarrow> heap \<Rightarrow> string option \<times> heap" where
  "parson_strndup s n h = (case malloc h of
       (False, h1) \<Rightarrow> (None, h1)
     | (True, h1) \<Rightarrow> (Some (cstr (take n s)), h1))"

definition parson_strdup :: "string \<Rightarrow> heap \<Rightarrow> string option \<times> heap" where
  "parson_strdup s h = parson_strndup s (strlen s) h"

definition hex_char_to_int :: "char \<Rightarrow> int" where
  "hex_char_to_int c =
     (if byte CHR ''0'' \<le> byte c \<and> byte c \<le> byte CHR ''9'' then int (byte c) - int (byte CHR ''0'')
      else if byte CHR ''a'' \<le> byte c \<and> byte c \<le> byte CHR ''f'' then int (byte c) - int (byte CHR ''a'') + 10
      else if byte CHR ''A'' \<le> byte c \<and> byte c \<le> byte CHR ''F'' then int (byte c) - int (byte CHR ''A'') + 10
      else -1)"

definition parse_utf16_hex :: "string \<Rightarrow> nat option" where
  "parse_utf16_hex s =
     (if nthc s 0 = NUL \<or> nthc s 1 = NUL \<or> nthc s 2 = NUL \<or> nthc s 3 = NUL then None
      else let x1 = hex_char_to_int (nthc s 0); x2 = hex_char_to_int (nthc s 1);
               x3 = hex_char_to_int (nthc s 2); x4 = hex_char_to_int (nthc s 3)
           in if x1 = -1 \<or> x2 = -1 \<or> x3 = -1 \<or> x4 = -1 then None
              else Some (push_bit 12 (nat x1) OR push_bit 8 (nat x2) OR push_bit 4 (nat x3) OR nat x4))"

definition IS_CONT :: "char \<Rightarrow> bool" where
  "IS_CONT b = (byte b AND 0xC0 = 0x80)"

definition num_bytes_in_utf8_sequence :: "char \<Rightarrow> nat" where
  "num_bytes_in_utf8_sequence c =
     (if byte c = 0xC0 \<or> byte c = 0xC1 \<or> byte c > 0xF4 \<or> IS_CONT c then 0
      else if byte c AND 0x80 = 0 then 1
      else if byte c AND 0xE0 = 0xC0 then 2
      else if byte c AND 0xF0 = 0xE0 then 3
      else if byte c AND 0xF8 = 0xF0 then 4
      else 0)"

text \<open>The code point the bytes of a sequence of length \<open>len\<close> hold, if its tail bytes are
  continuation bytes.\<close>

definition utf8_code_point :: "string \<Rightarrow> nat \<Rightarrow> nat option" where
  "utf8_code_point s len =
     (if len = 1 then Some (byte (nthc s 0))
      else if len = 2 \<and> IS_CONT (nthc s 1)
        then Some (push_bit 6 (byte (nthc s 0) AND 0x1F) OR (byte (nthc s 1) AND 0x3F))
      else if len = 3 \<and> IS_CONT (nthc s 1) \<and> IS_CONT (nthc s 2)
        then Some (push_bit 6 (push_bit 6 (byte (nthc s 0) AND 0xF) OR (byte (nthc s 1) AND 0x3F))
                   OR (byte (nthc s 2) AND 0x3F))
      else if len = 4 \<and> IS_CONT (nthc s 1) \<and> IS_CONT (nthc s 2) \<and> IS_CONT (nthc s 3)
        then Some (push_bit 6 (push_bit 6 (push_bit 6 (byte (nthc s 0) AND 0x7) OR (byte (nthc s 1) AND 0x3F))
                   OR (byte (nthc s 2) AND 0x3F)) OR (byte (nthc s 3) AND 0x3F))
      else None)"

text \<open>\<open>verify_utf8_sequence\<close> returns its verdict and, through the pointer, the length.\<close>

definition verify_utf8_sequence :: "string \<Rightarrow> bool \<times> nat" where
  "verify_utf8_sequence s =
     (let len = num_bytes_in_utf8_sequence (nthc s 0) in
      case utf8_code_point s len of
        None \<Rightarrow> (False, len)
      | Some cp \<Rightarrow>
          if (cp < 0x80 \<and> len > 1) \<or> (cp < 0x800 \<and> len > 2) \<or> (cp < 0x10000 \<and> len > 3) then (False, len)
          else if cp > 0x10FFFF then (False, len)
          else if cp \<ge> 0xD800 \<and> cp \<le> 0xDFFF then (False, len)
          else (True, len))"

lemma verify_utf8_sequence_len:
  assumes "verify_utf8_sequence s = (True, len)"
  shows "0 < len" and "len \<le> 4"
  using assms
  by (auto simp: verify_utf8_sequence_def utf8_code_point_def Let_def split: option.splits if_splits)

function is_valid_utf8 :: "string \<Rightarrow> nat \<Rightarrow> bool" where
  "is_valid_utf8 s n =
     (if n = 0 then True
      else case verify_utf8_sequence s of
             (False, _) \<Rightarrow> False
           | (True, len) \<Rightarrow> is_valid_utf8 (drop len s) (n - len))"
  by pat_completeness auto
termination
  by (relation "measure snd") (auto dest: verify_utf8_sequence_len(1) [OF sym])

declare is_valid_utf8.simps [simp del]

definition is_decimal :: "string \<Rightarrow> nat \<Rightarrow> bool" where
  "is_decimal s n =
     (if n > 1 \<and> nthc s 0 = CHR ''0'' \<and> nthc s 1 \<noteq> CHR ''.'' then False
      else if n > 2 \<and> strneq s ''-0'' 2 \<and> nthc s 2 \<noteq> CHR ''.'' then False
      else \<not> list_ex (\<lambda>i. nthc s i \<in> {CHR ''x'', CHR ''X'', NUL}) (rev [0..<n]))"

text \<open>\<open>parse_utf16\<close>: \<open>p\<close> starts at the \<open>u\<close> of an escape. The result is the bytes written
  and the number of characters by which \<open>*unprocessed\<close> moves (to the last hex digit).\<close>

definition parse_utf16 :: "string \<Rightarrow> (string \<times> nat) option" where
  "parse_utf16 p =
     (case parse_utf16_hex (drop 1 p) of
        None \<Rightarrow> None
      | Some cp \<Rightarrow>
          if cp < 0x80 then Some ([char_of cp], 4)
          else if cp < 0x800
            then Some ([char_of ((drop_bit 6 cp AND 0x1F) OR 0xC0), char_of ((cp AND 0x3F) OR 0x80)], 4)
          else if cp < 0xD800 \<or> cp > 0xDFFF
            then Some ([char_of ((drop_bit 12 cp AND 0x0F) OR 0xE0), char_of ((drop_bit 6 cp AND 0x3F) OR 0x80),
                        char_of ((cp AND 0x3F) OR 0x80)], 4)
          else if cp \<ge> 0xD800 \<and> cp \<le> 0xDBFF
            then if nthc p 5 \<noteq> CHR 0x5C \<or> nthc p 6 \<noteq> CHR ''u'' then None
                 else (case parse_utf16_hex (drop 7 p) of
                         None \<Rightarrow> None
                       | Some trail \<Rightarrow>
                           if trail < 0xDC00 \<or> trail > 0xDFFF then None
                           else let lead = cp;
                                    cp2 = (push_bit 10 ((lead - 0xD800) AND 0x3FF) OR ((trail - 0xDC00) AND 0x3FF)) + 0x10000
                                in Some ([char_of ((drop_bit 18 cp2 AND 0x07) OR 0xF0),
                                          char_of ((drop_bit 12 cp2 AND 0x3F) OR 0x80),
                                          char_of ((drop_bit 6 cp2 AND 0x3F) OR 0x80),
                                          char_of ((cp2 AND 0x3F) OR 0x80)], 10))
          else None)"

text \<open>\<open>remove_comments\<close> works in place; \<open>p\<close> is the buffer from the running pointer on and
  the result is what that part of the buffer holds at the end.\<close>

function remove_comments_loop :: "string \<Rightarrow> string \<Rightarrow> bool \<Rightarrow> bool \<Rightarrow> string \<Rightarrow> string" where
  "remove_comments_loop start_token end_token in_string escaped p =
     (case p of
        [] \<Rightarrow> []
      | c # cs \<Rightarrow>
          if c = NUL then p
          else if c = CHR 0x5C \<and> \<not> escaped
            then c # remove_comments_loop start_token end_token in_string True cs
          else if c = CHR 0x22 \<and> \<not> escaped
            then c # remove_comments_loop start_token end_token (\<not> in_string) False cs
          else if \<not> in_string \<and> strneq p start_token (strlen start_token) \<and> 0 < strlen start_token
            then let q = drop (strlen start_token) p in
                 replicate (strlen start_token) CHR '' '' @
                 (case strstr q end_token of
                    None \<Rightarrow> q
                  | Some k \<Rightarrow> replicate (k + strlen end_token) CHR '' '' @
                      remove_comments_loop start_token end_token in_string False (drop (k + strlen end_token) q))
          else c # remove_comments_loop start_token end_token in_string False cs)"
  by pat_completeness auto
termination
  by (relation "measure (\<lambda>(st, et, i, e, p). length p)") auto

declare remove_comments_loop.simps [simp del]

definition remove_comments :: "string \<Rightarrow> string \<Rightarrow> string \<Rightarrow> string" where
  "remove_comments s start_token end_token =
     (if strlen start_token = 0 \<or> strlen end_token = 0 then s
      else remove_comments_loop start_token end_token False False s)"

section \<open>UTF-8\<close>

text \<open>The reference: Unicode scalar values and their UTF-8 encoding.\<close>

definition scalar :: "nat \<Rightarrow> bool" where
  "scalar cp = (cp < 0x110000 \<and> \<not> (0xD800 \<le> cp \<and> cp \<le> 0xDFFF))"

definition utf8_encode :: "nat \<Rightarrow> string" where
  "utf8_encode cp =
     (if cp < 0x80 then [char_of cp]
      else if cp < 0x800 then [char_of (0xC0 + cp div 64), char_of (0x80 + cp mod 64)]
      else if cp < 0x10000
        then [char_of (0xE0 + cp div 4096), char_of (0x80 + cp div 64 mod 64), char_of (0x80 + cp mod 64)]
      else [char_of (0xF0 + cp div 262144), char_of (0x80 + cp div 4096 mod 64),
            char_of (0x80 + cp div 64 mod 64), char_of (0x80 + cp mod 64)])"

lemma utf8_masks:
  "(byte c AND 0xC0 = 0x80) = (128 \<le> byte c \<and> byte c < 192)"
  "(byte c AND 0x80 = 0) = (byte c < 128)"
  "(byte c AND 0xE0 = 0xC0) = (192 \<le> byte c \<and> byte c < 224)"
  "(byte c AND 0xF0 = 0xE0) = (224 \<le> byte c \<and> byte c < 240)"
  "(byte c AND 0xF8 = 0xF0) = (240 \<le> byte c \<and> byte c < 248)"
  using high_bits_eq_iff [of "byte c" 6 2 2] high_bits_eq_iff [of "byte c" 7 1 0]
    high_bits_eq_iff [of "byte c" 5 3 6] high_bits_eq_iff [of "byte c" 4 4 14]
    high_bits_eq_iff [of "byte c" 3 5 30]
  by (simp_all add: mask_eq_exp_minus_1)

lemma IS_CONT_iff: "IS_CONT c \<longleftrightarrow> 128 \<le> byte c \<and> byte c < 192"
  by (simp only: IS_CONT_def utf8_masks)

lemma not_IS_CONT_NUL [simp]: "\<not> IS_CONT NUL"
  by (simp add: IS_CONT_iff)

lemma IS_CONT_nthcD: "IS_CONT (nthc s i) \<Longrightarrow> i < length s"
  by (metis not_IS_CONT_NUL nthc_not_NUL)

lemma num_bytes_iff:
  "num_bytes_in_utf8_sequence c =
     (if byte c < 128 then 1 else if 194 \<le> byte c \<and> byte c < 224 then 2
      else if 224 \<le> byte c \<and> byte c < 240 then 3 else if 240 \<le> byte c \<and> byte c < 245 then 4 else 0)"
  unfolding num_bytes_in_utf8_sequence_def IS_CONT_iff utf8_masks
  by (simp split: if_split)

lemma utf8_code_point_arith:
  "utf8_code_point s len =
     (if len = 1 then Some (byte (nthc s 0))
      else if len = 2 \<and> IS_CONT (nthc s 1)
        then Some (byte (nthc s 0) mod 32 * 64 + byte (nthc s 1) mod 64)
      else if len = 3 \<and> IS_CONT (nthc s 1) \<and> IS_CONT (nthc s 2)
        then Some (byte (nthc s 0) mod 16 * 4096 + byte (nthc s 1) mod 64 * 64 + byte (nthc s 2) mod 64)
      else if len = 4 \<and> IS_CONT (nthc s 1) \<and> IS_CONT (nthc s 2) \<and> IS_CONT (nthc s 3)
        then Some (byte (nthc s 0) mod 8 * 262144 + byte (nthc s 1) mod 64 * 4096
                   + byte (nthc s 2) mod 64 * 64 + byte (nthc s 3) mod 64)
      else None)"
  by (simp add: utf8_code_point_def and_mask_mod push_bit_or_add)

text \<open>The bytes of an encoding, as naturals below 256.\<close>

lemma utf8_bytes2:
  assumes "0x80 \<le> cp" "cp < 0x800"
  obtains a b where "utf8_encode cp = [char_of (a::nat), char_of (b::nat)]"
    "194 \<le> a" "a < 224" "128 \<le> b" "b < 192" "a mod 32 * 64 + b mod 64 = cp"
proof -
  have "2 \<le> cp div 64" "cp div 64 < 32" using assms by simp_all
  then show thesis
    using assms base64_digits2 [of cp]
    by (intro that [of "0xC0 + cp div 64" "0x80 + cp mod 64"]) (simp_all add: utf8_encode_def marker_mod)
qed

lemma utf8_bytes3:
  assumes "0x800 \<le> cp" "cp < 0x10000"
  obtains a b c where "utf8_encode cp = [char_of (a::nat), char_of (b::nat), char_of (c::nat)]"
    "224 \<le> a" "a < 240" "128 \<le> b" "b < 192" "128 \<le> c" "c < 192"
    "a mod 16 * 4096 + b mod 64 * 64 + c mod 64 = cp"
proof -
  have "cp div 4096 < 16" using assms by simp
  then show thesis
    using assms base64_digits3 [of cp]
    by (intro that [of "0xE0 + cp div 4096" "0x80 + cp div 64 mod 64" "0x80 + cp mod 64"])
      (simp_all add: utf8_encode_def marker_mod)
qed

lemma utf8_bytes4:
  assumes "0x10000 \<le> cp" "cp < 0x110000"
  obtains a b c d where "utf8_encode cp = [char_of (a::nat), char_of (b::nat), char_of (c::nat), char_of (d::nat)]"
    "240 \<le> a" "a < 245" "128 \<le> b" "b < 192" "128 \<le> c" "c < 192" "128 \<le> d" "d < 192"
    "a mod 8 * 262144 + b mod 64 * 4096 + c mod 64 * 64 + d mod 64 = cp"
proof -
  have "cp div 262144 < 5" using assms by simp
  then show thesis
    using assms base64_digits4 [of cp]
    by (intro that [of "0xF0 + cp div 262144" "0x80 + cp div 4096 mod 64" "0x80 + cp div 64 mod 64"
          "0x80 + cp mod 64"]) (simp_all add: utf8_encode_def marker_mod)
qed

lemma verify_utf8_sequenceI:
  assumes "num_bytes_in_utf8_sequence (nthc s 0) = len" and "utf8_code_point s len = Some cp"
    and "scalar cp" and "1 < len \<longrightarrow> 0x80 \<le> cp" and "2 < len \<longrightarrow> 0x800 \<le> cp" and "3 < len \<longrightarrow> 0x10000 \<le> cp"
  shows "verify_utf8_sequence s = (True, len)"
  using assms by (auto simp: verify_utf8_sequence_def Let_def scalar_def)

lemma verify_utf8_encode:
  assumes "scalar cp"
  shows "verify_utf8_sequence (utf8_encode cp @ r) = (True, length (utf8_encode cp))"
proof -
  consider "cp < 0x80" | "0x80 \<le> cp" "cp < 0x800" | "0x800 \<le> cp" "cp < 0x10000"
    | "0x10000 \<le> cp" "cp < 0x110000"
    using assms by (force simp: scalar_def)
  then show ?thesis
  proof cases
    case 1
    then have "utf8_encode cp = [char_of cp]" "byte (char_of cp) = cp"
      by (simp_all add: utf8_encode_def)
    with 1 assms show ?thesis
      by (intro verify_utf8_sequenceI [of _ _ cp]) (simp_all add: num_bytes_iff utf8_code_point_arith)
  next
    case 2
    then obtain a b where e: "utf8_encode cp = [char_of (a::nat), char_of (b::nat)]"
      and r: "194 \<le> a" "a < 224" "128 \<le> b" "b < 192" and cp: "a mod 32 * 64 + b mod 64 = cp"
      by (rule utf8_bytes2)
    show ?thesis unfolding e using r cp 2 assms
      by (intro verify_utf8_sequenceI [of _ _ cp])
        (simp_all add: num_bytes_iff utf8_code_point_arith IS_CONT_iff)
  next
    case 3
    then obtain a b c where e: "utf8_encode cp = [char_of (a::nat), char_of (b::nat), char_of (c::nat)]"
      and r: "224 \<le> a" "a < 240" "128 \<le> b" "b < 192" "128 \<le> c" "c < 192"
      and cp: "a mod 16 * 4096 + b mod 64 * 64 + c mod 64 = cp"
      by (rule utf8_bytes3)
    show ?thesis unfolding e using r cp 3 assms
      by (intro verify_utf8_sequenceI [of _ _ cp])
        (simp_all add: num_bytes_iff utf8_code_point_arith IS_CONT_iff)
  next
    case 4
    then obtain a b c d where e: "utf8_encode cp = [char_of (a::nat), char_of (b::nat), char_of (c::nat), char_of (d::nat)]"
      and r: "240 \<le> a" "a < 245" "128 \<le> b" "b < 192" "128 \<le> c" "c < 192" "128 \<le> d" "d < 192"
      and cp: "a mod 8 * 262144 + b mod 64 * 4096 + c mod 64 * 64 + d mod 64 = cp"
      by (rule utf8_bytes4)
    show ?thesis unfolding e using r cp 4 assms
      by (intro verify_utf8_sequenceI [of _ _ cp])
        (simp_all add: num_bytes_iff utf8_code_point_arith IS_CONT_iff)
  qed
qed

lemma utf8_encode_not_Nil [simp]: "utf8_encode cp \<noteq> []"
  by (simp add: utf8_encode_def)

text \<open>Decoding one verified sequence, by its length.\<close>

lemma code_point_decode1:
  assumes "byte c0 < 128" and "utf8_code_point (c0 # s) 1 = Some cp"
  shows "utf8_encode cp = take 1 (c0 # s)"
proof -
  have cp: "cp = byte c0" using assms(2) by (simp add: utf8_code_point_arith)
  then show ?thesis using assms(1) by (simp add: utf8_encode_def)
qed

lemma code_point_decode2:
  assumes "194 \<le> byte c0" "byte c0 < 224" and "utf8_code_point (c0 # s) 2 = Some cp"
  shows "utf8_encode cp = take 2 (c0 # s)"
proof -
  have "IS_CONT (nthc s 0)" using assms(3) by (simp add: utf8_code_point_arith split: if_splits)
  then obtain c1 s2 where s: "s = c1 # s2" and c1: "128 \<le> byte c1" "byte c1 < 192"
    by (cases s) (auto simp: IS_CONT_iff)
  obtain a b where ab: "byte c0 = 0xC0 + a" "byte c1 = 0x80 + b"
    using assms(1) c1(1) by (metis nat_le_iff_add le_trans numeral_le_iff semiring_norm(68-79))
  then have r: "2 \<le> a" "a < 32" "b < 64" using assms(1,2) c1 by simp_all
  have cp: "cp = a * 64 + b"
    using assms(3) ab r by (simp add: s utf8_code_point_arith IS_CONT_iff marker_mod)
  have ge: "0x80 \<le> cp" and lt: "cp < 0x800" using r unfolding cp by linarith+
  have "utf8_encode cp = [char_of (0xC0 + a), char_of (0x80 + b)]"
    using ge lt base64_undigits(1,2) [of b 0 0 a] r by (simp add: utf8_encode_def cp)
  also have "\<dots> = [c0, c1]" unfolding ab [symmetric] by simp
  finally show ?thesis by (simp add: s)
qed

lemma code_point_decode3:
  assumes "224 \<le> byte c0" "byte c0 < 240" and "utf8_code_point (c0 # s) 3 = Some cp" and "0x800 \<le> cp"
  shows "utf8_encode cp = take 3 (c0 # s)"
proof -
  have "IS_CONT (nthc s 0)" "IS_CONT (nthc s 1)"
    using assms(3) by (auto simp: utf8_code_point_arith split: if_splits)
  then obtain c1 c2 s3 where s: "s = c1 # c2 # s3"
    and c: "128 \<le> byte c1" "byte c1 < 192" "128 \<le> byte c2" "byte c2 < 192"
    by (cases s; cases "tl s") (auto simp: IS_CONT_iff)
  obtain a b d where ab: "byte c0 = 0xE0 + a" "byte c1 = 0x80 + b" "byte c2 = 0x80 + d"
    using assms(1) c by (metis nat_le_iff_add)
  then have r: "a < 16" "b < 64" "d < 64" using assms(2) c by simp_all
  have cp: "cp = a * 4096 + b * 64 + d"
    using assms(3) ab r by (simp add: s utf8_code_point_arith IS_CONT_iff marker_mod)
  have lt: "cp < 0x10000" using r unfolding cp by linarith
  have "utf8_encode cp = [char_of (0xE0 + a), char_of (0x80 + b), char_of (0x80 + d)]"
    using assms(4) lt base64_undigits(3-5) [of b d 0 a] r by (simp add: utf8_encode_def cp)
  also have "\<dots> = [c0, c1, c2]" unfolding ab [symmetric] by simp
  finally show ?thesis by (simp add: s)
qed

lemma code_point_decode4:
  assumes "240 \<le> byte c0" "byte c0 < 245" and "utf8_code_point (c0 # s) 4 = Some cp" and "0x10000 \<le> cp"
  shows "utf8_encode cp = take 4 (c0 # s)"
proof -
  have "IS_CONT (nthc s 0)" "IS_CONT (nthc s 1)" "IS_CONT (nthc s 2)"
    using assms(3) by (auto simp: utf8_code_point_arith split: if_splits)
  then obtain c1 c2 c3 s4 where s: "s = c1 # c2 # c3 # s4"
    and c: "128 \<le> byte c1" "byte c1 < 192" "128 \<le> byte c2" "byte c2 < 192" "128 \<le> byte c3" "byte c3 < 192"
    by (cases s; cases "tl s"; cases "tl (tl s)") (auto simp: IS_CONT_iff)
  obtain a b d e where ab: "byte c0 = 0xF0 + a" "byte c1 = 0x80 + b" "byte c2 = 0x80 + d" "byte c3 = 0x80 + e"
    using assms(1) c by (metis nat_le_iff_add)
  then have r: "a < 8" "b < 64" "d < 64" "e < 64" using assms(2) c by simp_all
  have cp: "cp = a * 262144 + b * 4096 + d * 64 + e"
    using assms(3) ab r by (simp add: s utf8_code_point_arith IS_CONT_iff marker_mod)
  have "utf8_encode cp = [char_of (0xF0 + a), char_of (0x80 + b), char_of (0x80 + d), char_of (0x80 + e)]"
    using assms(4) base64_undigits(6-9) [of b d e a] r by (simp add: utf8_encode_def cp)
  also have "\<dots> = [c0, c1, c2, c3]" unfolding ab [symmetric] by simp
  finally show ?thesis by (simp add: s)
qed

lemma verify_utf8_decode:
  assumes "verify_utf8_sequence s = (True, len)" and "s \<noteq> []"
  obtains cp where "scalar cp" "utf8_encode cp = take len s" "len \<le> length s"
proof -
  obtain c0 s1 where s: "s = c0 # s1" using assms(2) by (cases s) auto
  from assms(1) obtain cp where nb: "num_bytes_in_utf8_sequence c0 = len"
    and cp: "utf8_code_point s len = Some cp" and sc: "scalar cp"
    and ge: "2 < len \<longrightarrow> 0x800 \<le> cp" "3 < len \<longrightarrow> 0x10000 \<le> cp"
    by (auto simp: verify_utf8_sequence_def Let_def scalar_def s not_less split: option.splits if_splits)
  have "utf8_encode cp = take len s"
    using nb cp ge verify_utf8_sequence_len(1) [OF assms(1)]
      code_point_decode1 [of c0 s1 cp] code_point_decode2 [of c0 s1 cp]
      code_point_decode3 [of c0 s1 cp] code_point_decode4 [of c0 s1 cp]
    unfolding s num_bytes_iff by (auto split: if_splits)
  moreover have "len \<le> length s"
    using cp by (auto simp: s utf8_code_point_arith Suc_le_eq dest: IS_CONT_nthcD split: if_splits)
  ultimately show thesis using that sc by blast
qed

lemma is_valid_utf8_encode:
  "(\<forall>cp \<in> set cps. scalar cp) \<Longrightarrow>
     is_valid_utf8 (concat (map utf8_encode cps)) (length (concat (map utf8_encode cps)))"
proof (induction cps)
  case Nil
  then show ?case by (simp add: is_valid_utf8.simps)
next
  case (Cons cp cps)
  then have v: "verify_utf8_sequence (utf8_encode cp @ concat (map utf8_encode cps)) = (True, length (utf8_encode cp))"
    by (simp add: verify_utf8_encode)
  from Cons v show ?case
    by (subst is_valid_utf8.simps) simp
qed

lemma is_valid_utf8_decode:
  "is_valid_utf8 s n \<Longrightarrow> n \<le> length s \<Longrightarrow>
     \<exists>cps. (\<forall>cp \<in> set cps. scalar cp) \<and> (\<exists>k \<ge> n. concat (map utf8_encode cps) = take k s \<and> k \<le> length s)"
proof (induction s n rule: is_valid_utf8.induct)
  case (1 s n)
  show ?case
  proof (cases "n = 0")
    case True
    then show ?thesis by (intro exI [of _ "[]"]) auto
  next
    case False
    then have ne: "s \<noteq> []" using "1.prems"(2) by auto
    from False "1.prems"(1) obtain len where v: "verify_utf8_sequence s = (True, len)"
      and rest: "is_valid_utf8 (drop len s) (n - len)"
      by (auto simp: is_valid_utf8.simps [of s n] split: prod.splits bool.splits)
    from verify_utf8_decode [OF v ne] obtain cp where cp: "scalar cp" "utf8_encode cp = take len s" "len \<le> length s"
      by blast
    have "n - len \<le> length (drop len s)" using "1.prems"(2) by simp
    from "1.IH" [OF False v [symmetric] refl rest this] obtain cps k
      where cps: "\<forall>cp \<in> set cps. scalar cp" "k \<ge> n - len" "concat (map utf8_encode cps) = take k (drop len s)"
        "k \<le> length (drop len s)"
      by blast
    have "concat (map utf8_encode (cp # cps)) = take (len + k) s"
      using cp cps by (simp add: take_add)
    with cp cps show ?thesis
      by (intro exI [of _ "cp # cps"]) (auto intro!: exI [of _ "len + k"])
  qed
qed

lemma ascii_valid_utf8:
  assumes "list_all (\<lambda>c. byte c < 128) s"
  shows "is_valid_utf8 s (length s)"
proof -
  have "concat (map utf8_encode (map of_char s)) = s"
    using assms by (induction s) (auto simp: utf8_encode_def)
  moreover have "\<forall>cp \<in> set (map of_char s). scalar cp"
    using assms by (fastforce simp: list_all_iff scalar_def)
  ultimately show ?thesis
    using is_valid_utf8_encode [of "map of_char s"] by simp
qed

section \<open>Escapes\<close>

lemma hex_char_to_int_bound: "hex_char_to_int c \<noteq> -1 \<Longrightarrow> 0 \<le> hex_char_to_int c \<and> hex_char_to_int c < 16"
  by (auto simp: hex_char_to_int_def split: if_splits)

text \<open>Four hexadecimal digits, as arithmetic.\<close>

lemma parse_utf16_hex_arith:
  assumes "parse_utf16_hex s = Some cp"
  shows "cp = nat (hex_char_to_int (nthc s 0)) * 4096 + nat (hex_char_to_int (nthc s 1)) * 256
            + nat (hex_char_to_int (nthc s 2)) * 16 + nat (hex_char_to_int (nthc s 3))"
    and "cp < 0x10000" and "4 \<le> length s"
proof -
  define x y z w where x: "x = nat (hex_char_to_int (nthc s 0))" and y: "y = nat (hex_char_to_int (nthc s 1))"
    and z: "z = nat (hex_char_to_int (nthc s 2))" and w: "w = nat (hex_char_to_int (nthc s 3))"
  have ne: "nthc s 3 \<noteq> NUL" and cp: "cp = push_bit 12 x OR push_bit 8 y OR push_bit 4 z OR w"
    and hex: "hex_char_to_int (nthc s 0) \<noteq> -1" "hex_char_to_int (nthc s 1) \<noteq> -1"
      "hex_char_to_int (nthc s 2) \<noteq> -1" "hex_char_to_int (nthc s 3) \<noteq> -1"
    using assms by (auto simp: parse_utf16_hex_def Let_def x y z w split: if_splits)
  have b: "x < 16" "y < 16" "z < 16" "w < 16"
    using hex_char_to_int_bound [OF hex(1)] hex_char_to_int_bound [OF hex(2)]
      hex_char_to_int_bound [OF hex(3)] hex_char_to_int_bound [OF hex(4)] by (auto simp: x y z w)
  have "push_bit 4 z OR w = z * 16 + w" using b push_bit_or_add [of w 4 z] by simp
  moreover have "push_bit 8 y OR (z * 16 + w) = y * 256 + (z * 16 + w)"
    using b push_bit_or_add [of "z * 16 + w" 8 y] by simp
  moreover have "push_bit 12 x OR (y * 256 + (z * 16 + w)) = x * 4096 + (y * 256 + (z * 16 + w))"
    using b push_bit_or_add [of "y * 256 + (z * 16 + w)" 12 x] by simp
  ultimately have val: "cp = x * 4096 + y * 256 + z * 16 + w"
    unfolding cp by (simp add: or.assoc)
  show "cp = nat (hex_char_to_int (nthc s 0)) * 4096 + nat (hex_char_to_int (nthc s 1)) * 256
            + nat (hex_char_to_int (nthc s 2)) * 16 + nat (hex_char_to_int (nthc s 3))"
    using val by (simp add: x y z w)
  show "cp < 0x10000" using val b by linarith
  show "4 \<le> length s" using nthc_not_NUL [OF ne] by simp
qed

text \<open>The code point a \<open>\u\<close> escape denotes: a single unit, or a surrogate pair.\<close>

definition escape_code_point :: "string \<Rightarrow> nat option" where
  "escape_code_point p =
     (case parse_utf16_hex (drop 1 p) of
        None \<Rightarrow> None
      | Some u \<Rightarrow>
          if u < 0xD800 \<or> 0xDFFF < u then Some u
          else if u \<le> 0xDBFF \<and> nthc p 5 = CHR 0x5C \<and> nthc p 6 = CHR ''u''
            then (case parse_utf16_hex (drop 7 p) of
                    Some t \<Rightarrow> if 0xDC00 \<le> t \<and> t \<le> 0xDFFF
                              then Some (0x10000 + (u - 0xD800) * 1024 + (t - 0xDC00)) else None
                  | None \<Rightarrow> None)
          else None)"

lemma surrogate_pair_arith:
  assumes "0xD800 \<le> u" "u \<le> 0xDBFF" "0xDC00 \<le> t" "t \<le> 0xDFFF"
  shows "(push_bit 10 ((u - 0xD800) AND 0x3FF) OR ((t - 0xDC00) AND 0x3FF)) + 0x10000
       = 0x10000 + (u - 0xD800) * 1024 + (t - (0xDC00::nat))"
proof -
  have "u - 0xD800 < 1024" "t - 0xDC00 < 1024" using assms by simp_all
  then show ?thesis
    by (simp add: and_mask_mod push_bit_or_add)
qed

lemma utf8_encode_bits4:
  assumes "0x10000 \<le> v" "v < 0x110000"
  shows "utf8_encode v = [char_of ((drop_bit 18 v AND 0x07) OR 0xF0), char_of ((drop_bit 12 v AND 0x3F) OR 0x80),
      char_of ((drop_bit 6 v AND 0x3F) OR 0x80), char_of ((v AND 0x3F) OR 0x80)]"
proof -
  have "v div 262144 < 8" using assms by simp
  then show ?thesis using assms
    by (simp add: utf8_encode_def drop_bit_eq_div and_mask_mod or_marker_add add.commute)
qed

lemma utf8_encode_bits3:
  assumes "0x800 \<le> v" "v < 0x10000"
  shows "utf8_encode v = [char_of ((drop_bit 12 v AND 0x0F) OR 0xE0), char_of ((drop_bit 6 v AND 0x3F) OR 0x80),
      char_of ((v AND 0x3F) OR 0x80)]"
proof -
  have "v div 4096 < 16" using assms by simp
  then show ?thesis using assms
    by (simp add: utf8_encode_def drop_bit_eq_div and_mask_mod or_marker_add add.commute)
qed

lemma utf8_encode_bits2:
  assumes "0x80 \<le> v" "v < 0x800"
  shows "utf8_encode v = [char_of ((drop_bit 6 v AND 0x1F) OR 0xC0), char_of ((v AND 0x3F) OR 0x80)]"
proof -
  have "v div 64 < 32" using assms by simp
  then show ?thesis using assms
    by (simp add: utf8_encode_def drop_bit_eq_div and_mask_mod or_marker_add add.commute)
qed

lemma parse_utf16_iff:
  "parse_utf16 p = map_option (\<lambda>cp. (utf8_encode cp, if cp < 0x10000 then 4 else 10)) (escape_code_point p)"
proof (cases "parse_utf16_hex (drop 1 p)")
  case None
  then show ?thesis unfolding parse_utf16_def escape_code_point_def by simp
next
  case (Some u)
  have u: "u < 0x10000" using parse_utf16_hex_arith(2) [OF Some] .
  consider "u < 0x80" | "0x80 \<le> u" "u < 0x800" | "0x800 \<le> u" "u < 0xD800 \<or> 0xDFFF < u"
    | "0xD800 \<le> u" "u \<le> 0xDBFF" | "0xDC00 \<le> u" "u \<le> 0xDFFF"
    by linarith
  then show ?thesis
  proof cases
    case 1
    then show ?thesis unfolding parse_utf16_def escape_code_point_def Some by (simp add: utf8_encode_def)
  next
    case 2
    then show ?thesis
      unfolding parse_utf16_def escape_code_point_def Some by (simp add: utf8_encode_bits2)
  next
    case 3
    then show ?thesis using u
      unfolding parse_utf16_def escape_code_point_def Some by (auto simp: utf8_encode_bits3)
  next
    case 4
    show ?thesis
    proof (cases "parse_utf16_hex (drop 7 p)")
      case None
      then show ?thesis using 4 unfolding parse_utf16_def escape_code_point_def Some by simp
    next
      case t: (Some t)
      show ?thesis
      proof (cases "0xDC00 \<le> t \<and> t \<le> 0xDFFF")
        case True
        define v where "v = 0x10000 + (u - 0xD800) * 1024 + (t - 0xDC00)"
        have v: "0x10000 \<le> v" "v < 0x110000" unfolding v_def using 4 True by linarith+
        have e: "(push_bit 10 ((u - 0xD800) AND 0x3FF) OR ((t - 0xDC00) AND 0x3FF)) + 0x10000 = v"
          unfolding v_def using surrogate_pair_arith [of u t] 4 True by blast
        show ?thesis using 4 True v
          unfolding parse_utf16_def escape_code_point_def Some t option.case Let_def e v_def [symmetric]
          by (simp add: utf8_encode_bits4)
      next
        case False
        then show ?thesis using 4 unfolding parse_utf16_def escape_code_point_def Some t by auto
      qed
    qed
  next
    case 5
    then show ?thesis unfolding parse_utf16_def escape_code_point_def Some by simp
  qed
qed

text \<open>What an escape denotes is always a scalar value, and it lies inside the text.\<close>

lemma escape_code_point_scalar:
  assumes "escape_code_point p = Some cp"
  shows "scalar cp" and "(if cp < 0x10000 then 5 else 11) \<le> length p"
proof -
  from assms obtain u where u: "parse_utf16_hex (drop 1 p) = Some u"
    by (cases "parse_utf16_hex (drop 1 p)") (simp_all add: escape_code_point_def)
  note h = parse_utf16_hex_arith(2,3) [OF u]
  have "scalar cp \<and> (if cp < 0x10000 then 5 else 11) \<le> length p"
  proof (cases "u < 0xD800 \<or> 0xDFFF < u")
    case True
    then show ?thesis using assms h unfolding escape_code_point_def u by (auto simp: scalar_def)
  next
    case False
    then obtain t where t: "parse_utf16_hex (drop 7 p) = Some t" "0xDC00 \<le> t" "t \<le> 0xDFFF"
      and cp: "cp = 0x10000 + (u - 0xD800) * 1024 + (t - 0xDC00)" and "u \<le> 0xDBFF"
      using assms unfolding escape_code_point_def u by (auto split: option.splits if_splits)
    then have "cp < 0x110000" "0x10000 \<le> cp" using False by linarith+
    moreover have "11 \<le> length p" using parse_utf16_hex_arith(3) [OF t(1)] by simp
    ultimately show ?thesis by (auto simp: scalar_def)
  qed
  then show "scalar cp" and "(if cp < 0x10000 then 5 else 11) \<le> length p" by auto
qed

section \<open>Comments\<close>

text \<open>Every character of the result is the character that was there, or a blank.\<close>

abbreviation keep_or_blank :: "char \<Rightarrow> char \<Rightarrow> bool" where
  "keep_or_blank a b \<equiv> b = a \<or> b = CHR '' ''"

lemma keep_or_blank_refl: "list_all2 keep_or_blank p p"
  by (simp add: list_all2_refl)

lemma keep_or_blank_replicate:
  "k \<le> length p \<Longrightarrow> list_all2 keep_or_blank (drop k p) q \<Longrightarrow>
     list_all2 keep_or_blank p (replicate k CHR '' '' @ q)"
proof (induction k arbitrary: p)
  case (Suc k)
  then show ?case by (cases p) auto
qed simp

lemma remove_comments_loop_blanks:
  "list_all2 keep_or_blank p (remove_comments_loop start_token end_token in_string escaped p)"
proof (induction start_token end_token in_string escaped p rule: remove_comments_loop.induct)
  case (1 st et i e p)
  show ?case
  proof (cases p)
    case Nil
    then show ?thesis by (simp add: remove_comments_loop.simps)
  next
    case (Cons c cs)
    show ?thesis
    proof (cases "c = NUL \<or> c = CHR 0x5C \<and> \<not> e \<or> c = CHR 0x22 \<and> \<not> e
                  \<or> \<not> (\<not> i \<and> strneq p st (strlen st) \<and> 0 < strlen st)")
      case True
      then show ?thesis
        using 1 Cons by (subst remove_comments_loop.simps) (auto simp: list_all2_refl)
    next
      case False
      let ?q = "drop (strlen st) p"
      have len: "strlen st \<le> length p" using False strneq_length(1) by blast
      show ?thesis
      proof (cases "strstr ?q et")
        case None
        then show ?thesis
          using False Cons len keep_or_blank_replicate [OF len keep_or_blank_refl]
          by (subst remove_comments_loop.simps) (auto simp: Let_def)
      next
        case (Some k)
        have "list_all2 keep_or_blank (drop (k + strlen et) ?q)
            (remove_comments_loop st et i False (drop (k + strlen et) ?q))"
          using 1(3) [of c cs ?q k] False Cons Some by auto
        then have "list_all2 keep_or_blank ?q (replicate (k + strlen et) CHR '' '' @
            remove_comments_loop st et i False (drop (k + strlen et) ?q))"
          using strstr_bound [OF Some] by (intro keep_or_blank_replicate) simp_all
        then show ?thesis
          using False Cons Some len
          by (subst remove_comments_loop.simps) (auto simp: Let_def intro!: keep_or_blank_replicate)
      qed
    qed
  qed
qed

text \<open>The inside of a string literal: no NUL, no bare quote, every backslash followed by a
  character.\<close>

fun literal_body :: "string \<Rightarrow> bool" where
  "literal_body [] = True"
| "literal_body (c # cs) =
     (c \<noteq> NUL \<and> c \<noteq> CHR 0x22 \<and>
      (if c = CHR 0x5C then (case cs of [] \<Rightarrow> False | d # ds \<Rightarrow> d \<noteq> NUL \<and> literal_body ds)
       else literal_body cs))"

lemma remove_comments_loop_literal:
  "literal_body b \<Longrightarrow>
     remove_comments_loop st et True False (b @ CHR 0x22 # r)
     = b @ CHR 0x22 # remove_comments_loop st et False False r"
proof (induction b rule: literal_body.induct)
  case 1
  then show ?case by (subst remove_comments_loop.simps) simp
next
  case (2 c cs)
  show ?case
  proof (cases "c = CHR 0x5C")
    case True
    then obtain d ds where cs: "cs = d # ds" "d \<noteq> NUL" "literal_body ds"
      using 2 by (auto split: list.splits)
    then show ?thesis
      using True 2
      by (subst remove_comments_loop.simps) (simp, subst remove_comments_loop.simps, auto)
  next
    case False
    then show ?thesis
      using 2 by (subst remove_comments_loop.simps) auto
  qed
qed

section \<open>Properties\<close>

text \<open>C28. \<open>is_valid_utf8\<close> accepts exactly the UTF-8 encodings of sequences of Unicode scalar
  values: no overlong form, no surrogate half, nothing above U+10FFFF, no truncated
  sequence, and every well-formed string.\<close>

theorem is_valid_utf8_iff:
  "is_valid_utf8 s (length s) \<longleftrightarrow> (\<exists>cps. list_all scalar cps \<and> s = concat (map utf8_encode cps))"
  using is_valid_utf8_encode is_valid_utf8_decode [of s "length s"]
  by (fastforce simp: list_all_iff)


text \<open>\<open>remove_comments\<close> keeps the length of the text, replaces characters by blanks only,
  and leaves a string literal at the start of the text alone, whatever it contains.\<close>

theorem remove_comments_keeps_literals:
  "list_all2 keep_or_blank s (remove_comments s start_token end_token) \<and>
   (literal_body b \<longrightarrow>
      take (length b + 2) (remove_comments (CHR 0x22 # b @ CHR 0x22 # r) start_token end_token)
      = CHR 0x22 # b @ [CHR 0x22])"
proof -
  have "remove_comments_loop start_token end_token False False (CHR 0x22 # b @ CHR 0x22 # r)
      = CHR 0x22 # remove_comments_loop start_token end_token True False (b @ CHR 0x22 # r)"
    by (subst remove_comments_loop.simps) simp
  then show ?thesis
    using remove_comments_loop_blanks remove_comments_loop_literal [of b start_token end_token r]
    by (auto simp: remove_comments_def keep_or_blank_refl)
qed

theorem remove_comments_keeps_literals_witness:
  "literal_body ''a//b'' \<and>
   take 6 (remove_comments (CHR 0x22 # ''a//b'' @ CHR 0x22 # ''//x'') ''//'' [CHR 0x0A])
   = CHR 0x22 # ''a//b'' @ [CHR 0x22]"
  using remove_comments_keeps_literals [of "''a''" "''//''" "[CHR 0x0A]" "''a//b''" "''//x''"]
  by (simp add: eval_nat_numeral)

end
