(* ===== verification/Parson_Number.thy ===== *)
theory Parson_Number
  imports Parson_Chars Complex_Main
begin

text \<open>
  The numbers of \<^verbatim>\<open>common/json/parson.c\<close>: the IEEE binary64 values and the two functions of
  the C library through which the code reads and writes them, \<open>strtod\<close> and
  \<open>sprintf\<close> with \<open>FLOAT_FORMAT\<close> (\<open>%1.17g\<close>). A finite double is a sign, a mantissa below
  \<open>2\<^sup>5\<^sup>3\<close> and an exponent; both functions compute with exact ratios of naturals and round
  to nearest, ties to even. \<open>strtod\<close> reports \<open>ERANGE\<close> on overflow and on a subnormal inexact
  result, as the C library of the enclave's host does (the standard leaves the second case to
  the implementation).

  The lemmas show that printing a normal double and reading the text back gives the same
  double: 17 significant digits are enough.
\<close>

section \<open>Doubles\<close>

datatype double = Finite bool nat int | Infinite bool | NaN

fun canonical :: "double \<Rightarrow> bool" where
  "canonical (Finite s m e) = (m < 2 ^ 53 \<and> - 1074 \<le> e \<and> e \<le> 971 \<and> (2 ^ 52 \<le> m \<or> e = - 1074))"
| "canonical _ = True"

definition dzero :: double where
  "dzero = Finite False 0 (- 1074)"

text \<open>\<open>(number * 0.0) != 0.0\<close>: a finite number gives a zero of some sign, infinities and
  NaN give NaN, which differs from every number.\<close>

fun times_zero_nonzero :: "double \<Rightarrow> bool" where
  "times_zero_nonzero (Finite s m e) = False"
| "times_zero_nonzero (Infinite s) = True"
| "times_zero_nonzero NaN = True"

section \<open>Exact ratios\<close>

text \<open>\<open>ilog b n\<close> is the largest \<open>k\<close> with \<open>b\<^sup>k \<le> n\<close>, for \<open>b > 1\<close> and \<open>n > 0\<close>.\<close>

function ilog :: "nat \<Rightarrow> nat \<Rightarrow> nat" where
  "ilog b n = (if b \<le> 1 \<or> n < b then 0 else Suc (ilog b (n div b)))"
  by pat_completeness auto
termination
  by (relation "measure snd") auto

declare ilog.simps [simp del]

text \<open>Dividing the ratio \<open>n / d\<close> by \<open>b\<^sup>k\<close>, for an integer \<open>k\<close>.\<close>

definition scale :: "nat \<Rightarrow> int \<Rightarrow> nat \<Rightarrow> nat \<Rightarrow> nat \<times> nat" where
  "scale b k n d = (if 0 \<le> k then (n, d * b ^ nat k) else (n * b ^ nat (- k), d))"

text \<open>The largest integer \<open>k\<close> with \<open>b\<^sup>k \<le> n / d\<close>.\<close>

definition ratio_log :: "nat \<Rightarrow> nat \<Rightarrow> nat \<Rightarrow> int" where
  "ratio_log b n d =
     (let k = int (ilog b n) - int (ilog b d); (n', d') = scale b k n d
      in if d' \<le> n' then k else k - 1)"

definition round_half_even :: "nat \<Rightarrow> nat \<Rightarrow> nat" where
  "round_half_even n d =
     (let q = n div d; r = n mod d
      in if 2 * r < d then q else if d < 2 * r then q + 1 else if even q then q else q + 1)"

text \<open>The double nearest to \<open>n / d > 0\<close>, and whether \<open>errno\<close> becomes \<open>ERANGE\<close>.\<close>

definition round_to_double :: "bool \<Rightarrow> nat \<Rightarrow> nat \<Rightarrow> double \<times> bool" where
  "round_to_double neg n d =
     (if n = 0 then (Finite neg 0 (- 1074), False)
      else let e = max (ratio_log 2 n d - 52) (- 1074);
               (n', d') = scale 2 e n d;
               m = round_half_even n' d';
               (m1, e1) = (if m = 2 ^ 53 then (2 ^ 52, e + 1) else (m, e))
           in if 971 < e1 then (Infinite neg, True)
              else (Finite neg m1 e1, m1 < 2 ^ 52 \<and> n' mod d' \<noteq> 0))"

section \<open>Reading: strtod\<close>

definition digit_val :: "char \<Rightarrow> nat" where
  "digit_val c = byte c - 48"

definition dec_val :: "string \<Rightarrow> nat" where
  "dec_val ds = foldl (\<lambda>a c. 10 * a + digit_val c) 0 ds"

definition hex_val :: "string \<Rightarrow> nat" where
  "hex_val ds = foldl (\<lambda>a c. 16 * a + nat (hex_char_to_int c)) 0 ds"

definition ishex :: "char \<Rightarrow> bool" where
  "ishex c = (hex_char_to_int c \<noteq> -1)"

text \<open>An exponent part introduced by one of the characters \<open>marks\<close>: its value and the rest
  of the text; without a digit it is no exponent part.\<close>

definition scan_exponent :: "char list \<Rightarrow> string \<Rightarrow> int \<times> string" where
  "scan_exponent marks p =
     (if p \<noteq> [] \<and> cur p \<in> set marks then
        let q = tl p;
            neg = (q \<noteq> [] \<and> cur q = CHR ''-'');
            r = (if q \<noteq> [] \<and> cur q \<in> {CHR ''-'', CHR ''+''} then tl q else q);
            ds = takeWhile isdigit r
        in if ds = [] then (0, p)
           else ((if neg then - int (dec_val ds) else int (dec_val ds)), drop (length ds) r)
      else (0, p))"

text \<open>Digits with an optional radix character, in base ten or sixteen: the integer the digits
  denote, the number of fraction digits, and the rest; nothing when there is no digit.\<close>

definition scan_mantissa :: "(char \<Rightarrow> bool) \<Rightarrow> (string \<Rightarrow> nat) \<Rightarrow> string \<Rightarrow> (nat \<times> nat \<times> string) option" where
  "scan_mantissa isd val p =
     (let ip = takeWhile isd p; r = drop (length ip) p;
          fp = (if r \<noteq> [] \<and> cur r = CHR ''.'' then takeWhile isd (tl r) else []);
          r' = (if r \<noteq> [] \<and> cur r = CHR ''.'' \<and> (ip \<noteq> [] \<or> fp \<noteq> []) then drop (length fp) (tl r) else r)
      in if ip = [] \<and> fp = [] then None else Some (val (ip @ fp), length fp, r'))"

definition tolower_eq :: "char \<Rightarrow> char \<Rightarrow> bool" where
  "tolower_eq c l = (c = l \<or> byte c + 32 = byte l)"

definition prefix_nocase :: "string \<Rightarrow> string \<Rightarrow> bool" where
  "prefix_nocase w p = (length w \<le> length p \<and> list_all2 (\<lambda>c l. tolower_eq c l) (take (length w) p) w)"

text \<open>The optional parenthesised part of \<open>nan(...)\<close>.\<close>

definition skip_nan_payload :: "string \<Rightarrow> string" where
  "skip_nan_payload p =
     (if p \<noteq> [] \<and> cur p = CHR ''(''
      then let q = dropWhile (\<lambda>c. isdigit c \<or> c = CHR ''_'' \<or> (65 \<le> byte c \<and> byte c \<le> 90) \<or> (97 \<le> byte c \<and> byte c \<le> 122)) (tl p)
           in if q \<noteq> [] \<and> cur q = CHR '')'' then tl q else p
      else p)"

text \<open>\<open>strtod\<close> after blanks and sign: the value, \<open>ERANGE\<close>, and the rest of the text.\<close>

definition strtod_unsigned :: "bool \<Rightarrow> string \<Rightarrow> (double \<times> bool \<times> string) option" where
  "strtod_unsigned neg p =
     (case (if strneq p ''0x'' 2 \<or> strneq p ''0X'' 2 then scan_mantissa ishex hex_val (drop 2 p) else None) of
        Some (m, k, r) \<Rightarrow>
          (let (x, r') = scan_exponent ''pP'' r; (n, d) = scale 2 (4 * int k - x) m 1;
               (v, er) = round_to_double neg n d
           in Some (v, er, r'))
      | None \<Rightarrow>
          (case scan_mantissa isdigit dec_val p of
             Some (m, k, r) \<Rightarrow>
               (let (x, r') = scan_exponent ''eE'' r; (n, d) = scale 10 (int k - x) m 1;
                    (v, er) = round_to_double neg n d
                in Some (v, er, r'))
           | None \<Rightarrow>
               if prefix_nocase ''infinity'' p then Some (Infinite neg, False, drop 8 p)
               else if prefix_nocase ''inf'' p then Some (Infinite neg, False, drop 3 p)
               else if prefix_nocase ''nan'' p then Some (NaN, False, skip_nan_payload (drop 3 p))
               else None))"

text \<open>\<open>strtod(p, &end)\<close>: the value, whether \<open>errno\<close> is set, and \<open>end - p\<close>; without a
  conversion the value is zero and \<open>end\<close> is \<open>p\<close>.\<close>

definition strtod :: "string \<Rightarrow> double \<times> bool \<times> nat" where
  "strtod p =
     (let q = dropWhile isspace p;
          neg = (q \<noteq> [] \<and> cur q = CHR ''-'');
          r = (if q \<noteq> [] \<and> cur q \<in> {CHR ''-'', CHR ''+''} then tl q else q)
      in case strtod_unsigned neg r of
           None \<Rightarrow> (dzero, False, 0)
         | Some (v, er, rest) \<Rightarrow> (v, er, length p - length rest))"

section \<open>Writing: sprintf with FLOAT\_FORMAT\<close>

function nat_digits :: "nat \<Rightarrow> string" where
  "nat_digits n = (if n < 10 then [char_of (48 + n)] else nat_digits (n div 10) @ [char_of (48 + n mod 10)])"
  by pat_completeness auto
termination
  by (relation "measure id") auto

declare nat_digits.simps [simp del]

definition strip_zeros :: "string \<Rightarrow> string" where
  "strip_zeros ds = rev (dropWhile (\<lambda>c. c = CHR ''0'') (rev ds))"

definition fraction_part :: "string \<Rightarrow> string" where
  "fraction_part ds = (if strip_zeros ds = [] then [] else CHR ''.'' # strip_zeros ds)"

text \<open>The 17 significant digits of \<open>n / d > 0\<close> and its decimal exponent.\<close>

definition digits17 :: "nat \<Rightarrow> nat \<Rightarrow> nat \<times> int" where
  "digits17 n d =
     (let x = ratio_log 10 n d; (n', d') = scale 10 (x - 16) n d; D = round_half_even n' d'
      in if D = 10 ^ 17 then (10 ^ 16, x + 1) else (D, x))"

text \<open>The \<open>g\<close> conversion: fixed notation for exponents from \<open>-4\<close> to \<open>16\<close>, exponent notation
  with at least two exponent digits otherwise; trailing zeros of the fraction are removed.\<close>

definition format_g17 :: "nat \<Rightarrow> int \<Rightarrow> string" where
  "format_g17 D x =
     (let ds = nat_digits D in
      if 0 \<le> x \<and> x < 17 then take (nat x + 1) ds @ fraction_part (drop (nat x + 1) ds)
      else if - 4 \<le> x \<and> x < 0 then ''0.'' @ replicate (nat (- x) - 1) CHR ''0'' @ strip_zeros ds
      else take 1 ds @ fraction_part (drop 1 ds) @ ''e'' @ (if x < 0 then ''-'' else ''+'') @
           (let es = nat_digits (nat \<bar>x\<bar>) in if length es < 2 then CHR ''0'' # es else es))"

fun sprintf_g17 :: "double \<Rightarrow> string" where
  "sprintf_g17 (Finite s m e) =
     (if s then ''-'' else []) @
     (if m = 0 then ''0''
      else let (n, d) = scale 2 (- e) m 1; (D, x) = digits17 n d in format_g17 D x)"
| "sprintf_g17 (Infinite s) = (if s then ''-inf'' else ''inf'')"
| "sprintf_g17 NaN = ''nan''"

section \<open>Exact ratios, in the reals\<close>

lemma ilog_bounds:
  assumes "1 < b" "0 < n"
  shows "b ^ ilog b n \<le> n \<and> n < b ^ Suc (ilog b n)"
  using assms
proof (induction b n rule: ilog.induct)
  case (1 b n)
  show ?case
  proof (cases "n < b")
    case True
    then show ?thesis using 1 by (simp add: ilog.simps)
  next
    case False
    then have ge: "1 \<le> n div b" using 1 by (simp add: Suc_le_eq div_greater_zero_iff)
    with 1 False have ih: "b ^ ilog b (n div b) \<le> n div b" "n div b < b ^ Suc (ilog b (n div b))"
      by auto
    have "b * b ^ ilog b (n div b) \<le> n"
      using ih(1) by (metis mult.commute mult_le_mono2 div_times_less_eq_dividend le_trans)
    moreover have "n < b * b ^ Suc (ilog b (n div b))"
      using ih(2) 1(2) by (simp add: div_less_iff_less_mult mult.commute)
    ultimately show ?thesis
      using False 1 by (simp add: ilog.simps [of b n])
  qed
qed

lemma scale_ratio:
  assumes "scale b k n d = (n', d')" "0 < b" "0 < d"
  shows "0 < d'" "real n' / real d' = real n / real d / real b powi k"
  using assms
  by (auto simp: scale_def power_int_def field_simps split: if_splits)

lemma ratio_log_bounds:
  assumes "1 < b" "0 < n" "0 < d"
  shows "real b powi ratio_log b n d \<le> real n / real d"
    and "real n / real d < real b powi (ratio_log b n d + 1)"
proof -
  define k where "k = int (ilog b n) - int (ilog b d)"
  obtain n' d' where s: "scale b k n d = (n', d')" by fastforce
  note sr = scale_ratio [OF s]
  have b: "real b powi (i + j) = real b powi i * real b powi j" for i j
    using assms(1) by (simp add: power_int_add)
  have bp: "0 < real b powi i" for i using assms(1) by simp
  have n1: "real b ^ ilog b n \<le> real n" and n2: "real n < real b * real b ^ ilog b n"
    using ilog_bounds [OF assms(1,2)] by (metis of_nat_le_iff of_nat_power, metis of_nat_less_iff of_nat_mult of_nat_power power_Suc)
  have d1: "real b ^ ilog b d \<le> real d" and d2: "real d < real b * real b ^ ilog b d"
    using ilog_bounds [OF assms(1,3)] by (metis of_nat_le_iff of_nat_power, metis of_nat_less_iff of_nat_mult of_nat_power power_Suc)
  have kk: "real b powi k * real b ^ ilog b d = real b ^ ilog b n"
    using b [of k "int (ilog b d)"] by (simp add: k_def)
  have up: "real n / real d < real b powi (k + 1)"
  proof -
    have "real n < real b * (real b powi k * real b ^ ilog b d)" using n2 kk by simp
    also have "\<dots> \<le> real b * real b powi k * real d" using d1 bp [of k] assms(1) by (simp add: mult.assoc)
    finally show ?thesis using assms(3) by (simp add: b field_simps)
  qed
  have lo: "real b powi (k - 1) \<le> real n / real d"
  proof -
    have "real b powi (k - 1) * real b = real b powi k" using b [of "k - 1" 1] by simp
    then have "real b powi (k - 1) * (real b * real b ^ ilog b d) = real b ^ ilog b n"
      using kk by (metis mult.assoc)
    moreover have "real b powi (k - 1) * real d \<le> real b powi (k - 1) * (real b * real b ^ ilog b d)"
      using d2 bp [of "k - 1"] by simp
    ultimately have "real b powi (k - 1) * real d \<le> real n" using n1 by linarith
    then show ?thesis using assms(3) by (simp add: field_simps)
  qed
  have cmp: "d' \<le> n' \<longleftrightarrow> real b powi k \<le> real n / real d"
  proof -
    have d': "0 < d'" and q: "real n' / real d' = real n / real d / real b powi k"
      using sr assms by auto
    have "d' \<le> n' \<longleftrightarrow> 1 \<le> real n' / real d'" using d' by (simp add: field_simps)
    also have "\<dots> \<longleftrightarrow> real b powi k \<le> real n / real d"
      unfolding q using bp [of k] by (simp add: le_divide_eq mult.commute)
    finally show ?thesis .
  qed
  have rl: "ratio_log b n d = (if d' \<le> n' then k else k - 1)"
    by (simp add: ratio_log_def k_def [symmetric] s)
  show "real b powi ratio_log b n d \<le> real n / real d"
    using cmp lo by (simp add: rl)
  show "real n / real d < real b powi (ratio_log b n d + 1)"
    using cmp up by (simp add: rl)
qed

lemma ratio_log_unique:
  assumes "1 < b" "0 < n" "0 < d"
    and "real b powi k \<le> real n / real d" "real n / real d < real b powi (k + 1)"
  shows "ratio_log b n d = k"
proof -
  have "real b powi k < real b powi (ratio_log b n d + 1)"
    "real b powi (ratio_log b n d) < real b powi (k + 1)"
    using ratio_log_bounds [OF assms(1-3)] assms(4,5) by linarith+
  then have "k < ratio_log b n d + 1" "ratio_log b n d < k + 1"
    using power_int_increasing [of "ratio_log b n d + 1" k "real b"]
      power_int_increasing [of "k + 1" "ratio_log b n d" "real b"] assms(1) by linarith+
  then show ?thesis by linarith
qed

lemma round_half_even_bound:
  assumes "0 < d"
  shows "\<bar>real (round_half_even n d) - real n / real d\<bar> \<le> 1 / 2"
proof -
  have nd: "real n = real (n div d) * real d + real (n mod d)"
    by (metis div_mult_mod_eq of_nat_add of_nat_mult)
  have r: "real (n mod d) < real d" using assms by simp
  have "real n / real d = real (n div d) + real (n mod d) / real d"
    using assms by (simp add: nd field_simps)
  then show ?thesis
    using assms r
    by (auto simp: round_half_even_def Let_def field_simps abs_le_iff split: if_splits)
qed

lemma round_half_even_unique:
  assumes "0 < d" "\<bar>real n / real d - real m\<bar> < 1 / 2"
  shows "round_half_even n d = m"
proof -
  have "\<bar>real (round_half_even n d) - real m\<bar> < 1"
    using round_half_even_bound [OF assms(1), of n] assms(2) by linarith
  then show ?thesis by linarith
qed

lemma real_powi_add [simp]: "0 < x \<Longrightarrow> (x::real) powi (i + j) = x powi i * x powi j"
  by (simp add: power_int_add)

text \<open>One rounding step at the exponent \<open>round_to_double\<close> chooses.\<close>

lemma round_to_double_at:
  assumes nd: "0 < n" "0 < d" and e: "e = max (ratio_log 2 n d - 52) (- 1074)"
    and close: "\<bar>real n / real d - real m * 2 powi e\<bar> < 2 powi e / 2" and m: "2 ^ 52 \<le> m"
    and m1: "(m1, e1) = (if m = 2 ^ 53 then (2 ^ 52, e + 1) else (m, e))" and "e1 \<le> 971"
  shows "round_to_double neg n d = (Finite neg m1 e1, False)"
proof -
  obtain n' d' where s: "scale 2 e n d = (n', d')" by fastforce
  have d': "0 < d'" and q: "real n' / real d' = real n / real d / 2 powi e"
    using scale_ratio [OF s] nd by auto
  have "real n' / real d' - real m = (real n / real d - real m * 2 powi e) / 2 powi e"
    unfolding q by (simp add: diff_divide_distrib)
  then have "\<bar>real n' / real d' - real m\<bar> = \<bar>real n / real d - real m * 2 powi e\<bar> / 2 powi e"
    by (simp add: abs_divide)
  also have "\<dots> < 1 / 2" using close by (simp add: divide_less_eq)
  finally have "round_half_even n' d' = m" using d' by (intro round_half_even_unique)
  moreover have "2 ^ 52 \<le> m1" using m m1 by (auto split: if_splits)
  ultimately show ?thesis
    using nd(1) assms(7) m1 unfolding round_to_double_def e [symmetric] by (auto simp: Let_def s split: if_splits)
qed

text \<open>A ratio closer to a normal double than half the gap to its neighbours rounds to it; the
  gap below a power of two is half the gap above.\<close>

lemma round_to_double_nearest:
  assumes m: "2 ^ 52 \<le> m" "m < 2 ^ 53" and e: "- 1074 \<le> e" "e \<le> 971" and nd: "0 < n" "0 < d"
    and close: "\<bar>real n / real d - real m * 2 powi e\<bar> < 2 powi e / 2"
    and low: "m = 2 ^ 52 \<Longrightarrow> \<bar>real n / real d - real m * 2 powi e\<bar> < 2 powi e / 4"
  shows "round_to_double neg n d = (Finite neg m e, False)"
proof -
  define x where "x = real n / real d"
  define u where "u = (2::real) powi e"
  have u: "0 < u" by (simp add: u_def)
  have pw: "(2::real) powi (e + 52) = u * 2 ^ 52" "(2::real) powi (e + 53) = u * 2 ^ 53"
    "(2::real) powi (e + 51) = u * 2 ^ 51" "(2::real) powi (e - 1) = u / 2"
    by (simp_all add: u_def power_int_diff)
  have xm: "\<bar>x - real m * u\<bar> < u / 2" using close by (simp add: x_def u_def)
  have "real m + 1 \<le> 2 ^ 53" using m(2) by simp
  then have "(real m + 1) * u \<le> 2 ^ 53 * u" using u by (intro mult_right_mono) simp_all
  then have "real m * u + u \<le> 2 ^ 53 * u" by (simp only: distrib_right mult_1_left)
  then have up: "x < 2 ^ 53 * u" using xm u by linarith
  show ?thesis
  proof (cases "2 ^ 52 * u \<le> x")
    case True
    have "ratio_log 2 n d = e + 52"
      using True up nd pw by (intro ratio_log_unique) (simp_all add: x_def mult.commute add.assoc)
    then show ?thesis
      using assms by (intro round_to_double_at [where e = e and m = m]) simp_all
  next
    case False
    have m52: "m = 2 ^ 52"
    proof (rule ccontr)
      assume "m \<noteq> 2 ^ 52"
      then have "2 ^ 52 + 1 \<le> real m" using m(1) by simp
      then have "(2 ^ 52 + 1) * u \<le> real m * u" using u by (intro mult_right_mono) simp_all
      then have "2 ^ 52 * u + u \<le> real m * u" by (simp only: distrib_right mult_1_left)
      then show False using False xm u by linarith
    qed
    have lo: "\<bar>x - 2 ^ 52 * u\<bar> < u / 4" using low [OF m52] m52 by (simp add: x_def u_def)
    moreover have "2 ^ 52 * u = 2 ^ 51 * u + 2 ^ 51 * u" "u \<le> 2 ^ 51 * u" using u by simp_all
    ultimately have "2 ^ 51 * u \<le> x" using u by linarith
    then have rl: "ratio_log 2 n d = e + 51"
      using False nd pw by (intro ratio_log_unique) (simp_all add: x_def mult.commute add.assoc)
    show ?thesis
    proof (cases "e = - 1074")
      case True
      then show ?thesis
        using assms rl by (intro round_to_double_at [where e = e and m = m]) simp_all
    next
      case e': False
      have "\<bar>real n / real d - real (2 ^ 53) * 2 powi (e - 1)\<bar> < 2 powi (e - 1) / 2"
        unfolding pw(4) using lo by (simp add: x_def)
      then show ?thesis
        using e' e rl m52 nd
        by (intro round_to_double_at [where e = "e - 1" and m = "2 ^ 53"]) auto
    qed
  qed
qed

text \<open>The 17 digits of a ratio and how close they are to it.\<close>

lemma digits17_close:
  assumes nd: "0 < n" "0 < d" and D: "digits17 n d = (D, x)"
  shows "10 ^ 16 \<le> D" "D < 10 ^ 17" "x = ratio_log 10 n d \<or> x = ratio_log 10 n d + 1"
    and "\<bar>real D * 10 powi (x - 16) - real n / real d\<bar> \<le> 10 powi (ratio_log 10 n d - 16) / 2"
    and "10 powi (ratio_log 10 n d - 16) * 10 ^ 16 \<le> real n / real d"
proof -
  define x0 where "x0 = ratio_log 10 n d"
  define w where "w = (10::real) powi (x0 - 16)"
  define y where "y = real n / real d"
  obtain n' d' where s: "scale 10 (x0 - 16) n d = (n', d')" by fastforce
  have d': "0 < d'" and q: "real n' / real d' = y / w"
    using scale_ratio [OF s] nd by (auto simp: y_def w_def)
  have w: "0 < w" by (simp add: w_def)
  have pw: "(10::real) powi x0 = w * 10 ^ 16" "(10::real) powi (x0 + 1) = w * 10 ^ 17"
    using power_int_add [of "10::real" "x0 - 16" 16] power_int_add [of "10::real" "x0 - 16" 17]
    by (simp_all add: w_def add.commute [of 1])
  have yb: "w * 10 ^ 16 \<le> y" "y < w * 10 ^ 17"
    using ratio_log_bounds [of 10 n d] nd pw by (simp_all add: x0_def y_def)
  define D0 where "D0 = round_half_even n' d'"
  have r: "\<bar>real D0 - y / w\<bar> \<le> 1 / 2"
    unfolding q [symmetric] D0_def using d' by (rule round_half_even_bound)
  have "10 ^ 16 \<le> y / w" "y / w < 10 ^ 17" using yb w by (simp_all add: le_divide_eq divide_less_eq mult.commute)
  with r have "10 ^ 16 - 1 < real D0" "real D0 < 10 ^ 17 + 1" by linarith+
  then have D0: "10 ^ 16 \<le> D0" "D0 \<le> 10 ^ 17" by simp_all
  have "\<bar>real D0 * w - y\<bar> = \<bar>real D0 - y / w\<bar> * w" using w by (simp add: abs_mult_pos field_simps)
  also have "\<dots> \<le> 1 / 2 * w" using r w by (intro mult_right_mono) simp_all
  finally have dist: "\<bar>real D0 * w - y\<bar> \<le> w / 2" by simp
  have Dx: "real D * 10 powi (x - 16) = real D0 * w" "D = (if D0 = 10 ^ 17 then 10 ^ 16 else D0)" "x = x0 \<or> x = x0 + 1"
    using D s pw power_int_add [of "10::real" "x0 - 16" 1] by (auto simp: digits17_def Let_def x0_def [symmetric] D0_def [symmetric] w_def split: if_splits)
  then show "10 ^ 16 \<le> D" "D < 10 ^ 17" "x = ratio_log 10 n d \<or> x = ratio_log 10 n d + 1"
    using D0 by (auto simp: x0_def)
  show "\<bar>real D * 10 powi (x - 16) - real n / real d\<bar> \<le> 10 powi (ratio_log 10 n d - 16) / 2"
    using dist by (simp add: Dx(1) y_def w_def x0_def)
  show "10 powi (ratio_log 10 n d - 16) * 10 ^ 16 \<le> real n / real d"
    using yb(1) by (simp add: y_def w_def x0_def)
qed

text \<open>17 digits identify a normal double.\<close>

lemma digits17_nearest:
  assumes m: "2 ^ 52 \<le> m" "m < 2 ^ 53" and nd: "0 < n" "0 < d" and v: "real n / real d = real m * 2 powi e"
    and D: "digits17 n d = (D, x)"
  shows "\<bar>real D * 10 powi (x - 16) - real m * 2 powi e\<bar> < 2 powi e / 2"
    and "m = 2 ^ 52 \<Longrightarrow> \<bar>real D * 10 powi (x - 16) - real m * 2 powi e\<bar> < 2 powi e / 4"
proof -
  define w where "w = (10::real) powi (ratio_log 10 n d - 16)"
  define u where "u = (2::real) powi e"
  have w: "0 < w" and u: "0 < u" by (simp_all add: w_def u_def)
  have dist: "\<bar>real D * 10 powi (x - 16) - real m * u\<bar> \<le> w / 2" and yb: "w * 10 ^ 16 \<le> real m * u"
    using digits17_close(4,5) [OF nd D] unfolding v w_def u_def .
  have "real m < 2 ^ 53" using m by simp
  then have "real m * u < 2 ^ 53 * u" using u by (intro mult_strict_right_mono)
  then have "w < u" using yb w by simp
  then show "\<bar>real D * 10 powi (x - 16) - real m * 2 powi e\<bar> < 2 powi e / 2"
    using dist unfolding u_def by linarith
  assume "m = 2 ^ 52"
  then have "w < u / 2" using yb w by simp
  then show "\<bar>real D * 10 powi (x - 16) - real m * 2 powi e\<bar> < 2 powi e / 4"
    using dist unfolding u_def by linarith
qed

section \<open>Digits and text\<close>

text \<open>What may follow a number in a document.\<close>

definition number_stop :: "string \<Rightarrow> bool" where
  "number_stop r = (\<not> isdigit (cur r) \<and> cur r \<notin> set ''.eExX'')"

abbreviation digits :: "string \<Rightarrow> bool" where
  "digits ds \<equiv> list_all isdigit ds"

lemma dec_val_append: "dec_val (a @ b) = dec_val a * 10 ^ length b + dec_val b"
proof (induction b rule: rev_induct)
  case (snoc c b)
  then show ?case by (simp add: dec_val_def algebra_simps flip: append_assoc)
qed (simp add: dec_val_def)

lemma dec_val_simps [simp]: "dec_val [] = 0" "dec_val [c] = digit_val c"
  by (simp_all add: dec_val_def)

lemma digit_char:
  assumes "n < 10"
  shows "isdigit (char_of (48 + n))" "digit_val (char_of (48 + n)) = n" "char_of (48 + n) = CHR ''0'' \<longleftrightarrow> n = 0"
proof -
  have b: "byte (char_of (48 + n) :: char) = 48 + n" using assms by simp
  then show "isdigit (char_of (48 + n))" "digit_val (char_of (48 + n)) = n"
    using assms by (simp_all add: isdigit_def digit_val_def)
  have "byte CHR ''0'' = 48" by simp
  then show "char_of (48 + n) = CHR ''0'' \<longleftrightarrow> n = 0"
    by (metis b add.right_neutral add_left_cancel byte_eq_iff)
qed

lemma nat_digits_props:
  "digits (nat_digits n) \<and> dec_val (nat_digits n) = n \<and> nat_digits n \<noteq> [] \<and> (0 < n \<longrightarrow> hd (nat_digits n) \<noteq> CHR ''0'')"
proof (induction n rule: nat_digits.induct)
  case (1 n)
  show ?case
  proof (cases "n < 10")
    case True
    then show ?thesis using digit_char [OF True] by (simp add: nat_digits.simps [of n])
  next
    case False
    with 1 have ih: "digits (nat_digits (n div 10))" "dec_val (nat_digits (n div 10)) = n div 10"
      "nat_digits (n div 10) \<noteq> []" "hd (nat_digits (n div 10)) \<noteq> CHR ''0''"
      by (auto simp: div_greater_zero_iff)
    have "n mod 10 < 10" by simp
    from digit_char [OF this] ih show ?thesis
      using False by (simp add: nat_digits.simps [of n] dec_val_append)
  qed
qed

lemma length_nat_digits: "10 ^ k \<le> n \<Longrightarrow> n < 10 ^ Suc k \<Longrightarrow> length (nat_digits n) = Suc k"
proof (induction k arbitrary: n)
  case 0
  then show ?case by (simp add: nat_digits.simps)
next
  case (Suc k)
  have "(10::nat) \<le> 10 ^ Suc k" by simp
  then have "10 \<le> n" using Suc.prems(1) by linarith
  moreover have "10 ^ k \<le> n div 10" using Suc.prems(1) by (simp add: less_eq_div_iff_mult_less_eq mult.commute)
  moreover have "n div 10 < 10 ^ Suc k" using Suc.prems(2) by (simp add: div_less_iff_less_mult)
  ultimately show ?case using Suc.IH [of "n div 10"] by (simp add: nat_digits.simps [of n])
qed

lemma strip_zeros_split: obtains k where "ds = strip_zeros ds @ replicate k CHR ''0''"
proof -
  let ?z = "\<lambda>c. c = CHR ''0''"
  have "takeWhile ?z (rev ds) = replicate (length (takeWhile ?z (rev ds))) CHR ''0''"
    by (intro replicate_length_same [symmetric]) (auto dest: set_takeWhileD)
  moreover have "ds = rev (dropWhile ?z (rev ds)) @ rev (takeWhile ?z (rev ds))"
    by (metis rev_append rev_rev_ident takeWhile_dropWhile_id)
  ultimately show thesis
    by (intro that [of "length (takeWhile ?z (rev ds))"]) (metis rev_replicate strip_zeros_def)
qed

lemma strip_zeros_digits [simp]: "digits ds \<Longrightarrow> digits (strip_zeros ds)"
  using strip_zeros_split [of ds] by (metis list_all_append)

lemma dec_val_zeros [simp]: "dec_val (replicate k CHR ''0'') = 0"
proof (induction k)
  case (Suc k)
  then show ?case using dec_val_append [of "[CHR ''0'']" "replicate k CHR ''0''"] by (simp add: digit_val_def)
qed simp

lemma dec_val_strip_zeros:
  "real (dec_val (a @ strip_zeros b)) / 10 ^ length (strip_zeros b) = real (dec_val (a @ b)) / 10 ^ length b"
proof -
  obtain k where b: "b = strip_zeros b @ replicate k CHR ''0''" by (rule strip_zeros_split)
  have "dec_val (a @ b) = dec_val (a @ strip_zeros b) * 10 ^ k"
    by (subst b) (simp add: dec_val_append [of "a @ strip_zeros b" "replicate k CHR ''0''", simplified])
  moreover have "length b = length (strip_zeros b) + k" by (subst b) simp
  ultimately show ?thesis by (simp add: power_add)
qed

lemma takeWhile_digits:
  "digits ds \<Longrightarrow> \<not> isdigit (cur r) \<Longrightarrow> takeWhile isdigit (ds @ r) = ds"
  by (cases r) (auto simp: list_all_iff takeWhile_append takeWhile_eq_all_conv isdigit_def)

text \<open>Scanning digits with a stripped fraction part gives their value.\<close>

lemma scan_mantissa_fraction:
  assumes ip: "digits ip" "ip \<noteq> []" and fs: "digits fs" and r: "\<not> isdigit (cur r)" "cur r \<noteq> CHR ''.''"
  obtains m k where "scan_mantissa isdigit dec_val (ip @ fraction_part fs @ r) = Some (m, k, r)"
    "real m / 10 ^ k = real (dec_val (ip @ fs)) / 10 ^ length fs"
proof -
  have tw: "takeWhile isdigit (ip @ fraction_part fs @ r) = ip"
    using assms by (intro takeWhile_digits) (auto simp: fraction_part_def isdigit_def)
  have tr: "takeWhile isdigit (strip_zeros fs @ r) = strip_zeros fs"
    using fs r by (intro takeWhile_digits) auto
  have "scan_mantissa isdigit dec_val (ip @ fraction_part fs @ r)
      = Some (dec_val (ip @ strip_zeros fs), length (strip_zeros fs), r)"
    using tw tr ip r by (auto simp: scan_mantissa_def Let_def fraction_part_def)
  then show thesis using dec_val_strip_zeros [of ip fs] by (rule that)
qed

lemma scan_exponent_text:
  assumes "digits es" "es \<noteq> []" "\<not> isdigit (cur r)"
  shows "scan_exponent ''eE'' (''e'' @ (if x < 0 then ''-'' else ''+'') @ es @ r)
      = (if x < (0::int) then - int (dec_val es) else int (dec_val es), r)"
  using assms by (simp add: scan_exponent_def takeWhile_digits Let_def)

lemma scan_exponent_none: "number_stop r \<Longrightarrow> scan_exponent ''eE'' r = (0, r)"
  by (simp add: scan_exponent_def number_stop_def)

lemma strtod_unsigned_scan:
  assumes hex: "\<not> strneq p ''0x'' 2" "\<not> strneq p ''0X'' 2"
    and m: "scan_mantissa isdigit dec_val p = Some (m, k, q)" and y: "scan_exponent ''eE'' q = (y, r)" and "0 < m"
  obtains n d where "0 < n" "0 < d" "real n / real d = real m / 10 ^ k * 10 powi y"
    "strtod_unsigned neg p = (case round_to_double neg n d of (v, er) \<Rightarrow> Some (v, er, r))"
proof -
  obtain n d where s: "scale 10 (int k - y) m 1 = (n, d)" by fastforce
  have d: "0 < d" and nd: "real n / real d = real m / 10 powi (int k - y)"
    using scale_ratio [OF s] by auto
  have q: "real n / real d = real m / 10 ^ k * 10 powi y"
    unfolding nd by (simp add: power_int_diff)
  have "0 < n" using s assms(5) by (auto simp: scale_def split: if_splits)
  then show thesis
    using d q hex m y s
    by (intro that [of n d]) (simp_all add: strtod_unsigned_def Let_def split: prod.splits)
qed

text \<open>The text of the \<open>g\<close> conversion is digits, a fraction and possibly an exponent.\<close>

lemma format_g17_shape:
  assumes D: "10 ^ 16 \<le> D" "D < 10 ^ 17"
  obtains ip fs ex y where "format_g17 D x = ip @ fraction_part fs @ ex"
    "digits ip" "ip \<noteq> []" "digits fs" "dec_val (ip @ fs) = D"
    "hd ip = CHR ''0'' \<Longrightarrow> ip = ''0'' \<and> fraction_part fs \<noteq> []"
    "ex = [] \<and> y = 0 \<or> (\<exists>es. digits es \<and> es \<noteq> [] \<and> ex = ''e'' @ (if y < 0 then ''-'' else ''+'') @ es
        \<and> y = (if y < 0 then - int (dec_val es) else int (dec_val es)))"
    "real D / 10 ^ length fs * 10 powi y = real D * 10 powi (x - 16)"
proof -
  let ?ds = "nat_digits D"
  have len: "length ?ds = 17" using length_nat_digits [of 16 D] D by simp
  have ds: "digits ?ds" "dec_val ?ds = D" "?ds \<noteq> []" "hd ?ds \<noteq> CHR ''0''"
    using nat_digits_props [of D] D by auto
  have td: "digits (take k ?ds)" "digits (drop k ?ds)" for k
    using ds(1) by (metis append_take_drop_id list_all_append)+
  consider "0 \<le> x \<and> x < 17" | "- 4 \<le> x \<and> x < 0" | "\<not> (0 \<le> x \<and> x < 17)" "\<not> (- 4 \<le> x \<and> x < 0)" by blast
  then show thesis
  proof cases
    case 1
    then have pw: "(10::real) powi (x - 16) = 1 / 10 ^ (16 - nat x)"
      by (simp add: power_int_def nat_diff_distrib' field_simps)
    show thesis
      using 1 ds td [of "nat x + 1"] len
      by (intro that [of "take (nat x + 1) ?ds" "drop (nat x + 1) ?ds" "[]" 0]) (auto simp: format_g17_def Let_def pw)
  next
    case 2
    define z where "z = replicate (nat (- x) - 1) CHR ''0''"
    have z: "digits z" "length (z @ ?ds) = nat (16 - x)" using 2 len by (auto simp: z_def isdigit_def list_all_iff)
    have "dropWhile (\<lambda>c. c = CHR ''0'') (rev ?ds @ rev z) = dropWhile (\<lambda>c. c = CHR ''0'') (rev ?ds) @ rev z"
      using ds(3,4) by (intro dropWhile_append1 [of "hd ?ds"]) auto
    then have sz: "strip_zeros (z @ ?ds) = z @ strip_zeros ?ds" by (simp add: strip_zeros_def)
    have ne: "strip_zeros ?ds \<noteq> []"
    proof
      assume "strip_zeros ?ds = []"
      then have "dec_val ?ds = 0" by (metis strip_zeros_split append_Nil dec_val_zeros)
      then show False using ds(2) D by simp
    qed
    have pw: "(10::real) powi (x - 16) = 1 / 10 ^ nat (16 - x)"
      using 2 by (simp add: power_int_def field_simps)
    have "dec_val (''0'' @ z @ ?ds) = D"
      unfolding dec_val_append [of "''0''"] dec_val_append [of z] using ds(2) by (simp add: z_def digit_val_def)
    moreover have "format_g17 D x = ''0'' @ fraction_part (z @ ?ds)"
      using 2 sz ne by (simp add: format_g17_def Let_def fraction_part_def z_def)
    moreover have "fraction_part (z @ ?ds) \<noteq> []" using sz ne by (simp add: fraction_part_def)
    ultimately show thesis
      using ds(1) z D pw
      by (intro that [of "''0''" "z @ ?ds" "[]" 0]) (simp_all add: isdigit_def del: length_append)
  next
    case 3
    define es0 where "es0 = nat_digits (nat \<bar>x\<bar>)"
    define es where "es = (if length es0 < 2 then CHR ''0'' # es0 else es0)"
    have e0: "digits es0" "dec_val es0 = nat \<bar>x\<bar>" "es0 \<noteq> []"
      using nat_digits_props [of "nat \<bar>x\<bar>"] by (auto simp: es0_def)
    have es: "digits es" "dec_val es = nat \<bar>x\<bar>" "es \<noteq> []"
      using e0 dec_val_append [of "''0''" es0] by (auto simp: es_def isdigit_def digit_val_def)
    have pw: "(10::real) powi (x - 16) = 10 powi x / 10 ^ 16"
      by (simp add: power_int_diff)
    have fmt: "format_g17 D x = take 1 ?ds @ fraction_part (drop 1 ?ds) @ (''e'' @ (if x < 0 then ''-'' else ''+'') @ es)"
      unfolding format_g17_def Let_def es0_def [symmetric] es_def [symmetric] using 3 by auto
    show thesis
      using 3 ds td [of 1] len fmt es pw
      by (intro that [of "take 1 ?ds" "drop 1 ?ds" "''e'' @ (if x < 0 then ''-'' else ''+'') @ es" x]) (auto simp del: append.simps)
  qed
qed

lemma number_stop_cur: "number_stop r \<Longrightarrow> \<not> isdigit (cur r) \<and> cur r \<noteq> CHR ''.''"
  by (auto simp: number_stop_def)

lemma strtod_unsigned_format:
  assumes D: "10 ^ 16 \<le> D" "D < 10 ^ 17" and r: "number_stop r"
  obtains n d where "0 < n" "0 < d" "real n / real d = real D * 10 powi (x - 16)"
    "strtod_unsigned neg (format_g17 D x @ r) = (case round_to_double neg n d of (v, er) \<Rightarrow> Some (v, er, r))"
proof -
  obtain ip fs ex y where f: "format_g17 D x = ip @ fraction_part fs @ ex"
    and ip: "digits ip" "ip \<noteq> []" and fs: "digits fs" and val: "dec_val (ip @ fs) = D"
    and hd0: "hd ip = CHR ''0'' \<Longrightarrow> ip = ''0'' \<and> fraction_part fs \<noteq> []"
    and ex: "ex = [] \<and> y = 0 \<or> (\<exists>es. digits es \<and> es \<noteq> [] \<and> ex = ''e'' @ (if y < 0 then ''-'' else ''+'') @ es
        \<and> y = (if y < 0 then - int (dec_val es) else int (dec_val es)))"
    and pw: "real D / 10 ^ length fs * 10 powi y = real D * 10 powi (x - 16)"
    using format_g17_shape [OF D, of x] by blast
  have sy: "scan_exponent ''eE'' (ex @ r) = (y, r)"
  proof (cases "ex = []")
    case True
    then show ?thesis using ex scan_exponent_none [OF r] by auto
  next
    case False
    then obtain es where "digits es" "es \<noteq> []" and e: "ex = ''e'' @ (if y < 0 then ''-'' else ''+'') @ es"
      and y: "y = (if y < 0 then - int (dec_val es) else int (dec_val es))"
      using ex by blast
    then show ?thesis
      using scan_exponent_text [of es r y] number_stop_cur [OF r] by (simp only: append_assoc) metis
  qed
  have exr: "\<not> isdigit (cur (ex @ r))" "cur (ex @ r) \<noteq> CHR ''.''"
    using ex number_stop_cur [OF r] by (auto simp: isdigit_def)
  obtain m k where m: "scan_mantissa isdigit dec_val (ip @ fraction_part fs @ ex @ r) = Some (m, k, ex @ r)"
    and mk: "real m / 10 ^ k = real D / 10 ^ length fs"
    using scan_mantissa_fraction [OF ip fs exr] val by metis
  have "0 < m" using mk D by (cases m) auto
  moreover have "\<not> strneq (ip @ fraction_part fs @ ex @ r) [CHR ''0'', c] 2" if "c = CHR ''x'' \<or> c = CHR ''X''" for c
    using ip hd0 that by (cases ip) (auto simp: strneq_def fraction_part_def isdigit_def split: if_splits)
  ultimately show thesis
    using strtod_unsigned_scan [OF _ _ m sy, of neg] that mk pw by (metis f append_assoc)
qed

lemma printed_head:
  assumes "10 ^ 16 \<le> D" "D < 10 ^ 17"
  obtains c t where "format_g17 D x = c # t" "isdigit c" "c = CHR ''0'' \<Longrightarrow> \<exists>t'. t = CHR ''.'' # t'"
proof -
  obtain ip fs ex where f: "format_g17 D x = ip @ fraction_part fs @ ex" and ip: "digits ip" "ip \<noteq> []"
    and h: "hd ip = CHR ''0'' \<Longrightarrow> ip = ''0'' \<and> fraction_part fs \<noteq> []"
    using format_g17_shape [OF assms, of x] by metis
  show thesis
    using ip h by (cases ip; intro that [of "hd ip" "tl ip @ fraction_part fs @ ex"])
      (auto simp: f fraction_part_def split: if_splits)
qed

lemma printed_chars:
  assumes "10 ^ 16 \<le> D" "D < 10 ^ 17"
  shows "set (format_g17 D x) \<subseteq> {c. isdigit c} \<union> set ''.e+-''"
proof -
  obtain ip fs ex y where f: "format_g17 D x = ip @ fraction_part fs @ ex" and d: "digits ip" "digits fs"
    and ex: "ex = [] \<and> y = 0 \<or> (\<exists>es. digits es \<and> es \<noteq> [] \<and> ex = ''e'' @ (if y < 0 then ''-'' else ''+'') @ es
        \<and> y = (if y < 0 then - int (dec_val es) else int (dec_val es)))"
    using format_g17_shape [OF assms, of x] by metis
  have "set ex \<subseteq> {c. isdigit c} \<union> set ''.e+-''" using ex by (auto simp: list_all_iff split: if_splits)
  moreover have "set (fraction_part fs) \<subseteq> {c. isdigit c} \<union> set ''.e+-''"
    using strip_zeros_digits [OF d(2)] by (auto simp: fraction_part_def list_all_iff)
  ultimately show ?thesis using d(1) by (auto simp: f list_all_iff)
qed

text \<open>The doubles whose text reads back: zeros and normal numbers.\<close>

fun reads_back :: "double \<Rightarrow> bool" where
  "reads_back (Finite s m e) = (canonical (Finite s m e) \<and> (2 ^ 52 \<le> m \<or> m = 0))"
| "reads_back _ = False"

lemma format_reads_back:
  assumes "canonical (Finite s m e)" "2 ^ 52 \<le> m" "number_stop r"
    and "scale 2 (- e) m 1 = (n, d)" "digits17 n d = (D, x)"
  shows "10 ^ 16 \<le> D" "D < 10 ^ 17" "strtod_unsigned s (format_g17 D x @ r) = Some (Finite s m e, False, r)"
proof -
  have m: "2 ^ 52 \<le> m" "m < 2 ^ 53" and e: "- 1074 \<le> e" "e \<le> 971" using assms(1,2) by auto
  have d: "0 < d" and q: "real n / real d = real m * 2 powi e"
    using scale_ratio [OF assms(4)] by (auto simp: power_int_minus divide_inverse)
  have "0 < n" using assms(4) m by (auto simp: scale_def split: if_splits)
  note near = digits17_nearest [OF m this d q assms(5)]
  show D: "10 ^ 16 \<le> D" "D < 10 ^ 17" using digits17_close(1,2) [OF \<open>0 < n\<close> d assms(5)] .
  obtain n' d' where nd: "0 < n'" "0 < d'" and v: "real n' / real d' = real D * 10 powi (x - 16)"
    and st: "strtod_unsigned s (format_g17 D x @ r) = (case round_to_double s n' d' of (v, er) \<Rightarrow> Some (v, er, r))"
    using strtod_unsigned_format [OF D assms(3)] by metis
  have "round_to_double s n' d' = (Finite s m e, False)"
    using near unfolding v [symmetric] by (intro round_to_double_nearest m e nd)
  then show "strtod_unsigned s (format_g17 D x @ r) = Some (Finite s m e, False, r)"
    using st by simp
qed

lemma strtod_signed:
  assumes "strtod_unsigned s (t @ r) = Some (v, er, r)" "t = c # t'" "isdigit c"
  shows "strtod ((if s then ''-'' else []) @ t @ r) = (v, er, length ((if s then ''-'' else []) @ t))"
proof -
  have "\<not> isspace c" "c \<noteq> CHR ''-''" "c \<noteq> CHR ''+''" using assms(3) by (auto simp: isspace_def isdigit_def)
  moreover have "\<not> isspace CHR ''-''" by (simp add: isspace_def)
  ultimately show ?thesis using assms by (auto simp: strtod_def Let_def)
qed

lemma is_decimal_signed:
  assumes "set t \<subseteq> {c. isdigit c} \<union> set ''.e+-''" "t = c # t'" "isdigit c"
    and z: "c = CHR ''0'' \<Longrightarrow> t' = [] \<or> (\<exists>u. t' = CHR ''.'' # u)"
  shows "is_decimal ((if s then ''-'' else []) @ t @ r) (length ((if s then ''-'' else []) @ t))"
proof -
  let ?p = "(if s then ''-'' else []) @ t"
  have ch: "nthc (?p @ r) i \<in> {c. isdigit c} \<union> set ''.e+-''" if "i < length ?p" for i
  proof -
    have "nthc (?p @ r) i = ?p ! i" using that by (simp only: nthc_def nth_append length_append) simp
    moreover have "?p ! i \<in> set ?p" using that by (rule nth_mem)
    ultimately show ?thesis using assms(1) by (auto split: if_splits)
  qed
  have "\<not> list_ex (\<lambda>i. nthc (?p @ r) i \<in> {CHR ''x'', CHR ''X'', NUL}) (rev [0..<length ?p])"
    using ch by (fastforce simp: list_ex_iff isdigit_def)
  moreover have "\<not> (1 < length ?p \<and> nthc (?p @ r) 0 = CHR ''0'' \<and> nthc (?p @ r) 1 \<noteq> CHR ''.'')"
    using z assms(2) by (cases s) auto
  moreover have "\<not> (2 < length ?p \<and> strneq (?p @ r) ''-0'' 2 \<and> nthc (?p @ r) 2 \<noteq> CHR ''.'')"
    using z assms(2,3) by (cases s) (auto simp: strneq_def isdigit_def numeral_2_eq_2)
  ultimately show ?thesis unfolding is_decimal_def append_assoc by metis
qed

lemma sprintf_g17_finite:
  assumes "reads_back (Finite s m e)"
  obtains c t where "sprintf_g17 (Finite s m e) = (if s then ''-'' else []) @ c # t" "isdigit c"
    "set (c # t) \<subseteq> {c. isdigit c} \<union> set ''.e+-''" "c = CHR ''0'' \<Longrightarrow> t = [] \<or> (\<exists>u. t = CHR ''.'' # u)"
    "\<And>r. number_stop r \<Longrightarrow> strtod_unsigned s ((c # t) @ r) = Some (Finite s m e, False, r)"
proof (cases "m = 0")
  case True
  then have e: "e = - 1074" using assms by auto
  have z: "strtod_unsigned s (''0'' @ r) = Some (Finite s m e, False, r)" if stop: "number_stop r" for r
  proof -
    obtain m' k where m: "scan_mantissa isdigit dec_val (''0'' @ fraction_part [] @ r) = Some (m', k, r)"
      and "real m' / 10 ^ k = real (dec_val (''0'' @ [])) / 10 ^ length []"
      using scan_mantissa_fraction [of "''0''" "[]" r] number_stop_cur [OF stop] by (auto simp: isdigit_def)
    then have "m' = 0" by (simp add: digit_val_def)
    moreover have "\<not> strneq (''0'' @ r) ''0x'' 2" "\<not> strneq (''0'' @ r) ''0X'' 2"
      using stop by (cases r; simp add: strneq_def number_stop_def)+
    ultimately show ?thesis
      using m scan_exponent_none [OF stop] True e
      by (simp add: strtod_unsigned_def fraction_part_def strip_zeros_def round_to_double_def scale_def)
  qed
  show thesis using z True by (intro that [of "CHR ''0''" "[]"]) (auto simp: isdigit_def)
next
  case False
  obtain n d where nd: "scale 2 (- e) m 1 = (n, d)" by fastforce
  obtain D x where Dx: "digits17 n d = (D, x)" by fastforce
  have cm: "canonical (Finite s m e)" "2 ^ 52 \<le> m" using assms False by auto
  have st: "strtod_unsigned s (format_g17 D x @ r) = Some (Finite s m e, False, r)" if "number_stop r" for r
    using format_reads_back(3) [OF cm that nd Dx] .
  have "number_stop []" by (simp add: number_stop_def isdigit_def)
  then have D: "10 ^ 16 \<le> D" "D < 10 ^ 17" using format_reads_back(1,2) [OF cm _ nd Dx] by auto
  obtain c t where ct: "format_g17 D x = c # t" "isdigit c" "c = CHR ''0'' \<Longrightarrow> \<exists>t'. t = CHR ''.'' # t'"
    using printed_head [OF D, of x] by metis
  show thesis
    using False nd Dx ct st printed_chars [OF D, of x] by (intro that [of c t]) auto
qed

text \<open>Printing a zero or a normal double and reading the text back gives the same double, with
  no error, to the end of the text, and the text passes the syntactic filter of the parser.\<close>

lemma strtod_sprintf:
  assumes "reads_back v" "number_stop r"
  shows "strtod (sprintf_g17 v @ r) = (v, False, length (sprintf_g17 v))"
    and "is_decimal (sprintf_g17 v @ r) (length (sprintf_g17 v))"
proof -
  obtain s m e where v: "v = Finite s m e" using assms(1) by (cases v) auto
  obtain c t where ct: "sprintf_g17 v = (if s then ''-'' else []) @ c # t" "isdigit c"
    "set (c # t) \<subseteq> {c. isdigit c} \<union> set ''.e+-''" "c = CHR ''0'' \<Longrightarrow> t = [] \<or> (\<exists>u. t = CHR ''.'' # u)"
    "strtod_unsigned s ((c # t) @ r) = Some (v, False, r)"
    using sprintf_g17_finite [of s m e] assms v by metis
  show "strtod (sprintf_g17 v @ r) = (v, False, length (sprintf_g17 v))"
    using strtod_signed [OF ct(5) refl ct(2)] unfolding ct(1) append_assoc .
  show "is_decimal (sprintf_g17 v @ r) (length (sprintf_g17 v))"
    using is_decimal_signed [OF ct(3) refl ct(2,4), of s r] unfolding ct(1) append_assoc .
qed

end
