(* ===== verification/Cpp_Double.thy ===== *)
theory Cpp_Double
  imports Cpp_Base Parson_Number
begin

text \<open>
  The floating point arithmetic of the C++ sources over the doubles of \<open>Parson_Number\<close>: conversions,
  comparison and the four operations, each rounding the exact result to nearest, ties to even. A
  conversion to an integer type truncates and is undefined, here a failure, outside the range of the
  type.
\<close>

section \<open>Conversions\<close>

text \<open>The implicit conversions between \<open>int\<close> and \<open>double\<close>: to \<open>double\<close> exactly, to \<open>int\<close> by truncation,
  undefined outside its range.\<close>

definition int_range :: "int \<Rightarrow> bool" where
  "int_range v = (- (2 ^ 31) \<le> v \<and> v < 2 ^ 31)"

definition double_of_int :: "int \<Rightarrow> double" where
  "double_of_int v = fst (round_to_double (v < 0) (nat \<bar>v\<bar>) 1)"

fun int_of_double :: "double \<Rightarrow> int run" where
  "int_of_double (Finite s m e) =
     (let q = int (if 0 \<le> e then m * 2 ^ nat e else m div 2 ^ nat (- e));
          v = (if s then - q else q)
      in if int_range v then Inr v else Inl OutOfBounds)"
| "int_of_double _ = Inl OutOfBounds"

fun uint32_of_double :: "double \<Rightarrow> nat run" where
  "uint32_of_double (Finite s m e) =
     (let q = (if 0 \<le> e then m * 2 ^ nat e else m div 2 ^ nat (- e))
      in if q < 2 ^ 32 \<and> (s \<longrightarrow> q = 0) then Inr q else Inl OutOfBounds)"
| "uint32_of_double _ = Inl OutOfBounds"

section \<open>Arithmetic\<close>

text \<open>The magnitude of a finite double as a ratio.\<close>

definition mag :: "nat \<Rightarrow> int \<Rightarrow> nat \<times> nat" where
  "mag m e = (if 0 \<le> e then (m * 2 ^ nat e, 1) else (m, 2 ^ nat (- e)))"

definition with_sign :: "bool \<Rightarrow> nat \<Rightarrow> int" where
  "with_sign s n = (if s then - int n else int n)"

fun dmul :: "double \<Rightarrow> double \<Rightarrow> double" where
  "dmul (Finite s m e) (Finite s' m' e') =
     (case (mag m e, mag m' e') of ((n, d), (n', d')) \<Rightarrow> fst (round_to_double (s \<noteq> s') (n * n') (d * d')))"
| "dmul (Finite s m e) (Infinite s') = (if m = 0 then NaN else Infinite (s \<noteq> s'))"
| "dmul (Infinite s) (Finite s' m e) = (if m = 0 then NaN else Infinite (s \<noteq> s'))"
| "dmul (Infinite s) (Infinite s') = Infinite (s \<noteq> s')"
| "dmul _ _ = NaN"

fun ddiv :: "double \<Rightarrow> double \<Rightarrow> double" where
  "ddiv (Finite s m e) (Finite s' m' e') =
     (if m' = 0 then (if m = 0 then NaN else Infinite (s \<noteq> s'))
      else case (mag m e, mag m' e') of ((n, d), (n', d')) \<Rightarrow> fst (round_to_double (s \<noteq> s') (n * d') (d * n')))"
| "ddiv (Finite s m e) (Infinite s') = Finite (s \<noteq> s') 0 (- 1074)"
| "ddiv (Infinite s) (Finite s' m e) = Infinite (s \<noteq> s')"
| "ddiv _ _ = NaN"

text \<open>An exact sum of zero is \<open>+0\<close> unless both summands are \<open>-0\<close>.\<close>

fun dadd :: "double \<Rightarrow> double \<Rightarrow> double" where
  "dadd (Finite s m e) (Finite s' m' e') =
     (case (mag m e, mag m' e') of ((n, d), (n', d')) \<Rightarrow>
       let v = with_sign s n * int d' + with_sign s' n' * int d
       in fst (round_to_double (if v = 0 then s \<and> s' else v < 0) (nat \<bar>v\<bar>) (d * d')))"
| "dadd (Finite s m e) (Infinite s') = Infinite s'"
| "dadd (Infinite s) (Finite s' m e) = Infinite s"
| "dadd (Infinite s) (Infinite s') = (if s = s' then Infinite s else NaN)"
| "dadd _ _ = NaN"

fun dneg :: "double \<Rightarrow> double" where
  "dneg (Finite s m e) = Finite (\<not> s) m e"
| "dneg (Infinite s) = Infinite (\<not> s)"
| "dneg NaN = NaN"

definition dsub :: "double \<Rightarrow> double \<Rightarrow> double" where
  "dsub x y = dadd x (dneg y)"

text \<open>\<open>x < y\<close> and \<open>x == y\<close>; both are false when an operand is no number.\<close>

fun dless :: "double \<Rightarrow> double \<Rightarrow> bool" where
  "dless (Finite s m e) (Finite s' m' e') =
     (case (mag m e, mag m' e') of ((n, d), (n', d')) \<Rightarrow> with_sign s n * int d' < with_sign s' n' * int d)"
| "dless (Finite s m e) (Infinite s') = (\<not> s')"
| "dless (Infinite s) (Finite s' m e) = s"
| "dless (Infinite s) (Infinite s') = (s \<and> \<not> s')"
| "dless _ _ = False"

fun deq :: "double \<Rightarrow> double \<Rightarrow> bool" where
  "deq NaN _ = False"
| "deq _ NaN = False"
| "deq x y = (\<not> dless x y \<and> \<not> dless y x)"

text \<open>\<open>std::lround\<close>: to the nearest integer, halves away from zero. The result for a value that does
  not fit a \<open>long\<close> is unspecified: an argument.\<close>

fun lround :: "int \<Rightarrow> double \<Rightarrow> int" where
  "lround unspecified (Finite s m e) =
     (case mag m e of (n, d) \<Rightarrow>
       let v = with_sign s ((2 * n + d) div (2 * d))
       in if - (2 ^ 63) \<le> v \<and> v < 2 ^ 63 then v else unspecified)"
| "lround unspecified _ = unspecified"

section \<open>Lemmas\<close>

lemma ilog_one [simp]: "ilog 2 (Suc 0) = 0"
  by (subst ilog.simps) simp

lemma double_of_int_pos:
  assumes "0 < n" "n < 2 ^ 52"
  shows "round_to_double neg n 1 = (Finite neg (n * 2 ^ (52 - ilog 2 n)) (int (ilog 2 n) - 52), False)"
    "ilog 2 n < 52" "2 ^ 52 \<le> n * 2 ^ (52 - ilog 2 n)" "n * 2 ^ (52 - ilog 2 n) < 2 ^ 53"
proof -
  have b: "2 ^ ilog 2 n \<le> n" "n < 2 ^ Suc (ilog 2 n)" using ilog_bounds [of 2 n] assms(1) by simp_all
  then have "(2::nat) ^ ilog 2 n < 2 ^ 52" using assms(2) by linarith
  then show k: "ilog 2 n < 52" by (rule power_less_imp_less_exp [rotated]) simp
  have p: "(2::nat) ^ 52 = 2 ^ ilog 2 n * 2 ^ (52 - ilog 2 n)"
    using power_add [of "2::nat" "ilog 2 n" "52 - ilog 2 n"] k by (simp only: le_add_diff_inverse less_imp_le)
  then have p1: "(2::nat) ^ 53 = 2 ^ Suc (ilog 2 n) * 2 ^ (52 - ilog 2 n)"
    unfolding power_Suc mult.assoc by (simp flip: p)
  show lo: "2 ^ 52 \<le> n * 2 ^ (52 - ilog 2 n)" unfolding p using b(1) by (rule mult_le_mono1)
  show hi: "n * 2 ^ (52 - ilog 2 n) < 2 ^ 53" unfolding p1 using b(2) by (intro mult_strict_right_mono) simp_all
  have "ratio_log 2 n 1 = int (ilog 2 n)" using b(1) by (simp add: ratio_log_def scale_def)
  then have e: "max (ratio_log 2 n 1 - 52) (- 1074) = int (ilog 2 n) - 52" by simp
  have s: "scale 2 (int (ilog 2 n) - 52) n 1 = (n * 2 ^ (52 - ilog 2 n), 1)"
    using k by (simp add: scale_def nat_diff_distrib)
  have r: "round_half_even m 1 = m" for m by (simp add: round_half_even_def)
  show "round_to_double neg n 1 = (Finite neg (n * 2 ^ (52 - ilog 2 n)) (int (ilog 2 n) - 52), False)"
    using assms(1) k lo hi by (simp add: round_to_double_def e s r Let_def del: power_numeral One_nat_def)
qed

lemma double_of_int_exact:
  assumes "int_range v"
  shows "reads_back (double_of_int v)" "int_of_double (double_of_int v) = Inr v"
proof (atomize (full), cases "v = 0")
  case True
  then show "reads_back (double_of_int v) \<and> int_of_double (double_of_int v) = Inr v"
    by (simp add: double_of_int_def round_to_double_def int_range_def)
next
  case False
  define n where "n = nat \<bar>v\<bar>"
  have n: "0 < n" "n < 2 ^ 52" using False assms by (auto simp: n_def int_range_def)
  note d = double_of_int_pos [OF n]
  have v: "double_of_int v = Finite (v < 0) (n * 2 ^ (52 - ilog 2 n)) (int (ilog 2 n) - 52)"
    using d(1) [of "v < 0"] by (simp add: double_of_int_def flip: n_def)
  have "nat (52 - int (ilog 2 n)) = 52 - ilog 2 n" by simp
  moreover have "(if v < 0 then - int n else int n) = v" by (simp add: n_def)
  ultimately show "reads_back (double_of_int v) \<and> int_of_double (double_of_int v) = Inr v"
    using d(2-4) assms unfolding v by (simp add: Let_def del: power_numeral)
qed

text \<open>Rounding a ratio that is not too close below an integer and truncating gives its integer part.\<close>

lemma round_truncates:
  assumes nd: "0 < d" and r: "round_to_double neg n d = (v, er)"
    and q: "real q \<le> real n / real d" "real n / real d + 1 / 2 ^ 20 \<le> real q + 1" "q < 2 ^ 32"
  shows "uint32_of_double v = (if neg \<and> q \<noteq> 0 then Inl OutOfBounds else Inr q)"
proof (cases "n = 0")
  case True
  then have "q = 0" using q(1) by simp
  then show ?thesis using True r by (auto simp: round_to_double_def)
next
  case False
  define e where "e = max (ratio_log 2 n d - 52) (- 1074)"
  obtain n' d' where s: "scale 2 e n d = (n', d')" by fastforce
  define m where "m = round_half_even n' d'"
  have "real n / real d < 2 ^ 32" using q(2,3) by simp
  moreover have "2 powi ratio_log 2 n d \<le> real n / real d"
    using ratio_log_bounds(1) [of 2 n d] False nd by simp
  ultimately have "(2::real) powi ratio_log 2 n d < 2 powi 32" by simp
  then have "ratio_log 2 n d < 32"
    by (meson not_less one_le_numeral power_int_increasing)
  then have e: "e \<le> - 21" by (simp add: e_def)
  define k where "k = nat (- e)"
  have ek: "e = - int k" "21 \<le> k" using e by (simp_all add: k_def)
  have x: "real n' / real d' = real n / real d * 2 ^ k" and d': "0 < d'"
    using scale_ratio [OF s] nd by (simp_all add: ek power_int_minus field_simps)
  obtain j where j: "k = 20 + Suc j" using ek(2) by (intro that [of "k - 21"]) simp
  have two: "(2::real) ^ k = 2 ^ 20 * 2 ^ (k - 20)" "(2::real) ^ (k - 20) \<ge> 2"
    unfolding j power_add by (simp_all add: one_le_power)
  have lo: "real q * 2 ^ k \<le> real n' / real d'" unfolding x using q(1) by (intro mult_right_mono) simp_all
  have "(real n / real d + 1 / 2 ^ 20) * 2 ^ k \<le> (real q + 1) * 2 ^ k" using q(2) by (intro mult_right_mono) simp_all
  then have hi: "real n' / real d' + 2 ^ (k - 20) \<le> (real q + 1) * 2 ^ k"
    unfolding x two(1) by (simp add: algebra_simps)
  have "real q * 2 ^ k \<le> real m + 1 / 2" "real m + 1 \<le> (real q + 1) * 2 ^ k"
    using round_half_even_bound [OF d', of n'] lo hi two(2) unfolding m_def abs_le_iff by linarith+
  then have "real (q * 2 ^ k) < real (Suc m)" "real (Suc m) \<le> real ((q + 1) * 2 ^ k)" by (simp_all add: algebra_simps)
  then have mq: "q * 2 ^ k \<le> m" "m < (q + 1) * 2 ^ k" by (simp_all only: of_nat_less_iff of_nat_le_iff less_Suc_eq_le Suc_le_eq)
  then have div: "m div 2 ^ k = q" by (intro div_nat_eqI) (simp_all add: mult.commute)
  have v: "v = (if m = 2 ^ 53 then Finite neg (2 ^ 52) (e + 1) else Finite neg m e)"
    using r False e unfolding round_to_double_def e_def [symmetric] s
    by (auto simp: Let_def s m_def split: if_splits simp del: power_numeral)
  show ?thesis
  proof (cases "m = 2 ^ 53")
    case True
    have n: "nat (int k - 1) = k - 1" using ek(2) by simp
    have "(2::nat) ^ 53 = 2 * 2 ^ 52" "(2::nat) ^ k = 2 * 2 ^ (k - 1)"
      using j by (simp_all only: power_Suc [symmetric]) simp_all
    then have "2 ^ 52 div (2::nat) ^ (k - 1) = q" using div True by (metis div_mult_mult1 zero_neq_numeral)
    then show ?thesis using True q(3) ek n by (simp add: v Let_def del: power_numeral)
  next
    case False
    then show ?thesis using div q(3) ek by (simp add: v Let_def del: power_numeral)
  qed
qed

lemma mag_pos: "mag m e = (n, d) \<Longrightarrow> 0 < d"
  by (auto simp: mag_def split: if_splits)

lemma double_of_int_mag:
  assumes "x < 2 ^ 52"
  obtains m e n d where "double_of_int (int x) = Finite False m e" "mag m e = (n, d)" "0 < d"
    "real n / real d = real x" "m = 0 \<longleftrightarrow> x = 0" "n = 0 \<longleftrightarrow> x = 0"
proof (cases "x = 0")
  case True
  have "double_of_int (int x) = Finite False 0 (- 1074)" using True by (simp add: double_of_int_def round_to_double_def)
  moreover obtain D where D: "mag 0 (- 1074) = (0, D)" by (simp add: mag_def del: power_numeral)
  moreover have "0 < D" using D by (rule mag_pos)
  ultimately show thesis using True by (intro that [of 0 "- 1074" 0 D]) simp_all
next
  case False
  then have x: "0 < x" by simp
  note d = double_of_int_pos [OF x assms]
  have "real (x * 2 ^ (52 - ilog 2 x)) / real (2 ^ (52 - ilog 2 x)) = real x" by simp
  then show thesis
    using d(1,2) x
    by (intro that [of "x * 2 ^ (52 - ilog 2 x)" "int (ilog 2 x) - 52" "x * 2 ^ (52 - ilog 2 x)" "2 ^ (52 - ilog 2 x)"])
      (auto simp: double_of_int_def mag_def nat_diff_distrib simp del: power_numeral)
qed

text \<open>Dividing a \<open>uint32_t\<close> by a small number in floating point and truncating is integer division.\<close>

lemma ddiv_truncates:
  assumes "x < 2 ^ 32" "0 < c" "c < 2 ^ 20"
  shows "uint32_of_double (ddiv (double_of_int (int x)) (double_of_int (int c))) = Inr (x div c)"
proof -
  have "x < 2 ^ 52" "c < 2 ^ 52" using assms by simp_all
  then obtain m e n d m' e' n' d' where x: "double_of_int (int x) = Finite False m e" "mag m e = (n, d)" "0 < d" "real n / real d = real x"
    and c: "double_of_int (int c) = Finite False m' e'" "mag m' e' = (n', d')" "0 < d'" "real n' / real d' = real c" "m' \<noteq> 0" "n' \<noteq> 0"
    using double_of_int_mag [of x] double_of_int_mag [of c] assms(2) by (metis neq0_conv)
  have r: "real (n * d') / real (d * n') = real x / real c"
    using x(4) c(4) by (metis divide_divide_times_eq of_nat_mult)
  obtain v er where v: "round_to_double False (n * d') (d * n') = (v, er)" by fastforce
  have "real x = real (x div c) * real c + real (x mod c)" by (metis div_mult_mod_eq of_nat_add of_nat_mult)
  then have q: "real x / real c = real (x div c) + real (x mod c) / real c" using assms(2) by (simp add: field_simps)
  have "real (x mod c) + 1 \<le> real c" using assms(2) by (metis Suc_leI mod_less_divisor of_nat_Suc of_nat_le_iff add.commute)
  moreover have "real c / 2 ^ 20 < 1" using assms(3) by simp
  ultimately have "real (x mod c) / real c + 1 / 2 ^ 20 \<le> 1" using assms(2) by (simp add: field_simps)
  moreover have "x div c < 2 ^ 32" using assms(1) by (meson div_le_dividend le_less_trans)
  ultimately have "uint32_of_double v = Inr (x div c)"
    using round_truncates [OF _ v, of "x div c"] r q x(3) c(6) by simp
  then show ?thesis using x c v by simp
qed
end
