(* ===== verification/Spectrum.thy ===== *)
theory Spectrum
  imports Cpp_Double
begin

text \<open>
  \<^verbatim>\<open>demo/chaincode/fpc\<close>: the clock auction for radio spectrum. Bidders demand channels (licenses) of
  territories in rounds; prices rise while demand exceeds supply, then channels are assigned at
  random. \<^verbatim>\<open>auction-state.cpp\<close> has the state and the bookkeeping of rounds and bids, \<^verbatim>\<open>bid.cpp\<close> bids
  and their order, \<^verbatim>\<open>evaluate.cpp\<close> the processing of a round, \<^verbatim>\<open>spectrum-auction.cpp\<close> the
  transactions. A transaction is modelled from the loaded state on: its guards in their order and
  the new state it stores; the JSON messages and the storage around it are not part of this theory.

  A \<open>uint32_t\<close> is a natural number and an \<open>int32_t\<close> an integer, wrapped by \<open>u32\<close> and \<open>i32\<close> after every
  operation that can leave the range; sizes of vectors are not bounded. A subscript outside a
  vector is a failure, as is a subscript \<open>-1\<close> that a failed search returned. The random bytes of
  the SGX SDK, with the status of each call, and the unspecified result of \<open>lround\<close> on values that
  do not fit are the arguments \<open>env\<close>.
\<close>

section \<open>Integers and vectors\<close>

definition u32 :: "int \<Rightarrow> nat" where
  "u32 x = nat (x mod 2 ^ 32)"

definition i32 :: "int \<Rightarrow> int" where
  "i32 x = (x + 2 ^ 31) mod 2 ^ 32 - 2 ^ 31"

text \<open>A subscript of type \<open>int32_t\<close>.\<close>

definition index_i :: "'a list \<Rightarrow> int \<Rightarrow> 'a run" where
  "index_i xs i = (if i < 0 then Inl OutOfBounds else index xs (nat i))"

definition index_set_i :: "'a list \<Rightarrow> int \<Rightarrow> 'a \<Rightarrow> 'a list run" where
  "index_set_i xs i x = (if i < 0 then Inl OutOfBounds else index_set xs (nat i) x)"

definition index2 :: "'a list list \<Rightarrow> nat \<Rightarrow> nat \<Rightarrow> 'a run" where
  "index2 xss i j = run_bind (index xss i) (\<lambda>xs. index xs j)"

definition index_set2 :: "'a list list \<Rightarrow> nat \<Rightarrow> nat \<Rightarrow> 'a \<Rightarrow> 'a list list run" where
  "index_set2 xss i j x = run_bind (index xss i) (\<lambda>xs. run_bind (index_set xs j x) (index_set xss i))"

definition resize :: "nat \<Rightarrow> 'a \<Rightarrow> 'a list \<Rightarrow> 'a list" where
  "resize n x xs = take n xs @ replicate (n - length xs) x"

text \<open>The index of the first element that satisfies a condition, \<open>-1\<close> if there is none.\<close>

fun first_index :: "('a \<Rightarrow> bool) \<Rightarrow> nat \<Rightarrow> 'a list \<Rightarrow> int" where
  "first_index P i [] = - 1"
| "first_index P i (x # xs) = (if P x then int i else first_index P (Suc i) xs)"

text \<open>\<open>std::set_difference\<close> on sorted ranges.\<close>

fun set_difference :: "nat list \<Rightarrow> nat list \<Rightarrow> nat list" where
  "set_difference [] ys = []"
| "set_difference xs [] = xs"
| "set_difference (x # xs) (y # ys) =
     (if x < y then x # set_difference xs (y # ys)
      else if y < x then set_difference (x # xs) ys
      else set_difference xs ys)"

section \<open>Data\<close>

datatype error_codes_e = EC_UNDEFINED | EC_SUCCESS | EC_ERROR | EC_HIDDEN | EC_BAD_FUNCTION_NAME | EC_INVALID_INPUT
  | EC_MEMORY_ERROR | EC_SHORT_RESPONSE_BUFFER | EC_BAD_PARAMETERS | EC_AUCTION_RELATED_CODES | EC_ROUND_ACTIVE
  | EC_RESTRICTED_AUCTION_STATE | EC_NOT_IN_CLOCK_PHASE | EC_NOT_IN_ASSIGNMENT_PHASE | EC_ROUND_NOT_CURRENT
  | EC_UNRECOGNIZED_TERRITORY | EC_UNAVAILABLE_QUANTITY | EC_DUPLICATE_TERRITORIES | EC_PRICE_OUT_OF_RANGE
  | EC_ROUND_NOT_ACTIVE | EC_NOT_ENOUGH_ELIGIBILITY | EC_TOO_MUCH_DEMAND | EC_UNRECOGNIZED_SUBMITTER
  | EC_BELOW_POSTED_PRICE | EC_ABOVE_CLOCK_PRICE | EC_EVALUATION_ERROR | EC_UNIMPLEMENTED_API

datatype auction_state_e = STATE_UNDEFINED | CLOCK_PHASE | ASSIGNMENT_PHASE | FSR_FAILED | CLOSED

record Principal =
  mspId :: string
  dn :: string

definition principal_eq :: "Principal \<Rightarrow> Principal \<Rightarrow> bool" where
  "principal_eq p1 p2 = (dn p1 = dn p2 \<and> mspId p1 = mspId p2)"

record Channel =
  chan_id :: nat
  chan_name :: string
  impairment :: nat

record Territory =
  ter_id :: nat
  ter_name :: string
  isHighDemand :: bool
  minPrice :: double
  channels :: "Channel list"

definition numberOfChannels :: "Territory \<Rightarrow> nat" where
  "numberOfChannels t = length (channels t)"

definition getChannelImpairments :: "Territory \<Rightarrow> nat list" where
  "getChannelImpairments t = map impairment (channels t)"

record Bidder =
  bidder_id :: nat
  displayName :: string
  bidder_principal :: Principal

definition matchPrincipal :: "Bidder \<Rightarrow> Principal \<Rightarrow> bool" where
  "matchPrincipal b p = principal_eq p (bidder_principal b)"

record Eligibility =
  elig_bidderId :: nat
  elig_number :: nat

definition matchBidderId :: "Eligibility \<Rightarrow> nat \<Rightarrow> bool" where
  "matchBidderId e i = (i = elig_bidderId e)"

record Demand =
  territoryId :: nat
  quantity :: nat
  price :: double

record Bid =
  auctionId :: nat
  bid_round :: nat
  demands :: "Demand list"

definition sumQuantityDemands :: "Bid \<Rightarrow> nat" where
  "sumQuantityDemands b = foldl (\<lambda>total x. u32 (int total + int (quantity x))) 0 (demands b)"

definition getDemandedTerritoryIds :: "Bid \<Rightarrow> nat list" where
  "getDemandedTerritoryIds b = map territoryId (demands b)"

text \<open>A bid in a vector that was resized: value-initialised.\<close>

definition no_bid :: Bid where
  "no_bid = \<lparr>auctionId = 0, bid_round = 0, demands = []\<rparr>"

record enqueuedBid =
  bidderIndex :: nat
  territoryIndex :: nat
  demand :: Demand
  pricePoint :: nat
  randomValue :: nat

definition compareByDecreasingPricePoint :: "enqueuedBid \<Rightarrow> enqueuedBid \<Rightarrow> bool" where
  "compareByDecreasingPricePoint b1 b2 =
     (if pricePoint b2 < pricePoint b1 then True
      else if pricePoint b1 < pricePoint b2 then False
      else randomValue b2 < randomValue b1)"

definition compareByIncreasingPricePoint :: "enqueuedBid \<Rightarrow> enqueuedBid \<Rightarrow> bool" where
  "compareByIncreasingPricePoint b1 b2 = (\<not> compareByDecreasingPricePoint b1 b2)"

section \<open>The static state\<close>

record StaticAuctionState =
  owner :: Principal
  auction_name :: string
  territories :: "Territory list"
  bidders :: "Bidder list"
  initialEligibilities :: "Eligibility list"
  activityRequirementPercentage :: nat
  clockPriceIncrementPercentage :: nat

definition checkValidity :: "StaticAuctionState \<Rightarrow> bool" where
  "checkValidity s =
     (auction_name s \<noteq> [] \<and> territories s \<noteq> [] \<and>
      list_all (\<lambda>t. list_all (\<lambda>i. i \<le> 100) (getChannelImpairments t)) (territories s) \<and>
      bidders s \<noteq> [] \<and> initialEligibilities s \<noteq> [] \<and>
      length (bidders s) = length (initialEligibilities s) \<and>
      activityRequirementPercentage s \<le> 100 \<and> clockPriceIncrementPercentage s \<le> 100)"

definition isTerritoryIdValid :: "StaticAuctionState \<Rightarrow> nat \<Rightarrow> bool" where
  "isTerritoryIdValid s checkId = list_ex (\<lambda>t. checkId = ter_id t) (territories s)"

definition getTerritory :: "StaticAuctionState \<Rightarrow> nat \<Rightarrow> Territory option" where
  "getTerritory s i = find (\<lambda>t. ter_id t = i) (territories s)"

definition getTerritoryIndex :: "StaticAuctionState \<Rightarrow> nat \<Rightarrow> int" where
  "getTerritoryIndex s i = first_index (\<lambda>t. ter_id t = i) 0 (territories s)"

definition getTerritoryIds :: "StaticAuctionState \<Rightarrow> nat list" where
  "getTerritoryIds s = map ter_id (territories s)"

definition getSupply :: "StaticAuctionState \<Rightarrow> nat list" where
  "getSupply s = map numberOfChannels (territories s)"

definition getHighDemandVector :: "StaticAuctionState \<Rightarrow> bool list" where
  "getHighDemandVector s = map isHighDemand (territories s)"

definition isPrincipalOwner :: "StaticAuctionState \<Rightarrow> Principal \<Rightarrow> bool" where
  "isPrincipalOwner s p = principal_eq p (owner s)"

definition fromPrincipalToBidderId :: "StaticAuctionState \<Rightarrow> Principal \<Rightarrow> nat" where
  "fromPrincipalToBidderId s p =
     (case find (\<lambda>b. matchPrincipal b p) (bidders s) of Some b \<Rightarrow> bidder_id b | None \<Rightarrow> 0)"

definition isPrincipalBidder :: "StaticAuctionState \<Rightarrow> Principal \<Rightarrow> bool" where
  "isPrincipalBidder s p = (fromPrincipalToBidderId s p \<noteq> 0)"

definition fromBidderIdToBidderIndex :: "StaticAuctionState \<Rightarrow> nat \<Rightarrow> int" where
  "fromBidderIdToBidderIndex s i = first_index (\<lambda>b. bidder_id b = i) 0 (bidders s)"

definition fromBidderIndexToBidderId :: "StaticAuctionState \<Rightarrow> nat \<Rightarrow> nat run" where
  "fromBidderIndexToBidderId s i = run_bind (index (bidders s) i) (\<lambda>b. Inr (bidder_id b))"

text \<open>The next two functions return nothing when the search fails, which is undefined.\<close>

definition fromBidderIdToPrincipal :: "StaticAuctionState \<Rightarrow> nat \<Rightarrow> Principal run" where
  "fromBidderIdToPrincipal s i =
     (case find (\<lambda>b. bidder_id b = i) (bidders s) of Some b \<Rightarrow> Inr (bidder_principal b) | None \<Rightarrow> Inl Undefined)"

definition getEligibilityNumber :: "StaticAuctionState \<Rightarrow> nat \<Rightarrow> nat run" where
  "getEligibilityNumber s i =
     (case find (\<lambda>e. matchBidderId e i) (initialEligibilities s) of Some e \<Rightarrow> Inr (elig_number e) | None \<Rightarrow> Inl Undefined)"

definition getInitialPrices :: "StaticAuctionState \<Rightarrow> double list" where
  "getInitialPrices s = map minPrice (territories s)"

definition getInitialEligibilities :: "StaticAuctionState \<Rightarrow> nat list" where
  "getInitialEligibilities s = map elig_number (initialEligibilities s)"

definition getBiddersN :: "StaticAuctionState \<Rightarrow> nat" where
  "getBiddersN s = length (bidders s)"

definition getTerritoryN :: "StaticAuctionState \<Rightarrow> nat" where
  "getTerritoryN s = length (territories s)"

section \<open>The dynamic state\<close>

text \<open>Prices, eligibilities, bids, excess demand and licenses are indexed by round first; the entry of
  round 0 is a dummy except for the posted prices.\<close>

record DynamicAuctionState =
  auctionState :: auction_state_e
  clockRound :: nat
  roundActive :: bool
  submitterPrincipal :: Principal
  postedPrice :: "double list list"
  clockPrice :: "double list list"
  eligibility :: "nat list list"
  clockBids :: "Bid list list"
  excessDemand :: "int list list"
  processedLicenses :: "nat list list list"
  winAssign :: "int list list"
  assignCost :: "double list list"
  channelPrice :: "double list list"
  er :: error_codes_e

definition priceFactor :: "StaticAuctionState \<Rightarrow> double" where
  "priceFactor s =
     dadd (double_of_int 1) (ddiv (double_of_int (int (clockPriceIncrementPercentage s))) (double_of_int 100))"

text \<open>\<open>initialize\<close> on a state just constructed: all vectors empty.\<close>

definition initialize :: "auction_state_e \<Rightarrow> nat \<Rightarrow> bool \<Rightarrow> StaticAuctionState \<Rightarrow> DynamicAuctionState \<Rightarrow>
    (StaticAuctionState \<times> DynamicAuctionState) run" where
  "initialize st rnd active s d =
     (let s' = s\<lparr>owner := submitterPrincipal d\<rparr>;
          initialPrices = getInitialPrices s';
          posted = (resize 2 [] (postedPrice d))[0 := initialPrices];
          posted' = posted[1 := resize (length initialPrices) dzero (posted ! 1)];
          clock = resize 1 [] (clockPrice d) @ [posted' ! 0]
      in run_bind (index clock rnd) (\<lambda>row.
           Inr (s', d\<lparr>auctionState := st, clockRound := rnd, roundActive := active,
             postedPrice := posted',
             clockPrice := clock[rnd := map (\<lambda>p. dmul p (priceFactor s')) row],
             eligibility := resize 1 [] (eligibility d) @ [getInitialEligibilities s'],
             clockBids := resize 1 [] (clockBids d),
             processedLicenses := resize 1 [] (processedLicenses d),
             excessDemand := resize 1 [] (excessDemand d)\<rparr>)))"

definition isStateClockPhase :: "DynamicAuctionState \<Rightarrow> bool" where
  "isStateClockPhase d = (auctionState d = CLOCK_PHASE)"

definition isStateAssignmentPhase :: "DynamicAuctionState \<Rightarrow> bool" where
  "isStateAssignmentPhase d = (auctionState d = ASSIGNMENT_PHASE)"

definition isStateClosedPhase :: "DynamicAuctionState \<Rightarrow> bool" where
  "isStateClosedPhase d = (auctionState d = CLOSED)"

definition isLastClockRound :: "DynamicAuctionState \<Rightarrow> nat \<Rightarrow> bool" where
  "isLastClockRound d r = (r = clockRound d \<and> (isStateAssignmentPhase d \<or> isStateClosedPhase d))"

definition startRound :: "StaticAuctionState \<Rightarrow> DynamicAuctionState \<Rightarrow> DynamicAuctionState run" where
  "startRound s d =
     run_bind
       (if isStateClockPhase d \<and> length (clockBids d) < u32 (int (clockRound d) + 1)
        then let bids = resize (length (clockBids d) + 1) [] (clockBids d)
             in run_bind (index bids (clockRound d)) (\<lambda>row. index_set bids (clockRound d) (resize (getBiddersN s) no_bid row))
        else Inr (clockBids d))
       (\<lambda>bids. Inr (d\<lparr>clockBids := bids, roundActive := True\<rparr>))"

definition endRound :: "DynamicAuctionState \<Rightarrow> DynamicAuctionState" where
  "endRound d = d\<lparr>roundActive := False\<rparr>"

definition endRoundAndAdvance :: "DynamicAuctionState \<Rightarrow> DynamicAuctionState" where
  "endRoundAndAdvance d = (endRound d)\<lparr>clockRound := u32 (int (clockRound d) + 1)\<rparr>"

definition closeAuctionState :: "DynamicAuctionState \<Rightarrow> DynamicAuctionState" where
  "closeAuctionState d = d\<lparr>auctionState := CLOSED\<rparr>"

definition isValidBidder :: "StaticAuctionState \<Rightarrow> DynamicAuctionState \<Rightarrow> bool" where
  "isValidBidder s d = (fromPrincipalToBidderId s (submitterPrincipal d) \<noteq> 0)"

definition isValidOwner :: "StaticAuctionState \<Rightarrow> DynamicAuctionState \<Rightarrow> bool" where
  "isValidOwner s d = isPrincipalOwner s (submitterPrincipal d)"

section \<open>Bids\<close>

text \<open>The checks of one demand after the other; the result is the error, if any.\<close>

fun check_demands :: "StaticAuctionState \<Rightarrow> DynamicAuctionState \<Rightarrow> Bid \<Rightarrow> nat list \<Rightarrow> Demand list \<Rightarrow> error_codes_e option run" where
  "check_demands s d b seen [] = Inr None"
| "check_demands s d b seen (x # xs) =
     (let tIndex = getTerritoryIndex s (territoryId x)
      in case getTerritory s (territoryId x) of
        None \<Rightarrow> Inr (Some EC_UNRECOGNIZED_TERRITORY)
      | Some t \<Rightarrow>
          if tIndex = - 1 then Inr (Some EC_UNRECOGNIZED_TERRITORY)
          else if territoryId x \<in> set seen then Inr (Some EC_DUPLICATE_TERRITORIES)
          else if numberOfChannels t < quantity x then Inr (Some EC_TOO_MUCH_DEMAND)
          else if clockRound d = 1
          then run_bind (getEligibilityNumber s (fromPrincipalToBidderId s (submitterPrincipal d))) (\<lambda>elig.
                 if elig < sumQuantityDemands b then Inr (Some EC_NOT_ENOUGH_ELIGIBILITY)
                 else check_demands s d b (territoryId x # seen) xs)
          else run_bind (index (postedPrice d) (u32 (int (clockRound d) - 1))) (\<lambda>posted.
               run_bind (index_i posted tIndex) (\<lambda>low.
                 if dless (price x) low then Inr (Some EC_BELOW_POSTED_PRICE)
                 else run_bind (index (clockPrice d) (clockRound d)) (\<lambda>clock.
                      run_bind (index_i clock tIndex) (\<lambda>high.
                        if dless high (price x) then Inr (Some EC_ABOVE_CLOCK_PRICE)
                        else check_demands s d b (territoryId x # seen) xs)))))"

definition isValidBid :: "StaticAuctionState \<Rightarrow> DynamicAuctionState \<Rightarrow> Bid \<Rightarrow> error_codes_e option run" where
  "isValidBid s d b =
     (if \<not> isValidBidder s d then Inr (Some EC_UNRECOGNIZED_SUBMITTER)
      else if clockRound d \<noteq> bid_round b then Inr (Some EC_ROUND_NOT_CURRENT)
      else if \<not> roundActive d then Inr (Some EC_ROUND_NOT_ACTIVE)
      else check_demands s d b [] (demands b))"

definition storeBid :: "StaticAuctionState \<Rightarrow> DynamicAuctionState \<Rightarrow> Bid \<Rightarrow> DynamicAuctionState run" where
  "storeBid s d b =
     (let i = fromBidderIdToBidderIndex s (fromPrincipalToBidderId s (submitterPrincipal d))
      in run_bind (index (clockBids d) (clockRound d)) (\<lambda>row.
         run_bind (index_set_i row i b) (\<lambda>row'.
         run_bind (index_set (clockBids d) (clockRound d) row') (\<lambda>bids.
           Inr (d\<lparr>clockBids := bids\<rparr>)))))"

text \<open>A demand for nothing at the posted price for every territory that a bid does not mention.\<close>

definition fill_demand :: "StaticAuctionState \<Rightarrow> DynamicAuctionState \<Rightarrow> nat \<Rightarrow> Demand list \<Rightarrow> Demand list run" where
  "fill_demand s d i ds =
     run_bind (index (postedPrice d) (u32 (int (clockRound d) - 1))) (\<lambda>posted.
     run_bind (index_i posted (getTerritoryIndex s i)) (\<lambda>p.
       Inr (ds @ [\<lparr>territoryId = i, quantity = 0, price = p\<rparr>])))"

definition fill_bid :: "StaticAuctionState \<Rightarrow> nat \<Rightarrow> DynamicAuctionState \<Rightarrow> nat \<Rightarrow> Bid list list \<Rightarrow> Bid list list run" where
  "fill_bid s a d i bids =
     run_bind (index2 bids (clockRound d) i) (\<lambda>b.
     run_bind (run_fold (fill_demand s d) (set_difference (sort (getTerritoryIds s)) (sort (getDemandedTerritoryIds b))) (demands b)) (\<lambda>ds.
       index_set2 bids (clockRound d) i (b\<lparr>auctionId := a, bid_round := clockRound d, demands := ds\<rparr>)))"

definition fillMissingBids :: "StaticAuctionState \<Rightarrow> nat \<Rightarrow> DynamicAuctionState \<Rightarrow> DynamicAuctionState run" where
  "fillMissingBids s a d =
     run_bind (run_fold (fill_bid s a d) [0..<getBiddersN s] (clockBids d)) (\<lambda>bids. Inr (d\<lparr>clockBids := bids\<rparr>))"

section \<open>Processing the bids of a round\<close>

record evaluation =
  read_rand :: "nat \<Rightarrow> int \<times> string"
  unspecified_long :: int

definition get_random_bytes :: "evaluation \<Rightarrow> nat \<Rightarrow> int \<times> string" where
  "get_random_bytes env k = read_rand env k"

text \<open>Four bytes in memory as a \<open>uint32_t\<close> of the little-endian machine.\<close>

definition bytes_u32 :: "string \<Rightarrow> nat" where
  "bytes_u32 bs = foldr (\<lambda>c a. byte c + 256 * a) (take 4 bs) 0"

definition processBidsPreamble :: "DynamicAuctionState \<Rightarrow> DynamicAuctionState" where
  "processBidsPreamble d = d\<lparr>er := EC_SUCCESS\<rparr>"

subsection \<open>The first round\<close>

definition set_license :: "StaticAuctionState \<Rightarrow> Demand \<Rightarrow> nat list \<Rightarrow> nat list run" where
  "set_license s x row = index_set_i row (getTerritoryIndex s (territoryId x)) (quantity x)"

definition bidder_licenses :: "StaticAuctionState \<Rightarrow> Bid list list \<Rightarrow> nat \<Rightarrow> nat list list \<Rightarrow> nat list list run" where
  "bidder_licenses s bids i rows =
     run_bind (index rows i) (\<lambda>row.
     run_bind (index2 bids 1 i) (\<lambda>b.
     run_bind (run_fold (set_license s) (demands b) (resize (getTerritoryN s) 0 row)) (\<lambda>row'.
       index_set rows i row')))"

definition processInitialRoundBids :: "StaticAuctionState \<Rightarrow> nat \<Rightarrow> DynamicAuctionState \<Rightarrow> DynamicAuctionState run" where
  "processInitialRoundBids s a d =
     run_bind (fillMissingBids s a d) (\<lambda>d1.
       let lics = resize 2 [] (processedLicenses d1)
       in run_bind (run_fold (bidder_licenses s (clockBids d1)) [0..<getBiddersN s] (resize (getBiddersN s) [] (lics ! 1))) (\<lambda>rows.
            Inr (d1\<lparr>processedLicenses := lics[1 := rows],
                 postedPrice := (resize 2 [] (postedPrice d1))[1 := getInitialPrices s]\<rparr>)))"

subsection \<open>Later rounds\<close>

definition round_posted_price :: "DynamicAuctionState \<Rightarrow> nat \<Rightarrow> double list list \<Rightarrow> double list list run" where
  "round_posted_price d i posted =
     (let r = clockRound d; r' = u32 (int r - 1)
      in run_bind (index2 (excessDemand d) r' i) (\<lambda>e.
         run_bind (if 0 < e then index2 (clockPrice d) r i else index2 posted r' i) (\<lambda>p.
           index_set2 posted r i p)))"

text \<open>One demand of a bidder is queued unless it keeps the licenses of the previous round. The state is
  the queue, the number of random values drawn, and whether all of them were delivered; the first
  failure ends the function.\<close>

definition enqueue_demand :: "evaluation \<Rightarrow> StaticAuctionState \<Rightarrow> DynamicAuctionState \<Rightarrow> nat \<Rightarrow> Demand \<Rightarrow>
    enqueuedBid list \<times> nat \<times> bool \<Rightarrow> (enqueuedBid list \<times> nat \<times> bool) run" where
  "enqueue_demand env s d i x st =
     (case st of (queue, k, ok) \<Rightarrow>
       if \<not> ok then Inr st
       else let r = clockRound d; r' = u32 (int r - 1); ti = u32 (getTerritoryIndex s (territoryId x))
       in run_bind (index (processedLicenses d) r') (\<lambda>lics.
          run_bind (index2 lics i ti) (\<lambda>processedDemand.
            if processedDemand = quantity x then Inr st
            else run_bind (index2 (postedPrice d) r' ti) (\<lambda>low.
                 run_bind (index2 (clockPrice d) r ti) (\<lambda>clock.
                   let pp = dmul (ddiv (dsub (price x) low) (dsub clock low)) (double_of_int 100);
                       point = u32 (lround (unspecified_long env) pp)
                   in case get_random_bytes env k of (status, bs) \<Rightarrow>
                     if status \<noteq> 0 then Inr (queue, Suc k, False)
                     else Inr (queue @ [\<lparr>bidderIndex = i, territoryIndex = ti, demand = x, pricePoint = point,
                                 randomValue = bytes_u32 bs\<rparr>], Suc k, True))))))"

definition enqueue_bidder :: "evaluation \<Rightarrow> StaticAuctionState \<Rightarrow> DynamicAuctionState \<Rightarrow> nat \<Rightarrow>
    enqueuedBid list \<times> nat \<times> bool \<Rightarrow> (enqueuedBid list \<times> nat \<times> bool) run" where
  "enqueue_bidder env s d i st =
     (if \<not> snd (snd st) then Inr st
      else run_bind (index2 (clockBids d) (clockRound d) i) (\<lambda>b.
           run_fold (enqueue_demand env s d i) (rev (demands b)) st))"

text \<open>\<open>std::list::sort\<close>: an element is inserted before those it compares true with.\<close>

fun insert_bid :: "enqueuedBid \<Rightarrow> enqueuedBid list \<Rightarrow> enqueuedBid list" where
  "insert_bid x [] = [x]"
| "insert_bid x (y # ys) = (if compareByIncreasingPricePoint x y then x # y # ys else y # insert_bid x ys)"

definition sort_bids :: "enqueuedBid list \<Rightarrow> enqueuedBid list" where
  "sort_bids bs = foldl (\<lambda>sorted x. insert_bid x sorted) [] bs"

text \<open>What a queued bid can change: the licenses and the excess demand of the round, the eligibility a
  bidder has left, the posted prices of the round.\<close>

record bidding =
  licenses :: "nat list list"
  excess :: "int list"
  eligibilityCap :: "nat list"
  posted :: "double list"

text \<open>One pass of the loop body: nothing when the bid is skipped, else the new state and whether the bid
  was applied completely.\<close>

definition apply_bid :: "double list \<Rightarrow> enqueuedBid \<Rightarrow> bidding \<Rightarrow> (bidding \<times> bool) option run" where
  "apply_bid clock eb st =
     (let bi = bidderIndex eb; ti = territoryIndex eb; demandedQuantity = quantity (demand eb)
      in run_bind (index2 (licenses st) bi ti) (\<lambda>ownedQuantity.
         if ownedQuantity < demandedQuantity
         then run_bind (index (eligibilityCap st) bi) (\<lambda>cap.
                if cap = 0 then Inr None
                else let delta = demandedQuantity - ownedQuantity; processable = (if delta \<le> cap then delta else cap)
                in run_bind (index_set2 (licenses st) bi ti (u32 (int ownedQuantity + int processable))) (\<lambda>lics.
                   run_bind (index (excess st) ti) (\<lambda>e.
                     let e' = i32 (e + int processable)
                     in run_bind (if u32 (e' - int processable) = 0
                                  then run_bind (index clock ti) (index_set (posted st) ti) else Inr (posted st)) (\<lambda>prices.
                          Inr (Some (\<lparr>licenses = lics, excess = (excess st)[ti := e'],
                            eligibilityCap = (eligibilityCap st)[bi := cap - processable], posted = prices\<rparr>,
                            processable = delta))))))
         else run_bind (index (excess st) ti) (\<lambda>e.
                if e \<le> 0 then Inr None
                else let delta = ownedQuantity - demandedQuantity; processable = (if int delta \<le> e then delta else nat e)
                in run_bind (index_set2 (licenses st) bi ti (ownedQuantity - processable)) (\<lambda>lics.
                   run_bind (index (eligibilityCap st) bi) (\<lambda>cap.
                     let e' = e - int processable
                     in run_bind (if e' = 0 then index_set (posted st) ti (price (demand eb)) else Inr (posted st)) (\<lambda>prices.
                          Inr (Some (\<lparr>licenses = lics, excess = (excess st)[ti := e'],
                            eligibilityCap = (eligibilityCap st)[bi := u32 (int cap + int processable)], posted = prices\<rparr>,
                            processable = delta))))))))"

text \<open>The loop over the queue, with its iterator as a position; it starts again after every bid that was
  applied. The loop may not end: then its value is \<open>None\<close>.\<close>

partial_function (option) process_bids :: "double list \<Rightarrow> enqueuedBid list \<Rightarrow> nat \<Rightarrow> bidding \<Rightarrow> bidding run option" where
  "process_bids clock queue it st =
     (if length queue \<le> it then Some (Inr st)
      else case apply_bid clock (queue ! it) st of
        Inl e \<Rightarrow> Some (Inl e)
      | Inr None \<Rightarrow> process_bids clock queue (Suc it) st
      | Inr (Some (st', fullyAppliedBid)) \<Rightarrow>
          process_bids clock (if fullyAppliedBid then take it queue @ drop (Suc it) queue else queue) 0 st')"

definition eligibility_left :: "nat list list \<Rightarrow> nat \<Rightarrow> nat list \<Rightarrow> nat list run" where
  "eligibility_left lics i caps =
     run_bind (index lics i) (\<lambda>row.
     run_bind (index caps i) (\<lambda>cap. index_set caps i (u32 (int cap - int (sum_list row)))))"

definition process_queue :: "StaticAuctionState \<Rightarrow> enqueuedBid list \<Rightarrow> DynamicAuctionState \<Rightarrow> DynamicAuctionState run" where
  "process_queue s queue d =
     (let r = clockRound d; r' = u32 (int r - 1)
      in run_bind (index (processedLicenses d) r') (\<lambda>old.
         let lics = processedLicenses d @ [old]
         in run_bind (index (eligibility d) r) (\<lambda>elig.
            run_bind (run_fold (eligibility_left old) [0..<getBiddersN s] elig) (\<lambda>caps.
            run_bind (index (excessDemand d) r') (\<lambda>olde.
            let exs = excessDemand d @ [olde]
            in if queue = [] then Inr (d\<lparr>processedLicenses := lics, excessDemand := exs\<rparr>)
            else run_bind (index lics r) (\<lambda>rows.
            run_bind (index exs r) (\<lambda>e.
            run_bind (index (postedPrice d) r) (\<lambda>prices.
            run_bind (index (clockPrice d) r) (\<lambda>clock.
              case process_bids clock queue 0 \<lparr>licenses = rows, excess = e, eligibilityCap = caps, posted = prices\<rparr> of
                None \<Rightarrow> Inl Diverges
              | Some (Inl f) \<Rightarrow> Inl f
              | Some (Inr st) \<Rightarrow>
                  Inr (d\<lparr>processedLicenses := lics[r := licenses st], excessDemand := exs[r := excess st],
                       postedPrice := (postedPrice d)[r := posted st]\<rparr>))))))))))"

definition processRegularRoundBids :: "evaluation \<Rightarrow> StaticAuctionState \<Rightarrow> nat \<Rightarrow> DynamicAuctionState \<Rightarrow> (DynamicAuctionState \<times> nat) run" where
  "processRegularRoundBids env s a d =
     run_bind (fillMissingBids s a d) (\<lambda>d1.
     run_bind (run_fold (round_posted_price d1) [0..<getTerritoryN s] (postedPrice d1 @ [replicate (getTerritoryN s) dzero])) (\<lambda>prices.
       let d2 = d1\<lparr>postedPrice := prices\<rparr>
       in run_bind (run_fold (enqueue_bidder env s d2) [0..<getBiddersN s] ([], 0, True)) (\<lambda>(queue, k, ok).
            if \<not> ok then Inr (d2\<lparr>er := EC_EVALUATION_ERROR\<rparr>, k)
            else run_bind (process_queue s (sort_bids queue) d2) (\<lambda>d3. Inr (d3, k)))))"

subsection \<open>The end of a round\<close>

definition license_at :: "DynamicAuctionState \<Rightarrow> nat \<Rightarrow> nat \<Rightarrow> nat run" where
  "license_at d i j = run_bind (index (processedLicenses d) (clockRound d)) (\<lambda>lics. index2 lics i j)"

definition sum_u32 :: "(nat \<Rightarrow> nat run) \<Rightarrow> nat \<Rightarrow> nat run" where
  "sum_u32 f n = run_fold (\<lambda>j total. run_bind (f j) (\<lambda>q. Inr (u32 (int total + int q)))) [0..<n] 0"

definition new_eligibility :: "StaticAuctionState \<Rightarrow> DynamicAuctionState \<Rightarrow> nat \<Rightarrow> nat run" where
  "new_eligibility s d i =
     run_bind (sum_u32 (license_at d i) (getTerritoryN s)) (\<lambda>processedActivity.
     run_bind (index2 (eligibility d) (clockRound d) i) (\<lambda>e.
     run_bind (uint32_of_double (ddiv (double_of_int (int (u32 (int e * int (activityRequirementPercentage s))))) (double_of_int 100))) (\<lambda>requiredActivity.
       if requiredActivity \<le> processedActivity then Inr e
       else if activityRequirementPercentage s = 0 then Inl Undefined
       else Inr (u32 (int processedActivity * 100) div activityRequirementPercentage s))))"

definition raise_price :: "StaticAuctionState \<Rightarrow> nat \<Rightarrow> double list \<Rightarrow> double list run" where
  "raise_price s j prices = run_bind (index prices j) (\<lambda>p. index_set prices j (dmul p (priceFactor s)))"

definition next_round :: "StaticAuctionState \<Rightarrow> DynamicAuctionState \<Rightarrow> DynamicAuctionState run" where
  "next_round s d =
     run_bind (run_map (new_eligibility s d) [0..<getBiddersN s]) (\<lambda>newRoundEligibility.
     run_bind (index (postedPrice d) (clockRound d)) (\<lambda>prices.
     run_bind (run_fold (raise_price s) [0..<getTerritoryN s] prices) (\<lambda>newRoundClockPrice.
       Inr (d\<lparr>eligibility := eligibility d @ [newRoundEligibility], clockPrice := clockPrice d @ [newRoundClockPrice],
            clockRound := u32 (int (clockRound d) + 1)\<rparr>))))"

text \<open>The final stage rule: no territory of high demand has demand below supply.\<close>

definition final_stage_failed :: "StaticAuctionState \<Rightarrow> int list \<Rightarrow> bool" where
  "final_stage_failed s es = list_ex (\<lambda>(e, h). e < 0 \<and> h) (zip es (getHighDemandVector s))"

definition processBidsPostamble :: "StaticAuctionState \<Rightarrow> DynamicAuctionState \<Rightarrow> DynamicAuctionState run" where
  "processBidsPostamble s d =
     run_bind (run_map (\<lambda>i. sum_u32 (\<lambda>j. license_at d j i) (getBiddersN s)) [0..<getTerritoryN s]) (\<lambda>aggregatedDemand.
       let roundExcessDemand = map2 (\<lambda>a n. i32 (int a - int n)) aggregatedDemand (getSupply s)
       in run_bind (if length (excessDemand d) = clockRound d then Inr (Some (excessDemand d @ [roundExcessDemand]))
                    else run_bind (index (excessDemand d) (clockRound d)) (\<lambda>e.
                           Inr (if e \<noteq> roundExcessDemand then None else Some (excessDemand d)))) (\<lambda>checked.
          case checked of
            None \<Rightarrow> Inr (d\<lparr>er := EC_EVALUATION_ERROR\<rparr>)
          | Some es \<Rightarrow>
              let d1 = d\<lparr>excessDemand := es,
                         auctionState := (if final_stage_failed s roundExcessDemand then FSR_FAILED else auctionState d)\<rparr>
              in if auctionState d1 \<noteq> CLOCK_PHASE then Inr d1
                 else if roundExcessDemand = [] then Inl Undefined
                 else if fold max (tl roundExcessDemand) (hd roundExcessDemand) \<le> 0
                 then Inr (d1\<lparr>auctionState := ASSIGNMENT_PHASE\<rparr>)
                 else next_round s d1))"

definition evaluateClockRound :: "evaluation \<Rightarrow> StaticAuctionState \<Rightarrow> nat \<Rightarrow> DynamicAuctionState \<Rightarrow> (DynamicAuctionState \<times> nat) run" where
  "evaluateClockRound env s a d =
     (let d0 = processBidsPreamble d
      in run_bind (if clockRound d0 = 1 then run_bind (processInitialRoundBids s a d0) (\<lambda>d1. Inr (d1, 0))
                   else processRegularRoundBids env s a d0) (\<lambda>(d1, k).
         run_bind (processBidsPostamble s d1) (\<lambda>d2. Inr (d2, k))))"

section \<open>Assigning channels\<close>

text \<open>One exchange of the shuffle; the state is the vector of channel indexes, the number of random values
  drawn and whether all of them were delivered.\<close>

definition shuffle_step :: "evaluation \<Rightarrow> nat \<Rightarrow> nat \<Rightarrow> nat list \<times> nat \<times> bool \<Rightarrow> (nat list \<times> nat \<times> bool) run" where
  "shuffle_step env channelsN j st =
     (case st of (v, k, ok) \<Rightarrow>
       if \<not> ok then Inr st
       else case get_random_bytes env k of (status, bs) \<Rightarrow>
         if status \<noteq> 0 then Inr (v, Suc k, False)
         else let r = bytes_u32 bs mod channelsN
              in run_bind (index v j) (\<lambda>a.
                 run_bind (index v r) (\<lambda>b.
                 run_bind (index_set v j b) (\<lambda>v'.
                 run_bind (index_set v' r a) (\<lambda>v''. Inr (v'', Suc k, True))))))"

definition shuffle :: "evaluation \<Rightarrow> nat \<Rightarrow> nat \<Rightarrow> (nat list \<times> nat \<times> bool) run" where
  "shuffle env channelsN k = run_fold (shuffle_step env channelsN) [0..<channelsN] ([0..<channelsN], k, True)"

definition channel_price :: "double \<Rightarrow> nat list \<Rightarrow> nat \<Rightarrow> double list \<Rightarrow> double list run" where
  "channel_price p imps j row =
     run_bind (index imps j) (\<lambda>m.
       index_set row j (dmul p (ddiv (dsub (double_of_int 100) (double_of_int (int m))) (double_of_int 100))))"

text \<open>Giving \<open>n\<close> channels to bidder \<open>j\<close>.\<close>

fun give_channels :: "nat list \<Rightarrow> nat \<Rightarrow> nat \<Rightarrow> int list \<times> nat \<Rightarrow> (int list \<times> nat) run" where
  "give_channels perm j 0 st = Inr st"
| "give_channels perm j (Suc n) (row, indexToAssign) =
     run_bind (index perm indexToAssign) (\<lambda>c.
     run_bind (index_set row c (int j)) (\<lambda>row'.
       give_channels perm j n (row', Suc indexToAssign)))"

definition assign_territory :: "evaluation \<Rightarrow> StaticAuctionState \<Rightarrow> nat \<Rightarrow> DynamicAuctionState \<times> nat \<times> bool \<Rightarrow>
    (DynamicAuctionState \<times> nat \<times> bool) run" where
  "assign_territory env s i st =
     (case st of (d, k, ok) \<Rightarrow>
       if \<not> ok then Inr st
       else run_bind (index (getTerritoryIds s) i) (\<lambda>terId.
            run_bind (deref (getTerritory s terId)) (\<lambda>t.
            run_bind (index (winAssign d) i) (\<lambda>win.
            run_bind (index (channelPrice d) i) (\<lambda>prices.
            run_bind (index (assignCost d) i) (\<lambda>costs.
              let channelsN = numberOfChannels t;
                  win0 = resize channelsN (- 1) win;
                  d0 = d\<lparr>winAssign := (winAssign d)[i := win0],
                         channelPrice := (channelPrice d)[i := resize channelsN dzero prices],
                         assignCost := (assignCost d)[i := resize (getBiddersN s) dzero costs]\<rparr>
              in run_bind (shuffle env channelsN k) (\<lambda>(perm, k', ok').
                   if \<not> ok' then Inr (d0\<lparr>er := EC_EVALUATION_ERROR\<rparr>, k', False)
                   else run_bind (if channelsN = 0 then Inr (resize channelsN dzero prices)
                          else run_bind (index2 (postedPrice d) (clockRound d) i) (\<lambda>p.
                            run_fold (channel_price p (getChannelImpairments t)) [0..<channelsN] (resize channelsN dzero prices))) (\<lambda>prices'.
                        run_bind (run_fold (\<lambda>j st. run_bind (license_at d j i) (\<lambda>n. give_channels perm j n st))
                                   [0..<getBiddersN s] (win0, 0)) (\<lambda>(win', _).
                          Inr (d0\<lparr>winAssign := (winAssign d)[i := win'], channelPrice := (channelPrice d)[i := prices']\<rparr>, k', True))))))))))"

definition processAssignmentRound :: "evaluation \<Rightarrow> StaticAuctionState \<Rightarrow> nat \<Rightarrow> DynamicAuctionState \<Rightarrow> DynamicAuctionState run" where
  "processAssignmentRound env s k d =
     (let n = length (getTerritoryIds s);
          d0 = d\<lparr>winAssign := resize n [] (winAssign d), assignCost := resize n [] (assignCost d),
                 channelPrice := resize n [] (channelPrice d)\<rparr>
      in run_bind (run_fold (assign_territory env s) [0..<n] (d0, k, True)) (\<lambda>(d1, _, ok).
           Inr (if ok then closeAuctionState d1 else d1)))"

definition evaluateAssignmentRound :: "evaluation \<Rightarrow> StaticAuctionState \<Rightarrow> nat \<Rightarrow> DynamicAuctionState \<Rightarrow> DynamicAuctionState run" where
  "evaluateAssignmentRound env s k d = processAssignmentRound env s k d"

section \<open>Transactions\<close>

text \<open>The transactions that change the state, between loading and storing it: an error code, or the state
  to store. \<open>a\<close> is the number of the auction.\<close>

type_synonym outcome = "(error_codes_e + DynamicAuctionState) run"

definition createAuction_tx :: "StaticAuctionState \<Rightarrow> DynamicAuctionState \<Rightarrow> (error_codes_e + StaticAuctionState \<times> DynamicAuctionState) run" where
  "createAuction_tx s d =
     (if \<not> checkValidity s then Inr (Inl EC_INVALID_INPUT)
      else run_bind (initialize CLOCK_PHASE 1 False s d) (\<lambda>r. Inr (Inr r)))"

definition startNextRound_tx :: "StaticAuctionState \<Rightarrow> DynamicAuctionState \<Rightarrow> outcome" where
  "startNextRound_tx s d =
     (if roundActive d then Inr (Inl EC_ROUND_ACTIVE)
      else if \<not> isStateClockPhase d \<and> \<not> isStateAssignmentPhase d then Inr (Inl EC_RESTRICTED_AUCTION_STATE)
      else if \<not> isValidOwner s d then Inr (Inl EC_UNRECOGNIZED_SUBMITTER)
      else run_bind (startRound s d) (\<lambda>d1. Inr (Inr d1)))"

definition submitClockBid_tx :: "StaticAuctionState \<Rightarrow> Bid \<Rightarrow> DynamicAuctionState \<Rightarrow> outcome" where
  "submitClockBid_tx s b d =
     (if \<not> isStateClockPhase d then Inr (Inl EC_NOT_IN_CLOCK_PHASE)
      else if \<not> isValidBidder s d then Inr (Inl EC_UNRECOGNIZED_SUBMITTER)
      else run_bind (isValidBid s d b) (\<lambda>e. case e of
             Some code \<Rightarrow> Inr (Inl code)
           | None \<Rightarrow> run_bind (storeBid s d b) (\<lambda>d1. Inr (Inr d1))))"

definition endRound_tx :: "evaluation \<Rightarrow> StaticAuctionState \<Rightarrow> nat \<Rightarrow> DynamicAuctionState \<Rightarrow> outcome" where
  "endRound_tx env s a d =
     (if \<not> roundActive d then Inr (Inl EC_ROUND_NOT_ACTIVE)
      else if \<not> isStateClockPhase d \<and> \<not> isStateAssignmentPhase d then Inr (Inl EC_RESTRICTED_AUCTION_STATE)
      else if \<not> isValidOwner s d then Inr (Inl EC_UNRECOGNIZED_SUBMITTER)
      else run_bind (evaluateClockRound env s a (endRound d)) (\<lambda>(d1, k).
           if er d1 \<noteq> EC_SUCCESS then Inr (Inl (er d1))
           else if isStateAssignmentPhase d1
           then run_bind (startRound s d1) (\<lambda>d2.
                run_bind (evaluateAssignmentRound env s k (endRound d2)) (\<lambda>d3.
                  if \<not> isStateClosedPhase d3 then Inr (Inl EC_EVALUATION_ERROR) else Inr (Inr d3)))
           else Inr (Inr d1)))"

end
