(* ===== verification/Spectrum_Queue.thy ===== *)
theory Spectrum_Queue
  imports Spectrum
begin

text \<open>
  The loop that applies the queued bids of a round. One bid keeps the books of the round balanced and
  moves the licenses of one bidder in one territory towards its demand; with at most one bid for each
  bidder and territory every application brings licenses and demands closer together or removes a bid,
  so that the loop, which starts again after each application, ends.
\<close>

section \<open>Integers and vectors\<close>

lemma u32_id [simp]: "0 \<le> x \<Longrightarrow> x < 2 ^ 32 \<Longrightarrow> u32 x = nat x"
  by (simp add: u32_def)

lemma u32_zero:
  assumes "- (2 ^ 31) < x" "x < 2 ^ 31"
  shows "u32 x = 0 \<longleftrightarrow> x = 0"
proof (cases "0 \<le> x")
  case False
  have "x mod 2 ^ 32 = (x + 2 ^ 32) mod 2 ^ 32" by simp
  also have "\<dots> = x + 2 ^ 32" using False assms by (intro mod_pos_pos_trivial) simp_all
  finally show ?thesis using False assms by (simp add: u32_def)
qed (use assms in simp)

lemma i32_id [simp]: "- (2 ^ 31) \<le> x \<Longrightarrow> x < 2 ^ 31 \<Longrightarrow> i32 x = x"
  by (simp add: i32_def)

lemma index2_eq [run_simps]: "i < length xss \<Longrightarrow> j < length (xss ! i) \<Longrightarrow> index2 xss i j = Inr (xss ! i ! j)"
  by (simp add: index2_def index_def)

lemma index_set2_eq [run_simps]:
  "i < length xss \<Longrightarrow> j < length (xss ! i) \<Longrightarrow> index_set2 xss i j x = Inr (xss[i := (xss ! i)[j := x]])"
  by (simp add: index_set2_def index_def index_set_def)

lemma index_in [run_simps]: "i < length xs \<Longrightarrow> index xs i = Inr (xs ! i)"
  by (simp add: index_def)

lemma index_set_in [run_simps]: "i < length xs \<Longrightarrow> index_set xs i x = Inr (xs[i := x])"
  by (simp add: index_set_def)

text \<open>A matrix of licenses: \<open>n\<close> bidders, \<open>m\<close> territories; the licenses of one territory.\<close>

definition grid :: "nat \<Rightarrow> nat \<Rightarrow> 'a list list \<Rightarrow> bool" where
  "grid n m xss = (length xss = n \<and> (\<forall>xs \<in> set xss. length xs = m))"

definition col_sum :: "nat list list \<Rightarrow> nat \<Rightarrow> nat" where
  "col_sum xss j = sum_list (map (\<lambda>xs. xs ! j) xss)"

lemma grid_iff: "grid n m xss \<longleftrightarrow> length xss = n \<and> (\<forall>i < n. length (xss ! i) = m)"
  by (auto simp: grid_def all_set_conv_all_nth)

lemma grid_length: "grid n m xss \<Longrightarrow> length xss = n" "grid n m xss \<Longrightarrow> i < n \<Longrightarrow> length (xss ! i) = m"
  by (auto simp: grid_iff)

definition put2 :: "'a list list \<Rightarrow> nat \<Rightarrow> nat \<Rightarrow> 'a \<Rightarrow> 'a list list" where
  "put2 xss i j x = xss[i := (xss ! i)[j := x]]"

lemma index_set2_grid:
  "grid n m xss \<Longrightarrow> i < n \<Longrightarrow> j < m \<Longrightarrow> index_set2 xss i j x = Inr (put2 xss i j x)"
  by (simp add: index_set2_eq put2_def grid_iff)

lemma grid_put2: "grid n m xss \<Longrightarrow> i < n \<Longrightarrow> grid n m (put2 xss i j x)"
  by (simp add: grid_iff put2_def nth_list_update)

lemma nth_put2:
  "grid n m xss \<Longrightarrow> i < n \<Longrightarrow> j < m \<Longrightarrow> a < n \<Longrightarrow> b < m \<Longrightarrow>
     put2 xss i j x ! a ! b = (if a = i \<and> b = j then x else xss ! a ! b)"
  by (simp add: put2_def nth_list_update grid_iff)

lemma row_sum_put2:
  assumes "grid n m xss" "i < n" "j < m" "a < n"
  shows "int (sum_list (put2 xss i j x ! a)) =
    int (sum_list (xss ! a)) + (if a = i then int x - int (xss ! i ! j) else 0)"
proof -
  have "xss ! i ! j \<le> sum_list (xss ! i)" using assms by (intro elem_le_sum_list) (simp add: grid_iff)
  then show ?thesis using assms by (auto simp: put2_def nth_list_update sum_list_update grid_iff)
qed

lemma col_sum_put2:
  assumes "grid n m xss" "i < n" "j < m" "b < m"
  shows "int (col_sum (put2 xss i j x) b) = int (col_sum xss b) + (if b = j then int x - int (xss ! i ! j) else 0)"
proof -
  have "map (\<lambda>xs. xs ! b) (put2 xss i j x) = (map (\<lambda>xs. xs ! b) xss)[i := (xss ! i)[j := x] ! b]"
    by (simp add: put2_def map_update)
  moreover have "xss ! i ! b \<le> col_sum xss b"
    unfolding col_sum_def using assms elem_le_sum_list [of i "map (\<lambda>xs. xs ! b) xss"] by (simp add: grid_iff)
  ultimately show ?thesis using assms by (auto simp: col_sum_def sum_list_update nth_list_update grid_iff)
qed

lemma col_sum_le:
  assumes "grid n m xss" "j < m" "length es = n" "\<And>i. i < n \<Longrightarrow> sum_list (xss ! i) \<le> es ! i"
  shows "col_sum xss j \<le> sum_list es"
proof -
  have "xss ! i ! j \<le> es ! i" if "i < n" for i
    using elem_le_sum_list [of j "xss ! i"] assms(1,2) assms(4) [OF that] that by (simp add: grid_iff)
  then show ?thesis
    using assms(1,3) unfolding col_sum_def sum_list_sum_nth by (auto simp: grid_iff intro!: sum_mono)
qed

section \<open>One bid\<close>

text \<open>The books of a round: the excess demand is demand minus supply \<open>S\<close> in every territory, and licenses
  and remaining eligibility of a bidder add up to its eligibility \<open>E\<close>.\<close>

definition balanced :: "nat list \<Rightarrow> nat list \<Rightarrow> bidding \<Rightarrow> bool" where
  "balanced E S st =
     (grid (length E) (length S) (licenses st) \<and> length (excess st) = length S \<and>
      length (eligibilityCap st) = length E \<and> length (posted st) = length S \<and>
      (\<forall>t < length S. excess st ! t = int (col_sum (licenses st) t) - int (S ! t)) \<and>
      (\<forall>b < length E. sum_list (licenses st ! b) + eligibilityCap st ! b = E ! b))"

text \<open>No number of the round leaves its type.\<close>

definition small :: "nat list \<Rightarrow> nat list \<Rightarrow> bool" where
  "small E S = (sum_list E < 2 ^ 31 \<and> (\<forall>n \<in> set S. n < 2 ^ 31))"

definition bid_in :: "nat list \<Rightarrow> nat list \<Rightarrow> enqueuedBid \<Rightarrow> bool" where
  "bid_in E S eb = (bidderIndex eb < length E \<and> territoryIndex eb < length S)"

definition held :: "bidding \<Rightarrow> enqueuedBid \<Rightarrow> nat" where
  "held st eb = licenses st ! bidderIndex eb ! territoryIndex eb"

definition same_place :: "enqueuedBid \<Rightarrow> enqueuedBid \<Rightarrow> bool" where
  "same_place x y = (bidderIndex x = bidderIndex y \<and> territoryIndex x = territoryIndex y)"

text \<open>A bid that cannot be applied: the bidder wants more and has no eligibility left, or wants less and
  there is no excess demand to give back.\<close>

definition blocked :: "bidding \<Rightarrow> enqueuedBid \<Rightarrow> bool" where
  "blocked st eb =
     (if held st eb < quantity (demand eb) then eligibilityCap st ! bidderIndex eb = 0
      else excess st ! territoryIndex eb \<le> 0)"

text \<open>The effect of an applied bid.\<close>

definition applied :: "nat list \<Rightarrow> nat list \<Rightarrow> enqueuedBid \<Rightarrow> bidding \<Rightarrow> bidding \<Rightarrow> bool" where
  "applied E S eb st st' =
     (balanced E S st' \<and>
      licenses st' = put2 (licenses st) (bidderIndex eb) (territoryIndex eb) (held st' eb) \<and>
      (held st eb < held st' eb \<and> held st' eb \<le> quantity (demand eb) \<or>
       quantity (demand eb) \<le> held st' eb \<and> held st' eb < held st eb \<or>
       held st' eb = held st eb \<and> held st eb = quantity (demand eb)) \<and>
      (\<forall>t < length S. min 0 (excess st ! t) \<le> excess st' ! t))"

lemma balanced_bounds:
  assumes "balanced E S st" "small E S" "b < length E" "t < length S"
  shows "licenses st ! b ! t \<le> E ! b" "E ! b < 2 ^ 31" "eligibilityCap st ! b \<le> E ! b" "S ! t < 2 ^ 31"
    "col_sum (licenses st) t < 2 ^ 31" "- (2 ^ 31) < excess st ! t" "excess st ! t < 2 ^ 31"
proof -
  have g: "grid (length E) (length S) (licenses st)" and r: "sum_list (licenses st ! i) + eligibilityCap st ! i = E ! i" if "i < length E" for i
    using assms that by (auto simp: balanced_def)
  have "licenses st ! b ! t \<le> sum_list (licenses st ! b)" using g [OF assms(3)] assms by (intro elem_le_sum_list) (simp add: grid_iff)
  then show "licenses st ! b ! t \<le> E ! b" "eligibilityCap st ! b \<le> E ! b" using r [OF assms(3)] by linarith+
  show "E ! b < 2 ^ 31" using assms(2,3) elem_le_sum_list [of b E] by (simp add: small_def)
  show s: "S ! t < 2 ^ 31" using assms by (simp add: small_def)
  have "col_sum (licenses st) t \<le> sum_list E"
    using g r assms by (intro col_sum_le [of "length E" "length S"]) (metis le_add1)+
  then show c: "col_sum (licenses st) t < 2 ^ 31" using assms(2) by (simp add: small_def)
  show "- (2 ^ 31) < excess st ! t" "excess st ! t < 2 ^ 31" using s c assms by (simp_all add: balanced_def)
qed

lemma balanced_move:
  assumes "balanced E S st" "b < length E" "t < length S"
    and q: "int q = int (licenses st ! b ! t) + p" "p \<le> int (eligibilityCap st ! b)"
    and e: "e' = excess st ! t + p" and c: "int c' = int (eligibilityCap st ! b) - p" and "length ps = length S"
  shows "balanced E S \<lparr>licenses = put2 (licenses st) b t q, excess = (excess st)[t := e'],
    eligibilityCap = (eligibilityCap st)[b := c'], posted = ps\<rparr>"
proof -
  have g: "grid (length E) (length S) (licenses st)" using assms(1) by (simp add: balanced_def)
  have "(excess st)[t := e'] ! u = int (col_sum (put2 (licenses st) b t q) u) - int (S ! u)" if "u < length S" for u
    using assms that by (auto simp: nth_list_update col_sum_put2 [OF g] balanced_def)
  moreover have "sum_list (put2 (licenses st) b t q ! a) + (eligibilityCap st)[b := c'] ! a = E ! a" if a: "a < length E" for a
  proof -
    have "int (sum_list (licenses st ! a)) + int (eligibilityCap st ! a) = int (E ! a)"
      using assms(1) a by (simp add: balanced_def flip: of_nat_add)
    then have "int (sum_list (put2 (licenses st) b t q ! a)) + int ((eligibilityCap st)[b := c'] ! a) = int (E ! a)"
      using assms a by (auto simp: nth_list_update row_sum_put2 [OF g] balanced_def)
    then show ?thesis by linarith
  qed
  ultimately show ?thesis
    using assms by (simp add: balanced_def grid_put2 [OF g])
qed

lemma apply_bid_more:
  assumes b: "balanced E S st" "small E S" "bid_in E S eb" "length clock = length S"
    and m: "held st eb < quantity (demand eb)" "0 < eligibilityCap st ! bidderIndex eb"
  obtains st' where "applied E S eb st st'" "apply_bid clock eb st = Inr (Some (st', held st' eb = quantity (demand eb)))"
proof -
  define i where "i = bidderIndex eb"
  define j where "j = territoryIndex eb"
  have ij: "i < length E" "j < length S" using b(3) by (simp_all add: bid_in_def i_def j_def)
  note bounds = balanced_bounds [OF b(1,2) ij]
  have g: "grid (length E) (length S) (licenses st)" and l: "length (excess st) = length S" "length (eligibilityCap st) = length E"
    "length (posted st) = length S" using b(1) by (simp_all add: balanced_def)
  define q where "q = licenses st ! i ! j"
  define c where "c = eligibilityCap st ! i"
  define p where "p = (if quantity (demand eb) - q \<le> c then quantity (demand eb) - q else c)"
  have p: "0 < p" "p \<le> c" "q + p \<le> quantity (demand eb)" "q + p \<le> E ! i"
    using m b(1) ij elem_le_sum_list [of j "licenses st ! i"] grid_length(2) [OF g ij(1)]
    by (auto simp: p_def q_def c_def held_def i_def [symmetric] j_def [symmetric] balanced_def)
  define ps where "ps = (if excess st ! j = 0 then (posted st)[j := clock ! j] else posted st)"
  define st' where "st' = \<lparr>licenses = put2 (licenses st) i j (q + p), excess = (excess st)[j := excess st ! j + int p],
    eligibilityCap = (eligibilityCap st)[i := c - p], posted = ps\<rparr>"
  have bal: "balanced E S st'"
    unfolding st'_def using p l
    by (intro balanced_move [OF b(1) ij, where p = "int p"]) (simp_all add: q_def c_def ps_def)
  have h: "held st' eb = q + p" using ij by (simp add: held_def st'_def nth_put2 [OF g] flip: i_def j_def)
  have "excess st' ! j < 2 ^ 31" using balanced_bounds(7) [OF bal b(2) ij] .
  then have e: "i32 (excess st ! j + int p) = excess st ! j + int p"
    using bounds(6) ij l by (simp add: st'_def)
  have z: "u32 (excess st ! j) = 0 \<longleftrightarrow> excess st ! j = 0"
    using bounds(6,7) by (rule u32_zero)
  have u: "u32 (int q + int p) = q + p" using p(4) bounds(2) by simp
  have ap: "apply_bid clock eb st = Inr (Some (st', p = quantity (demand eb) - q))"
    using m p ij l b(4) unfolding apply_bid_def Let_def i_def [symmetric] j_def [symmetric] held_def
    by (simp add: index2_eq grid_length [OF g] index_in index_set_in index_set2_grid [OF g] e z u
        st'_def ps_def flip: q_def c_def p_def)
  have "applied E S eb st st'"
    unfolding applied_def using bal h p l m ij
    by (auto simp: held_def nth_list_update st'_def q_def simp flip: i_def j_def)
  moreover have "(p = quantity (demand eb) - q) = (held st' eb = quantity (demand eb))"
    using h p by auto
  ultimately show thesis using ap that by simp
qed

lemma apply_bid_less:
  assumes b: "balanced E S st" "small E S" "bid_in E S eb"
    and m: "quantity (demand eb) \<le> held st eb" "0 < excess st ! territoryIndex eb"
  obtains st' where "applied E S eb st st'" "apply_bid clock eb st = Inr (Some (st', held st' eb = quantity (demand eb)))"
proof -
  define i where "i = bidderIndex eb"
  define j where "j = territoryIndex eb"
  have ij: "i < length E" "j < length S" using b(3) by (simp_all add: bid_in_def i_def j_def)
  note bounds = balanced_bounds [OF b(1,2) ij]
  have g: "grid (length E) (length S) (licenses st)" and l: "length (excess st) = length S" "length (eligibilityCap st) = length E"
    "length (posted st) = length S" using b(1) by (simp_all add: balanced_def)
  define q where "q = licenses st ! i ! j"
  define c where "c = eligibilityCap st ! i"
  define e where "e = excess st ! j"
  define p where "p = (if int (q - quantity (demand eb)) \<le> e then q - quantity (demand eb) else nat e)"
  have mq: "quantity (demand eb) \<le> q" "0 < e" using m by (simp_all add: held_def q_def e_def i_def j_def)
  have p: "int p \<le> e" "p \<le> q - quantity (demand eb)" "p = 0 \<longleftrightarrow> q = quantity (demand eb)"
    using mq by (auto simp: p_def)
  have "q \<le> sum_list (licenses st ! i)"
    unfolding q_def using ij grid_length(2) [OF g ij(1)] by (intro elem_le_sum_list) simp
  then have cp: "c + p \<le> E ! i" using b(1) ij p(2) by (auto simp: c_def balanced_def)
  define ps where "ps = (if e - int p = 0 then (posted st)[j := price (demand eb)] else posted st)"
  define st' where "st' = \<lparr>licenses = put2 (licenses st) i j (q - p), excess = (excess st)[j := e - int p],
    eligibilityCap = (eligibilityCap st)[i := c + p], posted = ps\<rparr>"
  have bal: "balanced E S st'"
    unfolding st'_def using p(2) l
    by (intro balanced_move [OF b(1) ij, where p = "- int p"]) (simp_all add: q_def c_def ps_def e_def)
  have h: "held st' eb = q - p" using ij by (simp add: held_def st'_def nth_put2 [OF g] flip: i_def j_def)
  have u: "u32 (int c + int p) = c + p" using cp bounds(2) by simp
  have ap: "apply_bid clock eb st = Inr (Some (st', p = q - quantity (demand eb)))"
    using mq ij l unfolding apply_bid_def Let_def i_def [symmetric] j_def [symmetric] held_def
    by (simp add: index2_eq grid_length [OF g] index_in index_set_in index_set2_grid [OF g] u
        st'_def ps_def del: of_nat_diff flip: q_def c_def p_def e_def)
  have ex: "min 0 (excess st ! t) \<le> excess st' ! t" if "t < length S" for t
    using that p(1) ij l by (auto simp: st'_def nth_list_update e_def)
  have hq: "held st eb = q" by (simp add: held_def q_def i_def j_def)
  have "applied E S eb st st'"
    unfolding applied_def using bal ex p(2,3) mq(1) hq h
    by (auto simp: st'_def simp flip: i_def j_def)
  moreover have "(p = q - quantity (demand eb)) = (held st' eb = quantity (demand eb))"
    using h p mq(1) by auto
  ultimately show thesis using ap that by simp
qed

lemma apply_bid_ok:
  assumes "balanced E S st" "small E S" "bid_in E S eb" "length clock = length S"
  shows "if blocked st eb then apply_bid clock eb st = Inr None
    else \<exists>st'. applied E S eb st st' \<and> apply_bid clock eb st = Inr (Some (st', held st' eb = quantity (demand eb)))"
proof -
  have ij: "bidderIndex eb < length E" "territoryIndex eb < length S" using assms(3) by (simp_all add: bid_in_def)
  have g: "grid (length E) (length S) (licenses st)" and l: "length (excess st) = length S" "length (eligibilityCap st) = length E"
    using assms(1) by (simp_all add: balanced_def)
  have "apply_bid clock eb st = Inr None" if "blocked st eb"
    using that ij l by (auto simp: apply_bid_def blocked_def held_def index2_eq grid_length [OF g] index_in split: if_splits)
  moreover have "\<exists>st'. applied E S eb st st' \<and> apply_bid clock eb st = Inr (Some (st', held st' eb = quantity (demand eb)))"
    if n: "\<not> blocked st eb"
  proof (cases "held st eb < quantity (demand eb)")
    case True
    then show ?thesis using n apply_bid_more [OF assms True] by (metis blocked_def not_gr_zero)
  next
    case False
    then show ?thesis using n apply_bid_less [OF assms(1-3), of clock] by (metis blocked_def not_less)
  qed
  ultimately show ?thesis by simp
qed

section \<open>The loop over the queue\<close>

definition queue_ok :: "nat list \<Rightarrow> nat list \<Rightarrow> enqueuedBid list \<Rightarrow> bool" where
  "queue_ok E S queue =
     ((\<forall>eb \<in> set queue. bid_in E S eb) \<and> distinct (map (\<lambda>eb. (bidderIndex eb, territoryIndex eb)) queue))"

text \<open>How far the licenses are from what is demanded.\<close>

definition distance :: "bidding \<Rightarrow> enqueuedBid list \<Rightarrow> nat" where
  "distance st queue = sum_list (map (\<lambda>eb. nat \<bar>int (held st eb) - int (quantity (demand eb))\<bar>) queue)"

text \<open>What processing a queue achieves: licenses change only where a bid asks for it and only towards the
  demand, demand does not fall below supply, and every bid is fulfilled or cannot be applied.\<close>

definition processed :: "nat list \<Rightarrow> nat list \<Rightarrow> enqueuedBid list \<Rightarrow> bidding \<Rightarrow> bidding \<Rightarrow> bool" where
  "processed E S queue st st' =
     (balanced E S st' \<and>
      (\<forall>x. bid_in E S x \<longrightarrow> (\<forall>eb \<in> set queue. \<not> same_place x eb) \<longrightarrow> held st' x = held st x) \<and>
      (\<forall>eb \<in> set queue. min (held st eb) (quantity (demand eb)) \<le> held st' eb \<and>
         held st' eb \<le> max (held st eb) (quantity (demand eb))) \<and>
      (\<forall>t < length S. min 0 (excess st ! t) \<le> excess st' ! t) \<and>
      (\<forall>eb \<in> set queue. held st' eb = quantity (demand eb) \<or> blocked st' eb))"

lemma applied_frame:
  assumes "applied E S eb st st'" "balanced E S st" "bid_in E S eb" "bid_in E S x" "\<not> same_place x eb"
  shows "held st' x = held st x"
proof -
  have "grid (length E) (length S) (licenses st)" using assms(2) by (simp add: balanced_def)
  then show ?thesis
    using assms unfolding applied_def held_def [of _ x]
    by (simp only: nth_put2 bid_in_def same_place_def) auto
qed

lemma queue_ok_remove:
  assumes "queue_ok E S queue" "it < length queue"
  shows "queue_ok E S (take it queue @ drop (Suc it) queue)"
    "\<And>x. x \<in> set (take it queue @ drop (Suc it) queue) \<Longrightarrow> \<not> same_place x (queue ! it)"
    "set queue = insert (queue ! it) (set (take it queue @ drop (Suc it) queue))"
proof -
  have q: "queue = take it queue @ queue ! it # drop (Suc it) queue" using assms(2) by (rule id_take_nth_drop)
  show s: "set queue = insert (queue ! it) (set (take it queue @ drop (Suc it) queue))"
    by (subst q) auto
  have "distinct (map (\<lambda>eb. (bidderIndex eb, territoryIndex eb)) (take it queue @ queue ! it # drop (Suc it) queue))"
    using assms(1) q by (simp add: queue_ok_def)
  then show "queue_ok E S (take it queue @ drop (Suc it) queue)"
    "\<And>x. x \<in> set (take it queue @ drop (Suc it) queue) \<Longrightarrow> \<not> same_place x (queue ! it)"
    using assms(1) s by (auto simp: queue_ok_def same_place_def rev_image_eqI)
qed

lemma distance_applied:
  assumes ap: "applied E S (queue ! it) st st'" and b: "balanced E S st" and q: "queue_ok E S queue" "it < length queue"
  defines "rest \<equiv> take it queue @ drop (Suc it) queue"
  shows "distance st' rest = distance st rest"
    "distance st' queue < distance st queue \<or> held st' (queue ! it) = quantity (demand (queue ! it))"
    "distance st rest \<le> distance st queue"
proof -
  note r = queue_ok_remove [OF q, folded rest_def]
  have "bid_in E S (queue ! it)" using q by (auto simp: queue_ok_def)
  then have f: "held st' x = held st x" if "x \<in> set rest" for x
    using that r(1,2) by (intro applied_frame [OF ap b]) (auto simp: queue_ok_def)
  then show d: "distance st' rest = distance st rest" by (auto simp: distance_def intro!: arg_cong [of _ _ sum_list])
  have "distance s queue = nat \<bar>int (held s (queue ! it)) - int (quantity (demand (queue ! it)))\<bar> + distance s rest" for s
    by (subst id_take_nth_drop [OF q(2)]) (simp add: distance_def rest_def)
  then show "distance st rest \<le> distance st queue"
    "distance st' queue < distance st queue \<or> held st' (queue ! it) = quantity (demand (queue ! it))"
    using ap d by (auto simp: applied_def)
qed

lemma queue_ok_unique:
  assumes "queue_ok E S queue" "x \<in> set queue" "y \<in> set queue" "same_place x y"
  shows "x = y"
  using assms unfolding queue_ok_def same_place_def distinct_map by (auto dest: inj_onD)

lemma processed_after:
  assumes ap: "applied E S eb st st'" and b: "balanced E S st" and q: "queue_ok E S queue" "eb \<in> set queue"
    and q': "set queue' \<subseteq> set queue" "set queue \<subseteq> insert eb (set queue')"
    and e: "eb \<in> set queue' \<or> held st' eb = quantity (demand eb) \<and> (\<forall>x \<in> set queue'. \<not> same_place x eb)"
    and p: "processed E S queue' st' st''"
  shows "processed E S queue st st''"
proof -
  have i: "bid_in E S x" if "x \<in> set queue" for x using q(1) that by (simp add: queue_ok_def)
  have sym: "same_place x y = same_place y x" for x y by (auto simp: same_place_def)
  have f: "held st' x = held st x" if "bid_in E S x" "\<not> same_place x eb" for x
    using applied_frame [OF ap b i [OF q(2)] that] .
  have h: "min (held st eb) (quantity (demand eb)) \<le> held st' eb" "held st' eb \<le> max (held st eb) (quantity (demand eb))"
    using ap by (auto simp: applied_def)
  have eb: "held st'' eb = held st' eb" if "eb \<notin> set queue'"
    using e that i [OF q(2)] p sym by (auto simp: processed_def)
  have between: "min (held st x) (quantity (demand x)) \<le> held st'' x \<and> held st'' x \<le> max (held st x) (quantity (demand x))"
    if x: "x \<in> set queue" for x
  proof (cases "x = eb")
    case True
    show ?thesis
    proof (cases "eb \<in> set queue'")
      case True
      then have "min (held st' eb) (quantity (demand eb)) \<le> held st'' eb" "held st'' eb \<le> max (held st' eb) (quantity (demand eb))"
        using p by (simp_all add: processed_def)
      then show ?thesis using h \<open>x = eb\<close> by (simp add: min_def max_def split: if_splits)
    qed (use eb h True in simp)
  next
    case False
    then have "x \<in> set queue'" "\<not> same_place x eb" using x q q' queue_ok_unique [OF q(1) x q(2)] by auto
    moreover from this have "held st' x = held st x" using f [OF i [OF x]] by simp
    ultimately show ?thesis using p unfolding processed_def by metis
  qed
  have "held st'' x = held st x" if "bid_in E S x" "\<forall>y \<in> set queue. \<not> same_place x y" for x
    using that f [of x] q(2) q'(1) p unfolding processed_def by (metis subsetD)
  moreover have "min 0 (excess st ! t) \<le> excess st'' ! t" if "t < length S" for t
  proof -
    have "min 0 (excess st ! t) \<le> excess st' ! t" "min 0 (excess st' ! t) \<le> excess st'' ! t"
      using that ap p by (simp_all add: applied_def processed_def)
    then show ?thesis by linarith
  qed
  moreover have "held st'' x = quantity (demand x) \<or> blocked st'' x" if "x \<in> set queue" for x
    using that q'(2) e eb p unfolding processed_def by (metis insert_iff subsetD)
  ultimately show ?thesis using between p by (simp add: processed_def)
qed

text \<open>The loop ends: every application brings the licenses closer to the demands or shortens the queue.\<close>

lemma process_bids_ok:
  assumes sm: "small E S" "length clock = length S"
  shows "balanced E S st \<Longrightarrow> queue_ok E S queue \<Longrightarrow> \<forall>x \<in> set (take it queue). blocked st x \<Longrightarrow>
    \<exists>st'. process_bids clock queue it st = Some (Inr st') \<and> processed E S queue st st'"
proof (induction "distance st queue + length queue" arbitrary: st queue it rule: less_induct)
  case less
  note outer = less.hyps
  show ?case using less.prems
  proof (induction "length queue - it" arbitrary: it)
    case 0
    then have "process_bids clock queue it st = Some (Inr st)" by (simp add: process_bids.simps)
    moreover have "processed E S queue st st" using 0 by (auto simp: processed_def)
    ultimately show ?case by blast
  next
    case (Suc k)
    define eb where "eb = queue ! it"
    define rest where "rest = take it queue @ drop (Suc it) queue"
    have it: "it < length queue" using Suc.hyps(2) by simp
    then have eb: "eb \<in> set queue" by (simp add: eb_def)
    then have i: "bid_in E S eb" using Suc.prems(2) by (simp add: queue_ok_def)
    note ok = apply_bid_ok [OF Suc.prems(1) sm(1) i sm(2)]
    show ?case
    proof (cases "blocked st eb")
      case True
      have "process_bids clock queue it st = process_bids clock queue (Suc it) st"
        using ok True it by (simp add: process_bids.simps [of _ _ it] eb_def)
      moreover have "\<forall>x \<in> set (take (Suc it) queue). blocked st x"
        using Suc.prems(3) True it by (simp add: take_Suc_conv_app_nth eb_def)
      ultimately show ?thesis using Suc.hyps Suc.prems by simp
    next
      case False
      then obtain st' where ap: "applied E S eb st st'"
        and run: "apply_bid clock eb st = Inr (Some (st', held st' eb = quantity (demand eb)))" using ok by auto
      define queue' where "queue' = (if held st' eb = quantity (demand eb) then rest else queue)"
      have step: "process_bids clock queue it st = process_bids clock queue' 0 st'"
        using run it by (simp add: process_bids.simps [of _ _ it] eb_def queue'_def rest_def)
      have bal: "balanced E S st'" using ap by (simp add: applied_def)
      note rem = queue_ok_remove [OF Suc.prems(2) it, folded eb_def rest_def]
      have q': "queue_ok E S queue'" using rem(1) Suc.prems(2) by (simp add: queue'_def)
      note dist = distance_applied [OF ap [unfolded eb_def] Suc.prems(1,2) it, folded eb_def rest_def]
      have "length rest < length queue" using it by (simp add: rest_def)
      then have "distance st' queue' + length queue' < distance st queue + length queue"
        using dist by (auto simp: queue'_def)
      from outer [OF this bal q'] obtain st'' where "process_bids clock queue' 0 st' = Some (Inr st'')" and p: "processed E S queue' st' st''"
        by (metis empty_iff list.set(1) take0)
      moreover have "processed E S queue st st''"
        using rem(2,3) eb by (intro processed_after [OF ap Suc.prems(1,2) eb _ _ _ p]) (auto simp: queue'_def split: if_splits)
      ultimately show ?thesis using step by auto
    qed
  qed
qed

end
