(* ===== verification/Spectrum_Rounds.thy ===== *)
theory Spectrum_Rounds
  imports Spectrum_Queue
begin

text \<open>
  The rounds of the clock phase: the invariant of the state between two transactions, what creating an
  auction, starting a round and submitting a bid do to it, and the processing of a round from completing
  the bids to the eligibilities and prices of the next one.
\<close>

section \<open>Loops over ranges\<close>

lemma run_fold_append: "run_fold f (xs @ ys) s = run_bind (run_fold f xs s) (run_fold f ys)"
  by (induction xs arbitrary: s) (auto simp: run_bind_def split: sum.splits)

text \<open>A loop that writes one element after the other.\<close>

lemma run_fold_rows:
  assumes "n \<le> length xs0"
    and "\<And>i xs. i < n \<Longrightarrow> length xs = length xs0 \<Longrightarrow> xs ! i = xs0 ! i \<Longrightarrow> f i xs = Inr (xs[i := g i])"
  shows "run_fold f [0..<n] xs0 = Inr (map g [0..<n] @ drop n xs0)"
  using assms
proof (induction n)
  case (Suc n)
  define ys where "ys = map g [0..<n] @ drop n xs0"
  have "run_fold f [0..<n] xs0 = Inr ys" unfolding ys_def using Suc.prems by (intro Suc.IH) auto
  moreover have "f n ys = Inr (ys[n := g n])" using Suc.prems by (intro Suc.prems(2)) (simp_all add: ys_def nth_append)
  moreover have "ys[n := g n] = map g [0..<Suc n] @ drop (Suc n) xs0"
    using Suc.prems(1) by (simp add: ys_def list_update_append flip: Cons_nth_drop_Suc)
  ultimately show ?case by (simp add: run_fold_append)
qed simp

lemma run_fold_rows2:
  assumes r: "r < length xss0" and "n \<le> length (xss0 ! r)"
    and "\<And>i xss. i < n \<Longrightarrow> length xss = length xss0 \<Longrightarrow> (\<And>k. k \<noteq> r \<Longrightarrow> xss ! k = xss0 ! k) \<Longrightarrow>
       length (xss ! r) = length (xss0 ! r) \<Longrightarrow> xss ! r ! i = xss0 ! r ! i \<Longrightarrow> f i xss = Inr (put2 xss r i (g i))"
  shows "run_fold f [0..<n] xss0 = Inr (xss0[r := map g [0..<n] @ drop n (xss0 ! r)])"
  using assms(2,3)
proof (induction n)
  case (Suc n)
  define yss where "yss = xss0[r := map g [0..<n] @ drop n (xss0 ! r)]"
  have y: "yss ! r = map g [0..<n] @ drop n (xss0 ! r)" "\<And>k. k \<noteq> r \<Longrightarrow> yss ! k = xss0 ! k" "length yss = length xss0"
    using r by (simp_all add: yss_def)
  have "run_fold f [0..<n] xss0 = Inr yss" unfolding yss_def using Suc.prems by (intro Suc.IH) auto
  moreover have "f n yss = Inr (put2 yss r n (g n))" using Suc.prems y by (intro Suc.prems(2)) (simp_all add: nth_append)
  moreover have "put2 yss r n (g n) = xss0[r := map g [0..<Suc n] @ drop (Suc n) (xss0 ! r)]"
    using Suc.prems(1) r by (simp add: put2_def y(1) list_update_append yss_def flip: Cons_nth_drop_Suc)
  ultimately show ?case by (simp add: run_fold_append)
qed simp

section \<open>Territories and bidders\<close>

lemma first_index_key:
  assumes "distinct (map f xs)" "k < length xs"
  shows "first_index (\<lambda>x. f x = f (xs ! k)) i xs = int (i + k)"
  using assms
proof (induction xs arbitrary: i k)
  case (Cons x xs)
  then show ?case by (cases k) (auto simp: image_iff)
qed simp

lemma find_key:
  assumes "distinct (map f xs)" "k < length xs"
  shows "find (\<lambda>x. f x = f (xs ! k)) xs = Some (xs ! k)"
  using assms
proof (induction xs arbitrary: k)
  case (Cons x xs)
  then show ?case by (cases k) (auto simp: image_iff)
qed simp

text \<open>What the owner has to get right: identifiers name one territory and one bidder, eligibilities are
  listed in the order of the bidders, and the numbers are small. \<open>checkValidity\<close> checks none of this.\<close>

definition wf_static :: "StaticAuctionState \<Rightarrow> bool" where
  "wf_static s =
     (checkValidity s \<and> distinct (getTerritoryIds s) \<and> distinct (map bidder_id (bidders s)) \<and>
      map elig_bidderId (initialEligibilities s) = map bidder_id (bidders s) \<and>
      100 * sum_list (getInitialEligibilities s) < 2 ^ 31 \<and> sum_list (getSupply s) < 2 ^ 31 \<and> getTerritoryN s < 2 ^ 31)"

lemma wf_static_lengths:
  assumes "wf_static s"
  shows "length (getInitialEligibilities s) = getBiddersN s" "length (getSupply s) = getTerritoryN s" "0 < getTerritoryN s" "0 < getBiddersN s"
    "length (getHighDemandVector s) = getTerritoryN s" "length (getInitialPrices s) = getTerritoryN s" "length (getTerritoryIds s) = getTerritoryN s"
  using assms by (auto simp: wf_static_def checkValidity_def getInitialEligibilities_def getBiddersN_def getSupply_def
      getTerritoryN_def getHighDemandVector_def getInitialPrices_def getTerritoryIds_def)

lemma territory_lookup:
  assumes "wf_static s" "k < getTerritoryN s"
  shows "getTerritoryIndex s (getTerritoryIds s ! k) = int k" "getTerritory s (getTerritoryIds s ! k) = Some (territories s ! k)"
    "getSupply s ! k = numberOfChannels (territories s ! k)"
  using first_index_key [of ter_id "territories s" k 0] find_key [of ter_id "territories s" k] assms
  by (simp_all add: getTerritoryIndex_def getTerritory_def getTerritoryIds_def getTerritoryN_def getSupply_def wf_static_def)

text \<open>The index of a territory, for an identifier that exists.\<close>

definition tidx :: "StaticAuctionState \<Rightarrow> nat \<Rightarrow> nat" where
  "tidx s i = nat (getTerritoryIndex s i)"

lemma tidx_props:
  assumes "wf_static s" "i \<in> set (getTerritoryIds s)"
  shows "tidx s i < getTerritoryN s" "getTerritoryIds s ! tidx s i = i" "getTerritoryIndex s i = int (tidx s i)"
    "getTerritory s i = Some (territories s ! tidx s i)" "u32 (int (tidx s i)) = tidx s i"
proof -
  obtain k where k: "k < getTerritoryN s" "getTerritoryIds s ! k = i"
    using assms wf_static_lengths(7) [OF assms(1)] by (metis in_set_conv_nth)
  have t: "tidx s i = k" using territory_lookup(1) [OF assms(1) k(1)] k(2) by (simp add: tidx_def)
  show "tidx s i < getTerritoryN s" "getTerritoryIds s ! tidx s i = i" "getTerritoryIndex s i = int (tidx s i)"
    "getTerritory s i = Some (territories s ! tidx s i)"
    using t k territory_lookup [OF assms(1) k(1)] by simp_all
  show "u32 (int (tidx s i)) = tidx s i" using t k(1) assms(1) by (simp add: wf_static_def)
qed

lemma tidx_inj:
  assumes "wf_static s" "i \<in> set (getTerritoryIds s)" "j \<in> set (getTerritoryIds s)" "tidx s i = tidx s j"
  shows "i = j"
  using tidx_props(2) [OF assms(1,2)] tidx_props(2) [OF assms(1,3)] assms(4) by metis

section \<open>Bids\<close>

text \<open>A bid that passed \<open>isValidBid\<close>, for a bidder with eligibility \<open>e\<close> in the first round.\<close>

definition bid_ok :: "StaticAuctionState \<Rightarrow> nat \<Rightarrow> nat \<Rightarrow> Bid \<Rightarrow> bool" where
  "bid_ok s r e b =
     (distinct (getDemandedTerritoryIds b) \<and> set (getDemandedTerritoryIds b) \<subseteq> set (getTerritoryIds s) \<and>
      (\<forall>x \<in> set (demands b). quantity x \<le> getSupply s ! tidx s (territoryId x)) \<and>
      (r = 1 \<longrightarrow> sum_list (map quantity (demands b)) \<le> e))"

text \<open>The demands of a bid completed by \<open>fillMissingBids\<close>: one for every territory.\<close>

definition filled :: "StaticAuctionState \<Rightarrow> nat \<Rightarrow> nat \<Rightarrow> double list \<Rightarrow> Bid \<Rightarrow> Bid" where
  "filled s a r ps b =
     b\<lparr>auctionId := a, bid_round := r,
       demands := demands b @
         map (\<lambda>i. \<lparr>territoryId = i, quantity = 0, price = ps ! tidx s i\<rparr>)
           (set_difference (sort (getTerritoryIds s)) (sort (getDemandedTerritoryIds b)))\<rparr>"

lemma set_difference_set:
  assumes "sorted xs" "sorted ys" "distinct xs"
  shows "set (set_difference xs ys) = set xs - set ys" "distinct (set_difference xs ys)"
proof -
  have "set (set_difference xs ys) = set xs - set ys \<and> distinct (set_difference xs ys)"
    using assms
  proof (induction xs ys rule: set_difference.induct)
    case (3 x xs y ys)
    consider "x < y" | "y < x" | "x = y" by linarith
    then show ?case
    proof cases
      case 1
      then have "x \<notin> set (y # ys)" "x \<notin> set xs" using 3 by auto
      then show ?thesis using 1 3 by auto
    next
      case 2
      then have "y \<notin> set (x # xs)" using 3 by auto
      then show ?thesis using 2 3 by auto
    next
      case eq: 3
      then have "y \<notin> set xs" using 3 by auto
      then show ?thesis using eq 3 by auto
    qed
  qed auto
  then show "set (set_difference xs ys) = set xs - set ys" "distinct (set_difference xs ys)" by auto
qed

lemma filled_ids:
  assumes "wf_static s" "bid_ok s r e b"
  shows "distinct (getDemandedTerritoryIds (filled s a r ps b))" "set (getDemandedTerritoryIds (filled s a r ps b)) = set (getTerritoryIds s)"
    "bid_ok s r e (filled s a r ps b)"
proof -
  define diff where "diff = set_difference (sort (getTerritoryIds s)) (sort (getDemandedTerritoryIds b))"
  have d: "set diff = set (getTerritoryIds s) - set (getDemandedTerritoryIds b)" "distinct diff"
    using set_difference_set [of "sort (getTerritoryIds s)" "sort (getDemandedTerritoryIds b)"] assms(1) by (simp_all add: diff_def wf_static_def)
  have f: "demands (filled s a r ps b) = demands b @ map (\<lambda>i. \<lparr>territoryId = i, quantity = 0, price = ps ! tidx s i\<rparr>) diff"
    by (simp add: filled_def diff_def)
  have i: "getDemandedTerritoryIds (filled s a r ps b) = getDemandedTerritoryIds b @ diff"
    unfolding getDemandedTerritoryIds_def f by (simp add: comp_def)
  have q: "sum_list (map quantity (demands (filled s a r ps b))) = sum_list (map quantity (demands b))"
    by (simp add: f comp_def)
  show "distinct (getDemandedTerritoryIds (filled s a r ps b))" "set (getDemandedTerritoryIds (filled s a r ps b)) = set (getTerritoryIds s)"
    unfolding i using d assms(2) by (auto simp: bid_ok_def)
  then show "bid_ok s r e (filled s a r ps b)"
    using assms(2) unfolding bid_ok_def q by (auto simp: f)
qed

text \<open>Licenses of one bidder.\<close>

lemma set_licenses:
  assumes "wf_static s" "length row = getTerritoryN s" "distinct (map territoryId ds)" "set (map territoryId ds) \<subseteq> set (getTerritoryIds s)"
    and "\<And>x. x \<in> set ds \<Longrightarrow> row ! tidx s (territoryId x) = 0"
  shows "\<exists>row'. run_fold (set_license s) ds row = Inr row' \<and> length row' = length row \<and>
    sum_list row' = sum_list row + sum_list (map quantity ds) \<and>
    (\<forall>x \<in> set ds. row' ! tidx s (territoryId x) = quantity x) \<and>
    (\<forall>k < length row. k \<notin> (\<lambda>x. tidx s (territoryId x)) ` set ds \<longrightarrow> row' ! k = row ! k)"
  using assms(2-)
proof (induction ds arbitrary: row)
  case (Cons x ds)
  define k where "k = tidx s (territoryId x)"
  have x: "territoryId x \<in> set (getTerritoryIds s)" using Cons.prems by simp
  have k: "k < length row" "getTerritoryIndex s (territoryId x) = int k"
    using tidx_props(1,3) [OF assms(1) x] Cons.prems(1) by (simp_all add: k_def)
  have ne: "tidx s (territoryId y) \<noteq> k" if "y \<in> set ds" for y
  proof
    assume "tidx s (territoryId y) = k"
    then have "territoryId y = territoryId x"
      using tidx_inj [OF assms(1) _ x, of "territoryId y"] Cons.prems(3) that by (auto simp: k_def)
    then show False using Cons.prems(2) that by (metis distinct.simps(2) image_eqI list.set_map list.simps(9))
  qed
  have st: "set_license s x row = Inr (row[k := quantity x])"
    using k by (simp add: set_license_def index_set_i_def index_set_in)
  have sum: "sum_list (row[k := quantity x]) = sum_list row + quantity x"
    using k(1) Cons.prems(4) [of x] by (simp add: sum_list_update k_def)
  have z: "row[k := quantity x] ! tidx s (territoryId y) = 0" if "y \<in> set ds" for y
    using Cons.prems(4) [of y] ne [OF that] that by simp
  obtain row' where r: "run_fold (set_license s) ds (row[k := quantity x]) = Inr row'" "length row' = length row"
    "sum_list row' = sum_list (row[k := quantity x]) + sum_list (map quantity ds)"
    "\<forall>y \<in> set ds. row' ! tidx s (territoryId y) = quantity y"
    "\<forall>j < length row. j \<notin> (\<lambda>x. tidx s (territoryId x)) ` set ds \<longrightarrow> row' ! j = row[k := quantity x] ! j"
    using Cons.IH [OF _ _ _ z] Cons.prems(1-3) by auto
  have "k \<notin> (\<lambda>x. tidx s (territoryId x)) ` set ds" using ne by blast
  then have "row' ! k = quantity x" using r(5) k(1) by simp
  then show ?case using st sum r ne by (auto simp: k_def nth_list_update)
qed simp

section \<open>The invariant of the clock phase\<close>

text \<open>Licenses \<open>lics\<close> and excess demand \<open>es\<close> at the end of a round, within the eligibilities \<open>E\<close>.\<close>

definition books :: "StaticAuctionState \<Rightarrow> nat list \<Rightarrow> nat list list \<Rightarrow> int list \<Rightarrow> bool" where
  "books s E lics es =
     (grid (getBiddersN s) (getTerritoryN s) lics \<and> length es = getTerritoryN s \<and> length E = getBiddersN s \<and>
      (\<forall>t < getTerritoryN s. es ! t = int (col_sum lics t) - int (getSupply s ! t)) \<and>
      (\<forall>b < getBiddersN s. sum_list (lics ! b) \<le> E ! b))"

text \<open>No channel is assigned yet.\<close>

definition unassigned :: "DynamicAuctionState \<Rightarrow> bool" where
  "unassigned d = (winAssign d = [] \<and> assignCost d = [] \<and> channelPrice d = [])"

text \<open>The state between two transactions in round \<open>r\<close>: which entries the vectors have, the bids stored so
  far if the round is active, and from the second round on the books of the previous round, in which
  no territory of high demand was below its supply.\<close>

definition clock_inv :: "StaticAuctionState \<Rightarrow> DynamicAuctionState \<Rightarrow> bool" where
  "clock_inv s d =
     (let r = clockRound d in
      auctionState d = CLOCK_PHASE \<and> unassigned d \<and> 1 \<le> r \<and>
      length (clockPrice d) = Suc r \<and> length (clockPrice d ! r) = getTerritoryN s \<and>
      length (eligibility d) = Suc r \<and> length (eligibility d ! r) = getBiddersN s \<and>
      sum_list (eligibility d ! r) \<le> sum_list (getInitialEligibilities s) \<and>
      (r = 1 \<longrightarrow> eligibility d ! r = getInitialEligibilities s) \<and>
      length (postedPrice d) = max 2 r \<and> length (postedPrice d ! (r - 1)) = getTerritoryN s \<and>
      length (processedLicenses d) = r \<and> length (excessDemand d) = r \<and>
      (2 \<le> r \<longrightarrow> books s (eligibility d ! r) (processedLicenses d ! (r - 1)) (excessDemand d ! (r - 1)) \<and>
         \<not> final_stage_failed s (excessDemand d ! (r - 1))) \<and>
      (if roundActive d
       then length (clockBids d) = Suc r \<and> length (clockBids d ! r) = getBiddersN s \<and>
         (\<forall>i < getBiddersN s. bid_ok s r (eligibility d ! r ! i) (clockBids d ! r ! i))
       else length (clockBids d) = r))"

lemma resize_more: "length xs \<le> n \<Longrightarrow> resize n x xs = xs @ replicate (n - length xs) x"
  by (simp add: resize_def)

text \<open>A fresh state.\<close>

definition fresh :: "DynamicAuctionState \<Rightarrow> bool" where
  "fresh d = (postedPrice d = [] \<and> clockPrice d = [] \<and> eligibility d = [] \<and> clockBids d = [] \<and>
     excessDemand d = [] \<and> processedLicenses d = [] \<and> unassigned d)"

lemma createAuction_ok:
  assumes "wf_static s" "fresh d"
  obtains d' where "createAuction_tx s d = Inr (Inr (s\<lparr>owner := submitterPrincipal d\<rparr>, d'))"
    "clock_inv (s\<lparr>owner := submitterPrincipal d\<rparr>) d'" "clockRound d' = 1" "\<not> roundActive d'" "submitterPrincipal d' = submitterPrincipal d"
proof -
  define s' where "s' = s\<lparr>owner := submitterPrincipal d\<rparr>"
  have l: "length (getInitialPrices s') = getTerritoryN s'" "length (getInitialEligibilities s') = getBiddersN s'"
    using wf_static_lengths [OF assms(1)]
    by (simp_all add: s'_def getInitialPrices_def getTerritoryN_def getInitialEligibilities_def getBiddersN_def)
  have c: "checkValidity s" using assms(1) by (simp add: wf_static_def)
  obtain d' where "initialize CLOCK_PHASE 1 False s d = Inr (s', d')" "clock_inv s' d'" "clockRound d' = 1" "\<not> roundActive d'"
    "submitterPrincipal d' = submitterPrincipal d"
    using assms(2) l
    by (simp add: initialize_def fresh_def Let_def resize_def index_def clock_inv_def unassigned_def numeral_2_eq_2 flip: s'_def)
  then show thesis using c that by (simp add: createAuction_tx_def s'_def)
qed

lemma startRound_ok:
  assumes "wf_static s" "clock_inv s d" "clockRound d < 2 ^ 32 - 1" "\<not> roundActive d"
  obtains d' where "startRound s d = Inr d'" "clock_inv s d'" "roundActive d'" "clockRound d' = clockRound d"
    "submitterPrincipal d' = submitterPrincipal d"
proof -
  define r where "r = clockRound d"
  have r: "u32 (int r + 1) = Suc r" using assms(3) by (simp add: r_def)
  have l: "length (clockBids d) = r" "isStateClockPhase d" using assms(2,4) by (simp_all add: clock_inv_def Let_def r_def isStateClockPhase_def)
  define bids where "bids = clockBids d @ [replicate (getBiddersN s) no_bid]"
  have "startRound s d = Inr (d\<lparr>clockBids := bids, roundActive := True\<rparr>)"
    using l r unfolding startRound_def r_def [symmetric]
    by (simp add: resize_def index_def index_set_def bids_def list_update_append nth_append Let_def)
  moreover have "clock_inv s (d\<lparr>clockBids := bids, roundActive := True\<rparr>)"
    using assms(2,4) l(1) unfolding clock_inv_def Let_def
    by (simp add: bids_def nth_append unassigned_def flip: r_def) (simp add: bid_ok_def no_bid_def getDemandedTerritoryIds_def)
  ultimately show thesis using that by simp
qed

section \<open>Submitting a bid\<close>

lemma foldl_u32:
  "t < 2 ^ 32 \<Longrightarrow> foldl (\<lambda>t x. u32 (int t + int (f x))) t xs = (t + sum_list (map f xs)) mod 2 ^ 32"
proof (induction xs arbitrary: t)
  case (Cons x xs)
  have "u32 (int t + int (f x)) = (t + f x) mod 2 ^ 32" by (simp add: u32_def nat_mod_distrib nat_add_distrib)
  moreover have "((t + f x) mod 2 ^ 32 + sum_list (map f xs)) mod 2 ^ 32 = (t + f x + sum_list (map f xs)) mod 2 ^ 32"
    by (rule mod_add_left_eq)
  ultimately show ?case using Cons.IH [of "(t + f x) mod 2 ^ 32"] by (simp add: add.assoc)
qed simp

lemma valid_bidder:
  assumes "wf_static s" "isValidBidder s d"
  obtains i where "i < getBiddersN s" "fromBidderIdToBidderIndex s (fromPrincipalToBidderId s (submitterPrincipal d)) = int i"
    "getEligibilityNumber s (fromPrincipalToBidderId s (submitterPrincipal d)) = Inr (getInitialEligibilities s ! i)"
    "matchPrincipal (bidders s ! i) (submitterPrincipal d)"
proof -
  obtain b where b: "find (\<lambda>b. matchPrincipal b (submitterPrincipal d)) (bidders s) = Some b"
    using assms(2) by (auto simp: isValidBidder_def fromPrincipalToBidderId_def split: option.splits)
  then obtain i where i: "i < length (bidders s)" "bidders s ! i = b" "matchPrincipal b (submitterPrincipal d)"
    by (auto simp: find_Some_iff)
  have e: "length (initialEligibilities s) = length (bidders s)" "elig_bidderId (initialEligibilities s ! i) = bidder_id b"
    using assms(1) i unfolding wf_static_def by (metis length_map, metis length_map nth_map)
  have "distinct (map elig_bidderId (initialEligibilities s))" "distinct (map bidder_id (bidders s))"
    using assms(1) by (simp_all add: wf_static_def)
  then have "find (\<lambda>x. elig_bidderId x = bidder_id b) (initialEligibilities s) = Some (initialEligibilities s ! i)"
    "first_index (\<lambda>x. bidder_id x = bidder_id b) 0 (bidders s) = int i"
    using find_key [of elig_bidderId "initialEligibilities s" i] first_index_key [of bidder_id "bidders s" i 0] i e by simp_all
  moreover have "(\<lambda>x. matchBidderId x (bidder_id b)) = (\<lambda>x. elig_bidderId x = bidder_id b)" by (auto simp: matchBidderId_def)
  ultimately show thesis
    using that [of i] b i e
    by (simp add: fromPrincipalToBidderId_def fromBidderIdToBidderIndex_def getEligibilityNumber_def
        getBiddersN_def getInitialEligibilities_def)
qed

lemma getTerritory_Some:
  assumes "getTerritory s i = Some t"
  shows "i \<in> set (getTerritoryIds s)"
  using assms by (auto simp: getTerritory_def getTerritoryIds_def find_Some_iff image_iff)

lemma check_demands_ok:
  assumes w: "wf_static s" "clock_inv s d" "clockRound d < 2 ^ 32" and b: "isValidBidder s d"
  shows "(\<exists>e. check_demands s d b seen xs = Inr e) \<and> (check_demands s d b seen xs = Inr None \<longrightarrow>
      distinct (map territoryId xs) \<and> set (map territoryId xs) \<inter> set seen = {} \<and> set (map territoryId xs) \<subseteq> set (getTerritoryIds s) \<and>
      (\<forall>x \<in> set xs. quantity x \<le> getSupply s ! tidx s (territoryId x)) \<and>
      (clockRound d = 1 \<longrightarrow> xs \<noteq> [] \<longrightarrow>
         (\<exists>e. getEligibilityNumber s (fromPrincipalToBidderId s (submitterPrincipal d)) = Inr e \<and> sumQuantityDemands b \<le> e)))"
proof (induction xs arbitrary: seen)
  case (Cons x xs)
  define r where "r = clockRound d"
  have l: "length (postedPrice d) = max 2 r" "length (postedPrice d ! (r - 1)) = getTerritoryN s"
    "length (clockPrice d) = Suc r" "length (clockPrice d ! r) = getTerritoryN s" "1 \<le> r" "u32 (int r - 1) = r - 1"
    using w(2,3) by (auto simp: clock_inv_def Let_def r_def)
  obtain e where e: "getEligibilityNumber s (fromPrincipalToBidderId s (submitterPrincipal d)) = Inr e"
    using valid_bidder [OF w(1) b] by metis
  have "\<exists>e. check_demands s d b seen (x # xs) = Inr e"
  proof (cases "getTerritory s (territoryId x)")
    case (Some t)
    note p = tidx_props [OF w(1) getTerritory_Some [OF Some]]
    show ?thesis
      using Cons.IH [of "territoryId x # seen"] Some p(1,3) e l
      by (auto simp: Let_def index_i_def index_in simp flip: r_def)
  qed simp
  moreover have "distinct (map territoryId (x # xs)) \<and> set (map territoryId (x # xs)) \<inter> set seen = {} \<and>
      set (map territoryId (x # xs)) \<subseteq> set (getTerritoryIds s) \<and>
      (\<forall>x \<in> set (x # xs). quantity x \<le> getSupply s ! tidx s (territoryId x)) \<and>
      (clockRound d = 1 \<longrightarrow> x # xs \<noteq> [] \<longrightarrow>
         (\<exists>e. getEligibilityNumber s (fromPrincipalToBidderId s (submitterPrincipal d)) = Inr e \<and> sumQuantityDemands b \<le> e))"
    if n: "check_demands s d b seen (x # xs) = Inr None"
  proof -
  from n obtain t where t: "getTerritory s (territoryId x) = Some t" by (auto simp: Let_def split: option.splits)
  note p = tidx_props [OF w(1) getTerritory_Some [OF t]]
  have rest: "check_demands s d b (territoryId x # seen) xs = Inr None"
    and x: "territoryId x \<notin> set seen" "quantity x \<le> numberOfChannels t" "r = 1 \<longrightarrow> sumQuantityDemands b \<le> e"
    using n t p(1,3) e l by (auto simp: Let_def index_i_def index_in simp flip: r_def split: if_splits)
  have "quantity x \<le> getSupply s ! tidx s (territoryId x)"
    using x(2) p t territory_lookup [OF w(1) p(1)] by simp
  then show ?thesis
    using Cons.IH [of "territoryId x # seen"] rest x e getTerritory_Some [OF t] by (auto simp: r_def)
  qed
  ultimately show ?case by blast
qed simp_all

lemma sum_list_mono_nth:
  fixes xs ys :: "nat list"
  shows "length xs = length ys \<Longrightarrow> (\<And>k. k < length xs \<Longrightarrow> xs ! k \<le> ys ! k) \<Longrightarrow> sum_list xs \<le> sum_list ys"
  by (auto simp: sum_list_sum_nth intro!: sum_mono)

lemma license_row:
  assumes "wf_static s" "distinct (map territoryId ds)" "set (map territoryId ds) \<subseteq> set (getTerritoryIds s)"
    and "\<And>x. x \<in> set ds \<Longrightarrow> quantity x \<le> getSupply s ! tidx s (territoryId x)"
  obtains row where "run_fold (set_license s) ds (replicate (getTerritoryN s) 0) = Inr row" "length row = getTerritoryN s"
    "sum_list row = sum_list (map quantity ds)" "\<forall>x \<in> set ds. row ! tidx s (territoryId x) = quantity x"
    "\<forall>k < getTerritoryN s. row ! k \<le> getSupply s ! k" "sum_list row \<le> sum_list (getSupply s)"
proof -
  have z: "replicate (getTerritoryN s) 0 ! tidx s (territoryId x) = (0::nat)" if "x \<in> set ds" for x
    using tidx_props(1) [OF assms(1), of "territoryId x"] assms(3) that by auto
  obtain row where row: "run_fold (set_license s) ds (replicate (getTerritoryN s) 0) = Inr row" "length row = getTerritoryN s"
    "sum_list row = sum_list (map quantity ds)" "\<forall>x \<in> set ds. row ! tidx s (territoryId x) = quantity x"
    "\<forall>k < getTerritoryN s. k \<notin> (\<lambda>x. tidx s (territoryId x)) ` set ds \<longrightarrow> row ! k = 0"
    using set_licenses [OF assms(1) _ assms(2,3) z] by (auto simp: sum_list_replicate)
  have le: "row ! k \<le> getSupply s ! k" if "k < getTerritoryN s" for k
    using row(4,5) that assms(4) by (cases "k \<in> (\<lambda>x. tidx s (territoryId x)) ` set ds") auto
  then have "sum_list row \<le> sum_list (getSupply s)"
    using row(2) wf_static_lengths(2) [OF assms(1)] by (intro sum_list_mono_nth) simp_all
  then show thesis using that row le by blast
qed

lemma isValidBid_ok:
  assumes "wf_static s" "clock_inv s d" "clockRound d < 2 ^ 32"
  shows "\<exists>e. isValidBid s d b = Inr e"
    and "isValidBid s d b = Inr None \<Longrightarrow> isValidBidder s d \<and> roundActive d \<and> bid_round b = clockRound d \<and>
      (\<forall>i < getBiddersN s. fromBidderIdToBidderIndex s (fromPrincipalToBidderId s (submitterPrincipal d)) = int i \<longrightarrow>
         bid_ok s (clockRound d) (eligibility d ! clockRound d ! i) b)"
proof -
  show "\<exists>e. isValidBid s d b = Inr e"
    using check_demands_ok [OF assms] by (simp add: isValidBid_def)
  assume n: "isValidBid s d b = Inr None"
  then have b: "isValidBidder s d" "roundActive d" "bid_round b = clockRound d" and c: "check_demands s d b [] (demands b) = Inr None"
    by (auto simp: isValidBid_def split: if_splits)
  note v = check_demands_ok [OF assms b(1), of b "[]" "demands b", THEN conjunct2, rule_format, OF c]
  obtain row where "sum_list row = sum_list (map quantity (demands b))" "sum_list row \<le> sum_list (getSupply s)"
    using license_row [OF assms(1), of "demands b"] v by auto
  then have "sum_list (map quantity (demands b)) < 2 ^ 32" using assms(1) by (simp add: wf_static_def)
  then have q: "sumQuantityDemands b = sum_list (map quantity (demands b))"
    using foldl_u32 [of 0 quantity "demands b"] by (simp add: sumQuantityDemands_def)
  have "bid_ok s (clockRound d) (eligibility d ! clockRound d ! i) b"
    if i: "i < getBiddersN s" "fromBidderIdToBidderIndex s (fromPrincipalToBidderId s (submitterPrincipal d)) = int i" for i
  proof -
    have e: "getEligibilityNumber s (fromPrincipalToBidderId s (submitterPrincipal d)) = Inr (getInitialEligibilities s ! i)"
      using valid_bidder [OF assms(1) b(1)] i(2) by (metis of_nat_eq_iff)
    have "sum_list (map quantity (demands b)) \<le> eligibility d ! clockRound d ! i" if r: "clockRound d = 1"
      using v e q r assms(2) by (cases "demands b = []") (auto simp: clock_inv_def Let_def)
    then show ?thesis using v by (auto simp: bid_ok_def getDemandedTerritoryIds_def)
  qed
  then show "isValidBidder s d \<and> roundActive d \<and> bid_round b = clockRound d \<and>
      (\<forall>i < getBiddersN s. fromBidderIdToBidderIndex s (fromPrincipalToBidderId s (submitterPrincipal d)) = int i \<longrightarrow>
         bid_ok s (clockRound d) (eligibility d ! clockRound d ! i) b)" using b by simp
qed

lemma storeBid_ok:
  assumes "wf_static s" "clock_inv s d" "clockRound d < 2 ^ 32" "isValidBid s d b = Inr None"
  obtains i where "i < getBiddersN s" "matchPrincipal (bidders s ! i) (submitterPrincipal d)"
    "storeBid s d b = Inr (d\<lparr>clockBids := put2 (clockBids d) (clockRound d) i b\<rparr>)"
    "clock_inv s (d\<lparr>clockBids := put2 (clockBids d) (clockRound d) i b\<rparr>)"
proof -
  note v = isValidBid_ok(2) [OF assms(1-4)]
  obtain i where i: "i < getBiddersN s" "fromBidderIdToBidderIndex s (fromPrincipalToBidderId s (submitterPrincipal d)) = int i"
    "matchPrincipal (bidders s ! i) (submitterPrincipal d)"
    using valid_bidder [OF assms(1)] v by metis
  define r where "r = clockRound d"
  have l: "length (clockBids d) = Suc r" "length (clockBids d ! r) = getBiddersN s"
    using v assms(2) by (simp_all add: clock_inv_def Let_def r_def)
  have "storeBid s d b = Inr (d\<lparr>clockBids := put2 (clockBids d) r i b\<rparr>)"
    using l i by (simp add: storeBid_def index_in index_set_in index_set_i_def put2_def flip: r_def)
  moreover have "clock_inv s (d\<lparr>clockBids := put2 (clockBids d) r i b\<rparr>)"
    using assms(2) v i l unfolding clock_inv_def Let_def
    by (simp add: put2_def nth_list_update unassigned_def flip: r_def)
  ultimately show thesis using that i by (simp add: r_def)
qed

section \<open>Completing the bids\<close>

lemma fill_demands:
  assumes w: "wf_static s" and l: "u32 (int (clockRound d) - 1) < length (postedPrice d)"
    "length (postedPrice d ! u32 (int (clockRound d) - 1)) = getTerritoryN s"
  shows "set is \<subseteq> set (getTerritoryIds s) \<Longrightarrow>
    run_fold (fill_demand s d) is ds =
      Inr (ds @ map (\<lambda>i. \<lparr>territoryId = i, quantity = 0, price = postedPrice d ! u32 (int (clockRound d) - 1) ! tidx s i\<rparr>) is)"
proof (induction "is" arbitrary: ds)
  case (Cons i js)
  then have "fill_demand s d i ds = Inr (ds @ [\<lparr>territoryId = i, quantity = 0, price = postedPrice d ! u32 (int (clockRound d) - 1) ! tidx s i\<rparr>])"
    using tidx_props(1,3) [OF w, of i] l by (simp add: fill_demand_def index_in index_i_def)
  then show ?case using Cons by simp
qed simp

lemma fillMissingBids_ok:
  assumes w: "wf_static s" "1 \<le> clockRound d" "clockRound d < 2 ^ 32"
    "clockRound d - 1 < length (postedPrice d)" "length (postedPrice d ! (clockRound d - 1)) = getTerritoryN s"
    and n: "length (clockBids d) = Suc (clockRound d)" "length (clockBids d ! clockRound d) = getBiddersN s"
  shows "fillMissingBids s a d = Inr (d\<lparr>clockBids := (clockBids d)[clockRound d :=
    map (\<lambda>i. filled s a (clockRound d) (postedPrice d ! (clockRound d - 1)) (clockBids d ! clockRound d ! i)) [0..<getBiddersN s]]\<rparr>)"
proof -
  define r where "r = clockRound d"
  have r: "u32 (int r - 1) = r - 1" "r - 1 < length (postedPrice d)" "length (postedPrice d ! (r - 1)) = getTerritoryN s"
    using w(2-) by (simp_all add: r_def)
  have "run_fold (fill_bid s a d) [0..<getBiddersN s] (clockBids d) =
      Inr ((clockBids d)[r := map (\<lambda>i. filled s a r (postedPrice d ! (r - 1)) (clockBids d ! r ! i)) [0..<getBiddersN s] @ drop (getBiddersN s) (clockBids d ! r)])"
  proof (rule run_fold_rows2)
    fix i xss
    assume i: "i < getBiddersN s" and x: "length xss = length (clockBids d)" "length (xss ! r) = length (clockBids d ! r)" "xss ! r ! i = clockBids d ! r ! i"
    define b where "b = clockBids d ! r ! i"
    define diff where "diff = set_difference (sort (getTerritoryIds s)) (sort (getDemandedTerritoryIds b))"
    have "set diff \<subseteq> set (getTerritoryIds s)"
      using set_difference_set(1) [of "sort (getTerritoryIds s)" "sort (getDemandedTerritoryIds b)"] w(1) by (auto simp: diff_def wf_static_def)
    then have "run_fold (fill_demand s d) diff (demands b) =
        Inr (demands b @ map (\<lambda>i. \<lparr>territoryId = i, quantity = 0, price = postedPrice d ! (r - 1) ! tidx s i\<rparr>) diff)"
      using fill_demands [OF w(1), of d diff "demands b"] r by (simp add: r_def)
    then show "fill_bid s a d i xss = Inr (put2 xss r i (filled s a r (postedPrice d ! (r - 1)) (clockBids d ! r ! i)))"
      using i x n by (simp add: fill_bid_def index2_eq index_set2_eq put2_def filled_def flip: r_def b_def diff_def)
  qed (use n in \<open>simp_all add: r_def\<close>)
  then show ?thesis using n by (simp add: fillMissingBids_def r_def)
qed

section \<open>The first round\<close>

lemma processInitialRoundBids_ok:
  assumes w: "wf_static s" "clock_inv s d" "roundActive d" "clockRound d = 1"
  obtains lics d1 where "processInitialRoundBids s a (processBidsPreamble (endRound d)) = Inr d1"
    "clockRound d1 = 1" "auctionState d1 = CLOCK_PHASE" "er d1 = EC_SUCCESS" "\<not> roundActive d1" "submitterPrincipal d1 = submitterPrincipal d" "unassigned d1"
    "processedLicenses d1 = [processedLicenses d ! 0, lics]" "excessDemand d1 = excessDemand d" "eligibility d1 = eligibility d"
    "length (clockBids d1) = 2" "clockPrice d1 = clockPrice d" "postedPrice d1 = [postedPrice d ! 0, getInitialPrices s]"
    "grid (getBiddersN s) (getTerritoryN s) lics"
    "\<And>i. i < getBiddersN s \<Longrightarrow> sum_list (lics ! i) \<le> eligibility d ! 1 ! i"
    "\<And>i x. i < getBiddersN s \<Longrightarrow> x \<in> set (demands (filled s a 1 (postedPrice d ! 0) (clockBids d ! 1 ! i))) \<Longrightarrow>
      lics ! i ! tidx s (territoryId x) = quantity x"
proof -
  define N where "N = getBiddersN s"
  define d0 where "d0 = processBidsPreamble (endRound d)"
  define fb where "fb = (\<lambda>i. filled s a 1 (postedPrice d ! 0) (clockBids d ! 1 ! i))"
  have l: "length (clockBids d) = 2" "length (clockBids d ! 1) = N" "length (processedLicenses d) = 1" "length (postedPrice d) = 2"
    "length (postedPrice d ! 0) = getTerritoryN s"
    and ok: "\<And>i. i < N \<Longrightarrow> bid_ok s 1 (eligibility d ! 1 ! i) (clockBids d ! 1 ! i)"
    using w(2-) by (auto simp: clock_inv_def Let_def N_def)
  have f: "clockBids d0 = clockBids d" "postedPrice d0 = postedPrice d" "clockRound d0 = 1" "processedLicenses d0 = processedLicenses d"
    using w(4) by (simp_all add: d0_def processBidsPreamble_def endRound_def)
  have fill: "fillMissingBids s a d0 = Inr (d0\<lparr>clockBids := (clockBids d)[1 := map fb [0..<N]]\<rparr>)"
    using fillMissingBids_ok [OF w(1), of d0 a] l by (simp add: f fb_def N_def)
  have "\<exists>row. run_fold (set_license s) (demands (fb i)) (replicate (getTerritoryN s) 0) = Inr row \<and> length row = getTerritoryN s \<and>
      sum_list row \<le> eligibility d ! 1 ! i \<and> (\<forall>x \<in> set (demands (fb i)). row ! tidx s (territoryId x) = quantity x)" if "i < N" for i
  proof -
    have "bid_ok s 1 (eligibility d ! 1 ! i) (fb i)"
      using filled_ids(3) [OF w(1) ok [OF that], of a "postedPrice d ! 0"] by (simp add: fb_def)
    then have b: "distinct (map territoryId (demands (fb i)))" "set (map territoryId (demands (fb i))) \<subseteq> set (getTerritoryIds s)"
      "\<And>x. x \<in> set (demands (fb i)) \<Longrightarrow> quantity x \<le> getSupply s ! tidx s (territoryId x)"
      "sum_list (map quantity (demands (fb i))) \<le> eligibility d ! 1 ! i"
      by (simp_all add: bid_ok_def getDemandedTerritoryIds_def)
    show ?thesis by (rule license_row [OF w(1) b(1-3)]) (use b(4) in auto)
  qed
  then obtain row where row: "\<And>i. i < N \<Longrightarrow> run_fold (set_license s) (demands (fb i)) (replicate (getTerritoryN s) 0) = Inr (row i) \<and>
      length (row i) = getTerritoryN s \<and> sum_list (row i) \<le> eligibility d ! 1 ! i \<and>
      (\<forall>x \<in> set (demands (fb i)). row i ! tidx s (territoryId x) = quantity x)" by metis
  have "run_fold (bidder_licenses s ((clockBids d)[1 := map fb [0..<N]])) [0..<N] (replicate N []) = Inr (map row [0..<N] @ drop N (replicate N []))"
    using row l by (intro run_fold_rows) (simp_all add: bidder_licenses_def index_in index_set_in index2_eq resize_def)
  then have fold: "run_fold (bidder_licenses s ((clockBids d)[1 := map fb [0..<N]])) [0..<N] (replicate N []) = Inr (map row [0..<N])" by simp
  obtain pl0 p0 p1 where pl: "processedLicenses d = [pl0]" "postedPrice d = [p0, p1]"
    using l(3,4) by (auto simp: length_Suc_conv numeral_2_eq_2)
  have p: "processInitialRoundBids s a d0 = Inr (d0\<lparr>clockBids := (clockBids d)[1 := map fb [0..<N]],
      processedLicenses := [processedLicenses d ! 0, map row [0..<N]], postedPrice := [postedPrice d ! 0, getInitialPrices s]\<rparr>)"
    unfolding processInitialRoundBids_def fill run_bind_simps Let_def
    using fold by (simp add: f pl resize_def numeral_2_eq_2 flip: N_def)
  define lics where "lics = map row [0..<N]"
  have g: "grid (getBiddersN s) (getTerritoryN s) lics" using row by (simp add: grid_iff lics_def N_def)
  have q: "lics ! i ! tidx s (territoryId x) = quantity x" if "i < getBiddersN s" "x \<in> set (demands (filled s a 1 (postedPrice d ! 0) (clockBids d ! 1 ! i)))" for i x
    using row [of i] that by (simp add: fb_def lics_def N_def)
  have e: "sum_list (lics ! i) \<le> eligibility d ! 1 ! i" if "i < getBiddersN s" for i
    using row [of i] that by (simp add: lics_def N_def)
  have f': "auctionState d0 = CLOCK_PHASE" "er d0 = EC_SUCCESS" "\<not> roundActive d0" "submitterPrincipal d0 = submitterPrincipal d"
    "excessDemand d0 = excessDemand d" "eligibility d0 = eligibility d" "clockPrice d0 = clockPrice d" "unassigned d0"
    using w(2) by (simp_all add: d0_def processBidsPreamble_def endRound_def clock_inv_def Let_def unassigned_def)
  show thesis
    by (rule that [OF p [unfolded d0_def], folded d0_def lics_def]) (use f f' l(1) g q e in \<open>simp_all add: unassigned_def\<close>)
qed

section \<open>Later rounds: the queue\<close>

definition bid_of :: "enqueuedBid \<Rightarrow> nat \<times> nat \<times> Demand" where
  "bid_of eb = (bidderIndex eb, territoryIndex eb, demand eb)"

text \<open>The demands of bidder \<open>i\<close> that are queued.\<close>

definition changes :: "StaticAuctionState \<Rightarrow> nat list list \<Rightarrow> (nat \<Rightarrow> Demand list) \<Rightarrow> nat \<Rightarrow> (nat \<times> nat \<times> Demand) list" where
  "changes s lics ds i =
     map (\<lambda>x. (i, tidx s (territoryId x), x)) (filter (\<lambda>x. lics ! i ! tidx s (territoryId x) \<noteq> quantity x) (rev (ds i)))"

definition rand_ok :: "evaluation \<Rightarrow> bool" where
  "rand_ok env = (\<forall>k. fst (read_rand env k) = 0)"

lemma get_random_ok: "rand_ok env \<Longrightarrow> fst (get_random_bytes env k) = 0"
  by (simp add: rand_ok_def get_random_bytes_def)

text \<open>The entries of the vectors that queueing reads.\<close>

definition readable :: "StaticAuctionState \<Rightarrow> DynamicAuctionState \<Rightarrow> bool" where
  "readable s d =
     (let r = clockRound d in
      2 \<le> r \<and> r < 2 ^ 32 \<and> r - 1 < length (processedLicenses d) \<and> grid (getBiddersN s) (getTerritoryN s) (processedLicenses d ! (r - 1)) \<and>
      r - 1 < length (postedPrice d) \<and> length (postedPrice d ! (r - 1)) = getTerritoryN s \<and>
      r < length (clockPrice d) \<and> length (clockPrice d ! r) = getTerritoryN s)"

lemma enqueue_demand_eval:
  assumes w: "wf_static s" "readable s d" "i < getBiddersN s" "territoryId x \<in> set (getTerritoryIds s)"
  obtains eb where "bid_of eb = (i, tidx s (territoryId x), x)"
    "enqueue_demand env s d i x (queue, k, True) =
       Inr (if processedLicenses d ! (clockRound d - 1) ! i ! tidx s (territoryId x) = quantity x then (queue, k, True)
            else if fst (get_random_bytes env k) \<noteq> 0 then (queue, Suc k, False) else (queue @ [eb], Suc k, True))"
proof -
  define r where "r = clockRound d"
  define t where "t = tidx s (territoryId x)"
  have t: "t < getTerritoryN s" "getTerritoryIndex s (territoryId x) = int t" "u32 (int t) = t"
    using tidx_props(1,3,5) [OF w(1,4)] by (simp_all add: t_def)
  have l: "u32 (int r - 1) = r - 1" "r - 1 < length (processedLicenses d)"
    "i < length (processedLicenses d ! (r - 1))" "t < length (processedLicenses d ! (r - 1) ! i)"
    "r - 1 < length (postedPrice d)" "t < length (postedPrice d ! (r - 1))" "r < length (clockPrice d)" "t < length (clockPrice d ! r)"
    using w(2,3) t(1) by (auto simp: readable_def Let_def r_def grid_iff)
  have "\<exists>eb. bid_of eb = (i, t, x) \<and> enqueue_demand env s d i x (queue, k, True) =
       Inr (if processedLicenses d ! (r - 1) ! i ! t = quantity x then (queue, k, True)
            else if fst (get_random_bytes env k) \<noteq> 0 then (queue, Suc k, False) else (queue @ [eb], Suc k, True))"
    by (intro exI [of _ "\<lparr>bidderIndex = i, territoryIndex = t, demand = x,
          pricePoint = u32 (lround (unspecified_long env) (dmul (ddiv (dsub (price x) (postedPrice d ! (r - 1) ! t))
            (dsub (clockPrice d ! r ! t) (postedPrice d ! (r - 1) ! t))) (double_of_int 100))),
          randomValue = bytes_u32 (snd (get_random_bytes env k))\<rparr>"])
      (use l in \<open>simp add: enqueue_demand_def Let_def t index_in index2_eq bid_of_def split_beta flip: r_def\<close>)
  then show thesis using that by (auto simp: t_def r_def)
qed

lemma enqueue_demands:
  assumes w: "wf_static s" "readable s d" "rand_ok env" "i < getBiddersN s"
  shows "set (map territoryId xs) \<subseteq> set (getTerritoryIds s) \<Longrightarrow>
    \<exists>new k'. run_fold (enqueue_demand env s d i) xs (queue, k, True) = Inr (queue @ new, k', True) \<and>
      map bid_of new = map (\<lambda>x. (i, tidx s (territoryId x), x))
        (filter (\<lambda>x. processedLicenses d ! (clockRound d - 1) ! i ! tidx s (territoryId x) \<noteq> quantity x) xs)"
proof (induction xs arbitrary: queue k)
  case (Cons x xs)
  define same where "same = (processedLicenses d ! (clockRound d - 1) ! i ! tidx s (territoryId x) = quantity x)"
  have x: "territoryId x \<in> set (getTerritoryIds s)" using Cons.prems by simp
  obtain eb where eb: "bid_of eb = (i, tidx s (territoryId x), x)"
    "enqueue_demand env s d i x (queue, k, True) = Inr (if same then (queue, k, True) else (queue @ [eb], Suc k, True))"
    by (rule enqueue_demand_eval [OF w(1,2,4) x, of env queue k]) (use get_random_ok [OF w(3)] in \<open>simp add: same_def\<close>)
  define new where "new = (if same then [] else [eb])"
  have 1: "enqueue_demand env s d i x (queue, k, True) = Inr (queue @ new, if same then k else Suc k, True)" using eb(2) by (simp add: new_def)
  obtain new' k' where 2: "run_fold (enqueue_demand env s d i) xs (queue @ new, if same then k else Suc k, True) = Inr ((queue @ new) @ new', k', True)"
    "map bid_of new' = map (\<lambda>x. (i, tidx s (territoryId x), x))
        (filter (\<lambda>x. processedLicenses d ! (clockRound d - 1) ! i ! tidx s (territoryId x) \<noteq> quantity x) xs)"
    using Cons.IH [of "queue @ new" "if same then k else Suc k"] Cons.prems by auto
  show ?case using 1 2 eb(1) by (intro exI [of _ "new @ new'"] exI [of _ k']) (simp add: new_def same_def)
qed simp

lemma enqueue_bidders:
  assumes w: "wf_static s" "readable s d" "rand_ok env" and b: "clockRound d < length (clockBids d)" "getBiddersN s \<le> length (clockBids d ! clockRound d)"
    and ids: "\<And>i. i < getBiddersN s \<Longrightarrow> set (getDemandedTerritoryIds (clockBids d ! clockRound d ! i)) \<subseteq> set (getTerritoryIds s)"
  shows "set is \<subseteq> {..<getBiddersN s} \<Longrightarrow>
    \<exists>new k'. run_fold (enqueue_bidder env s d) is (queue, k, True) = Inr (queue @ new, k', True) \<and>
      map bid_of new = concat (map (changes s (processedLicenses d ! (clockRound d - 1)) (\<lambda>i. demands (clockBids d ! clockRound d ! i))) is)"
proof (induction "is" arbitrary: queue k)
  case (Cons i js)
  have i: "i < getBiddersN s" using Cons.prems by simp
  define b where "b = clockBids d ! clockRound d ! i"
  obtain new k1 where 1: "run_fold (enqueue_demand env s d i) (rev (demands b)) (queue, k, True) = Inr (queue @ new, k1, True)"
    "map bid_of new = changes s (processedLicenses d ! (clockRound d - 1)) (\<lambda>i. demands (clockBids d ! clockRound d ! i)) i"
    using enqueue_demands [OF w i, of "rev (demands b)" queue k] ids [OF i]
    by (auto simp: changes_def getDemandedTerritoryIds_def rev_map b_def)
  have "enqueue_bidder env s d i (queue, k, True) = Inr (queue @ new, k1, True)"
    using 1(1) i assms(4,5) by (simp add: enqueue_bidder_def index2_eq flip: b_def)
  moreover obtain new' k' where "run_fold (enqueue_bidder env s d) js (queue @ new, k1, True) = Inr ((queue @ new) @ new', k', True)"
    "map bid_of new' = concat (map (changes s (processedLicenses d ! (clockRound d - 1)) (\<lambda>i. demands (clockBids d ! clockRound d ! i))) js)"
    using Cons.IH [of "queue @ new" k1] Cons.prems by auto
  ultimately show ?case using 1(2) by (auto intro!: exI [of _ "new @ new'"])
qed simp

lemma insert_bid_mset [simp]: "mset (insert_bid x xs) = add_mset x (mset xs)"
  by (induction xs) auto

lemma sort_bids_mset: "mset (sort_bids xs) = mset xs"
proof -
  have "mset (foldl (\<lambda>sorted x. insert_bid x sorted) ys xs) = mset ys + mset xs" for ys
    by (induction xs arbitrary: ys) auto
  then show ?thesis by (simp add: sort_bids_def)
qed

lemma distinct_keyed:
  assumes "distinct is" "\<And>i. i \<in> set is \<Longrightarrow> distinct (f i)" "\<And>i p. i \<in> set is \<Longrightarrow> p \<in> set (f i) \<Longrightarrow> fst p = i"
  shows "distinct (concat (map f is))"
  using assms
proof (induction "is")
  case (Cons i js)
  have "set (f i) \<inter> set (concat (map f js)) = {}" 
  proof (rule ccontr)
    assume "set (f i) \<inter> set (concat (map f js)) \<noteq> {}"
    then obtain p j where "p \<in> set (f i)" "j \<in> set js" "p \<in> set (f j)" by auto
    then have "i = j" using Cons.prems(3) [of i p] Cons.prems(3) [of j p] by simp
    then show False using Cons.prems(1) \<open>j \<in> set js\<close> by simp
  qed
  then show ?case using Cons by simp
qed simp

lemma queue_keys_ok:
  assumes w: "wf_static s" "length E = getBiddersN s" and k: "map bid_of queue = concat (map (changes s lics ds) [0..<getBiddersN s])"
    and ids: "\<And>i. i < getBiddersN s \<Longrightarrow> distinct (map territoryId (ds i)) \<and> set (map territoryId (ds i)) \<subseteq> set (getTerritoryIds s)"
  shows "queue_ok E (getSupply s) (sort_bids queue)"
proof -
  define place where "place = (\<lambda>eb :: enqueuedBid. (bidderIndex eb, territoryIndex eb))"
  define f where "f = (\<lambda>i. map (\<lambda>p. (fst p, fst (snd p))) (changes s lics ds i))"
  have "map place queue = map (\<lambda>p. (fst p, fst (snd p))) (map bid_of queue)" by (simp add: bid_of_def place_def)
  also have "\<dots> = concat (map f [0..<getBiddersN s])" unfolding k by (simp add: map_concat f_def comp_def)
  finally have m: "map place queue = concat (map f [0..<getBiddersN s])" .
  have "distinct (f i)" if i: "i \<in> set [0..<getBiddersN s]" for i
  proof -
    have d: "distinct (map territoryId (ds i))" "territoryId ` set (ds i) \<subseteq> set (getTerritoryIds s)" using ids [of i] i by simp_all
    have "inj_on (tidx s) (territoryId ` set (ds i))" using tidx_inj [OF w(1)] d(2) by (meson inj_onI subsetD)
    then have "inj_on (\<lambda>x. tidx s (territoryId x)) (set (ds i))"
      using d(1) comp_inj_on [of territoryId "set (ds i)" "tidx s"] by (simp add: distinct_map comp_def)
    then have "distinct (map (\<lambda>x. tidx s (territoryId x)) (rev (ds i)))" using d(1) by (simp add: distinct_map)
    then show ?thesis by (auto simp: f_def changes_def comp_def distinct_map inj_on_def)
  qed
  then have "distinct (map place queue)"
    unfolding m by (intro distinct_keyed) (auto simp: f_def changes_def)
  then have "distinct (map place (sort_bids queue))"
    using mset_eq_imp_distinct_iff [of "map place (sort_bids queue)" "map place queue"] by (simp add: sort_bids_mset)
  moreover have "bid_in E (getSupply s) eb" if "eb \<in> set (sort_bids queue)" for eb
  proof -
    have "eb \<in> set queue" using that mset_eq_setD [OF sort_bids_mset [of queue]] by simp
    then have "bid_of eb \<in> set (concat (map (changes s lics ds) [0..<getBiddersN s]))" by (simp flip: k)
    then obtain i x where "i < getBiddersN s" "x \<in> set (ds i)" "bid_of eb = (i, tidx s (territoryId x), x)"
      by (auto simp: changes_def)
    moreover from this have "tidx s (territoryId x) < getTerritoryN s" using ids [of i] by (intro tidx_props [OF w(1)]) auto
    ultimately show ?thesis using w wf_static_lengths(2) [OF w(1)] by (simp add: bid_in_def bid_of_def)
  qed
  ultimately show ?thesis by (simp add: queue_ok_def place_def)
qed

section \<open>Later rounds: the result\<close>

text \<open>How many licenses of a territory a bid asks for.\<close>

definition wanted :: "StaticAuctionState \<Rightarrow> Bid \<Rightarrow> nat \<Rightarrow> nat" where
  "wanted s b t =
     (case find (\<lambda>x. territoryId x = getTerritoryIds s ! t) (demands b) of Some x \<Rightarrow> quantity x | None \<Rightarrow> 0)"

lemma wanted_filled:
  assumes "wf_static s" "bid_ok s r e b" "t < getTerritoryN s"
  obtains x where "x \<in> set (demands (filled s a r ps b))" "tidx s (territoryId x) = t" "quantity x = wanted s b t"
proof -
  define i where "i = getTerritoryIds s ! t"
  have i: "i \<in> set (getTerritoryIds s)" "tidx s i = t"
    using assms(3) wf_static_lengths(7) [OF assms(1)] territory_lookup(1) [OF assms(1,3)] by (simp_all add: i_def tidx_def)
  show thesis
  proof (cases "find (\<lambda>x. territoryId x = i) (demands b)")
    case None
    then have "i \<notin> set (getDemandedTerritoryIds b)" by (auto simp: find_None_iff getDemandedTerritoryIds_def)
    then have "i \<in> set (set_difference (sort (getTerritoryIds s)) (sort (getDemandedTerritoryIds b)))"
      using set_difference_set(1) [of "sort (getTerritoryIds s)" "sort (getDemandedTerritoryIds b)"] assms(1) i by (simp add: wf_static_def)
    then show thesis
      using None i by (intro that [of "\<lparr>territoryId = i, quantity = 0, price = ps ! tidx s i\<rparr>"]) (auto simp: filled_def wanted_def i_def)
  next
    case (Some x)
    then have "x \<in> set (demands b)" "territoryId x = i" by (auto simp: find_Some_iff)
    then show thesis using Some i by (intro that [of x]) (simp_all add: filled_def wanted_def i_def)
  qed
qed

text \<open>The licenses \<open>lics\<close> and the excess demand \<open>es\<close> after round \<open>r\<close>: every bidder's licenses of a territory lie
  between the old ones and what it asked for; short of the demand only with its eligibility used up,
  above it only without excess demand.\<close>

definition round_result :: "StaticAuctionState \<Rightarrow> DynamicAuctionState \<Rightarrow> nat list list \<Rightarrow> int list \<Rightarrow> bool" where
  "round_result s d lics es =
     (\<forall>i < getBiddersN s. \<forall>t < getTerritoryN s.
        let r = clockRound d; w = wanted s (clockBids d ! r ! i) t;
            old = (if r = 1 then 0 else processedLicenses d ! (r - 1) ! i ! t); new = lics ! i ! t
        in min old w \<le> new \<and> new \<le> max old w \<and>
           (new < w \<longrightarrow> sum_list (lics ! i) = eligibility d ! r ! i) \<and> (w < new \<longrightarrow> es ! t \<le> 0))"

lemma books_balanced:
  assumes "wf_static s" "books s E lics es" "length ps = getTerritoryN s"
  shows "balanced E (getSupply s) \<lparr>licenses = lics, excess = es,
    eligibilityCap = map (\<lambda>i. E ! i - sum_list (lics ! i)) [0..<getBiddersN s], posted = ps\<rparr>"
  using assms wf_static_lengths(2) [OF assms(1)] by (simp add: balanced_def books_def)

lemma small_static:
  assumes "wf_static s" "sum_list E \<le> sum_list (getInitialEligibilities s)"
  shows "small E (getSupply s)"
proof -
  have "n \<le> sum_list (getSupply s)" if "n \<in> set (getSupply s)" for n using that by (intro member_le_sum_list) simp_all
  then show ?thesis using assms by (fastforce simp: small_def wf_static_def)
qed

lemma process_queue_ok:
  assumes w: "wf_static s" and r: "2 \<le> clockRound d" "clockRound d < 2 ^ 32"
    and l: "length (processedLicenses d) = clockRound d" "length (excessDemand d) = clockRound d"
      "clockRound d < length (eligibility d)" "clockRound d < length (clockPrice d)" "length (clockPrice d ! clockRound d) = getTerritoryN s"
      "length (postedPrice d) = Suc (clockRound d)" "length (postedPrice d ! clockRound d) = getTerritoryN s"
    and b: "books s (eligibility d ! clockRound d) (processedLicenses d ! (clockRound d - 1)) (excessDemand d ! (clockRound d - 1))"
      "sum_list (eligibility d ! clockRound d) \<le> sum_list (getInitialEligibilities s)"
    and q: "queue_ok (eligibility d ! clockRound d) (getSupply s) queue"
  defines "st0 \<equiv> \<lparr>licenses = processedLicenses d ! (clockRound d - 1), excess = excessDemand d ! (clockRound d - 1),
      eligibilityCap = map (\<lambda>i. eligibility d ! clockRound d ! i - sum_list (processedLicenses d ! (clockRound d - 1) ! i)) [0..<getBiddersN s],
      posted = postedPrice d ! clockRound d\<rparr>"
  obtains st where "process_queue s queue d = Inr (d\<lparr>processedLicenses := processedLicenses d @ [licenses st],
      excessDemand := excessDemand d @ [excess st], postedPrice := (postedPrice d)[clockRound d := posted st]\<rparr>)"
    "processed (eligibility d ! clockRound d) (getSupply s) queue st0 st"
proof -
  define r where "r = clockRound d"
  define E where "E = eligibility d ! r"
  define old where "old = processedLicenses d ! (r - 1)"
  note st0 = st0_def [folded r_def, folded E_def old_def]
  have T: "length (getSupply s) = getTerritoryN s" using wf_static_lengths [OF w] by simp
  have bk: "books s E old (excessDemand d ! (r - 1))" using b by (simp add: E_def old_def r_def)
  have sm: "small E (getSupply s)" using small_static [OF w] b(2) by (simp add: E_def r_def)
  have bal: "balanced E (getSupply s) st0" unfolding st0 using l(7) by (intro books_balanced [OF w bk]) (simp add: r_def)
  have E: "length E = getBiddersN s" "length old = getBiddersN s" "\<And>i. i < getBiddersN s \<Longrightarrow> sum_list (old ! i) \<le> E ! i"
    using bk by (simp_all add: books_def grid_iff)
  have lt: "E ! i < 2 ^ 32" if "i < getBiddersN s" for i using that sm E(1) elem_le_sum_list [of i E] by (simp add: small_def)
  have "u32 (int (E ! i) - int (sum_list (old ! i))) = E ! i - sum_list (old ! i)" if "i < getBiddersN s" for i
    using lt [OF that] E(3) [OF that] by (subst u32_id) auto
  then have caps: "run_fold (eligibility_left old) [0..<getBiddersN s] E = Inr (eligibilityCap st0 @ drop (getBiddersN s) E)"
    unfolding st0 bidding.simps using E by (intro run_fold_rows) (simp_all add: eligibility_left_def index_in index_set_in)
  then have caps: "run_fold (eligibility_left old) [0..<getBiddersN s] E = Inr (map (\<lambda>i. E ! i - sum_list (old ! i)) [0..<getBiddersN s])"
    using E(1) by (simp add: st0)
  have u: "u32 (int r - 1) = r - 1" "r - Suc 0 < r" "processedLicenses d ! (r - Suc 0) = old" "eligibility d ! r = E"
    using r by (simp_all add: r_def old_def E_def)
  have ev: "process_queue s queue d =
     (if queue = [] then Inr (d\<lparr>processedLicenses := processedLicenses d @ [old], excessDemand := excessDemand d @ [excessDemand d ! (r - 1)]\<rparr>)
      else case process_bids (clockPrice d ! r) queue 0 st0 of None \<Rightarrow> Inl Diverges | Some (Inl f) \<Rightarrow> Inl f
        | Some (Inr st) \<Rightarrow> Inr (d\<lparr>processedLicenses := processedLicenses d @ [licenses st], excessDemand := excessDemand d @ [excess st],
            postedPrice := (postedPrice d)[r := posted st]\<rparr>))"
    using caps E(1) l u unfolding process_queue_def Let_def r_def [symmetric]
    by (simp add: index_in nth_append list_update_append st0 cong: option.case_cong sum.case_cong)
  obtain st where st: "process_bids (clockPrice d ! r) queue 0 st0 = Some (Inr st)" "processed E (getSupply s) queue st0 st"
    using process_bids_ok [OF sm _ bal, of "clockPrice d ! r" queue 0] q l T by (auto simp: E_def r_def)
  have "st = st0" if "queue = []" using st(1) that by (simp add: process_bids.simps)
  then have "process_queue s queue d = Inr (d\<lparr>processedLicenses := processedLicenses d @ [licenses st],
      excessDemand := excessDemand d @ [excess st], postedPrice := (postedPrice d)[r := posted st]\<rparr>)"
    using st(1) ev by (auto simp: st0)
  then show thesis using that st(2) by (simp add: r_def E_def)
qed

lemma processed_round_result:
  assumes w: "wf_static s" "2 \<le> clockRound d" and E: "length E = getBiddersN s" "E = eligibility d ! clockRound d"
    and st0: "licenses st0 = processedLicenses d ! (clockRound d - 1)"
    and b: "\<And>i. i < getBiddersN s \<Longrightarrow> bid_ok s (clockRound d) (E ! i) (clockBids d ! clockRound d ! i)"
    and k: "map bid_of queue = concat (map (changes s (licenses st0) (\<lambda>i. demands (filled s a (clockRound d) ps (clockBids d ! clockRound d ! i)))) [0..<getBiddersN s])"
    and p: "processed E (getSupply s) (sort_bids queue) st0 st"
  shows "round_result s d (licenses st) (excess st)"
proof -
  have T: "length (getSupply s) = getTerritoryN s" using wf_static_lengths [OF w(1)] by simp
  have set_q: "set (sort_bids queue) = set queue" using mset_eq_setD [OF sort_bids_mset] .
  have "let w = wanted s (clockBids d ! clockRound d ! i) t; old = licenses st0 ! i ! t; new = licenses st ! i ! t
      in min old w \<le> new \<and> new \<le> max old w \<and> (new < w \<longrightarrow> sum_list (licenses st ! i) = E ! i) \<and> (w < new \<longrightarrow> excess st ! t \<le> 0)"
    if it: "i < getBiddersN s" "t < getTerritoryN s" for i t
  proof -
    define fb where "fb = (\<lambda>i. demands (filled s a (clockRound d) ps (clockBids d ! clockRound d ! i)))"
    obtain x where x: "x \<in> set (fb i)" "tidx s (territoryId x) = t" "quantity x = wanted s (clockBids d ! clockRound d ! i) t"
      using wanted_filled [OF w(1) b [OF it(1)] it(2), of a ps] by (auto simp: fb_def)
    define eb where "eb = \<lparr>bidderIndex = i, territoryIndex = t, demand = x, pricePoint = 0, randomValue = 0\<rparr>"
    have inn: "bid_in E (getSupply s) eb" using it E T by (simp add: bid_in_def eb_def)
    show ?thesis
    proof (cases "licenses st0 ! i ! t = quantity x")
      case True
      have "\<not> same_place eb y" if y: "y \<in> set (sort_bids queue)" for y
      proof
        assume same: "same_place eb y"
        have "bid_of y \<in> set (map bid_of queue)" using y set_q by simp
        then have "bid_of y \<in> set (concat (map (changes s (licenses st0) fb) [0..<getBiddersN s]))" unfolding k fb_def .
        then obtain z where z: "z \<in> set (fb i)" "tidx s (territoryId z) = t" "licenses st0 ! i ! t \<noteq> quantity z"
          using same by (auto simp: changes_def bid_of_def same_place_def eb_def)
        have f: "distinct (map territoryId (fb i))" "set (map territoryId (fb i)) = set (getTerritoryIds s)"
          using filled_ids [OF w(1) b [OF it(1)], of a ps] by (simp_all add: fb_def getDemandedTerritoryIds_def)
        have m: "territoryId z \<in> set (getTerritoryIds s)" "territoryId x \<in> set (getTerritoryIds s)"
          using x(1) z(1) by (auto simp flip: f(2))
        have "territoryId z = territoryId x" by (rule tidx_inj [OF w(1) m]) (simp add: x(2) z(2))
        then have "z = x" using f(1) x(1) z(1) by (auto simp: distinct_map dest: inj_onD)
        then show False using True z(3) by simp
      qed
      then have "held st eb = held st0 eb" using p inn by (simp add: processed_def)
      then show ?thesis using True x(3) by (simp add: held_def eb_def)
    next
      case False
      have "(i, t, x) \<in> set (changes s (licenses st0) fb i)" using x False by (auto simp: changes_def)
      then have "(i, t, x) \<in> set (map bid_of queue)" unfolding k using it(1) by (auto simp: fb_def)
      then obtain y where y: "y \<in> set (sort_bids queue)" "bidderIndex y = i" "territoryIndex y = t" "demand y = x"
        using set_q by (auto simp: bid_of_def)
      have h: "held st' y = licenses st' ! i ! t" for st' using y by (simp add: held_def)
      have "min (held st0 y) (quantity (demand y)) \<le> held st y \<and> held st y \<le> max (held st0 y) (quantity (demand y))"
        "held st y = quantity (demand y) \<or> blocked st y" "balanced E (getSupply s) st"
        using p y(1) by (auto simp: processed_def)
      then show ?thesis
        using x(3) y E it unfolding h blocked_def Let_def by (auto simp: balanced_def split: if_splits)
    qed
  qed
  then show ?thesis using w(2) E st0 by (simp add: round_result_def Let_def)
qed

lemma round_posted_prices:
  assumes "2 \<le> clockRound d" "clockRound d < 2 ^ 32" "length (postedPrice d) = clockRound d" "length (postedPrice d ! (clockRound d - 1)) = n"
    "clockRound d - 1 < length (excessDemand d)" "length (excessDemand d ! (clockRound d - 1)) = n"
    "clockRound d < length (clockPrice d)" "length (clockPrice d ! clockRound d) = n"
  obtains ps where "run_fold (round_posted_price d) [0..<n] (postedPrice d @ [replicate n dzero]) = Inr (postedPrice d @ [ps])" "length ps = n"
proof -
  define r where "r = clockRound d"
  have u: "u32 (int r - 1) = r - 1" using assms(1,2) by (simp add: r_def)
  define g where "g = (\<lambda>i. if 0 < excessDemand d ! (r - 1) ! i then clockPrice d ! r ! i else postedPrice d ! (r - 1) ! i)"
  have "run_fold (round_posted_price d) [0..<n] (postedPrice d @ [replicate n dzero]) =
      Inr ((postedPrice d @ [replicate n dzero])[r := map g [0..<n] @ drop n ((postedPrice d @ [replicate n dzero]) ! r)])"
  proof (rule run_fold_rows2)
    fix i xss
    assume i: "i < n" and x: "length xss = length (postedPrice d @ [replicate n dzero])"
      "\<And>k. k \<noteq> r \<Longrightarrow> xss ! k = (postedPrice d @ [replicate n dzero]) ! k" "length (xss ! r) = length ((postedPrice d @ [replicate n dzero]) ! r)"
    have "r - 1 \<noteq> r" using assms(1) by (simp add: r_def)
    then have p: "xss ! (r - 1) = postedPrice d ! (r - 1)" using x(2) [of "r - 1"] assms by (simp add: nth_append r_def)
    have l: "length xss = Suc r" "length (xss ! r) = n" using x assms by (simp_all add: nth_append r_def)
    show "round_posted_price d i xss = Inr (put2 xss r i (g i))"
      unfolding round_posted_price_def Let_def r_def [symmetric] u
      using assms i l p by (simp add: index2_eq index_set2_eq put2_def g_def flip: r_def)
  qed (use assms in \<open>simp_all add: nth_append r_def\<close>)
  then have "run_fold (round_posted_price d) [0..<n] (postedPrice d @ [replicate n dzero]) = Inr (postedPrice d @ [map g [0..<n]])"
    using assms(3) by (simp add: nth_append list_update_append r_def)
  then show thesis using that by simp
qed

text \<open>The state in which the bids of a later round are queued: bids completed, posted prices preset.\<close>

definition prepared :: "StaticAuctionState \<Rightarrow> nat \<Rightarrow> DynamicAuctionState \<Rightarrow> DynamicAuctionState \<Rightarrow> bool" where
  "prepared s a d d2 =
     (let r = clockRound d in
      clockRound d2 = r \<and> auctionState d2 = CLOCK_PHASE \<and> er d2 = EC_SUCCESS \<and> \<not> roundActive d2 \<and> unassigned d2 \<and>
      length (clockBids d2) = Suc r \<and>
      clockBids d2 ! r = map (\<lambda>i. filled s a r (postedPrice d ! (r - 1)) (clockBids d ! r ! i)) [0..<getBiddersN s] \<and>
      (\<exists>ps. postedPrice d2 = postedPrice d @ [ps] \<and> length ps = getTerritoryN s) \<and> clockPrice d2 = clockPrice d \<and>
      processedLicenses d2 = processedLicenses d \<and> excessDemand d2 = excessDemand d \<and> eligibility d2 = eligibility d)"

lemma clock_inv_later:
  assumes "clock_inv s d" "roundActive d" "2 \<le> clockRound d"
  defines "r \<equiv> clockRound d"
  shows "unassigned d" "auctionState d = CLOCK_PHASE" "length (clockPrice d) = Suc r" "length (clockPrice d ! r) = getTerritoryN s"
    "length (eligibility d) = Suc r" "length (eligibility d ! r) = getBiddersN s" "sum_list (eligibility d ! r) \<le> sum_list (getInitialEligibilities s)"
    "length (postedPrice d) = r" "length (postedPrice d ! (r - 1)) = getTerritoryN s" "length (processedLicenses d) = r" "length (excessDemand d) = r"
    "books s (eligibility d ! r) (processedLicenses d ! (r - 1)) (excessDemand d ! (r - 1))"
    "length (clockBids d) = Suc r" "length (clockBids d ! r) = getBiddersN s"
    "\<And>i. i < getBiddersN s \<Longrightarrow> bid_ok s r (eligibility d ! r ! i) (clockBids d ! r ! i)"
  using assms by (auto simp: clock_inv_def Let_def)

lemma prepare_round:
  assumes w: "wf_static s" "clock_inv s d" "roundActive d" and r: "2 \<le> clockRound d" "clockRound d < 2 ^ 32"
  obtains d2 where "prepared s a d d2" "readable s d2"
    "processRegularRoundBids env s a (processBidsPreamble (endRound d)) =
       run_bind (run_fold (enqueue_bidder env s d2) [0..<getBiddersN s] ([], 0, True)) (\<lambda>(queue, k, ok).
            if \<not> ok then Inr (d2\<lparr>er := EC_EVALUATION_ERROR\<rparr>, k)
            else run_bind (process_queue s (sort_bids queue) d2) (\<lambda>d3. Inr (d3, k)))"
proof -
  define R where "R = clockRound d"
  define N where "N = getBiddersN s"
  define d0 where "d0 = processBidsPreamble (endRound d)"
  note inv = clock_inv_later [OF w(2,3) r(1), folded R_def]
  have f: "clockRound d0 = R" "clockBids d0 = clockBids d" "postedPrice d0 = postedPrice d" "clockPrice d0 = clockPrice d"
    "processedLicenses d0 = processedLicenses d" "excessDemand d0 = excessDemand d" "eligibility d0 = eligibility d" "auctionState d0 = auctionState d"
    "er d0 = EC_SUCCESS" "\<not> roundActive d0" "winAssign d0 = winAssign d" "assignCost d0 = assignCost d" "channelPrice d0 = channelPrice d"
    by (simp_all add: d0_def processBidsPreamble_def endRound_def R_def)
  define fb where "fb = (\<lambda>i. filled s a R (postedPrice d ! (R - 1)) (clockBids d ! R ! i))"
  define d1 where "d1 = d0\<lparr>clockBids := (clockBids d)[R := map fb [0..<N]]\<rparr>"
  have R: "2 \<le> R" "R < 2 ^ 32" using r by (simp_all add: R_def)
  have fill: "fillMissingBids s a d0 = Inr d1"
    using fillMissingBids_ok [OF w(1), of d0 a] R inv(8,9,13,14) by (simp add: f fb_def N_def d1_def)
  have bl: "length (excessDemand d ! (R - 1)) = getTerritoryN s" "grid N (getTerritoryN s) (processedLicenses d ! (R - 1))"
    using inv(12) by (simp_all add: books_def N_def)
  obtain ps where ps: "run_fold (round_posted_price d1) [0..<getTerritoryN s] (postedPrice d1 @ [replicate (getTerritoryN s) dzero]) = Inr (postedPrice d @ [ps])"
    "length ps = getTerritoryN s"
    by (rule round_posted_prices [of d1 "getTerritoryN s"]) (use R inv(3,4,8,9,11) bl(1) in \<open>simp_all add: d1_def f\<close>)
  define d2 where "d2 = d1\<lparr>postedPrice := postedPrice d @ [ps]\<rparr>"
  have "prepared s a d d2"
    using inv(1,2,13) ps(2) by (simp add: prepared_def Let_def d2_def d1_def f fb_def unassigned_def N_def flip: R_def)
  moreover have "readable s d2"
    using R inv(3,4,8-10) bl(2) by (simp add: readable_def Let_def d2_def d1_def f nth_append N_def)
  ultimately show thesis
    using fill ps(1) by (intro that [of d2]) (simp_all add: processRegularRoundBids_def d2_def Let_def cong: if_cong flip: d0_def)
qed

lemma queue_of_round:
  assumes w: "wf_static s" "clock_inv s d" "roundActive d" and r: "2 \<le> clockRound d" and rnd: "rand_ok env"
    and p: "prepared s a d d2" "readable s d2"
  obtains queue k where "run_fold (enqueue_bidder env s d2) [0..<getBiddersN s] ([], 0, True) = Inr (queue, k, True)"
    "map bid_of queue = concat (map (changes s (processedLicenses d ! (clockRound d - 1))
       (\<lambda>i. demands (filled s a (clockRound d) (postedPrice d ! (clockRound d - 1)) (clockBids d ! clockRound d ! i)))) [0..<getBiddersN s])"
    "queue_ok (eligibility d ! clockRound d) (getSupply s) (sort_bids queue)"
proof -
  define R where "R = clockRound d"
  define N where "N = getBiddersN s"
  define fb where "fb = (\<lambda>i. filled s a R (postedPrice d ! (R - 1)) (clockBids d ! R ! i))"
  note inv = clock_inv_later [OF w(2,3) r, folded R_def]
  have f2: "clockRound d2 = R" "clockBids d2 ! R = map fb [0..<N]" "length (clockBids d2) = Suc R" "processedLicenses d2 = processedLicenses d"
    using p(1) by (simp_all add: prepared_def Let_def fb_def R_def N_def)
  have ids: "distinct (map territoryId (demands (fb i)))" "set (map territoryId (demands (fb i))) = set (getTerritoryIds s)" if "i < N" for i
    using filled_ids [OF w(1) inv(15), of i a "postedPrice d ! (R - 1)"] that by (simp_all add: fb_def getDemandedTerritoryIds_def N_def)
  have "\<exists>queue k. run_fold (enqueue_bidder env s d2) [0..<N] ([], 0, True) = Inr (queue, k, True) \<and>
      map bid_of queue = concat (map (changes s (processedLicenses d ! (R - 1)) (\<lambda>i. demands (map fb [0..<N] ! i))) [0..<N])"
    using enqueue_bidders [OF w(1) p(2) rnd, of "[0..<N]" "[]" 0] ids by (auto simp: f2 N_def getDemandedTerritoryIds_def lessThan_atLeast0)
  moreover have "map (changes s (processedLicenses d ! (R - 1)) (\<lambda>i. demands (map fb [0..<N] ! i))) [0..<N] =
      map (changes s (processedLicenses d ! (R - 1)) (\<lambda>i. demands (fb i))) [0..<N]" by (simp add: changes_def)
  ultimately obtain queue k where q: "run_fold (enqueue_bidder env s d2) [0..<N] ([], 0, True) = Inr (queue, k, True)"
    "map bid_of queue = concat (map (changes s (processedLicenses d ! (R - 1)) (\<lambda>i. demands (fb i))) [0..<N])" by metis
  have "queue_ok (eligibility d ! R) (getSupply s) (sort_bids queue)"
    using inv(6) ids q(2) by (intro queue_keys_ok [OF w(1)]) (auto simp: N_def)
  then show thesis using that q by (simp add: N_def R_def fb_def)
qed

lemma processRegularRoundBids_ok:
  assumes w: "wf_static s" "clock_inv s d" "roundActive d" and r: "2 \<le> clockRound d" "clockRound d < 2 ^ 32" and rnd: "rand_ok env"
  obtains d1 k st where "processRegularRoundBids env s a (processBidsPreamble (endRound d)) = Inr (d1, k)"
    "clockRound d1 = clockRound d" "auctionState d1 = CLOCK_PHASE" "er d1 = EC_SUCCESS" "\<not> roundActive d1" "unassigned d1"
    "processedLicenses d1 = processedLicenses d @ [licenses st]" "excessDemand d1 = excessDemand d @ [excess st]" "eligibility d1 = eligibility d"
    "length (clockBids d1) = Suc (clockRound d)" "clockPrice d1 = clockPrice d" "postedPrice d1 = postedPrice d @ [posted st]"
    "balanced (eligibility d ! clockRound d) (getSupply s) st" "round_result s d (licenses st) (excess st)"
    "\<forall>t < getTerritoryN s. min 0 (excessDemand d ! (clockRound d - 1) ! t) \<le> excess st ! t"
proof -
  define R where "R = clockRound d"
  define N where "N = getBiddersN s"
  note inv = clock_inv_later [OF w(2,3) r(1), folded R_def]
  have R: "2 \<le> R" "R < 2 ^ 32" using r by (simp_all add: R_def)
  obtain d2 where d2: "prepared s a d d2" "readable s d2" and ev: "processRegularRoundBids env s a (processBidsPreamble (endRound d)) =
       run_bind (run_fold (enqueue_bidder env s d2) [0..<getBiddersN s] ([], 0, True)) (\<lambda>(queue, k, ok).
            if \<not> ok then Inr (d2\<lparr>er := EC_EVALUATION_ERROR\<rparr>, k)
            else run_bind (process_queue s (sort_bids queue) d2) (\<lambda>d3. Inr (d3, k)))"
    by (rule prepare_round [OF w r, of a env])
  obtain ps where ps: "postedPrice d2 = postedPrice d @ [ps]" "length ps = getTerritoryN s" using d2(1) by (auto simp: prepared_def Let_def)
  have f2: "clockRound d2 = R" "processedLicenses d2 = processedLicenses d" "excessDemand d2 = excessDemand d" "eligibility d2 = eligibility d"
    "clockPrice d2 = clockPrice d" "auctionState d2 = CLOCK_PHASE" "er d2 = EC_SUCCESS" "\<not> roundActive d2" "unassigned d2" "length (clockBids d2) = Suc R"
    using d2(1) by (simp_all add: prepared_def Let_def R_def)
  obtain queue k where q: "run_fold (enqueue_bidder env s d2) [0..<getBiddersN s] ([], 0, True) = Inr (queue, k, True)"
    "map bid_of queue = concat (map (changes s (processedLicenses d ! (R - 1))
       (\<lambda>i. demands (filled s a R (postedPrice d ! (R - 1)) (clockBids d ! R ! i)))) [0..<getBiddersN s])"
    "queue_ok (eligibility d ! R) (getSupply s) (sort_bids queue)"
    by (rule queue_of_round [OF w r(1) rnd d2, folded R_def])
  obtain st where st: "process_queue s (sort_bids queue) d2 = Inr (d2\<lparr>processedLicenses := processedLicenses d @ [licenses st],
      excessDemand := excessDemand d @ [excess st], postedPrice := (postedPrice d @ [ps])[R := posted st]\<rparr>)"
    "processed (eligibility d ! R) (getSupply s) (sort_bids queue) \<lparr>licenses = processedLicenses d ! (R - 1), excess = excessDemand d ! (R - 1),
      eligibilityCap = map (\<lambda>i. eligibility d ! R ! i - sum_list (processedLicenses d ! (R - 1) ! i)) [0..<getBiddersN s], posted = ps\<rparr> st"
    by (rule process_queue_ok [OF w(1), of d2 "sort_bids queue"]) (use R inv(3-5,7,8,10-12) q(3) ps in \<open>simp_all add: f2 nth_append\<close>)
  define d3 where "d3 = d2\<lparr>processedLicenses := processedLicenses d @ [licenses st], excessDemand := excessDemand d @ [excess st],
      postedPrice := postedPrice d @ [posted st]\<rparr>"
  have "processRegularRoundBids env s a (processBidsPreamble (endRound d)) = Inr (d3, k)"
    using ev q(1) st(1) inv(8) by (simp add: d3_def list_update_append)
  moreover have "round_result s d (licenses st) (excess st)"
    using R inv(6,15) q(2) st(2)
    by (intro processed_round_result [OF w(1) _ _ refl, where a = a and ps = "postedPrice d ! (R - 1)" and queue = queue]) (auto simp: R_def)
  moreover have "balanced (eligibility d ! R) (getSupply s) st" "\<forall>t < getTerritoryN s. min 0 (excessDemand d ! (R - 1) ! t) \<le> excess st ! t"
    using st(2) wf_static_lengths(2) [OF w(1)] by (simp_all add: processed_def)
  ultimately show thesis
    using f2 by (intro that [of d3 k st, folded R_def]) (simp_all add: d3_def unassigned_def)
qed

section \<open>The end of a round\<close>

lemma sum_u32_ok:
  assumes "\<And>j. j < n \<Longrightarrow> f j = Inr (g j)" "sum_list (map g [0..<n]) < 2 ^ 32"
  shows "sum_u32 f n = Inr (sum_list (map g [0..<n]))"
  using assms
proof (induction n)
  case (Suc n)
  then show ?case by (simp add: sum_u32_def run_fold_append)
qed (simp add: sum_u32_def)

lemma map_nth_upt: "length xs = n \<Longrightarrow> map (\<lambda>j. f (xs ! j)) [0..<n] = map f xs"
  by (intro nth_equalityI) simp_all

text \<open>The eligibility of the next round lies between the activity and the eligibility of this one.\<close>

lemma new_eligibility_ok:
  assumes w: "wf_static s" and i: "i < getBiddersN s" and l: "clockRound d < length (processedLicenses d)" "clockRound d < length (eligibility d)"
    and b: "books s (eligibility d ! clockRound d) (processedLicenses d ! clockRound d) es"
      "sum_list (eligibility d ! clockRound d) \<le> sum_list (getInitialEligibilities s)"
  obtains e where "new_eligibility s d i = Inr e" "sum_list (processedLicenses d ! clockRound d ! i) \<le> e" "e \<le> eligibility d ! clockRound d ! i"
proof -
  define p where "p = activityRequirementPercentage s"
  define e where "e = eligibility d ! clockRound d ! i"
  define row where "row = processedLicenses d ! clockRound d ! i"
  have bl: "length (eligibility d ! clockRound d) = getBiddersN s" "length (processedLicenses d ! clockRound d) = getBiddersN s"
    "length row = getTerritoryN s" "sum_list row \<le> e"
    using b(1) i by (simp_all add: books_def grid_iff row_def e_def)
  have "e \<le> sum_list (eligibility d ! clockRound d)" using bl(1) i unfolding e_def by (intro elem_le_sum_list) simp
  then have e100: "100 * e < 2 ^ 31" using b(2) w by (simp add: wf_static_def)
  have p: "p \<le> 100" using w by (simp add: wf_static_def checkValidity_def p_def)
  have "e * p \<le> e * 100" using p by simp
  then have ep: "e * p < 2 ^ 31" using e100 by linarith
  have "license_at d i j = Inr (row ! j)" if "j < getTerritoryN s" for j
    using that l i bl by (simp add: license_at_def index_in index2_eq row_def)
  moreover have "map ((!) row) [0..<getTerritoryN s] = row" using bl(3) map_nth [of row] by simp
  ultimately have a: "sum_u32 (license_at d i) (getTerritoryN s) = Inr (sum_list row)"
    using sum_u32_ok [of "getTerritoryN s" "license_at d i" "(!) row"] bl(4) e100 by simp
  have "u32 (int e * int p) = e * p" using ep by (subst u32_id) (simp_all flip: of_nat_mult)
  moreover have "uint32_of_double (ddiv (double_of_int (int (e * p))) (double_of_int (int 100))) = Inr (e * p div 100)"
    using ep by (intro ddiv_truncates) simp_all
  ultimately have req: "uint32_of_double (ddiv (double_of_int (int (u32 (int e * int p)))) (double_of_int 100)) = Inr (e * p div 100)"
    by simp
  have "index2 (eligibility d) (clockRound d) i = Inr e" using l(2) i bl by (simp add: index2_eq e_def)
  then have ev: "new_eligibility s d i = (if e * p div 100 \<le> sum_list row then Inr e
      else if p = 0 then Inl Undefined else Inr (u32 (int (sum_list row) * 100) div p))"
    using a req by (simp add: new_eligibility_def p_def)
  show thesis
  proof (cases "e * p div 100 \<le> sum_list row")
    case True
    then show ?thesis using that [of e] ev bl(4) by (simp add: e_def row_def)
  next
    case False
    then have lt: "sum_list row * 100 < e * p" by (simp add: not_le less_eq_Suc_le div_nat_eqI)
    then have p0: "0 < p" by (metis gr_zeroI mult_is_0 not_less_zero)
    have "u32 (int (sum_list row) * 100) = sum_list row * 100" using bl(4) e100 by (subst u32_id) (simp_all add: nat_mult_distrib)
    then have v: "new_eligibility s d i = Inr (sum_list row * 100 div p)" using ev False p0 by simp
    have "sum_list row * p \<le> sum_list row * 100" using p by simp
    then have "sum_list row \<le> sum_list row * 100 div p" using p0 by (simp add: less_eq_div_iff_mult_less_eq)
    moreover have "sum_list row * 100 div p \<le> e" using lt p0 by (metis div_le_mono less_imp_le_nat nonzero_mult_div_cancel_right not_gr_zero)
    ultimately show ?thesis using that v by (simp add: e_def row_def)
  qed
qed

lemma fold_max_le: "fold max xs (a::int) \<le> 0 \<longleftrightarrow> a \<le> 0 \<and> (\<forall>x \<in> set xs. x \<le> 0)"
  by (induction xs arbitrary: a) auto

lemma raise_prices:
  assumes "length ps = n"
  obtains ps' where "run_fold (raise_price s) [0..<n] ps = Inr ps'" "length ps' = n"
proof -
  have "run_fold (raise_price s) [0..<n] ps = Inr (map (\<lambda>j. dmul (ps ! j) (priceFactor s)) [0..<n] @ drop n ps)"
    using assms by (intro run_fold_rows) (simp_all add: raise_price_def index_in index_set_in)
  then show thesis using that assms by simp
qed

lemma next_round_ok:
  assumes w: "wf_static s" and st: "auctionState d = CLOCK_PHASE" "\<not> roundActive d" "1 \<le> clockRound d" "clockRound d < 2 ^ 32 - 1" "unassigned d"
    and l: "length (processedLicenses d) = Suc (clockRound d)" "length (eligibility d) = Suc (clockRound d)" "length (clockPrice d) = Suc (clockRound d)"
      "length (postedPrice d) = Suc (clockRound d)" "length (postedPrice d ! clockRound d) = getTerritoryN s" "length (clockBids d) = Suc (clockRound d)"
      "length (excessDemand d) = Suc (clockRound d)"
    and b: "books s (eligibility d ! clockRound d) (processedLicenses d ! clockRound d) (excessDemand d ! clockRound d)"
      "sum_list (eligibility d ! clockRound d) \<le> sum_list (getInitialEligibilities s)"
    and fsr: "\<not> final_stage_failed s (excessDemand d ! clockRound d)"
  obtains d' where "next_round s d = Inr d'" "clock_inv s d'" "clockRound d' = Suc (clockRound d)" "\<not> roundActive d'" "er d' = er d"
    "submitterPrincipal d' = submitterPrincipal d" "processedLicenses d' = processedLicenses d" "excessDemand d' = excessDemand d"
    "\<forall>i < getBiddersN s. eligibility d' ! Suc (clockRound d) ! i \<le> eligibility d ! clockRound d ! i"
proof -
  define r where "r = clockRound d"
  have "\<exists>e. new_eligibility s d i = Inr e \<and> sum_list (processedLicenses d ! r ! i) \<le> e \<and> e \<le> eligibility d ! r ! i" if "i < getBiddersN s" for i
    using new_eligibility_ok [OF w that _ _ b] l by (metis lessI r_def)
  then obtain E where E: "\<And>i. i < getBiddersN s \<Longrightarrow> new_eligibility s d i = Inr (E i) \<and> sum_list (processedLicenses d ! r ! i) \<le> E i \<and> E i \<le> eligibility d ! r ! i"
    by metis
  have m: "run_map (new_eligibility s d) [0..<getBiddersN s] = Inr (map E [0..<getBiddersN s])" using E by (intro run_map_Inr) auto
  obtain ps where ps: "run_fold (raise_price s) [0..<getTerritoryN s] (postedPrice d ! r) = Inr ps" "length ps = getTerritoryN s"
    using raise_prices [OF l(5)] by (metis r_def)
  define d' where "d' = d\<lparr>eligibility := eligibility d @ [map E [0..<getBiddersN s]], clockPrice := clockPrice d @ [ps], clockRound := Suc r\<rparr>"
  have u: "u32 (int r + 1) = Suc r" using st by (simp add: r_def)
  have n: "next_round s d = Inr d'" using m ps u l by (simp add: next_round_def index_in d'_def flip: r_def)
  have "length (eligibility d ! r) = getBiddersN s" using b(1) by (simp add: books_def r_def)
  then have "sum_list (map E [0..<getBiddersN s]) \<le> sum_list (eligibility d ! r)" using E by (intro sum_list_mono_nth) simp_all
  then have s: "sum_list (map E [0..<getBiddersN s]) \<le> sum_list (getInitialEligibilities s)" using b(2) by (simp add: r_def)
  have bk: "books s (map E [0..<getBiddersN s]) (processedLicenses d ! r) (excessDemand d ! r)" using b(1) E by (simp add: books_def r_def)
  have "clock_inv s d'"
    using st l ps(2) s bk fsr unfolding clock_inv_def Let_def d'_def
    by (simp add: nth_append unassigned_def flip: r_def)
  then show thesis using that n E l(2) st(2) by (auto simp: d'_def nth_append r_def)
qed

lemma processBidsPostamble_ok:
  assumes w: "wf_static s" and st: "auctionState d = CLOCK_PHASE" "\<not> roundActive d" "1 \<le> clockRound d" "clockRound d < 2 ^ 32 - 1"
    and l: "length (processedLicenses d) = Suc (clockRound d)" "length (eligibility d) = Suc (clockRound d)" "length (clockPrice d) = Suc (clockRound d)"
      "length (postedPrice d) = Suc (clockRound d)" "length (postedPrice d ! clockRound d) = getTerritoryN s" "length (clockBids d) = Suc (clockRound d)"
    and b: "books s (eligibility d ! clockRound d) (processedLicenses d ! clockRound d) es"
      "sum_list (eligibility d ! clockRound d) \<le> sum_list (getInitialEligibilities s)"
    and x: "length (excessDemand d) = clockRound d \<and> exs = excessDemand d @ [es] \<or>
      length (excessDemand d) = Suc (clockRound d) \<and> exs = excessDemand d \<and> excessDemand d ! clockRound d = es"
  defines "d1 \<equiv> d\<lparr>excessDemand := exs\<rparr>"
  shows "processBidsPostamble s d =
    (if final_stage_failed s es then Inr (d1\<lparr>auctionState := FSR_FAILED\<rparr>)
     else if \<forall>e \<in> set es. e \<le> 0 then Inr (d1\<lparr>auctionState := ASSIGNMENT_PHASE\<rparr>) else next_round s d1)"
proof -
  define r where "r = clockRound d"
  define lics where "lics = processedLicenses d ! r"
  note wl = wf_static_lengths [OF w]
  have bk: "grid (getBiddersN s) (getTerritoryN s) lics" "length es = getTerritoryN s" "length (eligibility d ! r) = getBiddersN s"
    "\<And>t. t < getTerritoryN s \<Longrightarrow> es ! t = int (col_sum lics t) - int (getSupply s ! t)"
    "\<And>i. i < getBiddersN s \<Longrightarrow> sum_list (lics ! i) \<le> eligibility d ! r ! i"
    using b(1) by (simp_all add: books_def lics_def r_def)
  have small: "col_sum lics t < 2 ^ 31" "getSupply s ! t < 2 ^ 31" if "t < getTerritoryN s" for t
  proof -
    have "col_sum lics t \<le> sum_list (eligibility d ! r)" using bk that by (intro col_sum_le [OF bk(1)]) simp_all
    then show "col_sum lics t < 2 ^ 31" using b(2) w by (simp add: wf_static_def r_def)
    show "getSupply s ! t < 2 ^ 31" using that w wl(2) elem_le_sum_list [of t "getSupply s"] by (simp add: wf_static_def)
  qed
  have "sum_u32 (\<lambda>j. license_at d j t) (getBiddersN s) = Inr (col_sum lics t)" if t: "t < getTerritoryN s" for t
  proof -
    have "license_at d j t = Inr (lics ! j ! t)" if "j < getBiddersN s" for j
      using that t l(1) bk(1) by (simp add: license_at_def index_in index2_eq lics_def r_def grid_iff)
    moreover have "sum_list (map (\<lambda>j. lics ! j ! t) [0..<getBiddersN s]) = col_sum lics t"
      using map_nth_upt [of lics "getBiddersN s" "\<lambda>xs. xs ! t"] bk(1) by (simp add: col_sum_def grid_iff)
    ultimately show ?thesis using sum_u32_ok [of "getBiddersN s" "\<lambda>j. license_at d j t" "\<lambda>j. lics ! j ! t"] small(1) [OF t] by simp
  qed
  then have agg: "run_map (\<lambda>i. sum_u32 (\<lambda>j. license_at d j i) (getBiddersN s)) [0..<getTerritoryN s] = Inr (map (col_sum lics) [0..<getTerritoryN s])"
    by (intro run_map_Inr) simp
  have "map2 (\<lambda>a n. i32 (int a - int n)) (map (col_sum lics) [0..<getTerritoryN s]) (getSupply s) = es"
  proof (rule nth_equalityI)
    fix t assume "t < length (map2 (\<lambda>a n. i32 (int a - int n)) (map (col_sum lics) [0..<getTerritoryN s]) (getSupply s))"
    then have t: "t < getTerritoryN s" by simp
    show "map2 (\<lambda>a n. i32 (int a - int n)) (map (col_sum lics) [0..<getTerritoryN s]) (getSupply s) ! t = es ! t"
      using small [OF t] bk(4) [OF t] t wl(2) by (simp add: i32_id)
  qed (use wl(2) bk(2) in simp)
  note ev = agg this
  have ne: "es \<noteq> []" using bk(2) wl(3) by auto
  have mx: "fold max (tl es) (hd es) \<le> 0 \<longleftrightarrow> (\<forall>e \<in> set es. e \<le> 0)" using ne by (cases es) (simp_all add: fold_max_le)
  have chk: "(if length (excessDemand d) = clockRound d then Inr (Some (excessDemand d @ [es]))
      else run_bind (index (excessDemand d) (clockRound d)) (\<lambda>e. Inr (if e \<noteq> es then None else Some (excessDemand d)))) = (Inr (Some exs) :: int list list option run)"
    using x by (auto simp: index_in)
  have d1: "d\<lparr>excessDemand := exs, auctionState := CLOCK_PHASE\<rparr> = d\<lparr>excessDemand := exs\<rparr>" using st(1) by (cases d) simp
  show ?thesis
    unfolding processBidsPostamble_def ev(1) run_bind_simps Let_def ev(2) chk option.case mx
    using st(1) ne by (simp add: d1_def d1)
qed

end
