(* ===== verification/Spectrum_Laws.thy ===== *)
theory Spectrum_Laws
  imports Spectrum_Rounds
begin

text \<open>
  The assignment of channels at random, and the ways a round can end.
\<close>

section \<open>Assigning channels\<close>

lemma shuffle_steps:
  assumes "rand_ok env"
  shows "length v = n \<Longrightarrow> set js \<subseteq> {..<n} \<Longrightarrow>
    \<exists>v' k'. run_fold (shuffle_step env n) js (v, k, True) = Inr (v', k', True) \<and> mset v' = mset v"
proof (induction js arbitrary: v k)
  case (Cons j js)
  obtain bs where bs: "get_random_bytes env k = (0, bs)" using get_random_ok [OF assms] by (metis prod.collapse)
  define r where "r = bytes_u32 bs mod n"
  have r: "j < n" "r < n" using Cons.prems by (auto simp: r_def)
  define v1 where "v1 = v[j := v ! r, r := v ! j]"
  have "shuffle_step env n j (v, k, True) = Inr (v1, Suc k, True)"
    using r Cons.prems(1) by (simp add: shuffle_step_def bs Let_def index_in index_set_in v1_def flip: r_def)
  moreover have "mset v1 = mset v" using r Cons.prems(1) by (simp add: v1_def mset_swap)
  moreover obtain v' k' where "run_fold (shuffle_step env n) js (v1, Suc k, True) = Inr (v', k', True)" "mset v' = mset v1"
    using Cons.IH [of v1 "Suc k"] Cons.prems by (auto simp: v1_def)
  ultimately show ?case by auto
qed simp

lemma shuffle_ok:
  assumes "rand_ok env"
  obtains perm k' where "shuffle env n k = Inr (perm, k', True)" "mset perm = mset [0..<n]"
  using shuffle_steps [OF assms, of "[0..<n]" n "[0..<n]" k] by (auto simp: shuffle_def lessThan_atLeast0)

text \<open>A row of channels after \<open>idx\<close> of them, in the order \<open>perm\<close>, were given to bidders.\<close>

definition given :: "nat list \<Rightarrow> nat \<Rightarrow> int list \<Rightarrow> int multiset \<Rightarrow> bool" where
  "given perm idx row M =
     (length row = length perm \<and> (\<forall>p. idx \<le> p \<and> p < length perm \<longrightarrow> row ! (perm ! p) = - 1) \<and>
      mset row = replicate_mset (length perm - idx) (- 1) + M)"

lemma give_channels_ok:
  assumes perm: "distinct perm" "set perm = {..<length perm}"
  shows "given perm idx row M \<Longrightarrow> idx + n \<le> length perm \<Longrightarrow>
    \<exists>row'. give_channels perm j n (row, idx) = Inr (row', idx + n) \<and> given perm (idx + n) row' (M + replicate_mset n (int j))"
proof (induction n arbitrary: idx row M)
  case (Suc n)
  define c where "c = perm ! idx"
  have idx: "idx < length perm" using Suc.prems(2) by simp
  then have c: "c < length row" "row ! c = - 1" using Suc.prems(1) perm(2) nth_mem [OF idx] by (auto simp: given_def c_def)
  have other: "row[c := int j] ! (perm ! p) = - 1" if "Suc idx \<le> p" "p < length perm" for p
  proof -
    have "perm ! p \<noteq> c" using that idx perm(1) by (simp add: c_def nth_eq_iff_index_eq)
    then show ?thesis using that Suc.prems(1) by (simp add: given_def)
  qed
  have "mset (row[c := int j]) = add_mset (int j) (mset row - {# - 1 #})" using c by (simp add: mset_update)
  also have "mset row = add_mset (- 1) (replicate_mset (length perm - Suc idx) (- 1) + M)"
    using Suc.prems(1) idx by (simp add: given_def Suc_diff_Suc flip: replicate_mset_Suc)
  finally have g: "given perm (Suc idx) (row[c := int j]) (add_mset (int j) M)"
    using Suc.prems(1) other c(1) by (auto simp: given_def)
  obtain row' where "give_channels perm j n (row[c := int j], Suc idx) = Inr (row', Suc idx + n)"
    "given perm (Suc idx + n) row' (add_mset (int j) M + replicate_mset n (int j))"
    using Suc.IH [OF g] Suc.prems(2) by auto
  then show ?case using idx c(1) by (simp add: index_in index_set_in flip: c_def)
qed simp

lemma give_all_channels:
  assumes perm: "distinct perm" "set perm = {..<length perm}" and g: "given perm 0 row {#}"
  shows "sum_list (map q [0..<m]) \<le> length perm \<Longrightarrow> (\<And>j. j < m \<Longrightarrow> f j = Inr (q j)) \<Longrightarrow>
    \<exists>row'. run_fold (\<lambda>j st. run_bind (f j) (\<lambda>n. give_channels perm j n st)) [0..<m] (row, 0) = Inr (row', sum_list (map q [0..<m])) \<and>
      given perm (sum_list (map q [0..<m])) row' (\<Sum>j\<leftarrow>[0..<m]. replicate_mset (q j) (int j))"
proof (induction m)
  case (Suc m)
  then obtain row' where r: "run_fold (\<lambda>j st. run_bind (f j) (\<lambda>n. give_channels perm j n st)) [0..<m] (row, 0) = Inr (row', sum_list (map q [0..<m]))"
    "given perm (sum_list (map q [0..<m])) row' (\<Sum>j\<leftarrow>[0..<m]. replicate_mset (q j) (int j))" by auto
  then show ?case
    using give_channels_ok [OF perm r(2), of "q m" m] Suc.prems by (auto simp: run_fold_append)
qed (use g in simp)

text \<open>A row of \<open>n\<close> channels in which every bidder has its licenses and the others are unassigned.\<close>

definition awarded :: "nat \<Rightarrow> nat \<Rightarrow> (nat \<Rightarrow> nat) \<Rightarrow> int list \<Rightarrow> bool" where
  "awarded n N q row =
     (length row = n \<and> (\<forall>j < N. count_list row (int j) = q j) \<and>
      set row \<subseteq> insert (- 1) (int ` {..<N}))"

lemma given_awarded:
  assumes "given perm idx row (\<Sum>j\<leftarrow>[0..<N]. replicate_mset (q j) (int j))" "length perm = n"
  shows "awarded n N q row"
proof -
  define M where "M = (\<Sum>j\<leftarrow>[0..<N]. replicate_mset (q j) (int j))"
  have c: "count M (int i) = (if i < N then q i else 0)" for i
    unfolding M_def by (induction N) (auto simp: less_Suc_eq)
  have s: "set_mset M \<subseteq> int ` {..<N}" unfolding M_def by (auto split: if_splits)
  have m: "mset row = replicate_mset (n - idx) (- 1) + M" "length row = n" using assms by (simp_all add: given_def M_def)
  have "count_list row (int j) = q j" if "j < N" for j
    using c [of j] that m(1) by (simp add: count_mset [symmetric])
  moreover have "set row \<subseteq> insert (- 1) (int ` {..<N})"
    using s m(1) by (auto simp: set_mset_mset [symmetric] simp del: set_mset_mset split: if_splits)
  ultimately show ?thesis using m(2) by (simp add: awarded_def)
qed

lemma channel_prices:
  assumes "length imps = n" "length row = n"
  obtains row' where "run_fold (channel_price p imps) [0..<n] row = Inr row'"
proof -
  have "run_fold (channel_price p imps) [0..<n] row =
      Inr (map (\<lambda>j. dmul p (ddiv (dsub (double_of_int 100) (double_of_int (int (imps ! j)))) (double_of_int 100))) [0..<n] @ drop n row)"
    using assms by (intro run_fold_rows) (simp_all add: channel_price_def index_in index_set_in)
  then show thesis using that by simp
qed

lemma assign_territory_ok:
  assumes w: "wf_static s" "rand_ok env" and i: "i < getTerritoryN s"
    and l: "length (winAssign d) = getTerritoryN s" "length (channelPrice d) = getTerritoryN s" "length (assignCost d) = getTerritoryN s"
      "winAssign d ! i = []" "channelPrice d ! i = []"
    and p: "clockRound d < length (postedPrice d)" "length (postedPrice d ! clockRound d) = getTerritoryN s"
    and b: "\<And>j. j < getBiddersN s \<Longrightarrow> license_at d j i = Inr (q j)" "sum_list (map q [0..<getBiddersN s]) \<le> getSupply s ! i"
  obtains win prices costs k' where "assign_territory env s i (d, k, True) =
      Inr (d\<lparr>winAssign := (winAssign d)[i := win], channelPrice := (channelPrice d)[i := prices], assignCost := (assignCost d)[i := costs]\<rparr>, k', True)"
    "awarded (getSupply s ! i) (getBiddersN s) q win"
proof -
  define t where "t = territories s ! i"
  define n where "n = numberOfChannels t"
  note tl = territory_lookup [OF w(1) i, folded t_def]
  have n: "getSupply s ! i = n" "length (getChannelImpairments t) = n" using tl(3) by (simp_all add: n_def numberOfChannels_def getChannelImpairments_def)
  obtain perm k' where perm: "shuffle env n k = Inr (perm, k', True)" "mset perm = mset [0..<n]" by (rule shuffle_ok [OF w(2)])
  have pl: "length perm = n" "distinct perm" "set perm = {..<n}"
    using mset_eq_length [OF perm(2)] mset_eq_imp_distinct_iff [OF perm(2)] mset_eq_setD [OF perm(2)] by (simp_all add: lessThan_atLeast0)
  have g0: "given perm 0 (replicate n (- 1)) {#}"
    using pl(1) nth_mem pl(3) by (fastforce simp: given_def)
  obtain win where win: "run_fold (\<lambda>j st. run_bind (license_at d j i) (\<lambda>m. give_channels perm j m st)) [0..<getBiddersN s] (replicate n (- 1), 0) =
      Inr (win, sum_list (map q [0..<getBiddersN s]))"
    "given perm (sum_list (map q [0..<getBiddersN s])) win (\<Sum>j\<leftarrow>[0..<getBiddersN s]. replicate_mset (q j) (int j))"
    using give_all_channels [OF pl(2) _ g0, of q "getBiddersN s" "\<lambda>j. license_at d j i"] pl b n(1) by auto
  have aw: "awarded (getSupply s ! i) (getBiddersN s) q win" using given_awarded [OF win(2)] pl(1) n(1) by simp
  obtain prices where prices: "run_fold (channel_price (postedPrice d ! clockRound d ! i) (getChannelImpairments t)) [0..<n] (replicate n dzero) = Inr prices"
    using channel_prices [OF n(2), of "replicate n dzero"] by auto
  have "index2 (postedPrice d) (clockRound d) i = Inr (postedPrice d ! clockRound d ! i)" using p i by (simp add: index2_eq)
  then have "assign_territory env s i (d, k, True) =
      Inr (d\<lparr>winAssign := (winAssign d)[i := win], channelPrice := (channelPrice d)[i := prices],
        assignCost := (assignCost d)[i := resize (getBiddersN s) dzero (assignCost d ! i)]\<rparr>, k', True)"
    using i l tl wf_static_lengths(7) [OF w(1)] perm(1) win(1) prices
    by (cases "n = 0") (simp_all add: assign_territory_def index_in Let_def resize_def flip: n_def)
  then show thesis using that aw by blast
qed

text \<open>The outcome of an auction: in every territory every bidder has as many channels as licenses.\<close>

definition assignment_ok :: "StaticAuctionState \<Rightarrow> DynamicAuctionState \<Rightarrow> bool" where
  "assignment_ok s d =
     (length (winAssign d) = getTerritoryN s \<and>
      (\<forall>t < getTerritoryN s. awarded (getSupply s ! t) (getBiddersN s) (\<lambda>j. processedLicenses d ! clockRound d ! j ! t) (winAssign d ! t)))"

lemma assign_territories:
  assumes w: "wf_static s" "rand_ok env"
    and l: "length (winAssign d) = getTerritoryN s" "length (channelPrice d) = getTerritoryN s" "length (assignCost d) = getTerritoryN s"
      "\<And>i. i < getTerritoryN s \<Longrightarrow> winAssign d ! i = [] \<and> channelPrice d ! i = []"
    and p: "clockRound d < length (postedPrice d)" "length (postedPrice d ! clockRound d) = getTerritoryN s"
    and b: "clockRound d < length (processedLicenses d)" "grid (getBiddersN s) (getTerritoryN s) (processedLicenses d ! clockRound d)"
      "\<And>t. t < getTerritoryN s \<Longrightarrow> col_sum (processedLicenses d ! clockRound d) t \<le> getSupply s ! t"
  shows "n \<le> getTerritoryN s \<Longrightarrow> \<exists>ws ps cs k'. run_fold (assign_territory env s) [0..<n] (d, k, True) =
      Inr (d\<lparr>winAssign := ws, channelPrice := ps, assignCost := cs\<rparr>, k', True) \<and>
      length ws = getTerritoryN s \<and> length ps = getTerritoryN s \<and> length cs = getTerritoryN s \<and>
      (\<forall>t < n. awarded (getSupply s ! t) (getBiddersN s) (\<lambda>j. processedLicenses d ! clockRound d ! j ! t) (ws ! t)) \<and>
      (\<forall>t. n \<le> t \<and> t < getTerritoryN s \<longrightarrow> ws ! t = [] \<and> ps ! t = [])"
proof (induction n)
  case 0
  have "d = d\<lparr>winAssign := winAssign d, channelPrice := channelPrice d, assignCost := assignCost d\<rparr>" by simp
  then show ?case using l by (intro exI [of _ "winAssign d"] exI [of _ "channelPrice d"] exI [of _ "assignCost d"]) simp
next
  case (Suc n)
  then obtain ws ps cs k1 where ih: "run_fold (assign_territory env s) [0..<n] (d, k, True) =
      Inr (d\<lparr>winAssign := ws, channelPrice := ps, assignCost := cs\<rparr>, k1, True)"
    "length ws = getTerritoryN s" "length ps = getTerritoryN s" "length cs = getTerritoryN s"
    "\<forall>t < n. awarded (getSupply s ! t) (getBiddersN s) (\<lambda>j. processedLicenses d ! clockRound d ! j ! t) (ws ! t)"
    "\<forall>t. n \<le> t \<and> t < getTerritoryN s \<longrightarrow> ws ! t = [] \<and> ps ! t = []" by auto
  define d' where "d' = d\<lparr>winAssign := ws, channelPrice := ps, assignCost := cs\<rparr>"
  have n: "n < getTerritoryN s" using Suc.prems by simp
  define lics where "lics = processedLicenses d ! clockRound d"
  have lat: "license_at d' j n = Inr (lics ! j ! n)" if "j < getBiddersN s" for j
    using that b n by (simp add: license_at_def d'_def index_in index2_eq lics_def grid_iff)
  have "sum_list (map (\<lambda>j. lics ! j ! n) [0..<getBiddersN s]) = col_sum lics n"
    using map_nth_upt [of lics "getBiddersN s" "\<lambda>xs. xs ! n"] b(2) by (simp add: col_sum_def grid_iff lics_def)
  then have le: "sum_list (map (\<lambda>j. lics ! j ! n) [0..<getBiddersN s]) \<le> getSupply s ! n" using b(3) [OF n] by (simp add: lics_def)
  obtain win prices costs k' where "assign_territory env s n (d', k1, True) =
      Inr (d'\<lparr>winAssign := ws[n := win], channelPrice := ps[n := prices], assignCost := cs[n := costs]\<rparr>, k', True)"
    "awarded (getSupply s ! n) (getBiddersN s) (\<lambda>j. lics ! j ! n) win"
    by (rule assign_territory_ok [OF w n, of d' "\<lambda>j. lics ! j ! n" k1])
      (use ih(2-4,6) lat le p n in \<open>simp_all add: d'_def\<close>)
  then show ?case
    using ih n by (intro exI [of _ "ws[n := win]"] exI [of _ "ps[n := prices]"] exI [of _ "cs[n := costs]"])
      (auto simp: run_fold_append d'_def nth_list_update less_Suc_eq lics_def)
qed

lemma processAssignmentRound_ok:
  assumes w: "wf_static s" "rand_ok env" and u: "unassigned d"
    and p: "clockRound d < length (postedPrice d)" "length (postedPrice d ! clockRound d) = getTerritoryN s"
    and b: "clockRound d < length (processedLicenses d)" "books s E (processedLicenses d ! clockRound d) es" "\<forall>e \<in> set es. e \<le> 0"
  obtains d' where "processAssignmentRound env s k d = Inr d'" "auctionState d' = CLOSED" "assignment_ok s d'"
    "processedLicenses d' = processedLicenses d" "clockRound d' = clockRound d" "excessDemand d' = excessDemand d" "roundActive d' = roundActive d"
proof -
  define T where "T = getTerritoryN s"
  define d0 where "d0 = d\<lparr>winAssign := replicate T [], assignCost := replicate T [], channelPrice := replicate T []\<rparr>"
  have T: "length (getTerritoryIds s) = T" using wf_static_lengths(7) [OF w(1)] by (simp add: T_def)
  have col: "col_sum (processedLicenses d ! clockRound d) t \<le> getSupply s ! t" if "t < T" for t
  proof -
    have e: "es ! t = int (col_sum (processedLicenses d ! clockRound d) t) - int (getSupply s ! t)" "t < length es"
      using b(2) that by (simp_all add: books_def T_def)
    have "es ! t \<le> 0" using b(3) e(2) nth_mem by blast
    then show ?thesis using e(1) by simp
  qed
  obtain ws ps cs k' where r: "run_fold (assign_territory env s) [0..<T] (d0, k, True) =
      Inr (d0\<lparr>winAssign := ws, channelPrice := ps, assignCost := cs\<rparr>, k', True)" "length ws = T"
      "\<forall>t < T. awarded (getSupply s ! t) (getBiddersN s) (\<lambda>j. processedLicenses d ! clockRound d ! j ! t) (ws ! t)"
    using assign_territories [OF w, of d0 T k] b p col by (auto simp: d0_def T_def books_def)
  then have "processAssignmentRound env s k d = Inr (closeAuctionState (d0\<lparr>winAssign := ws, channelPrice := ps, assignCost := cs\<rparr>))"
    using u by (simp add: processAssignmentRound_def T unassigned_def resize_def d0_def)
  from this show thesis
    by (rule that) (use r(2,3) in \<open>simp_all add: closeAuctionState_def assignment_ok_def d0_def T_def\<close>)
qed

section \<open>Ending a round\<close>

lemma wanted_lookup:
  assumes "wf_static s" "bid_ok s r e b" "t < getTerritoryN s"
    and "\<And>x. x \<in> set (demands (filled s a r ps b)) \<Longrightarrow> row ! tidx s (territoryId x) = quantity x"
  shows "row ! t = wanted s b t"
  using wanted_filled [OF assms(1-3)] assms(4) by metis

text \<open>The bids of a round are processed: the part of \<open>evaluateClockRound\<close> before \<open>processBidsPostamble\<close>.\<close>

definition process_round :: "evaluation \<Rightarrow> StaticAuctionState \<Rightarrow> nat \<Rightarrow> DynamicAuctionState \<Rightarrow> (DynamicAuctionState \<times> nat) run" where
  "process_round env s a d0 =
     (if clockRound d0 = 1 then run_bind (processInitialRoundBids s a d0) (\<lambda>d1. Inr (d1, 0)) else processRegularRoundBids env s a d0)"

text \<open>What holds after that: the vectors of the round are complete (only the first round leaves the excess
  demand \<open>es\<close> to the postamble).\<close>

definition round_processed :: "StaticAuctionState \<Rightarrow> DynamicAuctionState \<Rightarrow> DynamicAuctionState \<Rightarrow> nat list list \<Rightarrow> int list \<Rightarrow> bool" where
  "round_processed s d d1 lics es =
     (let r = clockRound d in
      clockRound d1 = r \<and> auctionState d1 = CLOCK_PHASE \<and> er d1 = EC_SUCCESS \<and> \<not> roundActive d1 \<and> unassigned d1 \<and>
      processedLicenses d1 = processedLicenses d @ [lics] \<and> eligibility d1 = eligibility d \<and> length (clockBids d1) = Suc r \<and>
      clockPrice d1 = clockPrice d \<and> length (postedPrice d1) = Suc r \<and> length (postedPrice d1 ! r) = getTerritoryN s \<and>
      excessDemand d1 = (if r = 1 then excessDemand d else excessDemand d @ [es]))"

lemma process_first_round:
  assumes w: "wf_static s" "clock_inv s d" "roundActive d" and r: "clockRound d = 1"
  obtains d1 k lics es where "process_round env s a (processBidsPreamble (endRound d)) = Inr (d1, k)" "round_processed s d d1 lics es"
    "books s (eligibility d ! 1) lics es" "round_result s d lics es"
proof -
  obtain lics d1 where 1: "processInitialRoundBids s a (processBidsPreamble (endRound d)) = Inr d1"
    "clockRound d1 = 1" "auctionState d1 = CLOCK_PHASE" "er d1 = EC_SUCCESS" "\<not> roundActive d1" "unassigned d1"
    "processedLicenses d1 = [processedLicenses d ! 0, lics]" "excessDemand d1 = excessDemand d" "eligibility d1 = eligibility d"
    "length (clockBids d1) = 2" "clockPrice d1 = clockPrice d" "postedPrice d1 = [postedPrice d ! 0, getInitialPrices s]"
    "grid (getBiddersN s) (getTerritoryN s) lics"
    "\<And>i. i < getBiddersN s \<Longrightarrow> sum_list (lics ! i) \<le> eligibility d ! 1 ! i"
    "\<And>i x. i < getBiddersN s \<Longrightarrow> x \<in> set (demands (filled s a 1 (postedPrice d ! 0) (clockBids d ! 1 ! i))) \<Longrightarrow> lics ! i ! tidx s (territoryId x) = quantity x"
    by (rule processInitialRoundBids_ok [OF w r, of a]) blast
  have inv: "length (processedLicenses d) = 1" "length (eligibility d ! 1) = getBiddersN s"
    "\<And>i. i < getBiddersN s \<Longrightarrow> bid_ok s 1 (eligibility d ! 1 ! i) (clockBids d ! 1 ! i)"
    using w(2,3) r by (auto simp: clock_inv_def Let_def)
  define es where "es = map (\<lambda>t. int (col_sum lics t) - int (getSupply s ! t)) [0..<getTerritoryN s]"
  have pr: "process_round env s a (processBidsPreamble (endRound d)) = Inr (d1, 0)"
    using 1(1) r by (simp add: process_round_def processBidsPreamble_def endRound_def)
  have "processedLicenses d @ [lics] = [processedLicenses d ! 0, lics]" using inv(1) by (cases "processedLicenses d") auto
  then have rp: "round_processed s d d1 lics es"
    using 1 r wf_static_lengths(6) [OF w(1)] by (simp add: round_processed_def numeral_2_eq_2)
  have "lics ! i ! t = wanted s (clockBids d ! 1 ! i) t" if "i < getBiddersN s" "t < getTerritoryN s" for i t
    using wanted_lookup [OF w(1) inv(3) [OF that(1)] that(2)] 1(15) that(1) by blast
  then have "round_result s d lics es" using r by (simp add: round_result_def Let_def)
  moreover have "books s (eligibility d ! 1) lics es" using 1(13,14) inv(2) by (simp add: books_def es_def)
  ultimately show thesis using that pr rp by blast
qed

lemma process_later_round:
  assumes w: "wf_static s" "clock_inv s d" "roundActive d" and r: "2 \<le> clockRound d" "clockRound d < 2 ^ 32" and rnd: "rand_ok env"
  obtains d1 k lics es where "process_round env s a (processBidsPreamble (endRound d)) = Inr (d1, k)" "round_processed s d d1 lics es"
    "books s (eligibility d ! clockRound d) lics es" "round_result s d lics es" "\<not> final_stage_failed s es"
proof -
  obtain d1 k st where 1: "processRegularRoundBids env s a (processBidsPreamble (endRound d)) = Inr (d1, k)"
    "clockRound d1 = clockRound d" "auctionState d1 = CLOCK_PHASE" "er d1 = EC_SUCCESS" "\<not> roundActive d1" "unassigned d1"
    "processedLicenses d1 = processedLicenses d @ [licenses st]" "excessDemand d1 = excessDemand d @ [excess st]" "eligibility d1 = eligibility d"
    "length (clockBids d1) = Suc (clockRound d)" "clockPrice d1 = clockPrice d" "postedPrice d1 = postedPrice d @ [posted st]"
    "balanced (eligibility d ! clockRound d) (getSupply s) st" "round_result s d (licenses st) (excess st)"
    "\<forall>t < getTerritoryN s. min 0 (excessDemand d ! (clockRound d - 1) ! t) \<le> excess st ! t"
    by (rule processRegularRoundBids_ok [OF w r rnd, of a]) blast
  have inv: "length (postedPrice d) = clockRound d" "length (eligibility d ! clockRound d) = getBiddersN s"
    "length (excessDemand d ! (clockRound d - 1)) = getTerritoryN s" "\<not> final_stage_failed s (excessDemand d ! (clockRound d - 1))"
    using w(2) r by (simp_all add: clock_inv_def Let_def books_def)
  note wl = wf_static_lengths [OF w(1)]
  have "process_round env s a (processBidsPreamble (endRound d)) = Inr (d1, k)"
    using 1(1) r by (simp add: process_round_def processBidsPreamble_def endRound_def)
  moreover have "round_processed s d d1 (licenses st) (excess st)"
    using 1 r inv(1) wl(2) by (simp add: round_processed_def nth_append balanced_def)
  moreover have "books s (eligibility d ! clockRound d) (licenses st) (excess st)"
    using 1(13) inv(2) wl(2) by (auto simp: books_def balanced_def intro: le_add1)
  moreover have "\<not> final_stage_failed s (excess st)"
  proof
    assume "final_stage_failed s (excess st)"
    then obtain t where t: "t < getTerritoryN s" "excess st ! t < 0" "getHighDemandVector s ! t"
      using 1(13) wl by (auto simp: final_stage_failed_def list_ex_iff set_zip balanced_def)
    then have "excessDemand d ! (clockRound d - 1) ! t < 0" using 1(15) by fastforce
    then have "final_stage_failed s (excessDemand d ! (clockRound d - 1))"
      using t inv(3) wl(5) by (auto simp: final_stage_failed_def list_ex_iff set_zip)
    then show False using inv(4) by simp
  qed
  ultimately show thesis using that 1(14) by blast
qed

lemma round_processed_step:
  assumes w: "wf_static s" "clock_inv s d" and r: "clockRound d < 2 ^ 32 - 1"
    and p: "process_round env s a (processBidsPreamble (endRound d)) = Inr (d1, k)" "round_processed s d d1 lics es"
    and b: "books s (eligibility d ! clockRound d) lics es"
  shows "evaluateClockRound env s a (endRound d) =
    run_bind (if final_stage_failed s es then Inr (d1\<lparr>excessDemand := excessDemand d @ [es], auctionState := FSR_FAILED\<rparr>)
       else if \<forall>e \<in> set es. e \<le> 0 then Inr (d1\<lparr>excessDemand := excessDemand d @ [es], auctionState := ASSIGNMENT_PHASE\<rparr>)
       else next_round s (d1\<lparr>excessDemand := excessDemand d @ [es]\<rparr>)) (\<lambda>d2. Inr (d2, k))"
proof -
  have inv: "1 \<le> clockRound d" "length (processedLicenses d) = clockRound d" "length (excessDemand d) = clockRound d"
    "length (eligibility d) = Suc (clockRound d)" "length (clockPrice d) = Suc (clockRound d)"
    "sum_list (eligibility d ! clockRound d) \<le> sum_list (getInitialEligibilities s)"
    using w(2) by (simp_all add: clock_inv_def Let_def)
  note rp = p(2) [unfolded round_processed_def Let_def]
  have "processBidsPostamble s d1 = (if final_stage_failed s es then Inr (d1\<lparr>excessDemand := excessDemand d @ [es], auctionState := FSR_FAILED\<rparr>)
       else if \<forall>e \<in> set es. e \<le> 0 then Inr (d1\<lparr>excessDemand := excessDemand d @ [es], auctionState := ASSIGNMENT_PHASE\<rparr>)
       else next_round s (d1\<lparr>excessDemand := excessDemand d @ [es]\<rparr>))"
    using rp inv r b by (intro processBidsPostamble_ok [OF w(1), where es = es]) (simp_all add: nth_append)
  then show ?thesis using p(1) by (simp add: evaluateClockRound_def process_round_def Let_def)
qed

text \<open>Ending a round, whatever bids were stored: the three ways it can end.\<close>

lemma endRound_cases:
  assumes w: "wf_static s" "clock_inv s d" "roundActive d" "isValidOwner s d" and r: "clockRound d < 2 ^ 32 - 1" and rnd: "rand_ok env"
    and p: "process_round env s a (processBidsPreamble (endRound d)) = Inr (d1, k)" "round_processed s d d1 lics es"
    and b: "books s (eligibility d ! clockRound d) lics es"
  obtains d' where "endRound_tx env s a d = Inr (Inr d')" "\<not> roundActive d'"
    "processedLicenses d' ! clockRound d = lics" "excessDemand d' ! clockRound d = es"
    "if final_stage_failed s es then auctionState d' = FSR_FAILED
     else if \<forall>e \<in> set es. e \<le> 0 then auctionState d' = CLOSED \<and> clockRound d' = clockRound d \<and> assignment_ok s d'
     else clock_inv s d' \<and> clockRound d' = Suc (clockRound d) \<and>
       (\<forall>i < getBiddersN s. eligibility d' ! Suc (clockRound d) ! i \<le> eligibility d ! clockRound d ! i)"
proof -
  define R where "R = clockRound d"
  have inv: "1 \<le> R" "length (processedLicenses d) = R" "length (excessDemand d) = R" "length (eligibility d) = Suc R" "length (clockPrice d) = Suc R"
    "sum_list (eligibility d ! R) \<le> sum_list (getInitialEligibilities s)" "isStateClockPhase d"
    using w(2) by (simp_all add: clock_inv_def Let_def R_def isStateClockPhase_def)
  note rp = p(2) [unfolded round_processed_def Let_def, folded R_def]
  note ev = round_processed_step [OF w(1,2) r p b]
  define dx where "dx = d1\<lparr>excessDemand := excessDemand d @ [es]\<rparr>"
  have tx: "endRound_tx env s a d = run_bind (evaluateClockRound env s a (endRound d)) (\<lambda>(d1, k).
           if er d1 \<noteq> EC_SUCCESS then Inr (Inl (er d1))
           else if isStateAssignmentPhase d1
           then run_bind (startRound s d1) (\<lambda>d2.
                run_bind (evaluateAssignmentRound env s k (endRound d2)) (\<lambda>d3.
                  if \<not> isStateClosedPhase d3 then Inr (Inl EC_EVALUATION_ERROR) else Inr (Inr d3)))
           else Inr (Inr d1))"
    using w(3,4) inv(7) by (simp add: endRound_tx_def)
  consider (fsr) "final_stage_failed s es" | (close) "\<not> final_stage_failed s es" "\<forall>e \<in> set es. e \<le> 0"
    | (more) "\<not> final_stage_failed s es" "\<not> (\<forall>e \<in> set es. e \<le> 0)" by blast
  then show thesis
  proof cases
    case fsr
    then show ?thesis
      using tx ev rp inv(2,3) by (intro that [of "dx\<lparr>auctionState := FSR_FAILED\<rparr>"]) (auto simp: dx_def isStateAssignmentPhase_def nth_append R_def)
  next
    case close
    define dc where "dc = dx\<lparr>auctionState := ASSIGNMENT_PHASE, roundActive := False\<rparr>"
    obtain d' where d': "processAssignmentRound env s k dc = Inr d'" "auctionState d' = CLOSED" "assignment_ok s d'"
      "processedLicenses d' = processedLicenses dc" "clockRound d' = clockRound dc" "excessDemand d' = excessDemand dc" "roundActive d' = roundActive dc"
      by (rule processAssignmentRound_ok [OF w(1) rnd, of dc "eligibility d ! R" es k])
        (use rp inv(2) b close(2) in \<open>simp_all add: dc_def dx_def unassigned_def nth_append flip: R_def\<close>)
    have "endRound_tx env s a d = Inr (Inr d')"
      unfolding tx ev using close rp d'(1,2)
      by (simp add: isStateAssignmentPhase_def startRound_def isStateClockPhase_def evaluateAssignmentRound_def endRound_def isStateClosedPhase_def dc_def dx_def)
    then show ?thesis
      using d' close rp inv(2,3) by (intro that [of d']) (auto simp: dc_def dx_def nth_append R_def)
  next
    case more
    obtain d' where d': "next_round s dx = Inr d'" "clock_inv s d'" "clockRound d' = Suc (clockRound dx)" "\<not> roundActive d'" "er d' = er dx"
      "processedLicenses d' = processedLicenses dx" "excessDemand d' = excessDemand dx"
      "\<forall>i < getBiddersN s. eligibility d' ! Suc (clockRound dx) ! i \<le> eligibility dx ! clockRound dx ! i"
      by (rule next_round_ok [OF w(1), of dx])
        (use rp inv r b more(1) in \<open>simp_all add: dx_def unassigned_def nth_append flip: R_def\<close>)
    have "\<not> isStateAssignmentPhase d'" using d'(2) by (simp add: clock_inv_def Let_def isStateAssignmentPhase_def)
    then have "endRound_tx env s a d = Inr (Inr d')"
      unfolding tx ev using more rp d'(1,5) by (auto simp: dx_def)
    then show ?thesis
      using d' more rp inv(2,3) by (intro that [of d']) (auto simp: dx_def nth_append R_def)
  qed
qed

end
