(* ===== verification/Spectrum_Props.thy ===== *)
theory Spectrum_Props
  imports Spectrum_Laws
begin

text \<open>
  The properties of the spectrum auction, with a sample auction of one territory and two bidders.
\<close>

section \<open>Sample states\<close>

definition spectrum_principal :: "string \<Rightarrow> Principal" where
  "spectrum_principal nm = \<lparr>mspId = ''Org'', dn = nm\<rparr>"

definition spectrum_static :: StaticAuctionState where
  "spectrum_static = \<lparr>owner = spectrum_principal ''owner'', auction_name = ''spectrum'',
     territories = [\<lparr>ter_id = 1, ter_name = ''north'', isHighDemand = True, minPrice = dzero,
       channels = [\<lparr>chan_id = 1, chan_name = ''A'', impairment = 0\<rparr>, \<lparr>chan_id = 2, chan_name = ''B'', impairment = 10\<rparr>]\<rparr>],
     bidders = [\<lparr>bidder_id = 1, displayName = ''b1'', bidder_principal = spectrum_principal ''b1''\<rparr>,
       \<lparr>bidder_id = 2, displayName = ''b2'', bidder_principal = spectrum_principal ''b2''\<rparr>],
     initialEligibilities = [\<lparr>elig_bidderId = 1, elig_number = 2\<rparr>, \<lparr>elig_bidderId = 2, elig_number = 2\<rparr>],
     activityRequirementPercentage = 50, clockPriceIncrementPercentage = 10\<rparr>"

definition spectrum_bid :: "nat \<Rightarrow> nat \<Rightarrow> Bid" where
  "spectrum_bid r q = \<lparr>auctionId = 1, bid_round = r, demands = [\<lparr>territoryId = 1, quantity = q, price = dzero\<rparr>]\<rparr>"

text \<open>The second round is active: in the first round the bidders had two licenses and one, one more than there are
  channels; now the first wants one and the second two.\<close>

definition spectrum_dynamic :: DynamicAuctionState where
  "spectrum_dynamic = \<lparr>auctionState = CLOCK_PHASE, clockRound = 2, roundActive = True, submitterPrincipal = spectrum_principal ''owner'',
     postedPrice = [[dzero], [dzero]], clockPrice = [[], [dzero], [dzero]], eligibility = [[], [2, 2], [2, 2]],
     clockBids = [[], [spectrum_bid 1 2, spectrum_bid 1 1], [spectrum_bid 2 1, spectrum_bid 2 2]],
     excessDemand = [[], [1]], processedLicenses = [[], [[2], [1]]],
     winAssign = [], assignCost = [], channelPrice = [], er = EC_UNDEFINED\<rparr>"

definition spectrum_fresh :: DynamicAuctionState where
  "spectrum_fresh = \<lparr>auctionState = STATE_UNDEFINED, clockRound = 0, roundActive = False, submitterPrincipal = spectrum_principal ''owner'',
     postedPrice = [], clockPrice = [], eligibility = [], clockBids = [], excessDemand = [], processedLicenses = [],
     winAssign = [], assignCost = [], channelPrice = [], er = EC_UNDEFINED\<rparr>"

definition spectrum_env :: "int \<Rightarrow> evaluation" where
  "spectrum_env status = \<lparr>read_rand = (\<lambda>k. (status, ''abcd'')), unspecified_long = 0\<rparr>"

lemma spectrum_static_wf: "wf_static spectrum_static"
  by (simp add: wf_static_def spectrum_static_def checkValidity_def getTerritoryIds_def getInitialEligibilities_def getSupply_def
      numberOfChannels_def getTerritoryN_def getChannelImpairments_def)

lemma spectrum_static_sizes: "getBiddersN spectrum_static = 2" "getTerritoryN spectrum_static = 1" "getSupply spectrum_static = [2]"
  "getTerritoryIds spectrum_static = [1]" "getHighDemandVector spectrum_static = [True]" "getInitialEligibilities spectrum_static = [2, 2]"
  by (simp_all add: spectrum_static_def getBiddersN_def getTerritoryN_def getSupply_def numberOfChannels_def getTerritoryIds_def
      getHighDemandVector_def getInitialEligibilities_def)

lemma spectrum_tidx: "tidx spectrum_static 1 = 0"
  by (simp add: tidx_def getTerritoryIndex_def spectrum_static_def)

lemma spectrum_bid_ok: "q \<le> 2 \<Longrightarrow> bid_ok spectrum_static 2 e (spectrum_bid 2 q)"
  using spectrum_tidx by (simp add: bid_ok_def spectrum_bid_def getDemandedTerritoryIds_def spectrum_static_sizes)

lemma spectrum_dynamic_inv: "clock_inv spectrum_static spectrum_dynamic"
proof -
  have "books spectrum_static [2, 2] [[2], [1]] [1]"
    by (simp add: books_def grid_def spectrum_static_sizes col_sum_def numeral_2_eq_2 less_Suc_eq)
  moreover have "\<not> final_stage_failed spectrum_static [1]" by (simp add: final_stage_failed_def spectrum_static_sizes)
  ultimately show ?thesis
    using spectrum_bid_ok [of 1 2] spectrum_bid_ok [of 2 2]
    by (simp add: clock_inv_def Let_def spectrum_dynamic_def spectrum_static_sizes unassigned_def numeral_2_eq_2 less_Suc_eq)
qed

lemma spectrum_states:
  "roundActive spectrum_dynamic" "isValidOwner spectrum_static spectrum_dynamic" "clockRound spectrum_dynamic = 2" "fresh spectrum_fresh" "rand_ok (spectrum_env 0)"
  by (simp_all add: spectrum_dynamic_def isValidOwner_def isPrincipalOwner_def principal_eq_def spectrum_static_def fresh_def spectrum_fresh_def
      unassigned_def rand_ok_def spectrum_env_def)

section \<open>Transactions keep the invariant\<close>

lemma startNextRound_keeps:
  assumes "wf_static s" "clock_inv s d" "clockRound d < 2 ^ 32 - 1"
  obtains out where "startNextRound_tx s d = Inr out" "\<And>d'. out = Inr d' \<Longrightarrow> isValidOwner s d \<and> clock_inv s d' \<and> roundActive d'"
proof (cases "roundActive d")
  case False
  then obtain d' where "startRound s d = Inr d'" "clock_inv s d'" "roundActive d'" using startRound_ok [OF assms] by metis
  then show thesis using False assms(2) by (intro that [of "if isValidOwner s d then Inr d' else Inl EC_UNRECOGNIZED_SUBMITTER"])
    (auto simp: startNextRound_tx_def clock_inv_def Let_def isStateClockPhase_def split: if_splits)
qed (use that in \<open>simp add: startNextRound_tx_def\<close>)

lemma submitClockBid_keeps:
  assumes "wf_static s" "clock_inv s d" "clockRound d < 2 ^ 32"
  obtains out where "submitClockBid_tx s b d = Inr out"
    "\<And>d'. out = Inr d' \<Longrightarrow> clock_inv s d' \<and> (\<exists>i < getBiddersN s. matchPrincipal (bidders s ! i) (submitterPrincipal d) \<and>
       d' = d\<lparr>clockBids := put2 (clockBids d) (clockRound d) i b\<rparr>)"
proof -
  have ph: "isStateClockPhase d" using assms(2) by (simp add: clock_inv_def Let_def isStateClockPhase_def)
  obtain e where e: "isValidBid s d b = Inr e" using isValidBid_ok(1) [OF assms] by blast
  show thesis
  proof (cases e)
    case None
    obtain i where i: "i < getBiddersN s" "matchPrincipal (bidders s ! i) (submitterPrincipal d)"
      "storeBid s d b = Inr (d\<lparr>clockBids := put2 (clockBids d) (clockRound d) i b\<rparr>)"
      "clock_inv s (d\<lparr>clockBids := put2 (clockBids d) (clockRound d) i b\<rparr>)"
      by (rule storeBid_ok [OF assms e [unfolded None]])
    have "isValidBidder s d" using isValidBid_ok(2) [OF assms e [unfolded None]] by blast
    then show thesis using i e None ph
      by (intro that [of "Inr (d\<lparr>clockBids := put2 (clockBids d) (clockRound d) i b\<rparr>)"]) (auto simp: submitClockBid_tx_def)
  next
    case (Some code)
    then show thesis using e ph that [of "Inl (if isValidBidder s d then code else EC_UNRECOGNIZED_SUBMITTER)"]
      by (auto simp: submitClockBid_tx_def split: if_splits)
  qed
qed

text \<open>C13. The transactions of the clock phase return on every state that satisfies the invariant, whoever submits
  them and whatever they ask for, without reading or writing outside a vector. Creating an auction
  establishes the invariant for the submitter as owner; starting a round succeeds for the owner only, and a
  submitted bid that is accepted is stored for the bidder whose principal submitted it and changes
  nothing else; both keep the invariant.\<close>

theorem transactions_keep_invariant:
  assumes "wf_static s" "fresh d0" "clock_inv s d" "clockRound d < 2 ^ 32 - 1"
  shows "(\<exists>s' d'. createAuction_tx s d0 = Inr (Inr (s', d')) \<and> isValidOwner s' d' \<and> clock_inv s' d') \<and>
    (\<exists>out. startNextRound_tx s d = Inr out \<and> (\<forall>d'. out = Inr d' \<longrightarrow> isValidOwner s d \<and> clock_inv s d' \<and> roundActive d')) \<and>
    (\<exists>out. submitClockBid_tx s b d = Inr out \<and>
       (\<forall>d'. out = Inr d' \<longrightarrow> clock_inv s d' \<and>
          (\<exists>i < getBiddersN s. matchPrincipal (bidders s ! i) (submitterPrincipal d) \<and>
             d' = d\<lparr>clockBids := put2 (clockBids d) (clockRound d) i b\<rparr>)))"
proof (intro conjI)
  obtain d' where "createAuction_tx s d0 = Inr (Inr (s\<lparr>owner := submitterPrincipal d0\<rparr>, d'))" "clock_inv (s\<lparr>owner := submitterPrincipal d0\<rparr>) d'"
    "submitterPrincipal d' = submitterPrincipal d0"
    using createAuction_ok [OF assms(1,2)] by metis
  then show "\<exists>s' d'. createAuction_tx s d0 = Inr (Inr (s', d')) \<and> isValidOwner s' d' \<and> clock_inv s' d'"
    by (auto simp: isValidOwner_def isPrincipalOwner_def principal_eq_def)
  show "\<exists>out. startNextRound_tx s d = Inr out \<and> (\<forall>d'. out = Inr d' \<longrightarrow> isValidOwner s d \<and> clock_inv s d' \<and> roundActive d')"
    by (rule startNextRound_keeps [OF assms(1,3,4)]) blast
  show "\<exists>out. submitClockBid_tx s b d = Inr out \<and> (\<forall>d'. out = Inr d' \<longrightarrow> clock_inv s d' \<and>
      (\<exists>i < getBiddersN s. matchPrincipal (bidders s ! i) (submitterPrincipal d) \<and> d' = d\<lparr>clockBids := put2 (clockBids d) (clockRound d) i b\<rparr>))"
    by (rule submitClockBid_keeps [OF assms(1,3), of b]) (use assms(4) in auto)
qed

theorem transactions_keep_invariant_witness:
  "(\<exists>s' d'. createAuction_tx spectrum_static spectrum_fresh = Inr (Inr (s', d')) \<and> isValidOwner s' d' \<and> clock_inv s' d') \<and>
    (\<exists>out. startNextRound_tx spectrum_static spectrum_dynamic = Inr out \<and>
       (\<forall>d'. out = Inr d' \<longrightarrow> isValidOwner spectrum_static spectrum_dynamic \<and> clock_inv spectrum_static d' \<and> roundActive d')) \<and>
    (\<exists>out. submitClockBid_tx spectrum_static (spectrum_bid 2 0) spectrum_dynamic = Inr out \<and>
       (\<forall>d'. out = Inr d' \<longrightarrow> clock_inv spectrum_static d' \<and>
          (\<exists>i < getBiddersN spectrum_static. matchPrincipal (bidders spectrum_static ! i) (submitterPrincipal spectrum_dynamic) \<and>
             d' = spectrum_dynamic\<lparr>clockBids := put2 (clockBids spectrum_dynamic) (clockRound spectrum_dynamic) i (spectrum_bid 2 0)\<rparr>)))"
proof -
  have "clockRound spectrum_dynamic < 2 ^ 32 - 1" by (simp add: spectrum_states)
  from transactions_keep_invariant [OF spectrum_static_wf spectrum_states(4) spectrum_dynamic_inv this, of "spectrum_bid 2 0"]
  show ?thesis .
qed

section \<open>A round ends\<close>

text \<open>C5. When the owner ends an active round and the random source delivers, the evaluation returns: its loops end,
  no access is outside a vector, and the check of the excess demand against the licenses passes. In
  every territory the licenses of a bidder lie between the old ones and those it asked for, short of the
  demand only when its eligibility is used up, above it only without excess demand. The final stage rule can
  fail in the first round only. Without excess demand the auction is closed and every bidder has exactly
  as many channels as licenses in every territory, each channel given at most once; otherwise the next
  round begins in a state that satisfies the invariant, and no eligibility has grown.\<close>

theorem endRound_ends_round:
  assumes "wf_static s" "clock_inv s d" "roundActive d" "isValidOwner s d" "clockRound d < 2 ^ 32 - 1" "rand_ok env"
  shows "\<exists>d' lics es. endRound_tx env s a d = Inr (Inr d') \<and> \<not> roundActive d' \<and>
    processedLicenses d' ! clockRound d = lics \<and> excessDemand d' ! clockRound d = es \<and>
    books s (eligibility d ! clockRound d) lics es \<and> round_result s d lics es \<and>
    (if final_stage_failed s es then auctionState d' = FSR_FAILED \<and> clockRound d = 1
     else if \<forall>e \<in> set es. e \<le> 0 then auctionState d' = CLOSED \<and> clockRound d' = clockRound d \<and> assignment_ok s d'
     else clock_inv s d' \<and> clockRound d' = Suc (clockRound d) \<and>
       (\<forall>i < getBiddersN s. eligibility d' ! Suc (clockRound d) ! i \<le> eligibility d ! clockRound d ! i))"
proof -
  have r: "1 \<le> clockRound d" using assms(2) by (simp add: clock_inv_def Let_def)
  have "\<exists>d1 k lics es. process_round env s a (processBidsPreamble (endRound d)) = Inr (d1, k) \<and> round_processed s d d1 lics es \<and>
    books s (eligibility d ! clockRound d) lics es \<and> round_result s d lics es \<and> (final_stage_failed s es \<longrightarrow> clockRound d = 1)"
  proof (cases "clockRound d = 1")
    case True
    show ?thesis by (rule process_first_round [OF assms(1-3) True, of env a]) (use True in auto)
  next
    case False
    then have 2: "2 \<le> clockRound d" "clockRound d < 2 ^ 32" using r assms(5) by simp_all
    show ?thesis by (rule process_later_round [OF assms(1-3) 2 assms(6), of a]) auto
  qed
  then obtain d1 k lics es where p: "process_round env s a (processBidsPreamble (endRound d)) = Inr (d1, k)" "round_processed s d d1 lics es"
    "books s (eligibility d ! clockRound d) lics es" and q: "round_result s d lics es" "final_stage_failed s es \<longrightarrow> clockRound d = 1" by blast
  show ?thesis by (rule endRound_cases [OF assms p]) (use p(3) q in auto)
qed

theorem endRound_ends_round_witness:
  "\<exists>d' lics es. endRound_tx (spectrum_env 0) spectrum_static 1 spectrum_dynamic = Inr (Inr d') \<and> \<not> roundActive d' \<and>
    processedLicenses d' ! 2 = lics \<and> excessDemand d' ! 2 = es \<and>
    books spectrum_static [2, 2] lics es \<and> round_result spectrum_static spectrum_dynamic lics es \<and>
    (if final_stage_failed spectrum_static es then auctionState d' = FSR_FAILED \<and> clockRound spectrum_dynamic = 1
     else if \<forall>e \<in> set es. e \<le> 0 then auctionState d' = CLOSED \<and> clockRound d' = 2 \<and> assignment_ok spectrum_static d'
     else clock_inv spectrum_static d' \<and> clockRound d' = Suc 2 \<and> (\<forall>i < 2. eligibility d' ! Suc 2 ! i \<le> [2, 2] ! i))"
proof -
  have e: "eligibility spectrum_dynamic ! 2 = [2, 2]" by (simp add: spectrum_dynamic_def)
  show ?thesis
    using endRound_ends_round [OF spectrum_static_wf spectrum_dynamic_inv spectrum_states(1,2) _ spectrum_states(5), of 1]
    unfolding spectrum_states(3) e spectrum_static_sizes(1) by simp
qed

section \<open>Two demands for one territory\<close>

text \<open>A bid that wants more licenses than the bidder may hold and one that gives up all of them, both of the
  same bidder for the same territory.\<close>

definition dup_queue :: "double \<Rightarrow> enqueuedBid list" where
  "dup_queue p =
     [\<lparr>bidderIndex = 0, territoryIndex = 0, demand = \<lparr>territoryId = 1, quantity = 0, price = p\<rparr>, pricePoint = 0, randomValue = 0\<rparr>,
      \<lparr>bidderIndex = 0, territoryIndex = 0, demand = \<lparr>territoryId = 1, quantity = 3, price = p\<rparr>, pricePoint = 100, randomValue = 0\<rparr>]"

definition dup_state :: "nat \<Rightarrow> double \<Rightarrow> bidding" where
  "dup_state l p = \<lparr>licenses = [[l], [2]], excess = [int l - 1], eligibilityCap = [2 - l, 0], posted = [p]\<rparr>"

lemma dup_steps:
  "apply_bid [c] (dup_queue p ! 0) (dup_state 1 q) = Inr None"
  "apply_bid [c] (dup_queue p ! 1) (dup_state 1 q) = Inr (Some (dup_state 2 c, False))"
  "apply_bid [c] (dup_queue p ! 0) (dup_state 2 q) = Inr (Some (dup_state 1 p, False))"
  by (simp_all add: apply_bid_def dup_queue_def dup_state_def Let_def index2_def index_set2_def index_set_def i32_def u32_def)

definition dup_cycle :: "double list \<Rightarrow> enqueuedBid list \<Rightarrow> nat \<Rightarrow> bidding \<Rightarrow> bool" where
  "dup_cycle clock queue it st =
     (\<exists>c q p. clock = [c] \<and> queue = dup_queue p \<and> (it \<le> 1 \<and> st = dup_state 1 q \<or> it = 0 \<and> st = dup_state 2 q))"

lemma dup_diverges:
  assumes "process_bids clock queue it st = Some r"
  shows "\<not> dup_cycle clock queue it st"
proof (rule process_bids.raw_induct [where P = "\<lambda>clock queue it st r. \<not> dup_cycle clock queue it st", OF _ assms])
  fix f clock queue it st r
  assume IH: "\<And>clock queue it st r. f clock queue it st = Some r \<Longrightarrow> \<not> dup_cycle clock queue it st"
    and body: "(if length queue \<le> it then Some (Inr st)
      else case apply_bid clock (queue ! it) st of
        Inl e \<Rightarrow> Some (Inl e)
      | Inr None \<Rightarrow> f clock queue (Suc it) st
      | Inr (Some (st', fullyAppliedBid)) \<Rightarrow>
          f clock (if fullyAppliedBid then take it queue @ drop (Suc it) queue else queue) 0 st') = Some r"
  show "\<not> dup_cycle clock queue it st"
  proof
    assume "dup_cycle clock queue it st"
    then obtain c q p where c: "clock = [c]" "queue = dup_queue p" "it \<le> 1 \<and> st = dup_state 1 q \<or> it = 0 \<and> st = dup_state 2 q"
      by (auto simp: dup_cycle_def)
    have l: "\<not> length (dup_queue p) \<le> it" using c(3) by (auto simp: dup_queue_def)
    consider (first) "it = 0" "st = dup_state 1 q" | (second) "it = 1" "st = dup_state 1 q" | (third) "it = 0" "st = dup_state 2 q" using c(3) by linarith
    then have "f [c] (dup_queue p) 1 (dup_state 1 q) = Some r \<or> f [c] (dup_queue p) 0 (dup_state 2 c) = Some r \<or>
        f [c] (dup_queue p) 0 (dup_state 1 p) = Some r"
      by cases (use body l dup_steps [of c p q] in \<open>simp_all add: c\<close>)
    then show False using IH unfolding dup_cycle_def by blast
  qed
qed


section \<open>A random source that fails\<close>

definition rand_fails :: "evaluation \<Rightarrow> bool" where
  "rand_fails env = (\<forall>k. fst (read_rand env k) \<noteq> 0)"

lemma enqueue_stopped: "run_fold (enqueue_demand env s d i) xs (queue, k, False) = Inr (queue, k, False)"
  "run_fold (enqueue_bidder env s d) is (queue, k, False) = Inr (queue, k, False)"
  by (induction xs) (simp_all add: enqueue_demand_def, induction "is", simp_all add: enqueue_bidder_def)

text \<open>The stored bid of a bidder asks for what it already holds.\<close>

definition keeps_licenses :: "StaticAuctionState \<Rightarrow> DynamicAuctionState \<Rightarrow> nat \<Rightarrow> bool" where
  "keeps_licenses s d i =
     (\<forall>x \<in> set (demands (clockBids d ! clockRound d ! i)). processedLicenses d ! (clockRound d - 1) ! i ! tidx s (territoryId x) = quantity x)"

lemma enqueue_demands_fail:
  assumes w: "wf_static s" "readable s d" "rand_fails env" "i < getBiddersN s"
  shows "set (map territoryId xs) \<subseteq> set (getTerritoryIds s) \<Longrightarrow>
    \<exists>k'. run_fold (enqueue_demand env s d i) xs (queue, k, True) = Inr (queue, k',
      \<forall>x \<in> set xs. processedLicenses d ! (clockRound d - 1) ! i ! tidx s (territoryId x) = quantity x)"
proof (induction xs)
  case (Cons x xs)
  have x: "territoryId x \<in> set (getTerritoryIds s)" using Cons.prems by simp
  have z: "fst (get_random_bytes env k) \<noteq> 0" using w(3) by (simp add: rand_fails_def get_random_bytes_def)
  have "enqueue_demand env s d i x (queue, k, True) =
      Inr (if processedLicenses d ! (clockRound d - 1) ! i ! tidx s (territoryId x) = quantity x then (queue, k, True) else (queue, Suc k, False))"
    by (rule enqueue_demand_eval [OF w(1,2,4) x, of env queue k]) (use z in simp)
  then show ?case using Cons enqueue_stopped(1) by auto
qed simp

lemma enqueue_bidders_fail:
  assumes w: "wf_static s" "readable s d" "rand_fails env" and b: "clockRound d < length (clockBids d)" "getBiddersN s \<le> length (clockBids d ! clockRound d)"
    and ids: "\<And>i. i < getBiddersN s \<Longrightarrow> set (getDemandedTerritoryIds (clockBids d ! clockRound d ! i)) \<subseteq> set (getTerritoryIds s)"
  shows "set is \<subseteq> {..<getBiddersN s} \<Longrightarrow>
    \<exists>k'. run_fold (enqueue_bidder env s d) is (queue, k, True) = Inr (queue, k', \<forall>i \<in> set is. keeps_licenses s d i)"
proof (induction "is" arbitrary: k)
  case (Cons i js)
  have i: "i < getBiddersN s" using Cons.prems by simp
  obtain k1 where "run_fold (enqueue_demand env s d i) (rev (demands (clockBids d ! clockRound d ! i))) (queue, k, True) = Inr (queue, k1, keeps_licenses s d i)"
    using enqueue_demands_fail [OF w i, of "rev (demands (clockBids d ! clockRound d ! i))" queue k] ids [OF i]
    by (auto simp: getDemandedTerritoryIds_def keeps_licenses_def)
  then have "enqueue_bidder env s d i (queue, k, True) = Inr (queue, k1, keeps_licenses s d i)"
    using i b by (simp add: enqueue_bidder_def index2_eq)
  then show ?case using Cons enqueue_stopped(2) by (cases "keeps_licenses s d i") auto
qed simp

lemma postamble_out_of_bounds:
  assumes "wf_static s" "length (processedLicenses d) \<le> clockRound d"
  shows "processBidsPostamble s d = Inl OutOfBounds"
proof -
  obtain n m where n: "getBiddersN s = Suc n" "getTerritoryN s = Suc m" using wf_static_lengths(3,4) [OF assms(1)] by (metis Suc_pred')
  have "license_at d j i = Inl OutOfBounds" for i j using assms(2) by (simp add: license_at_def index_def)
  then have "sum_u32 (\<lambda>j. license_at d j i) (getBiddersN s) = Inl OutOfBounds" for i
    by (simp add: sum_u32_def n upt_conv_Cons del: upt_Suc)
  then show ?thesis by (simp add: processBidsPostamble_def n upt_conv_Cons del: upt_Suc)
qed

text \<open>C37. When the random source fails in a later round while a bidder asks for a change, the processing of bids stops
  with an error code, but the end of the round is evaluated all the same and reads the licenses of the
  round outside their vector.\<close>

theorem failed_random_reads_outside:
  assumes w: "wf_static s" "clock_inv s d" "roundActive d" "isValidOwner s d" and r: "2 \<le> clockRound d" "clockRound d < 2 ^ 32"
    and rnd: "rand_fails env"
    and c: "i < getBiddersN s" "\<not> keeps_licenses s d i"
  shows "endRound_tx env s a d = Inl OutOfBounds"
proof -
  define R where "R = clockRound d"
  note inv = clock_inv_later [OF w(2,3) r(1), folded R_def]
  obtain d2 where d2: "prepared s a d d2" "readable s d2" and ev: "processRegularRoundBids env s a (processBidsPreamble (endRound d)) =
       run_bind (run_fold (enqueue_bidder env s d2) [0..<getBiddersN s] ([], 0, True)) (\<lambda>(queue, k, ok).
            if \<not> ok then Inr (d2\<lparr>er := EC_EVALUATION_ERROR\<rparr>, k)
            else run_bind (process_queue s (sort_bids queue) d2) (\<lambda>d3. Inr (d3, k)))"
    by (rule prepare_round [OF w(1-3) r, of a env])
  note f2 = d2(1) [unfolded prepared_def Let_def, folded R_def]
  define fb where "fb = (\<lambda>i. filled s a R (postedPrice d ! (R - 1)) (clockBids d ! R ! i))"
  have fb: "clockBids d2 ! R ! j = fb j" if "j < getBiddersN s" for j using f2 that by (simp add: fb_def)
  have "set (getDemandedTerritoryIds (fb j)) = set (getTerritoryIds s)" if "j < getBiddersN s" for j
    using filled_ids(2) [OF w(1) inv(15) [OF that]] by (simp add: fb_def)
  then have "\<exists>k'. run_fold (enqueue_bidder env s d2) [0..<getBiddersN s] ([], 0, True) = Inr ([], k', \<forall>i \<in> set [0..<getBiddersN s]. keeps_licenses s d2 i)"
    by (intro enqueue_bidders_fail [OF w(1) d2(2) rnd]) (use f2 fb in \<open>auto simp: lessThan_atLeast0\<close>)
  then obtain k' where k': "run_fold (enqueue_bidder env s d2) [0..<getBiddersN s] ([], 0, True) = Inr ([], k', \<forall>i \<in> set [0..<getBiddersN s]. keeps_licenses s d2 i)" ..
  have "(\<forall>i \<in> set [0..<getBiddersN s]. keeps_licenses s d2 i) = False"
  proof -
    obtain x where "x \<in> set (demands (clockBids d ! R ! i))" "processedLicenses d ! (R - 1) ! i ! tidx s (territoryId x) \<noteq> quantity x"
      using c(2) by (auto simp: keeps_licenses_def R_def)
    moreover from this have "x \<in> set (demands (clockBids d2 ! R ! i))" using c(1) fb by (simp add: fb_def filled_def)
    ultimately have "\<not> keeps_licenses s d2 i" using f2 by (auto simp: keeps_licenses_def)
    then show ?thesis using c(1) by auto
  qed
  with k' have "run_fold (enqueue_bidder env s d2) [0..<getBiddersN s] ([], 0, True) = Inr ([], k', False)" by simp
  then have "processRegularRoundBids env s a (processBidsPreamble (endRound d)) = Inr (d2\<lparr>er := EC_EVALUATION_ERROR\<rparr>, k')" using ev by simp
  moreover have "processBidsPostamble s (d2\<lparr>er := EC_EVALUATION_ERROR\<rparr>) = Inl OutOfBounds"
    using f2 inv(10) by (intro postamble_out_of_bounds [OF w(1)]) simp
  ultimately have "evaluateClockRound env s a (endRound d) = Inl OutOfBounds"
    using r(1) by (simp add: evaluateClockRound_def Let_def processBidsPreamble_def endRound_def)
  then show ?thesis using w(3,4) inv(2) by (simp add: endRound_tx_def isStateClockPhase_def)
qed

theorem failed_random_reads_outside_witness: "endRound_tx (spectrum_env 1) spectrum_static 1 spectrum_dynamic = Inl OutOfBounds"
proof (rule failed_random_reads_outside [OF spectrum_static_wf spectrum_dynamic_inv spectrum_states(1,2)])
  show "2 \<le> clockRound spectrum_dynamic" "clockRound spectrum_dynamic < 2 ^ 32" by (simp_all add: spectrum_states)
  show "rand_fails (spectrum_env 1)" by (simp add: rand_fails_def spectrum_env_def)
  show "0 < getBiddersN spectrum_static" by (simp add: spectrum_static_sizes)
  show "\<not> keeps_licenses spectrum_static spectrum_dynamic 0"
    using spectrum_tidx by (simp add: keeps_licenses_def spectrum_dynamic_def spectrum_bid_def)
qed

end
