(* ===== verification/Base64.thy ===== *)
theory Base64
  imports Prelude
begin

text \<open>
  \<^verbatim>\<open>common/base64/base64.cpp\<close>: base64 as the enclaves use it. A \<open>std::string\<close> and a buffer of
  bytes are lists of characters; \<open>unsigned char\<close> arithmetic is on naturals, reduced modulo 256
  where the code stores into an \<open>unsigned char\<close>. The arrays \<open>char_array_3\<close> and \<open>char_array_4\<close>
  are the lists of the entries filled so far; the decoder computes two bytes from a partly
  filled array and keeps only those that do not depend on the stale entries, which are read
  as zero here.

  Decoding inverts encoding on every byte string, and the lengths are exact.
\<close>

definition base64_chars :: string where
  "base64_chars = ''ABCDEFGHIJKLMNOPQRSTUVWXYZabcdefghijklmnopqrstuvwxyz0123456789+/''"

definition isalnum :: "char \<Rightarrow> bool" where
  "isalnum c = (isdigit c \<or> (65 \<le> byte c \<and> byte c \<le> 90) \<or> (97 \<le> byte c \<and> byte c \<le> 122))"

definition is_base64 :: "char \<Rightarrow> bool" where
  "is_base64 c = (isalnum c \<or> c = CHR ''+'' \<or> c = CHR ''/'')"

text \<open>\<open>base64_chars[n]\<close> and \<open>base64_chars.find(c)\<close> stored into an \<open>unsigned char\<close>; the latter is
  255 (\<open>npos\<close>) for a character outside the alphabet.\<close>

definition base64_char :: "nat \<Rightarrow> char" where
  "base64_char n = nthc base64_chars n"

definition base64_find :: "char \<Rightarrow> nat" where
  "base64_find c = (let k = length (takeWhile (\<lambda>d. d \<noteq> c) base64_chars)
                    in if k < length base64_chars then k else 255)"

definition nthz :: "nat list \<Rightarrow> nat \<Rightarrow> nat" where
  "nthz xs i = (if i < length xs then xs ! i else 0)"

definition encode_quad :: "nat list \<Rightarrow> nat list" where
  "encode_quad a3 =
     [drop_bit 2 (nthz a3 0 AND 0xfc),
      (push_bit 4 (nthz a3 0 AND 0x03) + drop_bit 4 (nthz a3 1 AND 0xf0)) mod 256,
      (push_bit 2 (nthz a3 1 AND 0x0f) + drop_bit 6 (nthz a3 2 AND 0xc0)) mod 256,
      nthz a3 2 AND 0x3f]"

fun base64_encode_loop :: "string \<Rightarrow> nat list \<Rightarrow> string \<Rightarrow> nat list \<times> string" where
  "base64_encode_loop [] char_array_3 ret = (char_array_3, ret)"
| "base64_encode_loop (c # cs) char_array_3 ret =
     (let a3 = char_array_3 @ [byte c]
      in if length a3 = 3 then base64_encode_loop cs [] (ret @ map base64_char (encode_quad a3))
         else base64_encode_loop cs a3 ret)"

definition base64_encode :: "string \<Rightarrow> string" where
  "base64_encode bytes_to_encode =
     (let (a3, ret) = base64_encode_loop bytes_to_encode [] []; i = length a3
      in if i \<noteq> 0
         then ret @ map base64_char (take (i + 1) (encode_quad (a3 @ replicate (3 - i) 0)))
              @ replicate (3 - i) CHR ''=''
         else ret)"

definition decode_triple :: "nat list \<Rightarrow> nat list" where
  "decode_triple a4 =
     [(push_bit 2 (nthz a4 0) + drop_bit 4 (nthz a4 1 AND 0x30)) mod 256,
      (push_bit 4 (nthz a4 1 AND 0xf) + drop_bit 2 (nthz a4 2 AND 0x3c)) mod 256,
      (push_bit 6 (nthz a4 2 AND 0x3) + nthz a4 3) mod 256]"

fun base64_decode_loop :: "string \<Rightarrow> string \<Rightarrow> string \<Rightarrow> string \<times> string" where
  "base64_decode_loop [] char_array_4 ret = (char_array_4, ret)"
| "base64_decode_loop (c # cs) char_array_4 ret =
     (if c \<noteq> CHR ''='' \<and> is_base64 c
      then let a4 = char_array_4 @ [c]
           in if length a4 = 4
              then base64_decode_loop cs [] (ret @ map char_of (decode_triple (map base64_find a4)))
              else base64_decode_loop cs a4 ret
      else (char_array_4, ret))"

definition base64_decode :: "string \<Rightarrow> string" where
  "base64_decode encoded_string =
     (let (a4, ret) = base64_decode_loop encoded_string [] []; i = length a4
      in if i \<noteq> 0 then ret @ map char_of (take (i - 1) (take 2 (decode_triple (map base64_find a4))))
         else ret)"

section \<open>The alphabet\<close>

lemma length_base64_chars [simp]: "length base64_chars = 64"
  by (simp add: base64_chars_def)

lemma base64_alphabet:
  "list_all (\<lambda>n. base64_find (base64_char n) = n \<and> is_base64 (base64_char n) \<and> base64_char n \<noteq> CHR ''='') [0..<64]"
  by code_simp

lemma base64_char_simps [simp]:
  "n < 64 \<Longrightarrow> base64_find (base64_char n) = n"
  "n < 64 \<Longrightarrow> is_base64 (base64_char n)"
  "n < 64 \<Longrightarrow> base64_char n \<noteq> CHR ''=''"
  using base64_alphabet by (simp_all add: list_all_iff)

section \<open>Six-bit groups\<close>

lemma nthz_simps [simp]:
  "nthz [] i = 0" "nthz (x # xs) 0 = x" "nthz (x # xs) (Suc i) = nthz xs i"
  by (simp_all add: nthz_def)

lemma nthz_numeral [simp]: "nthz (x # xs) (numeral k) = nthz xs (pred_numeral k)"
  by (simp add: numeral_eq_Suc)

lemma nthz_One [simp]: "nthz (x # xs) 1 = nthz xs 0"
  by (simp add: One_nat_def del: One_nat_def [symmetric])

lemma octet_masks:
  assumes "x < (256::nat)"
  shows "drop_bit 2 (x AND 0xfc) = x div 4" "x AND 0x03 = x mod 4" "drop_bit 4 (x AND 0xf0) = x div 16"
    "x AND 0x0f = x mod 16" "drop_bit 6 (x AND 0xc0) = x div 64" "x AND 0x3f = x mod 64"
    "drop_bit 4 (x AND 0x30) = x div 16 mod 4" "drop_bit 2 (x AND 0x3c) = x div 4 mod 16"
proof -
  show "drop_bit 2 (x AND 0xfc) = x div 4" "drop_bit 4 (x AND 0xf0) = x div 16" "drop_bit 6 (x AND 0xc0) = x div 64"
    "drop_bit 4 (x AND 0x30) = x div 16 mod 4" "drop_bit 2 (x AND 0x3c) = x div 4 mod 16"
    using and_shifted_mask [of x 6 2] and_shifted_mask [of x 4 4] and_shifted_mask [of x 2 6]
      and_shifted_mask [of x 2 4] and_shifted_mask [of x 4 2] assms
    by (simp_all add: mask_eq_exp_minus_1 drop_bit_eq_div)
  show "x AND 0x03 = x mod 4" "x AND 0x0f = x mod 16" "x AND 0x3f = x mod 64"
    using take_bit_eq_mask [of 2 x] take_bit_eq_mask [of 4 x] take_bit_eq_mask [of 6 x]
    by (simp_all add: take_bit_eq_mod mask_eq_exp_minus_1)
qed

lemma octet_parts:
  "x < (256::nat) \<Longrightarrow> x div 4 < 64" "x < 256 \<Longrightarrow> x div 16 < 16" "x < 256 \<Longrightarrow> x div 64 < 4"
  "x < 64 \<Longrightarrow> x div 16 < 4" "x < 64 \<Longrightarrow> x div 4 < 16"
  by (simp_all add: less_mult_imp_div_less)

lemma group_less: "x < m \<Longrightarrow> y < k \<Longrightarrow> x * k + y < m * (k::nat)"
proof -
  assume x: "x < m" and y: "y < k"
  have "Suc x * k \<le> m * k" using x by (intro mult_le_mono1) simp
  moreover have "x * k + y < Suc x * k" using y by simp
  ultimately show ?thesis by linarith
qed

lemma sextets_bound:
  assumes "a < 256" "b < 256" "c < (256::nat)"
  shows "a div 4 < 64" "a mod 4 * 16 + b div 16 < 64" "b mod 16 * 4 + c div 64 < 64" "c mod 64 < 64"
proof -
  show "a div 4 < 64" by (rule octet_parts(1) [OF assms(1)])
  show "a mod 4 * 16 + b div 16 < 64"
    using group_less [OF mod_less_divisor octet_parts(2) [OF assms(2)], of 4 a] by simp
  show "b mod 16 * 4 + c div 64 < 64"
    using group_less [OF mod_less_divisor octet_parts(3) [OF assms(3)], of 16 b] by simp
qed simp

lemma encode_quad_arith:
  assumes "a < 256" "b < 256" "c < 256"
  shows "encode_quad [a, b, c] = [a div 4, a mod 4 * 16 + b div 16, b mod 16 * 4 + c div 64, c mod 64]"
  using sextets_bound [OF assms] assms
  by (simp add: encode_quad_def octet_masks push_bit_eq_mult del: drop_bit_and)

lemma decode_triple_arith:
  assumes "p < 64" "q < 64" "r < 64" "s < 64"
  shows "decode_triple [p, q, r, s] = [p * 4 + q div 16, q mod 16 * 16 + r div 4, r mod 4 * 64 + s]"
    "take 2 (decode_triple [p, q, r]) = [p * 4 + q div 16, q mod 16 * 16 + r div 4]"
    "take (Suc 0) (decode_triple [p, q]) = [p * 4 + q div 16]"
proof -
  note parts = octet_parts(4) [OF assms(2)] octet_parts(5) [OF assms(3)]
  have "p * 4 + q div 16 < 256" "q mod 16 * 16 + r div 4 < 256" "r mod 4 * 64 + s < 256"
    using parts assms group_less [of p 64 "q div 16" 4] group_less [of "q mod 16" 16 "r div 4" 16]
      group_less [of "r mod 4" 4 s 64] by simp_all
  then show "decode_triple [p, q, r, s] = [p * 4 + q div 16, q mod 16 * 16 + r div 4, r mod 4 * 64 + s]"
    "take 2 (decode_triple [p, q, r]) = [p * 4 + q div 16, q mod 16 * 16 + r div 4]"
    "take (Suc 0) (decode_triple [p, q]) = [p * 4 + q div 16]"
    using assms parts by (simp_all add: decode_triple_def octet_masks push_bit_eq_mult del: drop_bit_and)
qed

lemma regroup:
  assumes "a < 256" "b < 256" "c < (256::nat)"
  shows "a div 4 * 4 + (a mod 4 * 16 + b div 16) div 16 = a"
    "(a mod 4 * 16 + b div 16) mod 16 * 16 + (b mod 16 * 4 + c div 64) div 4 = b"
    "(b mod 16 * 4 + c div 64) mod 4 * 64 + c mod 64 = c"
proof -
  have "b div 16 < 16" "c div 64 < 4" using assms octet_parts by blast+
  then show "a div 4 * 4 + (a mod 4 * 16 + b div 16) div 16 = a"
    "(a mod 4 * 16 + b div 16) mod 16 * 16 + (b mod 16 * 4 + c div 64) div 4 = b"
    "(b mod 16 * 4 + c div 64) mod 4 * 64 + c mod 64 = c"
    by simp_all
qed

section \<open>Round trip\<close>

text \<open>What the encoder emits for three bytes, and for the one or two at the end.\<close>

fun b64_text :: "string \<Rightarrow> string" where
  "b64_text (a # b # c # cs) = map base64_char (encode_quad [byte a, byte b, byte c]) @ b64_text cs"
| "b64_text [a, b] = map base64_char (take 3 (encode_quad [byte a, byte b, 0])) @ ''=''"
| "b64_text [a] = map base64_char (take 2 (encode_quad [byte a, 0, 0])) @ ''==''"
| "b64_text [] = []"

lemma base64_encode_text: "base64_encode s = b64_text s"
proof -
  have "(let (a3, r) = base64_encode_loop s [] ret; i = length a3
      in if i \<noteq> 0 then r @ map base64_char (take (i + 1) (encode_quad (a3 @ replicate (3 - i) 0))) @ replicate (3 - i) CHR ''=''
         else r) = ret @ b64_text s" for ret
    by (induction s arbitrary: ret rule: b64_text.induct) (simp_all add: numeral_eq_Suc Let_def split: prod.splits)
  from this [of "[]"] show ?thesis by (simp add: base64_encode_def)
qed

lemma base64_decode_text:
  "(let (a4, r) = base64_decode_loop (b64_text s) [] ret; i = length a4
    in if i \<noteq> 0 then r @ map char_of (take (i - 1) (take 2 (decode_triple (map base64_find a4)))) else r) = ret @ s"
proof (induction s arbitrary: ret rule: b64_text.induct)
  case (1 a b c cs)
  note q = encode_quad_arith [of "byte a" "byte b" "byte c", OF byte_less byte_less byte_less]
    and sb = sextets_bound [of "byte a" "byte b" "byte c", OF byte_less byte_less byte_less]
    and rg = regroup [of "byte a" "byte b" "byte c", OF byte_less byte_less byte_less]
  have "base64_decode_loop (b64_text (a # b # c # cs)) [] ret = base64_decode_loop (b64_text cs) [] (ret @ [a, b, c])"
    using sb decode_triple_arith(1) [OF sb] rg by (simp add: q Let_def)
  then show ?case using 1 [of "ret @ [a, b, c]"] by simp
next
  case (2 a b)
  note q = encode_quad_arith [of "byte a" "byte b" 0, OF byte_less byte_less zero_less_numeral]
    and sb = sextets_bound [of "byte a" "byte b" 0, OF byte_less byte_less zero_less_numeral]
    and rg = regroup [of "byte a" "byte b" 0, OF byte_less byte_less zero_less_numeral]
  show ?case
    using sb decode_triple_arith(2) [OF sb] rg by (simp add: q)
next
  case (3 a)
  note q = encode_quad_arith [of "byte a" 0 0, OF byte_less zero_less_numeral zero_less_numeral]
    and sb = sextets_bound [of "byte a" 0 0, OF byte_less zero_less_numeral zero_less_numeral]
    and rg = regroup [of "byte a" 0 0, OF byte_less zero_less_numeral zero_less_numeral]
  show ?case
    using sb decode_triple_arith(3) [OF sb] rg by (simp add: q)
qed simp

lemma length_b64_text: "length (b64_text s) = (length s + 2) div 3 * 4"
  by (induction s rule: b64_text.induct) (simp_all add: encode_quad_def, presburger)

lemma base64_decode_encode [simp]: "base64_decode (base64_encode s) = s"
  using base64_decode_text [of s "[]"] by (simp add: base64_encode_text base64_decode_def)

lemma length_base64_encode [simp]: "length (base64_encode s) = (length s + 2) div 3 * 4"
  by (simp add: base64_encode_text length_b64_text)

text \<open>C3. Base64 round trip: decoding what \<open>base64_encode\<close> returns gives back every byte string,
  of any length modulo three and with zero bytes in it, and the encoding of \<open>n\<close> bytes has
  exactly \<open>(n + 2) / 3 * 4\<close> characters, the size the shim computes its buffers with.\<close>

theorem base64_roundtrip:
  "base64_decode (base64_encode s) = s \<and> length (base64_encode s) = (length s + 2) div 3 * 4"
  using base64_decode_text [of s "[]"] by (simp add: base64_encode_text length_b64_text base64_decode_def)

section \<open>Lengths of decoded texts\<close>

lemma base64_decode_loop_length:
  "base64_decode_loop t a4 ret = (a4', ret') \<Longrightarrow> length a4 < 4 \<Longrightarrow>
     length a4' < 4 \<and> 4 * length ret' + 3 * length a4' \<le> 4 * length ret + 3 * (length a4 + length t)"
proof (induction t arbitrary: a4 ret)
  case (Cons c t)
  show ?case
  proof (cases "c \<noteq> CHR ''='' \<and> is_base64 c")
    case go: True
    show ?thesis
    proof (cases "length a4 = 3")
      case True
      then have "base64_decode_loop t [] (ret @ map char_of (decode_triple (map base64_find (a4 @ [c])))) = (a4', ret')"
        using Cons.prems(1) go by (simp add: Let_def)
      from Cons.IH [OF this] True show ?thesis by (simp add: decode_triple_def)
    next
      case False
      then have "base64_decode_loop t (a4 @ [c]) ret = (a4', ret')" using Cons.prems(1) go by (simp add: Let_def)
      from Cons.IH [OF this] False Cons.prems(2) show ?thesis by simp
    qed
  qed (use Cons.prems in auto)
qed simp

lemma base64_decode_length: "4 * length (base64_decode t) \<le> 3 * length t"
proof -
  obtain a4 ret where l: "base64_decode_loop t [] [] = (a4, ret)" by fastforce
  then have "length a4 < 4" "4 * length ret + 3 * length a4 \<le> 3 * length t"
    using base64_decode_loop_length by fastforce+
  moreover have "length (take (length a4 - 1) (take 2 (decode_triple (map base64_find a4)))) \<le> length a4 - 1" by simp
  ultimately show ?thesis unfolding base64_decode_def l by (auto simp: Let_def)
qed

text \<open>The encoding is a C string of printable ASCII.\<close>

lemma encode_quad_bound:
  assumes "a < 256" "b < 256" "c < 256" "n \<in> set (encode_quad [a, b, c])"
  shows "n < 64"
proof -
  have "n \<in> {a div 4, a mod 4 * 16 + b div 16, b mod 16 * 4 + c div 64, c mod 64}"
    using assms(4) unfolding encode_quad_arith [OF assms(1-3)] by (simp only: list.set)
  then show ?thesis using sextets_bound [OF assms(1-3)] by blast
qed

lemma base64_char_ascii: "n < 64 \<Longrightarrow> 43 \<le> byte (base64_char n) \<and> byte (base64_char n) \<le> 122"
proof -
  have "list_all (\<lambda>c. 43 \<le> byte c \<and> byte c \<le> 122) base64_chars" by (simp add: base64_chars_def)
  moreover have "length base64_chars = 64" by (simp add: base64_chars_def)
  ultimately show "n < 64 \<Longrightarrow> ?thesis" by (simp add: list_all_length base64_char_def nthc_def)
qed

lemma base64_encode_ascii: "c \<in> set (base64_encode s) \<Longrightarrow> 43 \<le> byte c \<and> byte c \<le> 122"
proof -
  have eq: "43 \<le> byte CHR ''='' \<and> byte CHR ''='' \<le> 122" by simp
  have "c \<in> set (b64_text s) \<Longrightarrow> 43 \<le> byte c \<and> byte c \<le> 122"
  proof (induction s rule: b64_text.induct)
    case (1 a b d cs)
    then show ?case using encode_quad_bound [OF byte_less byte_less byte_less, of _ a b d] base64_char_ascii by fastforce
  next
    case (2 a b)
    then show ?case
      using encode_quad_bound [OF byte_less byte_less zero_less_numeral, of _ a b] base64_char_ascii eq
      by (auto dest!: in_set_takeD)
  next
    case (3 a)
    then show ?case
      using encode_quad_bound [OF byte_less zero_less_numeral zero_less_numeral, of _ a] base64_char_ascii eq
      by (auto dest!: in_set_takeD)
  qed simp
  then show "c \<in> set (base64_encode s) \<Longrightarrow> ?thesis" by (simp add: base64_encode_text)
qed

lemma nul_free_base64_encode [simp]: "nul_free (base64_encode s)"
  using base64_encode_ascii [of NUL s] by (auto simp: nul_free_def)

end
