(* ===== verification/Parson_Value.thy ===== *)
theory Parson_Value
  imports Parson_Number
begin

text \<open>
  The values of \<^verbatim>\<open>common/json/parson.c\<close>: objects, arrays and scalars with the operations that
  create, look up, extend and release them. A \<open>JSON_Object\<close> is the record of its name/value
  pairs (the first \<open>count\<close> entries of the two arrays) and its \<open>capacity\<close>; the arrays are
  \<open>NULL\<close> exactly when the capacity is zero, as \<open>json_object_init\<close> and \<open>json_object_resize\<close>
  keep it. A pointer that may be \<open>NULL\<close> is an option; names are C strings. A value passed to
  an operation that takes ownership carries whether its \<open>parent\<close> is set (\<open>json_ref\<close>).

  Operations that allocate thread the heap and may fail at every allocation. \<open>blocks v\<close> is the
  number of heap blocks a value owns: the lemmas show that every operation keeps the count of
  live blocks equal to what the values own, and that the object operations implement a finite
  map from names to values.
\<close>

section \<open>Data\<close>

datatype json_value =
    JSONNull
  | JSONString string
  | JSONNumber double
  | JSONObject "(string \<times> json_value) list" nat
  | JSONArray "json_value list" nat
  | JSONBoolean bool

datatype json_value_type =
    JSONError_t | JSONNull_t | JSONString_t | JSONNumber_t | JSONObject_t | JSONArray_t | JSONBoolean_t

datatype json_status = JSONSuccess | JSONFailure

record json_object =
  pairs :: "(string \<times> json_value) list"
  obj_capacity :: nat

record json_array =
  items :: "json_value list"
  arr_capacity :: nat

text \<open>A \<open>JSON_Value *\<close> handed to an operation that takes ownership: \<open>NULL\<close>, a value whose
  \<open>parent\<close> is \<open>NULL\<close>, or a value that already belongs to a container.\<close>

datatype json_ref = NullRef | Detached json_value | Attached json_value

definition STARTING_CAPACITY :: nat where
  "STARTING_CAPACITY = 16"

fun JSONObject_of :: "json_object \<Rightarrow> json_value" where
  "JSONObject_of ob = JSONObject (pairs ob) (obj_capacity ob)"

fun JSONArray_of :: "json_array \<Rightarrow> json_value" where
  "JSONArray_of ar = JSONArray (items ar) (arr_capacity ar)"

section \<open>Accessors\<close>

fun json_value_get_type :: "json_value option \<Rightarrow> json_value_type" where
  "json_value_get_type None = JSONError_t"
| "json_value_get_type (Some JSONNull) = JSONNull_t"
| "json_value_get_type (Some (JSONString _)) = JSONString_t"
| "json_value_get_type (Some (JSONNumber _)) = JSONNumber_t"
| "json_value_get_type (Some (JSONObject _ _)) = JSONObject_t"
| "json_value_get_type (Some (JSONArray _ _)) = JSONArray_t"
| "json_value_get_type (Some (JSONBoolean _)) = JSONBoolean_t"

fun json_value_get_object :: "json_value option \<Rightarrow> json_object option" where
  "json_value_get_object (Some (JSONObject fs c)) = Some \<lparr>pairs = fs, obj_capacity = c\<rparr>"
| "json_value_get_object _ = None"

fun json_value_get_array :: "json_value option \<Rightarrow> json_array option" where
  "json_value_get_array (Some (JSONArray xs c)) = Some \<lparr>items = xs, arr_capacity = c\<rparr>"
| "json_value_get_array _ = None"

fun json_value_get_string :: "json_value option \<Rightarrow> string option" where
  "json_value_get_string (Some (JSONString s)) = Some s"
| "json_value_get_string _ = None"

fun json_value_get_number :: "json_value option \<Rightarrow> double" where
  "json_value_get_number (Some (JSONNumber d)) = d"
| "json_value_get_number _ = dzero"

fun json_value_get_boolean :: "json_value option \<Rightarrow> int" where
  "json_value_get_boolean (Some (JSONBoolean b)) = (if b then 1 else 0)"
| "json_value_get_boolean _ = -1"

definition json_type :: "json_value option \<Rightarrow> json_value_type" where
  "json_type value = json_value_get_type value"

definition json_object_c :: "json_value option \<Rightarrow> json_object option" where
  "json_object_c value = json_value_get_object value"

definition json_array_c :: "json_value option \<Rightarrow> json_array option" where
  "json_array_c value = json_value_get_array value"

definition json_string :: "json_value option \<Rightarrow> string option" where
  "json_string value = json_value_get_string value"

definition json_number :: "json_value option \<Rightarrow> double" where
  "json_number value = json_value_get_number value"

definition json_boolean :: "json_value option \<Rightarrow> int" where
  "json_boolean value = json_value_get_boolean value"

definition json_object_get_count :: "json_object option \<Rightarrow> nat" where
  "json_object_get_count ob = (case ob of Some ob \<Rightarrow> length (pairs ob) | None \<Rightarrow> 0)"

definition json_object_get_name :: "json_object option \<Rightarrow> nat \<Rightarrow> string option" where
  "json_object_get_name ob index =
     (case ob of None \<Rightarrow> None
      | Some b \<Rightarrow> if json_object_get_count ob \<le> index then None else Some (fst (pairs b ! index)))"

definition json_object_get_value_at :: "json_object option \<Rightarrow> nat \<Rightarrow> json_value option" where
  "json_object_get_value_at ob index =
     (case ob of None \<Rightarrow> None
      | Some b \<Rightarrow> if json_object_get_count ob \<le> index then None else Some (snd (pairs b ! index)))"

text \<open>The loop of \<open>json_object_getn_value\<close> over the entries: the first whose length is
  \<open>name_len\<close> and whose first \<open>name_len\<close> characters are those of \<open>name\<close>.\<close>

fun getn_loop :: "(string \<times> json_value) list \<Rightarrow> string \<Rightarrow> nat \<Rightarrow> json_value option" where
  "getn_loop [] name name_len = None"
| "getn_loop ((k, v) # fs) name name_len =
     (if strlen k \<noteq> name_len then getn_loop fs name name_len
      else if strneq k name name_len then Some v
      else getn_loop fs name name_len)"

definition json_object_getn_value :: "json_object option \<Rightarrow> string \<Rightarrow> nat \<Rightarrow> json_value option" where
  "json_object_getn_value ob name name_len =
     (case ob of None \<Rightarrow> None | Some b \<Rightarrow> getn_loop (pairs b) name name_len)"

definition json_object_get_value :: "json_object option \<Rightarrow> string option \<Rightarrow> json_value option" where
  "json_object_get_value ob name =
     (case (ob, name) of
        (Some _, Some nm) \<Rightarrow> json_object_getn_value ob nm (strlen nm)
      | _ \<Rightarrow> None)"

definition json_object_get_string :: "json_object option \<Rightarrow> string option \<Rightarrow> string option" where
  "json_object_get_string ob name = json_value_get_string (json_object_get_value ob name)"

definition json_object_get_number :: "json_object option \<Rightarrow> string option \<Rightarrow> double" where
  "json_object_get_number ob name = json_value_get_number (json_object_get_value ob name)"

definition json_object_get_object :: "json_object option \<Rightarrow> string option \<Rightarrow> json_object option" where
  "json_object_get_object ob name = json_value_get_object (json_object_get_value ob name)"

definition json_object_get_array :: "json_object option \<Rightarrow> string option \<Rightarrow> json_array option" where
  "json_object_get_array ob name = json_value_get_array (json_object_get_value ob name)"

definition json_object_get_boolean :: "json_object option \<Rightarrow> string option \<Rightarrow> int" where
  "json_object_get_boolean ob name = json_value_get_boolean (json_object_get_value ob name)"

definition json_object_has_value :: "json_object option \<Rightarrow> string option \<Rightarrow> bool" where
  "json_object_has_value ob name = (json_object_get_value ob name \<noteq> None)"

definition json_object_has_value_of_type :: "json_object option \<Rightarrow> string option \<Rightarrow> json_value_type \<Rightarrow> bool" where
  "json_object_has_value_of_type ob name ty =
     (let val = json_object_get_value ob name in val \<noteq> None \<and> json_value_get_type val = ty)"

text \<open>\<open>json_object_dotget_value\<close>: the recursion is on the text after the dot.\<close>

function json_object_dotget_value :: "json_object option \<Rightarrow> string \<Rightarrow> json_value option" where
  "json_object_dotget_value ob name =
     (case strchr name CHR ''.'' of
        None \<Rightarrow> json_object_get_value ob (Some name)
      | Some k \<Rightarrow> json_object_dotget_value
                    (json_value_get_object (json_object_getn_value ob name k)) (drop (Suc k) name))"
  by pat_completeness auto
termination
  by (relation "measure (length \<circ> snd)")
    (auto dest!: strchr_SomeD(1) simp: cstr_def intro: diff_less)

declare json_object_dotget_value.simps [simp del]

definition json_object_dotget_string :: "json_object option \<Rightarrow> string \<Rightarrow> string option" where
  "json_object_dotget_string ob name = json_value_get_string (json_object_dotget_value ob name)"

definition json_object_dotget_number :: "json_object option \<Rightarrow> string \<Rightarrow> double" where
  "json_object_dotget_number ob name = json_value_get_number (json_object_dotget_value ob name)"

definition json_object_dotget_object :: "json_object option \<Rightarrow> string \<Rightarrow> json_object option" where
  "json_object_dotget_object ob name = json_value_get_object (json_object_dotget_value ob name)"

definition json_object_dotget_array :: "json_object option \<Rightarrow> string \<Rightarrow> json_array option" where
  "json_object_dotget_array ob name = json_value_get_array (json_object_dotget_value ob name)"

definition json_object_dotget_boolean :: "json_object option \<Rightarrow> string \<Rightarrow> int" where
  "json_object_dotget_boolean ob name = json_value_get_boolean (json_object_dotget_value ob name)"

definition json_object_dothas_value :: "json_object option \<Rightarrow> string \<Rightarrow> bool" where
  "json_object_dothas_value ob name = (json_object_dotget_value ob name \<noteq> None)"

definition json_object_dothas_value_of_type :: "json_object option \<Rightarrow> string \<Rightarrow> json_value_type \<Rightarrow> bool" where
  "json_object_dothas_value_of_type ob name ty =
     (let val = json_object_dotget_value ob name in val \<noteq> None \<and> json_value_get_type val = ty)"

definition json_array_get_count :: "json_array option \<Rightarrow> nat" where
  "json_array_get_count ar = (case ar of Some ar \<Rightarrow> length (items ar) | None \<Rightarrow> 0)"

definition json_array_get_value :: "json_array option \<Rightarrow> nat \<Rightarrow> json_value option" where
  "json_array_get_value ar index =
     (case ar of None \<Rightarrow> None
      | Some b \<Rightarrow> if json_array_get_count ar \<le> index then None else Some (items b ! index))"

definition json_array_get_string :: "json_array option \<Rightarrow> nat \<Rightarrow> string option" where
  "json_array_get_string ar index = json_value_get_string (json_array_get_value ar index)"

definition json_array_get_number :: "json_array option \<Rightarrow> nat \<Rightarrow> double" where
  "json_array_get_number ar index = json_value_get_number (json_array_get_value ar index)"

definition json_array_get_object :: "json_array option \<Rightarrow> nat \<Rightarrow> json_object option" where
  "json_array_get_object ar index = json_value_get_object (json_array_get_value ar index)"

definition json_array_get_array :: "json_array option \<Rightarrow> nat \<Rightarrow> json_array option" where
  "json_array_get_array ar index = json_value_get_array (json_array_get_value ar index)"

definition json_array_get_boolean :: "json_array option \<Rightarrow> nat \<Rightarrow> int" where
  "json_array_get_boolean ar index = json_value_get_boolean (json_array_get_value ar index)"

section \<open>Releasing\<close>

text \<open>\<open>parson_free\<close> of a pointer that is \<open>NULL\<close> or not.\<close>

definition free_ptr :: "bool \<Rightarrow> heap \<Rightarrow> heap" where
  "free_ptr nonnull h = (if nonnull then free_blocks 1 h else h)"

function (sequential) json_value_free :: "json_value \<Rightarrow> heap \<Rightarrow> heap"
  and json_object_free :: "json_object \<Rightarrow> heap \<Rightarrow> heap"
  and json_object_free_loop :: "(string \<times> json_value) list \<Rightarrow> heap \<Rightarrow> heap"
  and json_array_free :: "json_array \<Rightarrow> heap \<Rightarrow> heap"
  and json_array_free_loop :: "json_value list \<Rightarrow> heap \<Rightarrow> heap" where
  "json_value_free (JSONObject fs c) h = free_ptr True (json_object_free \<lparr>pairs = fs, obj_capacity = c\<rparr> h)"
| "json_value_free (JSONString s) h = free_ptr True (free_ptr True h)"
| "json_value_free (JSONArray xs c) h = free_ptr True (json_array_free \<lparr>items = xs, arr_capacity = c\<rparr> h)"
| "json_value_free v h = free_ptr True h"
| "json_object_free ob h =
     (let h1 = json_object_free_loop (pairs ob) h;
          h2 = free_ptr (obj_capacity ob \<noteq> 0) h1;
          h3 = free_ptr (obj_capacity ob \<noteq> 0) h2
      in free_ptr True h3)"
| "json_object_free_loop [] h = h"
| "json_object_free_loop ((k, v) # fs) h = json_object_free_loop fs (json_value_free v (free_ptr True h))"
| "json_array_free ar h =
     (let h1 = json_array_free_loop (items ar) h; h2 = free_ptr (arr_capacity ar \<noteq> 0) h1
      in free_ptr True h2)"
| "json_array_free_loop [] h = h"
| "json_array_free_loop (v # vs) h = json_array_free_loop vs (json_value_free v h)"
  by pat_completeness auto
termination
  by (relation "measure (case_sum (case_sum (\<lambda>(v, h). 2 * size v)
         (\<lambda>(ob, h). 1 + 2 * size_list (size_prod (\<lambda>_. 0) size) (pairs ob)))
         (case_sum (\<lambda>(fs, h). 2 * size_list (size_prod (\<lambda>_. 0) size) fs)
         (case_sum (\<lambda>(ar, h). 1 + 2 * size_list size (items ar)) (\<lambda>(vs, h). 2 * size_list size vs))))")
    auto

section \<open>Creating\<close>

definition json_object_init :: "heap \<Rightarrow> json_object option \<times> heap" where
  "json_object_init h = (case malloc h of
       (False, h1) \<Rightarrow> (None, h1)
     | (True, h1) \<Rightarrow> (Some \<lparr>pairs = [], obj_capacity = 0\<rparr>, h1))"

definition json_array_init :: "heap \<Rightarrow> json_array option \<times> heap" where
  "json_array_init h = (case malloc h of
       (False, h1) \<Rightarrow> (None, h1)
     | (True, h1) \<Rightarrow> (Some \<lparr>items = [], arr_capacity = 0\<rparr>, h1))"

definition json_value_init_string_no_copy :: "string \<Rightarrow> heap \<Rightarrow> json_value option \<times> heap" where
  "json_value_init_string_no_copy s h = (case malloc h of
       (False, h1) \<Rightarrow> (None, h1)
     | (True, h1) \<Rightarrow> (Some (JSONString s), h1))"

definition json_value_init_object :: "heap \<Rightarrow> json_value option \<times> heap" where
  "json_value_init_object h = (case malloc h of
       (False, h1) \<Rightarrow> (None, h1)
     | (True, h1) \<Rightarrow>
         (case json_object_init h1 of
            (None, h2) \<Rightarrow> (None, free_ptr True h2)
          | (Some ob, h2) \<Rightarrow> (Some (JSONObject_of ob), h2)))"

definition json_value_init_array :: "heap \<Rightarrow> json_value option \<times> heap" where
  "json_value_init_array h = (case malloc h of
       (False, h1) \<Rightarrow> (None, h1)
     | (True, h1) \<Rightarrow>
         (case json_array_init h1 of
            (None, h2) \<Rightarrow> (None, free_ptr True h2)
          | (Some ar, h2) \<Rightarrow> (Some (JSONArray_of ar), h2)))"

definition json_value_init_string :: "string option \<Rightarrow> heap \<Rightarrow> json_value option \<times> heap" where
  "json_value_init_string str h =
     (case str of
        None \<Rightarrow> (None, h)
      | Some s \<Rightarrow>
          let string_len = strlen s in
          if \<not> is_valid_utf8 s string_len then (None, h)
          else case parson_strndup s string_len h of
                 (None, h1) \<Rightarrow> (None, h1)
               | (Some copy, h1) \<Rightarrow>
                   (case json_value_init_string_no_copy copy h1 of
                      (None, h2) \<Rightarrow> (None, free_ptr True h2)
                    | (Some v, h2) \<Rightarrow> (Some v, h2)))"

definition json_value_init_number :: "double \<Rightarrow> heap \<Rightarrow> json_value option \<times> heap" where
  "json_value_init_number number h =
     (if times_zero_nonzero number then (None, h)
      else case malloc h of
             (False, h1) \<Rightarrow> (None, h1)
           | (True, h1) \<Rightarrow> (Some (JSONNumber number), h1))"

definition json_value_init_boolean :: "int \<Rightarrow> heap \<Rightarrow> json_value option \<times> heap" where
  "json_value_init_boolean boolean h = (case malloc h of
       (False, h1) \<Rightarrow> (None, h1)
     | (True, h1) \<Rightarrow> (Some (JSONBoolean (boolean \<noteq> 0)), h1))"

definition json_value_init_null :: "heap \<Rightarrow> json_value option \<times> heap" where
  "json_value_init_null h = (case malloc h of
       (False, h1) \<Rightarrow> (None, h1)
     | (True, h1) \<Rightarrow> (Some JSONNull, h1))"

section \<open>Objects\<close>

text \<open>\<open>json_object_resize\<close>; its first test, that only one of the two arrays is \<open>NULL\<close>, cannot
  hold of a \<open>json_object\<close>.\<close>

definition json_object_resize :: "json_object \<Rightarrow> nat \<Rightarrow> heap \<Rightarrow> json_status \<times> json_object \<times> heap" where
  "json_object_resize ob new_capacity h =
     (if new_capacity = 0 then (JSONFailure, ob, h)
      else case malloc h of
             (False, h1) \<Rightarrow> (JSONFailure, ob, h1)
           | (True, h1) \<Rightarrow>
               (case malloc h1 of
                  (False, h2) \<Rightarrow> (JSONFailure, ob, free_ptr True h2)
                | (True, h2) \<Rightarrow>
                    (JSONSuccess, ob\<lparr>obj_capacity := new_capacity\<rparr>,
                     free_ptr (obj_capacity ob \<noteq> 0) (free_ptr (obj_capacity ob \<noteq> 0) h2))))"

definition json_object_addn ::
  "json_object option \<Rightarrow> string option \<Rightarrow> nat \<Rightarrow> json_value option \<Rightarrow> heap \<Rightarrow> json_status \<times> json_object option \<times> heap" where
  "json_object_addn obj name name_len value h =
     (case (obj, name, value) of
        (Some ob, Some nm, Some v) \<Rightarrow>
          if json_object_getn_value obj nm name_len \<noteq> None then (JSONFailure, obj, h)
          else (case (if obj_capacity ob \<le> length (pairs ob)
                      then json_object_resize ob (max (obj_capacity ob * 2) STARTING_CAPACITY) h
                      else (JSONSuccess, ob, h)) of
                  (JSONFailure, ob1, h1) \<Rightarrow> (JSONFailure, Some ob1, h1)
                | (JSONSuccess, ob1, h1) \<Rightarrow>
                    (case parson_strndup nm name_len h1 of
                       (None, h2) \<Rightarrow> (JSONFailure, Some ob1, h2)
                     | (Some copy, h2) \<Rightarrow> (JSONSuccess, Some (ob1\<lparr>pairs := pairs ob1 @ [(copy, v)]\<rparr>), h2)))
      | _ \<Rightarrow> (JSONFailure, obj, h))"

definition json_object_add ::
  "json_object option \<Rightarrow> string option \<Rightarrow> json_value option \<Rightarrow> heap \<Rightarrow> json_status \<times> json_object option \<times> heap" where
  "json_object_add obj name value h =
     (case name of
        None \<Rightarrow> (JSONFailure, obj, h)
      | Some nm \<Rightarrow> json_object_addn obj name (strlen nm) value h)"

text \<open>The index of the first entry with the given name (\<open>strcmp\<close>).\<close>

fun find_name :: "(string \<times> json_value) list \<Rightarrow> string \<Rightarrow> nat option" where
  "find_name [] name = None"
| "find_name ((k, v) # fs) name = (if streq k name then Some 0 else map_option Suc (find_name fs name))"

definition json_object_remove_internal ::
  "json_object option \<Rightarrow> string option \<Rightarrow> bool \<Rightarrow> heap \<Rightarrow> json_status \<times> json_object option \<times> heap" where
  "json_object_remove_internal obj name free_value h =
     (case (obj, name) of
        (Some ob, Some nm) \<Rightarrow>
          if json_object_get_value obj name = None then (JSONFailure, obj, h)
          else let last_item_index = json_object_get_count obj - 1 in
               (case find_name (pairs ob) nm of
                  None \<Rightarrow> (JSONFailure, obj, h)
                | Some i \<Rightarrow>
                    let h1 = free_ptr True h;
                        h2 = (if free_value then json_value_free (snd (pairs ob ! i)) h1 else h1);
                        ps = (if i \<noteq> last_item_index then (pairs ob)[i := pairs ob ! last_item_index] else pairs ob)
                    in (JSONSuccess, Some (ob\<lparr>pairs := take (length ps - 1) ps\<rparr>), h2))
      | _ \<Rightarrow> (JSONFailure, obj, h))"

text \<open>Writing back a container that was changed through a pointer into the first entry
  \<open>json_object_getn_value\<close> finds.\<close>

fun setn_loop :: "(string \<times> json_value) list \<Rightarrow> string \<Rightarrow> nat \<Rightarrow> json_value \<Rightarrow> (string \<times> json_value) list" where
  "setn_loop [] name name_len w = []"
| "setn_loop ((k, v) # fs) name name_len w =
     (if strlen k = name_len \<and> strneq k name name_len then (k, w) # fs
      else (k, v) # setn_loop fs name name_len w)"

definition write_back :: "json_object option \<Rightarrow> string \<Rightarrow> nat \<Rightarrow> json_object option \<Rightarrow> json_object option" where
  "write_back obj name name_len inner =
     (case (obj, inner) of
        (Some ob, Some ob') \<Rightarrow> Some (ob\<lparr>pairs := setn_loop (pairs ob) name name_len (JSONObject_of ob')\<rparr>)
      | _ \<Rightarrow> obj)"

function json_object_dotremove_internal ::
  "json_object option \<Rightarrow> string \<Rightarrow> bool \<Rightarrow> heap \<Rightarrow> json_status \<times> json_object option \<times> heap" where
  "json_object_dotremove_internal obj name free_value h =
     (case strchr name CHR ''.'' of
        None \<Rightarrow> json_object_remove_internal obj (Some name) free_value h
      | Some k \<Rightarrow>
          let temp_value = json_object_getn_value obj name k in
          if json_value_get_type temp_value \<noteq> JSONObject_t then (JSONFailure, obj, h)
          else let temp_object = json_value_get_object temp_value in
               (case json_object_dotremove_internal temp_object (drop (Suc k) name) free_value h of
                  (st, temp_object', h1) \<Rightarrow> (st, write_back obj name k temp_object', h1)))"
  by pat_completeness auto
termination
  by (relation "measure (\<lambda>(ob, name, fv, h). length name)")
    (auto dest!: strchr_SomeD(1) simp: cstr_def intro: diff_less)

declare json_object_dotremove_internal.simps [simp del]

definition json_object_remove ::
  "json_object option \<Rightarrow> string option \<Rightarrow> heap \<Rightarrow> json_status \<times> json_object option \<times> heap" where
  "json_object_remove obj name h = json_object_remove_internal obj name True h"

definition json_object_dotremove ::
  "json_object option \<Rightarrow> string \<Rightarrow> heap \<Rightarrow> json_status \<times> json_object option \<times> heap" where
  "json_object_dotremove obj name h = json_object_dotremove_internal obj name True h"

definition json_object_clear :: "json_object option \<Rightarrow> heap \<Rightarrow> json_status \<times> json_object option \<times> heap" where
  "json_object_clear obj h =
     (case obj of
        None \<Rightarrow> (JSONFailure, obj, h)
      | Some ob \<Rightarrow> (JSONSuccess, Some (ob\<lparr>pairs := []\<rparr>), json_object_free_loop (pairs ob) h))"

definition json_object_set_value ::
  "json_object option \<Rightarrow> string option \<Rightarrow> json_ref \<Rightarrow> heap \<Rightarrow> json_status \<times> json_object option \<times> heap" where
  "json_object_set_value obj name value h =
     (case (obj, name, value) of
        (Some ob, Some nm, Detached v) \<Rightarrow>
          (case json_object_get_value obj name of
             Some old_value \<Rightarrow>
               let h1 = json_value_free old_value h in
               (case find_name (pairs ob) nm of
                  Some i \<Rightarrow> (JSONSuccess, Some (ob\<lparr>pairs := (pairs ob)[i := (fst (pairs ob ! i), v)]\<rparr>), h1)
                | None \<Rightarrow> json_object_add obj name (Some v) h1)
           | None \<Rightarrow> json_object_add obj name (Some v) h)
      | _ \<Rightarrow> (JSONFailure, obj, h))"

text \<open>A freshly created value has no parent.\<close>

definition fresh_ref :: "json_value option \<Rightarrow> json_ref" where
  "fresh_ref v = (case v of None \<Rightarrow> NullRef | Some v \<Rightarrow> Detached v)"

definition json_object_set_string ::
  "json_object option \<Rightarrow> string option \<Rightarrow> string option \<Rightarrow> heap \<Rightarrow> json_status \<times> json_object option \<times> heap" where
  "json_object_set_string obj name str h =
     (case json_value_init_string str h of (v, h1) \<Rightarrow> json_object_set_value obj name (fresh_ref v) h1)"

definition json_object_set_number ::
  "json_object option \<Rightarrow> string option \<Rightarrow> double \<Rightarrow> heap \<Rightarrow> json_status \<times> json_object option \<times> heap" where
  "json_object_set_number obj name number h =
     (case json_value_init_number number h of (v, h1) \<Rightarrow> json_object_set_value obj name (fresh_ref v) h1)"

definition json_object_set_boolean ::
  "json_object option \<Rightarrow> string option \<Rightarrow> int \<Rightarrow> heap \<Rightarrow> json_status \<times> json_object option \<times> heap" where
  "json_object_set_boolean obj name boolean h =
     (case json_value_init_boolean boolean h of (v, h1) \<Rightarrow> json_object_set_value obj name (fresh_ref v) h1)"

definition json_object_set_null ::
  "json_object option \<Rightarrow> string option \<Rightarrow> heap \<Rightarrow> json_status \<times> json_object option \<times> heap" where
  "json_object_set_null obj name h =
     (case json_value_init_null h of (v, h1) \<Rightarrow> json_object_set_value obj name (fresh_ref v) h1)"

text \<open>\<open>json_value_free\<close> through a pointer that may be \<open>NULL\<close>.\<close>

definition free_value_ptr :: "json_value option \<Rightarrow> heap \<Rightarrow> heap" where
  "free_value_ptr p h = (case p of None \<Rightarrow> h | Some v \<Rightarrow> json_value_free v h)"

function json_object_dotset_value ::
  "json_object option \<Rightarrow> string option \<Rightarrow> json_ref \<Rightarrow> heap \<Rightarrow> json_status \<times> json_object option \<times> heap" where
  "json_object_dotset_value obj name value h =
     (if obj = None \<or> value = NullRef then (JSONFailure, obj, h)
      else case name of
        None \<Rightarrow> (JSONFailure, obj, h)
      | Some nm \<Rightarrow>
          (case strchr nm CHR ''.'' of
             None \<Rightarrow> json_object_set_value obj name value h
           | Some name_len \<Rightarrow>
               (case json_object_getn_value obj nm name_len of
                  Some temp_value \<Rightarrow>
                    if json_value_get_type (Some temp_value) \<noteq> JSONObject_t then (JSONFailure, obj, h)
                    else (case json_object_dotset_value (json_value_get_object (Some temp_value))
                                 (Some (drop (Suc name_len) nm)) value h of
                            (st, temp_object, h1) \<Rightarrow> (st, write_back obj nm name_len temp_object, h1))
                | None \<Rightarrow>
                    (case json_value_init_object h of
                       (None, h1) \<Rightarrow> (JSONFailure, obj, h1)
                     | (Some new_value, h1) \<Rightarrow>
                         (case json_object_dotset_value (json_value_get_object (Some new_value))
                                 (Some (drop (Suc name_len) nm)) value h1 of
                            (JSONFailure, new_object, h2) \<Rightarrow>
                              (JSONFailure, obj, free_value_ptr (map_option JSONObject_of new_object) h2)
                          | (JSONSuccess, new_object, h2) \<Rightarrow>
                              (case json_object_addn obj name name_len (map_option JSONObject_of new_object) h2 of
                                 (JSONSuccess, obj', h3) \<Rightarrow> (JSONSuccess, obj', h3)
                               | (JSONFailure, obj', h3) \<Rightarrow>
                                   (case json_object_dotremove_internal new_object (drop (Suc name_len) nm) False h3 of
                                      (_, new_object', h4) \<Rightarrow>
                                        (JSONFailure, obj', free_value_ptr (map_option JSONObject_of new_object') h4)))))))) "
  by pat_completeness auto
termination
  by (relation "measure (\<lambda>(ob, name, v, h). case name of None \<Rightarrow> 0 | Some nm \<Rightarrow> length nm)")
    (auto dest!: strchr_SomeD(1) simp: cstr_def intro: diff_less)

declare json_object_dotset_value.simps [simp del]

text \<open>The shared tail of \<open>json_object_dotset_string\<close> and its siblings: a value that could not
  be set is released.\<close>

definition dotset_fresh ::
  "json_object option \<Rightarrow> string option \<Rightarrow> json_value option \<times> heap \<Rightarrow> json_status \<times> json_object option \<times> heap" where
  "dotset_fresh obj name vh =
     (case vh of
        (None, h1) \<Rightarrow> (JSONFailure, obj, h1)
      | (Some v, h1) \<Rightarrow>
          (case json_object_dotset_value obj name (Detached v) h1 of
             (JSONFailure, obj', h2) \<Rightarrow> (JSONFailure, obj', json_value_free v h2)
           | (JSONSuccess, obj', h2) \<Rightarrow> (JSONSuccess, obj', h2)))"

definition json_object_dotset_string ::
  "json_object option \<Rightarrow> string option \<Rightarrow> string option \<Rightarrow> heap \<Rightarrow> json_status \<times> json_object option \<times> heap" where
  "json_object_dotset_string obj name str h = dotset_fresh obj name (json_value_init_string str h)"

definition json_object_dotset_number ::
  "json_object option \<Rightarrow> string option \<Rightarrow> double \<Rightarrow> heap \<Rightarrow> json_status \<times> json_object option \<times> heap" where
  "json_object_dotset_number obj name number h = dotset_fresh obj name (json_value_init_number number h)"

definition json_object_dotset_boolean ::
  "json_object option \<Rightarrow> string option \<Rightarrow> int \<Rightarrow> heap \<Rightarrow> json_status \<times> json_object option \<times> heap" where
  "json_object_dotset_boolean obj name boolean h = dotset_fresh obj name (json_value_init_boolean boolean h)"

definition json_object_dotset_null ::
  "json_object option \<Rightarrow> string option \<Rightarrow> heap \<Rightarrow> json_status \<times> json_object option \<times> heap" where
  "json_object_dotset_null obj name h = dotset_fresh obj name (json_value_init_null h)"

section \<open>Arrays\<close>

definition json_array_resize :: "json_array \<Rightarrow> nat \<Rightarrow> heap \<Rightarrow> json_status \<times> json_array \<times> heap" where
  "json_array_resize ar new_capacity h =
     (if new_capacity = 0 then (JSONFailure, ar, h)
      else case malloc h of
             (False, h1) \<Rightarrow> (JSONFailure, ar, h1)
           | (True, h1) \<Rightarrow> (JSONSuccess, ar\<lparr>arr_capacity := new_capacity\<rparr>, free_ptr (arr_capacity ar \<noteq> 0) h1))"

definition json_array_add :: "json_array \<Rightarrow> json_value \<Rightarrow> heap \<Rightarrow> json_status \<times> json_array \<times> heap" where
  "json_array_add ar v h =
     (case (if arr_capacity ar \<le> length (items ar)
            then json_array_resize ar (max (arr_capacity ar * 2) STARTING_CAPACITY) h
            else (JSONSuccess, ar, h)) of
        (JSONFailure, ar1, h1) \<Rightarrow> (JSONFailure, ar1, h1)
      | (JSONSuccess, ar1, h1) \<Rightarrow> (JSONSuccess, ar1\<lparr>items := items ar1 @ [v]\<rparr>, h1))"

definition json_array_remove :: "json_array option \<Rightarrow> nat \<Rightarrow> heap \<Rightarrow> json_status \<times> json_array option \<times> heap" where
  "json_array_remove arr ix h =
     (case arr of
        None \<Rightarrow> (JSONFailure, arr, h)
      | Some ar \<Rightarrow>
          if json_array_get_count arr \<le> ix then (JSONFailure, arr, h)
          else (JSONSuccess, Some (ar\<lparr>items := take ix (items ar) @ drop (Suc ix) (items ar)\<rparr>),
                free_value_ptr (json_array_get_value arr ix) h))"

definition json_array_replace_value ::
  "json_array option \<Rightarrow> nat \<Rightarrow> json_ref \<Rightarrow> heap \<Rightarrow> json_status \<times> json_array option \<times> heap" where
  "json_array_replace_value arr ix value h =
     (case (arr, value) of
        (Some ar, Detached v) \<Rightarrow>
          if json_array_get_count arr \<le> ix then (JSONFailure, arr, h)
          else (JSONSuccess, Some (ar\<lparr>items := (items ar)[ix := v]\<rparr>),
                free_value_ptr (json_array_get_value arr ix) h)
      | _ \<Rightarrow> (JSONFailure, arr, h))"

definition json_array_append_value ::
  "json_array option \<Rightarrow> json_ref \<Rightarrow> heap \<Rightarrow> json_status \<times> json_array option \<times> heap" where
  "json_array_append_value arr value h =
     (case (arr, value) of
        (Some ar, Detached v) \<Rightarrow> (case json_array_add ar v h of (st, ar', h1) \<Rightarrow> (st, Some ar', h1))
      | _ \<Rightarrow> (JSONFailure, arr, h))"

definition json_array_clear :: "json_array option \<Rightarrow> heap \<Rightarrow> json_status \<times> json_array option \<times> heap" where
  "json_array_clear arr h =
     (case arr of
        None \<Rightarrow> (JSONFailure, arr, h)
      | Some ar \<Rightarrow> (JSONSuccess, Some (ar\<lparr>items := []\<rparr>), json_array_free_loop (items ar) h))"

text \<open>The shared tails of the \<open>json_array_replace_\<close> and \<open>json_array_append_\<close> families.\<close>

definition array_fresh ::
  "(json_ref \<Rightarrow> heap \<Rightarrow> json_status \<times> json_array option \<times> heap) \<Rightarrow> json_array option \<Rightarrow>
     json_value option \<times> heap \<Rightarrow> json_status \<times> json_array option \<times> heap" where
  "array_fresh op arr vh =
     (case vh of
        (None, h1) \<Rightarrow> (JSONFailure, arr, h1)
      | (Some v, h1) \<Rightarrow>
          (case op (Detached v) h1 of
             (JSONFailure, arr', h2) \<Rightarrow> (JSONFailure, arr', json_value_free v h2)
           | (JSONSuccess, arr', h2) \<Rightarrow> (JSONSuccess, arr', h2)))"

definition json_array_replace_string ::
  "json_array option \<Rightarrow> nat \<Rightarrow> string option \<Rightarrow> heap \<Rightarrow> json_status \<times> json_array option \<times> heap" where
  "json_array_replace_string arr i str h =
     array_fresh (json_array_replace_value arr i) arr (json_value_init_string str h)"

definition json_array_replace_number ::
  "json_array option \<Rightarrow> nat \<Rightarrow> double \<Rightarrow> heap \<Rightarrow> json_status \<times> json_array option \<times> heap" where
  "json_array_replace_number arr i number h =
     array_fresh (json_array_replace_value arr i) arr (json_value_init_number number h)"

definition json_array_replace_boolean ::
  "json_array option \<Rightarrow> nat \<Rightarrow> int \<Rightarrow> heap \<Rightarrow> json_status \<times> json_array option \<times> heap" where
  "json_array_replace_boolean arr i boolean h =
     array_fresh (json_array_replace_value arr i) arr (json_value_init_boolean boolean h)"

definition json_array_replace_null ::
  "json_array option \<Rightarrow> nat \<Rightarrow> heap \<Rightarrow> json_status \<times> json_array option \<times> heap" where
  "json_array_replace_null arr i h =
     array_fresh (json_array_replace_value arr i) arr (json_value_init_null h)"

definition json_array_append_string ::
  "json_array option \<Rightarrow> string option \<Rightarrow> heap \<Rightarrow> json_status \<times> json_array option \<times> heap" where
  "json_array_append_string arr str h =
     array_fresh (json_array_append_value arr) arr (json_value_init_string str h)"

definition json_array_append_number ::
  "json_array option \<Rightarrow> double \<Rightarrow> heap \<Rightarrow> json_status \<times> json_array option \<times> heap" where
  "json_array_append_number arr number h =
     array_fresh (json_array_append_value arr) arr (json_value_init_number number h)"

definition json_array_append_boolean ::
  "json_array option \<Rightarrow> int \<Rightarrow> heap \<Rightarrow> json_status \<times> json_array option \<times> heap" where
  "json_array_append_boolean arr boolean h =
     array_fresh (json_array_append_value arr) arr (json_value_init_boolean boolean h)"

definition json_array_append_null ::
  "json_array option \<Rightarrow> heap \<Rightarrow> json_status \<times> json_array option \<times> heap" where
  "json_array_append_null arr h =
     array_fresh (json_array_append_value arr) arr (json_value_init_null h)"

end
