(* ===== verification/Parson_Laws.thy ===== *)
theory Parson_Laws
  imports Parson_Value
begin

text \<open>
  The laws of the value operations of \<^verbatim>\<open>common/json/parson.c\<close>: ownership (every operation
  keeps the count of live heap blocks equal to what the values own), the well-formedness
  invariant (names distinct, capacities respected, numbers finite, strings without an inner
  NUL) and the object operations as operations on a finite map.
\<close>

section \<open>Ownership\<close>

text \<open>The number of heap blocks a value owns.\<close>

fun blocks :: "json_value \<Rightarrow> int" where
  "blocks (JSONObject fs c) = 2 + (if c = 0 then 0 else 2) + (\<Sum>f\<leftarrow>fs. 1 + blocks (snd f))"
| "blocks (JSONArray xs c) = 2 + (if c = 0 then 0 else 1) + (\<Sum>x\<leftarrow>xs. blocks x)"
| "blocks (JSONString s) = 2"
| "blocks _ = 1"

abbreviation oblocks :: "json_object \<Rightarrow> int" where
  "oblocks ob \<equiv> blocks (JSONObject_of ob)"

abbreviation ablocks :: "json_array \<Rightarrow> int" where
  "ablocks ar \<equiv> blocks (JSONArray_of ar)"

lemma free_ptr_blocks [alloc_simps]: "free_ptr b h = free_blocks (if b then 1 else 0) h"
  by (simp add: free_ptr_def free_blocks_def)

lemma free_blocks_blocks [simp]: "free_blocks a (free_blocks b h) = free_blocks (a + b) h"
  by (simp add: free_blocks_def)

lemma free_blocks_0 [simp]: "free_blocks 0 h = h"
  by (simp add: free_blocks_def)

text \<open>\<open>json_value_free\<close> releases exactly the blocks a value owns.\<close>

lemma json_value_free_blocks:
  "json_value_free v h = free_blocks (blocks v) h"
  "json_object_free ob h = free_blocks (oblocks ob - 1) h"
  "json_object_free_loop fs h = free_blocks (\<Sum>f\<leftarrow>fs. 1 + blocks (snd f)) h"
  "json_array_free ar h = free_blocks (ablocks ar - 1) h"
  "json_array_free_loop xs h = free_blocks (\<Sum>x\<leftarrow>xs. blocks x) h"
  by (induction v h and ob h and fs h and ar h and xs h
      rule: json_value_free_json_object_free_json_object_free_loop_json_array_free_json_array_free_loop.induct)
    (simp_all add: free_ptr_blocks Let_def algebra_simps)

lemma live_json_value_free [simp, alloc_simps]:
  "live (json_value_free v h) = live h - blocks v"
  "live (json_object_free_loop fs h) = live h - (\<Sum>f\<leftarrow>fs. 1 + blocks (snd f))"
  "live (json_array_free_loop xs h) = live h - (\<Sum>x\<leftarrow>xs. blocks x)"
  "live (free_ptr b h) = live h - (if b then 1 else 0)"
  "live (free_value_ptr p h) = live h - (case p of None \<Rightarrow> 0 | Some v \<Rightarrow> blocks v)"
  by (simp_all add: json_value_free_blocks free_ptr_blocks free_value_ptr_def split: option.split)

lemma answers_json_value_free [simp, alloc_simps]:
  "answers (json_value_free v h) = answers h"
  "answers (json_object_free_loop fs h) = answers h"
  "answers (json_array_free_loop xs h) = answers h"
  "answers (free_ptr b h) = answers h"
  "answers (free_value_ptr p h) = answers h"
  by (simp_all add: json_value_free_blocks free_ptr_blocks free_value_ptr_def split: option.split)

lemma blocks_pos: "0 < blocks v"
proof (induction v)
  case (JSONObject fs c)
  have "0 \<le> (\<Sum>f\<leftarrow>fs. 1 + blocks (snd f))"
    using JSONObject by (intro sum_list_nonneg) (force simp: snds.simps)
  then show ?case by simp
next
  case (JSONArray xs c)
  have "0 \<le> (\<Sum>x\<leftarrow>xs. blocks x)" using JSONArray by (intro sum_list_nonneg) force
  then show ?case by simp
qed simp_all

text \<open>What a creating operation owes: the blocks of the value it returns.\<close>

definition balanced_new :: "heap \<Rightarrow> json_value option \<times> heap \<Rightarrow> bool" where
  "balanced_new h r = (live (snd r) = live h + (case fst r of None \<Rightarrow> 0 | Some v \<Rightarrow> blocks v))"

lemma malloc_cases:
  obtains h1 where "malloc h = (True, h1)" "live h1 = live h + 1"
  | h1 where "malloc h = (False, h1)" "live h1 = live h"
proof -
  obtain ok h1 where m: "malloc h = (ok, h1)" by fastforce
  show thesis using that malloc_live [OF m] m by (cases ok) auto
qed

lemma init_balanced:
  "balanced_new h (json_value_init_string_no_copy s h) \<longleftrightarrow> fst (json_value_init_string_no_copy s h) = None"
  "balanced_new h (json_value_init_object h)" "balanced_new h (json_value_init_array h)"
  "balanced_new h (json_value_init_string str h)" "balanced_new h (json_value_init_number d h)"
  "balanced_new h (json_value_init_boolean b h)" "balanced_new h (json_value_init_null h)"
proof -
  note defs = balanced_new_def json_value_init_string_no_copy_def json_value_init_object_def
    json_value_init_array_def json_value_init_string_def json_value_init_number_def json_value_init_boolean_def
    json_value_init_null_def json_object_init_def json_array_init_def parson_strndup_def Let_def
  show "balanced_new h (json_value_init_string_no_copy s h) \<longleftrightarrow> fst (json_value_init_string_no_copy s h) = None"
    by (cases rule: malloc_cases [of h]) (auto simp: defs)
  show "balanced_new h (json_value_init_object h)" "balanced_new h (json_value_init_array h)"
    "balanced_new h (json_value_init_string str h)" "balanced_new h (json_value_init_number d h)"
    "balanced_new h (json_value_init_boolean b h)" "balanced_new h (json_value_init_null h)"
    by (auto simp: defs dest!: malloc_live split: prod.splits bool.splits option.splits)
qed

section \<open>Well-formed values\<close>

fun wf_json :: "json_value \<Rightarrow> bool" where
  "wf_json (JSONObject fs c) =
     (distinct (map fst fs) \<and> length fs \<le> c \<and> list_all (\<lambda>f. nul_free (fst f) \<and> wf_json (snd f)) fs)"
| "wf_json (JSONArray xs c) = (length xs \<le> c \<and> list_all wf_json xs)"
| "wf_json (JSONString s) = nul_free s"
| "wf_json (JSONNumber d) = (canonical d \<and> \<not> times_zero_nonzero d)"
| "wf_json _ = True"

abbreviation wf_object :: "json_object \<Rightarrow> bool" where
  "wf_object ob \<equiv> wf_json (JSONObject_of ob)"

abbreviation wf_array :: "json_array \<Rightarrow> bool" where
  "wf_array ar \<equiv> wf_json (JSONArray_of ar)"

text \<open>The map an object stores.\<close>

definition obj_map :: "json_object \<Rightarrow> string \<rightharpoonup> json_value" where
  "obj_map ob = map_of (pairs ob)"

abbreviation names_ok :: "(string \<times> json_value) list \<Rightarrow> bool" where
  "names_ok fs \<equiv> list_all (\<lambda>f. nul_free (fst f)) fs"

lemma wf_names_ok: "wf_object ob \<Longrightarrow> names_ok (pairs ob)"
  by (auto simp: list_all_iff)

lemma getn_loop_map_of:
  assumes "names_ok fs" "len \<le> strlen name"
  shows "getn_loop fs name len = map_of fs (take len (cstr name))"
  using assms(1)
proof (induction fs)
  case (Cons f fs)
  obtain k v where f: "f = (k, v)" by fastforce
  have k: "nul_free k" using Cons.prems f by simp
  have "length (take len (cstr name)) = len" using assms(2) by (simp add: strlen_def)
  then have "k = take len (cstr name) \<longleftrightarrow> strlen k = len \<and> strneq k name len"
    using k by (auto simp: strneq_def)
  then show ?case using Cons f by auto
qed simp

lemma find_name_Some:
  assumes "find_name fs name = Some i" "names_ok fs"
  shows "i < length fs" "fst (fs ! i) = cstr name" "cstr name \<notin> fst ` set (take i fs)"
proof -
  have "i < length fs \<and> fst (fs ! i) = cstr name \<and> cstr name \<notin> fst ` set (take i fs)"
    using assms
  proof (induction fs arbitrary: i)
    case (Cons f fs)
    then show ?case by (cases f) (auto simp: streq_def dest: in_fst_image split: if_splits)
  qed simp
  then show "i < length fs" "fst (fs ! i) = cstr name" "cstr name \<notin> fst ` set (take i fs)" by auto
qed

lemma find_name_None: "find_name fs name = None \<Longrightarrow> names_ok fs \<Longrightarrow> map_of fs (cstr name) = None"
  by (induction fs) (auto simp: streq_def split: if_splits)

lemma get_value_map:
  assumes "wf_object ob"
  shows "json_object_get_value (Some ob) (Some name) = obj_map ob (cstr name)"
    and "len \<le> strlen name \<Longrightarrow> json_object_getn_value (Some ob) name len = obj_map ob (take len (cstr name))"
  using getn_loop_map_of [OF wf_names_ok [OF assms], of "strlen name" name]
    getn_loop_map_of [OF wf_names_ok [OF assms], of len name]
  by (simp_all add: json_object_get_value_def json_object_getn_value_def obj_map_def strlen_def)

section \<open>Adding\<close>

lemma json_object_resize_cases:
  assumes "json_object_resize ob n h = (st, ob', h')"
  shows "pairs ob' = pairs ob" "live h' = live h + oblocks ob' - oblocks ob"
    "st = JSONSuccess \<Longrightarrow> obj_capacity ob' = n" "st = JSONFailure \<Longrightarrow> ob' = ob"
proof -
  obtain ok1 h1 where m1: "malloc h = (ok1, h1)" by fastforce
  obtain ok2 h2 where m2: "malloc h1 = (ok2, h2)" by fastforce
  show "pairs ob' = pairs ob" "live h' = live h + oblocks ob' - oblocks ob"
    "st = JSONSuccess \<Longrightarrow> obj_capacity ob' = n" "st = JSONFailure \<Longrightarrow> ob' = ob"
    using assms malloc_live [OF m1] malloc_live [OF m2]
    by (auto simp: json_object_resize_def m1 m2 split: if_splits bool.splits)
qed

lemma object_grow_cases:
  assumes r: "(if obj_capacity ob \<le> length (pairs ob)
      then json_object_resize ob (max (obj_capacity ob * 2) STARTING_CAPACITY) h
      else (JSONSuccess, ob, h)) = (st1, ob1, h1)" and cap: "length (pairs ob) \<le> obj_capacity ob"
  shows "pairs ob1 = pairs ob" "live h1 = live h + oblocks ob1 - oblocks ob" "length (pairs ob) \<le> obj_capacity ob1"
    "st1 = JSONSuccess \<Longrightarrow> length (pairs ob) < obj_capacity ob1"
proof -
  let ?n = "max (obj_capacity ob * 2) STARTING_CAPACITY"
  have "pairs ob1 = pairs ob \<and> live h1 = live h + oblocks ob1 - oblocks ob \<and> length (pairs ob) \<le> obj_capacity ob1 \<and>
      (st1 = JSONSuccess \<longrightarrow> length (pairs ob) < obj_capacity ob1)"
  proof (cases "obj_capacity ob \<le> length (pairs ob)")
    case True
    then have "json_object_resize ob ?n h = (st1, ob1, h1)" using r by simp
    note rc = json_object_resize_cases [OF this]
    have "length (pairs ob) < ?n" using cap True by (auto simp: STARTING_CAPACITY_def)
    then show ?thesis using rc(1,2) rc(3,4) cap by (cases st1) (metis less_imp_le, metis json_status.distinct(1))
  next
    case False
    then show ?thesis using r cap by auto
  qed
  then show "pairs ob1 = pairs ob" "live h1 = live h + oblocks ob1 - oblocks ob" "length (pairs ob) \<le> obj_capacity ob1"
    "st1 = JSONSuccess \<Longrightarrow> length (pairs ob) < obj_capacity ob1"
    by blast+
qed

text \<open>The outcome of \<open>json_object_addn\<close>: the pair is appended, or nothing but the capacity
  changed.\<close>

lemma json_object_addn_cases:
  assumes add: "json_object_addn (Some ob) (Some nm) len (Some v) h = (st, obj', h')"
    and wf: "wf_object ob" and len: "len \<le> strlen nm"
  obtains ob' where "obj' = Some ob'" "length (pairs ob') \<le> obj_capacity ob'"
    "st = JSONSuccess \<Longrightarrow> pairs ob' = pairs ob @ [(take len (cstr nm), v)] \<and> obj_map ob (take len (cstr nm)) = None"
    "st = JSONFailure \<Longrightarrow> pairs ob' = pairs ob"
    "live h' = live h + oblocks ob' - oblocks ob - (if st = JSONSuccess then blocks v else 0)"
proof (cases "json_object_getn_value (Some ob) nm len")
  case (Some w)
  then show thesis using add wf by (intro that [of ob]) (auto simp: json_object_addn_def)
next
  case None
  obtain st1 ob1 h1 where r: "(if obj_capacity ob \<le> length (pairs ob)
      then json_object_resize ob (max (obj_capacity ob * 2) STARTING_CAPACITY) h
      else (JSONSuccess, ob, h)) = (st1, ob1, h1)"
    by (metis prod_cases3)
  have "length (pairs ob) \<le> obj_capacity ob" using wf by simp
  note r1 = object_grow_cases(1-3) [OF r this] and r2 = object_grow_cases(4) [OF r this]
  have map: "obj_map ob (take len (cstr nm)) = None"
    using None get_value_map(2) [OF wf len] by simp
  show thesis
  proof (cases st1)
    case JSONFailure
    then show thesis using add None r r1 by (intro that [of ob1]) (auto simp: json_object_addn_def)
  next
    case JSONSuccess
    note r2 [OF this]
    show thesis
    proof (cases rule: malloc_cases [of h1])
      case (1 h2)
      then show thesis
        using add None r r1 JSONSuccess map \<open>length (pairs ob) < obj_capacity ob1\<close>
        by (intro that [of "ob1\<lparr>pairs := pairs ob1 @ [(take len (cstr nm), v)]\<rparr>"])
          (auto simp: json_object_addn_def parson_strndup_def cstr_take_prefix)
    next
      case (2 h2)
      then show thesis
        using add None r r1 JSONSuccess
        by (intro that [of ob1]) (auto simp: json_object_addn_def parson_strndup_def)
    qed
  qed
qed

lemma wf_object_append:
  assumes "wf_object ob" "pairs ob' = pairs ob @ [(k, v)]" "obj_map ob k = None" "nul_free k" "wf_json v"
    "length (pairs ob') \<le> obj_capacity ob'"
  shows "wf_object ob'" "obj_map ob' = (obj_map ob)(k \<mapsto> v)"
proof -
  have k: "k \<notin> fst ` set (pairs ob)" using assms(3) by (simp add: obj_map_def map_of_eq_None_iff)
  then show "wf_object ob'" using assms by auto
  have "obj_map ob' = (map_of [(k, v)]) ++ map_of (pairs ob)" using assms(2) by (simp add: obj_map_def)
  then show "obj_map ob' = (obj_map ob)(k \<mapsto> v)"
    using assms(3) by (auto simp: obj_map_def fun_eq_iff map_add_def split: option.splits)
qed

lemma wf_object_same_pairs:
  "wf_object ob \<Longrightarrow> pairs ob' = pairs ob \<Longrightarrow> length (pairs ob') \<le> obj_capacity ob' \<Longrightarrow> wf_object ob'"
  "pairs ob' = pairs ob \<Longrightarrow> obj_map ob' = obj_map ob"
  by (simp_all add: obj_map_def)

text \<open>The effect of an operation that adds or replaces: on the invariant, on the map, and on
  the heap. \<open>gave\<close> is what the caller gave away when the operation succeeded.\<close>

definition object_effect ::
  "json_object \<Rightarrow> heap \<Rightarrow> json_status \<times> json_object option \<times> heap \<Rightarrow> (string \<rightharpoonup> json_value) \<Rightarrow> int \<Rightarrow> bool" where
  "object_effect ob h r m gave =
     (case r of (st, obj', h') \<Rightarrow> (\<exists>ob'. obj' = Some ob' \<and> wf_object ob' \<and>
        obj_map ob' = (if st = JSONSuccess then m else obj_map ob) \<and>
        (st = JSONFailure \<longrightarrow> pairs ob' = pairs ob) \<and>
        live h' = live h + oblocks ob' - oblocks ob - (if st = JSONSuccess then gave else 0)))"

lemma addn_effect:
  assumes "wf_object ob" "wf_json v" "len \<le> strlen nm"
  shows "object_effect ob h (json_object_addn (Some ob) (Some nm) len (Some v) h)
           ((obj_map ob)(take len (cstr nm) \<mapsto> v)) (blocks v)"
proof -
  obtain st obj' h' where r: "json_object_addn (Some ob) (Some nm) len (Some v) h = (st, obj', h')" by (rule prod_cases3)
  obtain ob' where ob': "obj' = Some ob'" "length (pairs ob') \<le> obj_capacity ob'"
    "st = JSONSuccess \<Longrightarrow> pairs ob' = pairs ob @ [(take len (cstr nm), v)] \<and> obj_map ob (take len (cstr nm)) = None"
    "st = JSONFailure \<Longrightarrow> pairs ob' = pairs ob"
    "live h' = live h + oblocks ob' - oblocks ob - (if st = JSONSuccess then blocks v else 0)"
    using json_object_addn_cases [OF r assms(1,3)] by metis
  have "wf_object ob' \<and> obj_map ob' = (if st = JSONSuccess then (obj_map ob)(take len (cstr nm) \<mapsto> v) else obj_map ob)"
  proof (cases st)
    case JSONSuccess
    with ob' wf_object_append [OF assms(1) _ _ _ assms(2) ob'(2), of "take len (cstr nm)"] show ?thesis by simp
  next
    case JSONFailure
    with ob'(2,4) wf_object_same_pairs [of ob ob'] assms(1) show ?thesis by simp
  qed
  then show ?thesis unfolding object_effect_def r using ob'(1,4,5) by auto
qed

lemma add_effect:
  assumes "wf_object ob" "wf_json v"
  shows "object_effect ob h (json_object_add (Some ob) (Some nm) (Some v) h) ((obj_map ob)(cstr nm \<mapsto> v)) (blocks v)"
  using addn_effect [OF assms, of "strlen nm" nm h] by (simp add: json_object_add_def strlen_def)

text \<open>Overwriting the value of the first entry with a name.\<close>

lemma update_entry:
  assumes wf: "wf_object ob" and v: "wf_json v" and i: "i < length (pairs ob)" "fst (pairs ob ! i) = k"
    "k \<notin> fst ` set (take i (pairs ob))" and ob': "ob' = ob\<lparr>pairs := (pairs ob)[i := (k, v)]\<rparr>"
  shows "wf_object ob'" "obj_map ob' = (obj_map ob)(k \<mapsto> v)" "obj_map ob k = Some (snd (pairs ob ! i))"
    "oblocks ob' = oblocks ob + blocks v - blocks (snd (pairs ob ! i))"
proof -
  have "pairs ob ! i = (k, snd (pairs ob ! i))" using i(2) by (metis prod.collapse)
  then have "(k, snd (pairs ob ! i)) \<in> set (pairs ob)" using i(1) nth_mem by metis
  then show "obj_map ob k = Some (snd (pairs ob ! i))" using wf by (simp add: obj_map_def)
  have "nul_free k" using i wf by (auto simp: list_all_length)
  moreover have "map fst (pairs ob') = map fst (pairs ob)"
    using i by (simp add: ob' map_update list_update_same_conv)
  moreover have "set (pairs ob') \<subseteq> insert (k, v) (set (pairs ob))"
    by (simp add: ob' set_update_subset_insert)
  ultimately show "wf_object ob'" using wf v by (auto simp: ob' list_all_iff dest!: subsetD)
  show "obj_map ob' = (obj_map ob)(k \<mapsto> v)"
    using map_of_update_in_place [OF i] by (simp add: obj_map_def ob')
  show "oblocks ob' = oblocks ob + blocks v - blocks (snd (pairs ob ! i))"
    using sum_list_update_int [OF i(1), of "\<lambda>f. 1 + blocks (snd f)"] by (simp add: ob')
qed

lemma set_value_effect:
  assumes wf: "wf_object ob" and v: "wf_json v"
  shows "object_effect ob h (json_object_set_value (Some ob) (Some nm) (Detached v) h)
           ((obj_map ob)(cstr nm \<mapsto> v)) (blocks v)"
proof (cases "obj_map ob (cstr nm)")
  case None
  then show ?thesis
    using add_effect [OF wf v] get_value_map(1) [OF wf] by (simp add: json_object_set_value_def)
next
  case (Some old)
  then obtain i where i: "find_name (pairs ob) nm = Some i"
    using find_name_None wf_names_ok [OF wf] by (fastforce simp: obj_map_def)
  note fi = find_name_Some [OF i wf_names_ok [OF wf]]
  define ob' where "ob' = ob\<lparr>pairs := (pairs ob)[i := (cstr nm, v)]\<rparr>"
  note up = update_entry [OF wf v fi ob'_def]
  show ?thesis
    using up Some i fi(2) get_value_map(1) [OF wf]
    by (auto simp: object_effect_def json_object_set_value_def Let_def ob'_def [symmetric])
qed

section \<open>Removing\<close>

lemma remove_effect:
  assumes wf: "wf_object ob"
  shows "object_effect ob h (json_object_remove_internal (Some ob) (Some nm) fv h) ((obj_map ob)(cstr nm := None))
           (if fv then 0 else - (case obj_map ob (cstr nm) of None \<Rightarrow> 0 | Some v \<Rightarrow> blocks v))"
    and "fst (json_object_remove_internal (Some ob) (Some nm) fv h) = JSONSuccess \<longleftrightarrow> obj_map ob (cstr nm) \<noteq> None"
proof -
  have "object_effect ob h (json_object_remove_internal (Some ob) (Some nm) fv h) ((obj_map ob)(cstr nm := None))
           (if fv then 0 else - (case obj_map ob (cstr nm) of None \<Rightarrow> 0 | Some v \<Rightarrow> blocks v)) \<and>
      (fst (json_object_remove_internal (Some ob) (Some nm) fv h) = JSONSuccess \<longleftrightarrow> obj_map ob (cstr nm) \<noteq> None)"
  proof (cases "obj_map ob (cstr nm)")
    case None
    then show ?thesis
      using wf get_value_map(1) [OF wf] by (simp add: json_object_remove_internal_def object_effect_def)
  next
    case (Some old)
    then obtain i where i: "find_name (pairs ob) nm = Some i"
      using find_name_None wf_names_ok [OF wf] by (fastforce simp: obj_map_def)
    note fi = find_name_Some [OF i wf_names_ok [OF wf]]
    have old: "snd (pairs ob ! i) = old"
      using update_entry(3) [OF wf _ fi refl, of JSONNull] Some by simp
    then have e: "pairs ob ! i = (cstr nm, old)" using fi(2) by (metis prod.collapse)
    define ps where "ps = take (length (pairs ob) - 1) (if i \<noteq> length (pairs ob) - 1
        then (pairs ob)[i := pairs ob ! (length (pairs ob) - 1)] else pairs ob)"
    have m: "mset ps + {#(cstr nm, old)#} = mset (pairs ob)"
      using mset_swap_remove [OF fi(1)] unfolding ps_def e .
    note rm = map_of_removed [OF m]
    define ob' where "ob' = ob\<lparr>pairs := ps\<rparr>"
    have "wf_object ob'" "obj_map ob' = (obj_map ob)(cstr nm := None)"
      using wf rm by (auto simp: ob'_def obj_map_def list_all_iff)
    moreover have "oblocks ob' = oblocks ob - 1 - blocks old"
    proof -
      have "mset (map (\<lambda>f. 1 + blocks (snd f)) ps) + {#1 + blocks old#} = mset (map (\<lambda>f. 1 + blocks (snd f)) (pairs ob))"
        using m [symmetric] by simp
      then have "sum_mset (mset (map (\<lambda>f. 1 + blocks (snd f)) ps) + {#1 + blocks old#})
          = sum_mset (mset (map (\<lambda>f. 1 + blocks (snd f)) (pairs ob)))" by (rule arg_cong)
      then have "(\<Sum>f\<leftarrow>ps. 1 + blocks (snd f)) + (1 + blocks old) = (\<Sum>f\<leftarrow>pairs ob. 1 + blocks (snd f))"
        by (simp only: sum_mset.union sum_mset_sum_list sum_mset.singleton)
      then show ?thesis by (simp add: ob'_def)
    qed
    moreover have "json_object_remove_internal (Some ob) (Some nm) fv h
        = (JSONSuccess, Some ob', if fv then json_value_free old (free_ptr True h) else free_ptr True h)"
      using Some i old get_value_map(1) [OF wf]
      by (auto simp: json_object_remove_internal_def Let_def json_object_get_count_def ob'_def ps_def)
    ultimately show ?thesis using Some by (auto simp: object_effect_def)
  qed
  then show "object_effect ob h (json_object_remove_internal (Some ob) (Some nm) fv h) ((obj_map ob)(cstr nm := None))
           (if fv then 0 else - (case obj_map ob (cstr nm) of None \<Rightarrow> 0 | Some v \<Rightarrow> blocks v))"
    and "fst (json_object_remove_internal (Some ob) (Some nm) fv h) = JSONSuccess \<longleftrightarrow> obj_map ob (cstr nm) \<noteq> None"
    by blast+
qed

section \<open>Objects provide a finite map\<close>

text \<open>The map operations of the API, on an object that exists; \<open>NULL\<close> never comes back.\<close>

definition obj_get :: "json_object \<Rightarrow> string \<Rightarrow> json_value option" where
  "obj_get ob k = json_object_get_value (Some ob) (Some k)"

definition obj_put :: "json_object \<Rightarrow> string \<Rightarrow> json_value \<Rightarrow> heap \<Rightarrow> bool \<times> json_object \<times> heap" where
  "obj_put ob k v h = (case json_object_set_value (Some ob) (Some k) (Detached v) h of
     (st, obj', h') \<Rightarrow> (st = JSONSuccess, (case obj' of Some ob' \<Rightarrow> ob' | None \<Rightarrow> ob), h'))"

definition obj_del :: "json_object \<Rightarrow> string \<Rightarrow> heap \<Rightarrow> bool \<times> json_object \<times> heap" where
  "obj_del ob k h = (case json_object_remove (Some ob) (Some k) h of
     (st, obj', h') \<Rightarrow> (st = JSONSuccess, (case obj' of Some ob' \<Rightarrow> ob' | None \<Rightarrow> ob), h'))"

lemma obj_put_effect:
  assumes "wf_object ob" "nul_free k" "wf_json v" "obj_put ob k v h = (r, ob', h')"
  shows "wf_object ob'" "obj_map ob' = apply_op (Put k v, r) (obj_map ob)"
    "live h' = live h + oblocks ob' - oblocks ob - (if r then blocks v else 0)"
  using set_value_effect [OF assms(1,3), of h k] assms(2,4)
  by (auto simp: obj_put_def object_effect_def split: prod.splits if_splits)

lemma obj_del_effect:
  assumes "wf_object ob" "nul_free k" "obj_del ob k h = (r, ob', h')"
  shows "wf_object ob'" "obj_map ob' = apply_op (Del k, r) (obj_map ob)"
    "live h' = live h + oblocks ob' - oblocks ob"
  using remove_effect(1) [OF assms(1), of h k True] assms(2,3)
  by (auto simp: obj_del_def json_object_remove_def object_effect_def split: prod.splits if_splits)

interpretation jo: map_provider wf_object obj_map nul_free wf_json obj_get obj_put obj_del
proof unfold_locales
  show "wf_object s \<Longrightarrow> nul_free k \<Longrightarrow> obj_get s k = obj_map s k" for s k
    by (simp only: obj_get_def get_value_map cstr_nul_free)
qed (fact obj_put_effect(1) obj_put_effect(2) obj_del_effect(1) obj_del_effect(2))+

text \<open>What the caller gave away in a sequence of operations.\<close>

fun given :: "((string, json_value) map_op \<times> bool) list \<Rightarrow> int" where
  "given [] = 0"
| "given ((Put k v, True) # rs) = blocks v + given rs"
| "given (_ # rs) = given rs"

lemma run_ops_live:
  "run_ops obj_put obj_del ops ob h = (rs, ob', h') \<Longrightarrow> wf_object ob \<Longrightarrow> list_all (op_ok nul_free wf_json) ops \<Longrightarrow>
     live h' = live h + oblocks ob' - oblocks ob - given (zip ops rs)"
proof (induction ops arbitrary: ob h rs)
  case (Cons x ops)
  then show ?case
  proof (cases x)
    case (Put k v)
    obtain r s1 h1 where p: "obj_put ob k v h = (r, s1, h1)" by (rule prod_cases3)
    obtain rs2 where r2: "rs = r # rs2" "run_ops obj_put obj_del ops s1 h1 = (rs2, ob', h')"
      using Cons.prems(1) Put p by (auto split: prod.splits)
    have ok: "nul_free k" "wf_json v" "list_all (op_ok nul_free wf_json) ops" using Cons.prems(3) Put by auto
    note e = obj_put_effect [OF Cons.prems(2) ok(1,2) p]
    show ?thesis using Cons.IH [OF r2(2) e(1) ok(3)] e(3) Put r2(1) by (cases r) auto
  next
    case (Del k)
    obtain r s1 h1 where p: "obj_del ob k h = (r, s1, h1)" by (rule prod_cases3)
    obtain rs2 where r2: "rs = r # rs2" "run_ops obj_put obj_del ops s1 h1 = (rs2, ob', h')"
      using Cons.prems(1) Del p by (auto split: prod.splits)
    have ok: "nul_free k" "list_all (op_ok nul_free wf_json) ops" using Cons.prems(3) Del by auto
    note e = obj_del_effect [OF Cons.prems(2) ok(1) p]
    show ?thesis using Cons.IH [OF r2(2) e(1) ok(2)] e(3) Del r2(1) by (cases r) auto
  qed
qed simp

section \<open>Properties\<close>

text \<open>C14. A \<open>JSON_Object\<close> is a finite map. Whatever sequence of \<open>json_object_set_value\<close> and
  \<open>json_object_remove\<close> is performed, with allocation failing at any point, the object stays
  well formed (distinct names, capacity respected) and \<open>json_object_get_value\<close> returns what the
  operations that reported success say, the last write to a name winning.\<close>

theorem object_ops_refine_map:
  assumes "run_ops obj_put obj_del ops ob h = (rs, ob', h')" "wf_object ob" "list_all (op_ok nul_free wf_json) ops"
    and "nul_free k"
  shows "wf_object ob' \<and> length rs = length ops \<and>
    json_object_get_value (Some ob') (Some k) = fold apply_op (zip ops rs) (obj_map ob) k"
  using jo.run_ops_refine [OF assms(1-3)] jo.get_after_run [OF assms(1-4)] by (simp add: obj_get_def)

theorem object_ops_refine_map_witness:
  "run_ops obj_put obj_del [Put ''a'' JSONNull, Put ''b'' (JSONBoolean True), Put ''b'' JSONNull, Del ''a'', Del ''x'']
     \<lparr>pairs = [], obj_capacity = 0\<rparr> \<lparr>answers = [True, True, True, True, False], live = 5\<rparr>
   = ([True, True, True, True, False], \<lparr>pairs = [(''b'', JSONNull)], obj_capacity = 16\<rparr>, \<lparr>answers = [False], live = 6\<rparr>) \<and>
   json_object_get_value (Some \<lparr>pairs = [(''b'', JSONNull)], obj_capacity = 16\<rparr>) (Some ''b'') = Some JSONNull"
proof
  show run: "run_ops obj_put obj_del [Put ''a'' JSONNull, Put ''b'' (JSONBoolean True), Put ''b'' JSONNull, Del ''a'', Del ''x'']
     \<lparr>pairs = [], obj_capacity = 0\<rparr> \<lparr>answers = [True, True, True, True, False], live = 5\<rparr>
   = ([True, True, True, True, False], \<lparr>pairs = [(''b'', JSONNull)], obj_capacity = 16\<rparr>, \<lparr>answers = [False], live = 6\<rparr>)"
    by code_simp
  show "json_object_get_value (Some \<lparr>pairs = [(''b'', JSONNull)], obj_capacity = 16\<rparr>) (Some ''b'') = Some JSONNull"
    using object_ops_refine_map [OF run, of "''b''"] by (simp add: obj_map_def JSONObject_of.simps)
qed

text \<open>C32. Ownership across the object operations: after any sequence of \<open>json_object_set_value\<close>
  and \<open>json_object_remove\<close>, with allocation failing at any point, the live heap blocks have
  changed by what the object now owns less what it owned and less what the callers gave it;
  nothing leaks and nothing is released twice.\<close>

theorem object_ops_keep_ownership:
  assumes "run_ops obj_put obj_del ops ob h = (rs, ob', h')" "wf_object ob" "list_all (op_ok nul_free wf_json) ops"
  shows "live h' = live h + oblocks ob' - oblocks ob - given (zip ops rs)"
  by (rule run_ops_live [OF assms])

theorem object_ops_keep_ownership_witness:
  "snd (snd (run_ops obj_put obj_del [Put ''a'' (JSONString ''x''), Put ''b'' JSONNull, Del ''a'']
     \<lparr>pairs = [], obj_capacity = 0\<rparr> \<lparr>answers = [True, True, True, False], live = 5\<rparr>)) = \<lparr>answers = [], live = 5\<rparr>
   \<and> 5 = (5::int) + 4 - 2 - 2"
proof -
  have run: "run_ops obj_put obj_del [Put ''a'' (JSONString ''x''), Put ''b'' JSONNull, Del ''a'']
     \<lparr>pairs = [], obj_capacity = 0\<rparr> \<lparr>answers = [True, True, True, False], live = 5\<rparr>
   = ([True, False, True], \<lparr>pairs = [], obj_capacity = 16\<rparr>, \<lparr>answers = [], live = 5\<rparr>)"
    by code_simp
  show ?thesis using object_ops_keep_ownership [OF run] unfolding run by (simp add: JSONObject_of.simps)
qed

end
