(* ===== verification/Parson_Paths.thy ===== *)
theory Parson_Paths
  imports Parson_Laws
begin

text \<open>
  Paths, arrays and the setters of \<^verbatim>\<open>common/json/parson.c\<close>: \<open>json_object_dotset_value\<close>,
  \<open>json_object_dotget_value\<close> and \<open>json_object_dotremove\<close> on names with dots, the array
  operations, and the families of functions that create a value and hand it to a container.
  The lemmas give the effect of each on the contents, on the invariant and on the heap, for
  every pattern of allocation failures.
\<close>

section \<open>Paths\<close>

text \<open>A value with the capacities forgotten: its contents.\<close>

fun contents :: "json_value \<Rightarrow> json_value" where
  "contents (JSONObject fs c) = JSONObject (map (\<lambda>f. (fst f, contents (snd f))) fs) 0"
| "contents (JSONArray xs c) = JSONArray (map contents xs) 0"
| "contents v = v"

lemma strchr_shorter: "strchr nm c = Some k \<Longrightarrow> length (drop (Suc k) nm) < length nm" 
  by (auto dest!: strchr_SomeD(1) simp: cstr_def intro: diff_less)

lemma dotget_None: "json_object_dotget_value None nm = None"
proof (induction nm rule: length_induct)
  case (1 nm)
  then show ?case
    by (subst json_object_dotget_value.simps)
      (auto simp: json_object_get_value_def json_object_getn_value_def dest!: strchr_shorter split: option.split)
qed

lemma strchr_le_strlen: "strchr nm c = Some k \<Longrightarrow> k \<le> strlen nm"
  by (auto dest!: strchr_SomeD(1) simp: strlen_def)

lemma dotget_step:
  "wf_object ob \<Longrightarrow> strchr nm CHR ''.'' = Some k \<Longrightarrow>
     json_object_dotget_value (Some ob) nm
     = json_object_dotget_value (json_value_get_object (obj_map ob (take k (cstr nm)))) (drop (Suc k) nm)"
  using get_value_map(2) [of ob k nm] strchr_le_strlen [of nm _ k]
  by (subst json_object_dotget_value.simps) (simp del: wf_json.simps JSONObject_of.simps)

lemma dotget_last:
  "wf_object ob \<Longrightarrow> strchr nm CHR ''.'' = None \<Longrightarrow> json_object_dotget_value (Some ob) nm = obj_map ob (cstr nm)"
  using get_value_map(1) [of ob nm]
  by (subst json_object_dotget_value.simps) (simp del: wf_json.simps JSONObject_of.simps)

lemma setn_loop_update:
  assumes "names_ok fs" "len \<le> strlen nm" "map_of fs (take len (cstr nm)) = Some old"
  obtains i where "i < length fs" "fst (fs ! i) = take len (cstr nm)" "take len (cstr nm) \<notin> fst ` set (take i fs)"
    "snd (fs ! i) = old" "setn_loop fs nm len w = fs[i := (take len (cstr nm), w)]"
  using assms(1,3)
proof (induction fs arbitrary: thesis)
  case (Cons f fs)
  obtain k v where f: "f = (k, v)" by fastforce
  have len: "length (take len (cstr nm)) = len" using assms(2) by (simp add: strlen_def)
  have eq: "strlen k = len \<and> strneq k nm len \<longleftrightarrow> k = take len (cstr nm)"
    using Cons.prems(2) f len by (auto simp: strneq_def)
  show ?case
  proof (cases "k = take len (cstr nm)")
    case True
    then show ?thesis using Cons.prems(1) [of 0] Cons.prems(3) f eq by auto
  next
    case False
    then have "map_of fs (take len (cstr nm)) = Some old" "names_ok fs" using Cons.prems(2,3) f by auto
    then obtain i where i: "i < length fs" "fst (fs ! i) = take len (cstr nm)" "take len (cstr nm) \<notin> fst ` set (take i fs)"
      "snd (fs ! i) = old" "setn_loop fs nm len w = fs[i := (take len (cstr nm), w)]"
      using Cons.IH by blast
    show ?thesis using i False f eq by (intro Cons.prems(1) [of "Suc i"]) auto
  qed
qed simp

text \<open>Writing back a changed inner object.\<close>

lemma write_back_effect:
  assumes wf: "wf_object ob" and len: "len \<le> strlen nm" and key: "key = take len (cstr nm)"
    and old: "obj_map ob key = Some (JSONObject_of inner)" and inner': "wf_object inner'"
  obtains ob' where "write_back (Some ob) nm len (Some inner') = Some ob'" "wf_object ob'"
    "obj_map ob' = (obj_map ob)(key \<mapsto> JSONObject_of inner')"
    "oblocks ob' = oblocks ob + oblocks inner' - oblocks inner"
    "contents (JSONObject_of inner') = contents (JSONObject_of inner) \<Longrightarrow>
       contents (JSONObject_of ob') = contents (JSONObject_of ob)"
    "inner' = inner \<Longrightarrow> ob' = ob"
proof -
  obtain i where i: "i < length (pairs ob)" "fst (pairs ob ! i) = key" "key \<notin> fst ` set (take i (pairs ob))"
    and v: "snd (pairs ob ! i) = JSONObject_of inner"
    and s: "setn_loop (pairs ob) nm len (JSONObject_of inner') = (pairs ob)[i := (key, JSONObject_of inner')]"
    using setn_loop_update [OF wf_names_ok [OF wf] len] old unfolding obj_map_def key by metis
  define ob' where "ob' = ob\<lparr>pairs := (pairs ob)[i := (key, JSONObject_of inner')]\<rparr>"
  note up = update_entry [OF wf inner' i ob'_def]
  have nth: "pairs ob ! i = (key, JSONObject_of inner)" using i(2) v by (metis prod.collapse)
  show thesis
  proof (rule that [of ob'])
    show "write_back (Some ob) nm len (Some inner') = Some ob'"
      by (simp only: write_back_def s ob'_def prod.case option.case)
    show "contents (JSONObject_of ob') = contents (JSONObject_of ob)"
      if "contents (JSONObject_of inner') = contents (JSONObject_of inner)"
    proof -
      let ?g = "\<lambda>f. (fst f, contents (snd f))"
      have "map ?g (pairs ob') = (map ?g (pairs ob))[i := ?g (key, JSONObject_of inner')]"
        by (simp add: ob'_def map_update del: JSONObject_of.simps contents.simps)
      also have "?g (key, JSONObject_of inner') = map ?g (pairs ob) ! i"
        using that i(1) nth by (simp del: contents.simps JSONObject_of.simps)
      finally show ?thesis by (simp add: ob'_def)
    qed
    show "ob' = ob" if "inner' = inner"
      using that nth i(1) list_update_id [of "pairs ob" i] by (simp add: ob'_def)
  qed (use up v in simp_all)
qed

lemma get_object_Some:
  "json_value_get_object (Some v) = Some ob \<longleftrightarrow> v = JSONObject_of ob"
  "json_value_get_type p = JSONObject_t \<longleftrightarrow> (\<exists>ob. p = Some (JSONObject_of ob))"
proof -
  show "json_value_get_object (Some v) = Some ob \<longleftrightarrow> v = JSONObject_of ob" by (cases v) auto
  show "json_value_get_type p = JSONObject_t \<longleftrightarrow> (\<exists>ob. p = Some (JSONObject_of ob))"
  proof
    assume "json_value_get_type p = JSONObject_t"
    then obtain fs c where "p = Some (JSONObject fs c)" by (cases p rule: json_value_get_type.cases) auto
    then show "\<exists>ob. p = Some (JSONObject_of ob)" by (intro exI [of _ "\<lparr>pairs = fs, obj_capacity = c\<rparr>"]) simp
  qed auto
qed

lemma get_object_of [simp]: "json_value_get_object (Some (JSONObject_of ob)) = Some ob"
  by (simp add: get_object_Some)

lemma get_object_not_object:
  "json_value_get_type p \<noteq> JSONObject_t \<Longrightarrow> json_value_get_object p = None"
  by (cases p rule: json_value_get_object.cases) auto

lemma wf_object_entry: "wf_object ob \<Longrightarrow> obj_map ob k = Some v \<Longrightarrow> wf_json v"
  by (auto simp: obj_map_def list_all_iff dest!: map_of_SomeD)

declare JSONObject_of.simps [simp del]

text \<open>\<open>json_object_dotremove_internal\<close> succeeds exactly when the path leads to a value, which
  is then gone; the value is released or, with \<open>free_value\<close> unset, left to the caller.\<close>

lemma dotremove_effect:
  assumes "wf_object ob" "json_object_dotremove_internal (Some ob) nm fv h = (st, obj', h')"
  shows "\<exists>ob'. obj' = Some ob' \<and> wf_object ob' \<and>
     (st = JSONSuccess \<longleftrightarrow> json_object_dotget_value (Some ob) nm \<noteq> None) \<and>
     (st = JSONSuccess \<longrightarrow> json_object_dotget_value (Some ob') nm = None) \<and>
     (st = JSONFailure \<longrightarrow> ob' = ob) \<and>
     live h' = live h + oblocks ob' - oblocks ob
       + (case json_object_dotget_value (Some ob) nm of None \<Rightarrow> 0 | Some v \<Rightarrow> if fv then 0 else blocks v)"
  using assms
proof (induction nm arbitrary: ob obj' rule: length_induct)
  case (1 nm)
  show ?case
  proof (cases "strchr nm CHR ''.''")
    case None
    have r: "json_object_remove_internal (Some ob) (Some nm) fv h = (st, obj', h')"
      using 1(3) None by (simp add: json_object_dotremove_internal.simps)
    note e = remove_effect(1) [OF 1(2), of h nm fv, unfolded r object_effect_def prod.case]
      remove_effect(2) [OF 1(2), of nm fv h, unfolded r fst_conv]
    have "obj_map ob (cstr nm) = None \<Longrightarrow> obj' = Some ob"
      using r get_value_map(1) [OF 1(2)] by (simp add: json_object_remove_internal_def)
    with e show ?thesis
      using dotget_last [OF 1(2) None] dotget_last [OF _ None]
      by (cases "obj_map ob (cstr nm)") (auto split: if_splits)
  next
    case (Some k)
    let ?t = "obj_map ob (take k (cstr nm))" and ?rest = "drop (Suc k) nm"
    have gt: "json_object_getn_value (Some ob) nm k = ?t"
      using get_value_map(2) [OF 1(2) strchr_le_strlen [OF Some]] .
    note step = 1(3) [unfolded json_object_dotremove_internal.simps [of _ nm] Some option.case Let_def gt]
    show ?thesis
    proof (cases "json_value_get_type ?t = JSONObject_t")
      case False
      then show ?thesis
        using step 1(2) dotget_step [OF 1(2) Some] get_object_not_object [OF False] by (auto simp: dotget_None)
    next
      case True
      then obtain inner where inner: "?t = Some (JSONObject_of inner)" by (auto simp: get_object_Some)
      have wfi: "wf_object inner" using wf_object_entry [OF 1(2) inner] .
      have go: "json_value_get_object ?t = Some inner" by (simp add: inner get_object_Some)
      obtain st1 i1 h1 where ri: "json_object_dotremove_internal (Some inner) ?rest fv h = (st1, i1, h1)" by (rule prod_cases3)
      from 1(1) [rule_format, OF strchr_shorter [OF Some] wfi] ri step True go
      obtain inner' where i': "i1 = Some inner'" "wf_object inner'"
        "st1 = JSONSuccess \<longleftrightarrow> json_object_dotget_value (Some inner) ?rest \<noteq> None"
        "st1 = JSONSuccess \<Longrightarrow> json_object_dotget_value (Some inner') ?rest = None"
        "st1 = JSONFailure \<Longrightarrow> inner' = inner"
        "live h1 = live h + oblocks inner' - oblocks inner
           + (case json_object_dotget_value (Some inner) ?rest of None \<Rightarrow> 0 | Some v \<Rightarrow> if fv then 0 else blocks v)"
        by auto
      obtain ob' where ob': "write_back (Some ob) nm k (Some inner') = Some ob'" "wf_object ob'"
        "obj_map ob' = (obj_map ob)(take k (cstr nm) \<mapsto> JSONObject_of inner')"
        "oblocks ob' = oblocks ob + oblocks inner' - oblocks inner" "inner' = inner \<Longrightarrow> ob' = ob"
        using write_back_effect [OF 1(2) strchr_le_strlen [OF Some] refl inner i'(2)] by metis
      have d: "json_object_dotget_value (Some ob) nm = json_object_dotget_value (Some inner) ?rest"
        "json_object_dotget_value (Some ob') nm = json_object_dotget_value (Some inner') ?rest"
        using dotget_step [OF 1(2) Some] dotget_step [OF ob'(2) Some] go ob'(3) by (simp_all add: get_object_Some)
      have "st = st1 \<and> obj' = Some ob' \<and> h' = h1" using step True go ri i'(1) ob'(1) by simp
      then show ?thesis using i' ob' d by (intro exI [of _ ob']) simp
    qed
  qed
qed

lemma contents_same_pairs: "pairs ob' = pairs ob \<Longrightarrow> contents (JSONObject_of ob') = contents (JSONObject_of ob)"
  by (simp add: JSONObject_of.simps)

lemma init_object_cases:
  obtains h1 where "json_value_init_object h = (None, h1)" "live h1 = live h"
  | h1 ob where "json_value_init_object h = (Some (JSONObject_of ob), h1)" "live h1 = live h + 2"
    "oblocks ob = 2" "wf_object ob" "pairs ob = []"
proof (cases "fst (json_value_init_object h)")
  case None
  then show thesis using that(1) init_balanced(2) [of h] by (cases "json_value_init_object h") (simp add: balanced_new_def)
next
  case (Some v)
  then have "v = JSONObject_of \<lparr>pairs = [], obj_capacity = 0\<rparr>"
    by (auto simp: json_value_init_object_def json_object_init_def split: prod.splits bool.splits option.splits)
  then show thesis
    using that(2) [of "\<lparr>pairs = [], obj_capacity = 0\<rparr>"] init_balanced(2) [of h] Some
    by (cases "json_value_init_object h") (simp add: balanced_new_def JSONObject_of.simps)
qed

text \<open>\<open>json_object_dotset_value\<close>: after success the path leads to the value, which the
  document now owns; after failure the contents are as before and nothing was lost.\<close>

definition dotset_effect :: "json_object \<Rightarrow> string \<Rightarrow> json_value \<Rightarrow> heap \<Rightarrow> json_status \<times> json_object option \<times> heap \<Rightarrow> bool" where
  "dotset_effect ob nm v h r =
     (case r of (st, obj', h') \<Rightarrow> (\<exists>ob'. obj' = Some ob' \<and> wf_object ob' \<and>
        (st = JSONSuccess \<longrightarrow> json_object_dotget_value (Some ob') nm = Some v) \<and>
        (st = JSONFailure \<longrightarrow> contents (JSONObject_of ob') = contents (JSONObject_of ob)) \<and>
        live h' = live h + oblocks ob' - oblocks ob - (if st = JSONSuccess then blocks v else 0)))"

lemma dotset_last_effect:
  assumes "wf_object ob" "wf_json v" "strchr nm CHR ''.'' = None"
  shows "dotset_effect ob nm v h (json_object_set_value (Some ob) (Some nm) (Detached v) h)"
proof -
  obtain st obj' h' where r: "json_object_set_value (Some ob) (Some nm) (Detached v) h = (st, obj', h')" by (rule prod_cases3)
  obtain ob' where ob': "obj' = Some ob'" "wf_object ob'" "st = JSONFailure \<Longrightarrow> pairs ob' = pairs ob"
    "obj_map ob' = (if st = JSONSuccess then (obj_map ob)(cstr nm \<mapsto> v) else obj_map ob)"
    "live h' = live h + oblocks ob' - oblocks ob - (if st = JSONSuccess then blocks v else 0)"
    using set_value_effect [OF assms(1,2), of h nm] by (auto simp: object_effect_def r)
  show ?thesis
    using ob' contents_same_pairs [of ob' ob] dotget_last [OF ob'(2) assms(3)] by (simp add: dotset_effect_def r)
qed

lemma dotset_inner_effect:
  assumes wf: "wf_object ob" and dot: "strchr nm CHR ''.'' = Some k"
    and t: "obj_map ob (take k (cstr nm)) = Some (JSONObject_of inner)"
    and ih: "dotset_effect inner (drop (Suc k) nm) v h (st, i1, h1)"
  shows "dotset_effect ob nm v h (st, write_back (Some ob) nm k i1, h1)"
proof -
  obtain inner' where i': "i1 = Some inner'" "wf_object inner'"
    "st = JSONSuccess \<Longrightarrow> json_object_dotget_value (Some inner') (drop (Suc k) nm) = Some v"
    "st = JSONFailure \<Longrightarrow> contents (JSONObject_of inner') = contents (JSONObject_of inner)"
    "live h1 = live h + oblocks inner' - oblocks inner - (if st = JSONSuccess then blocks v else 0)"
    using ih by (auto simp: dotset_effect_def)
  obtain ob' where ob': "write_back (Some ob) nm k (Some inner') = Some ob'" "wf_object ob'"
    "obj_map ob' = (obj_map ob)(take k (cstr nm) \<mapsto> JSONObject_of inner')"
    "oblocks ob' = oblocks ob + oblocks inner' - oblocks inner"
    "contents (JSONObject_of inner') = contents (JSONObject_of inner) \<Longrightarrow>
       contents (JSONObject_of ob') = contents (JSONObject_of ob)"
    using write_back_effect [OF wf strchr_le_strlen [OF dot] refl t i'(2)] by metis
  have "json_object_dotget_value (Some ob') nm = json_object_dotget_value (Some inner') (drop (Suc k) nm)"
    using dotget_step [OF ob'(2) dot] ob'(3) by simp
  then show ?thesis using i' ob' by (simp add: dotset_effect_def)
qed

lemma dotset_new_effect:
  assumes wf: "wf_object ob" and dot: "strchr nm CHR ''.'' = Some k"
    and new: "oblocks new = 2" "wf_object new" and h: "live h1 = live h + 2"
    and ih: "dotset_effect new (drop (Suc k) nm) v h1 (st, n1, h2)"
  shows "dotset_effect ob nm v h
     (case st of
        JSONFailure \<Rightarrow> (JSONFailure, Some ob, free_value_ptr (map_option JSONObject_of n1) h2)
      | JSONSuccess \<Rightarrow>
          (case json_object_addn (Some ob) (Some nm) k (map_option JSONObject_of n1) h2 of
             (JSONSuccess, obj', h3) \<Rightarrow> (JSONSuccess, obj', h3)
           | (JSONFailure, obj', h3) \<Rightarrow>
               (case json_object_dotremove_internal n1 (drop (Suc k) nm) False h3 of
                  (_, n2, h4) \<Rightarrow> (JSONFailure, obj', free_value_ptr (map_option JSONObject_of n2) h4))))"
proof -
  obtain new' where n': "n1 = Some new'" "wf_object new'"
    "st = JSONSuccess \<Longrightarrow> json_object_dotget_value (Some new') (drop (Suc k) nm) = Some v"
    "live h2 = live h1 + oblocks new' - oblocks new - (if st = JSONSuccess then blocks v else 0)"
    using ih by (auto simp: dotset_effect_def)
  show ?thesis
  proof (cases st)
    case JSONFailure
    then show ?thesis using n' new h wf by (simp add: dotset_effect_def)
  next
    case JSONSuccess
    obtain st3 obj' h3 where a: "json_object_addn (Some ob) (Some nm) k (Some (JSONObject_of new')) h2 = (st3, obj', h3)"
      by (rule prod_cases3)
    obtain ob' where ob': "obj' = Some ob'" "wf_object ob'" "st3 = JSONFailure \<Longrightarrow> pairs ob' = pairs ob"
      "st3 = JSONSuccess \<Longrightarrow> obj_map ob' = (obj_map ob)(take k (cstr nm) \<mapsto> JSONObject_of new')"
      "live h3 = live h2 + oblocks ob' - oblocks ob - (if st3 = JSONSuccess then oblocks new' else 0)"
      using addn_effect [OF wf n'(2) strchr_le_strlen [OF dot], of h2] a by (auto simp: object_effect_def)
    show ?thesis
    proof (cases st3)
      case s3: JSONSuccess
      have "json_object_dotget_value (Some ob') nm = Some v"
        using dotget_step [OF ob'(2) dot] ob'(4) [OF s3] n'(3) [OF JSONSuccess] by simp
      then show ?thesis
        using JSONSuccess s3 a n' ob' new h by (simp add: dotset_effect_def)
    next
      case s3: JSONFailure
      obtain st4 n2 h4 where d: "json_object_dotremove_internal (Some new') (drop (Suc k) nm) False h3 = (st4, n2, h4)"
        by (rule prod_cases3)
      obtain new'' where n'': "n2 = Some new''" "live h4 = live h3 + oblocks new'' - oblocks new' + blocks v"
        using dotremove_effect [OF n'(2) d] n'(3) [OF JSONSuccess] by auto
      show ?thesis
        using JSONSuccess s3 a d n' n'' ob' new h contents_same_pairs [of ob' ob] by (simp add: dotset_effect_def)
    qed
  qed
qed

lemma json_object_dotset_value_effect:
  assumes "wf_object ob" "wf_json v"
  shows "dotset_effect ob nm v h (json_object_dotset_value (Some ob) (Some nm) (Detached v) h)"
  using assms(1)
proof (induction nm arbitrary: ob h rule: length_induct)
  case (1 nm)
  note ih = 1(1) [rule_format]
  show ?case
  proof (cases "strchr nm CHR ''.''")
    case None
    then show ?thesis
      using dotset_last_effect [OF 1(2) assms(2) None] by (simp add: json_object_dotset_value.simps)
  next
    case (Some k)
    let ?t = "obj_map ob (take k (cstr nm))" and ?rest = "drop (Suc k) nm"
    have gt: "json_object_getn_value (Some ob) nm k = ?t"
      using get_value_map(2) [OF 1(2) strchr_le_strlen [OF Some]] .
    have sh: "length ?rest < length nm" using strchr_shorter [OF Some] .
    consider "?t = None" | w where "?t = Some w" "json_value_get_type ?t \<noteq> JSONObject_t"
      | inner where "?t = Some (JSONObject_of inner)"
      using get_object_Some(2) by (metis option.exhaust)
    then show ?thesis
    proof cases
      case 1
      note unfold = json_object_dotset_value.simps [of "Some ob" "Some nm"]
      show ?thesis
      proof (cases rule: init_object_cases [of h])
        case f: (1 h1)
        then show ?thesis using Some gt 1 \<open>wf_object ob\<close> by (simp add: unfold dotset_effect_def)
      next
        case s: (2 h1 new)
        obtain st n1 h2 where r: "json_object_dotset_value (Some new) (Some ?rest) (Detached v) h1 = (st, n1, h2)"
          by (rule prod_cases3)
        have "dotset_effect new ?rest v h1 (st, n1, h2)" using ih [OF sh s(4), of h1] r by simp
        from dotset_new_effect [OF \<open>wf_object ob\<close> Some s(3,4,2) this] show ?thesis
          using Some gt 1 s(1) r by (cases st) (simp_all add: unfold)
      qed
    next
      case 2
      then show ?thesis
        using Some gt \<open>wf_object ob\<close> by (subst json_object_dotset_value.simps) (simp add: dotset_effect_def)
    next
      case (3 inner)
      have wfi: "wf_object inner" using wf_object_entry [OF \<open>wf_object ob\<close> 3] .
      obtain st i1 h1 where r: "json_object_dotset_value (Some inner) (Some ?rest) (Detached v) h = (st, i1, h1)"
        by (rule prod_cases3)
      have "dotset_effect inner ?rest v h (st, i1, h1)" using ih [OF sh wfi, of h] r by simp
      from dotset_inner_effect [OF \<open>wf_object ob\<close> Some 3 this] show ?thesis
        using Some gt 3 r by (subst json_object_dotset_value.simps) (auto simp: get_object_Some)
    qed
  qed
qed

section \<open>Arrays\<close>

declare JSONArray_of.simps [simp del]

text \<open>The effect of an array operation: on the items, the invariant and the heap.\<close>

definition array_effect ::
  "json_array \<Rightarrow> heap \<Rightarrow> json_status \<times> json_array option \<times> heap \<Rightarrow> json_value list \<Rightarrow> int \<Rightarrow> bool" where
  "array_effect ar h r xs gave =
     (case r of (st, arr', h') \<Rightarrow> (\<exists>ar'. arr' = Some ar' \<and> wf_array ar' \<and>
        items ar' = (if st = JSONSuccess then xs else items ar) \<and>
        live h' = live h + ablocks ar' - ablocks ar - (if st = JSONSuccess then gave else 0)))"

lemma append_value_effect:
  assumes wf: "wf_array ar" and v: "wf_json v"
  shows "array_effect ar h (json_array_append_value (Some ar) (Detached v) h) (items ar @ [v]) (blocks v)"
proof (cases "arr_capacity ar \<le> length (items ar)")
  case False
  then show ?thesis
    using wf v by (simp add: array_effect_def json_array_append_value_def json_array_add_def JSONArray_of.simps)
next
  case True
  have n: "length (items ar) < max (arr_capacity ar * 2) STARTING_CAPACITY"
    using True wf by (auto simp: STARTING_CAPACITY_def JSONArray_of.simps)
  then have "max (arr_capacity ar * 2) STARTING_CAPACITY \<noteq> 0" by linarith
  then show ?thesis
    using True wf v n
    by (cases rule: malloc_cases [of h])
      (auto simp: array_effect_def json_array_append_value_def json_array_add_def json_array_resize_def JSONArray_of.simps)
qed

lemma replace_value_effect:
  assumes wf: "wf_array ar" and v: "wf_json v"
  shows "array_effect ar h (json_array_replace_value (Some ar) ix (Detached v) h) ((items ar)[ix := v]) (blocks v)"
    and "fst (json_array_replace_value (Some ar) ix (Detached v) h) = JSONSuccess \<longleftrightarrow> ix < length (items ar)"
proof -
  have "set ((items ar)[ix := v]) \<subseteq> insert v (set (items ar))" by (rule set_update_subset_insert)
  then have "list_all wf_json ((items ar)[ix := v])" using wf v by (auto simp: JSONArray_of.simps list_all_iff)
  then show "array_effect ar h (json_array_replace_value (Some ar) ix (Detached v) h) ((items ar)[ix := v]) (blocks v)"
    using wf sum_list_update_int [of ix "items ar" blocks v]
    by (auto simp: array_effect_def json_array_replace_value_def json_array_get_value_def json_array_get_count_def JSONArray_of.simps)
  show "fst (json_array_replace_value (Some ar) ix (Detached v) h) = JSONSuccess \<longleftrightarrow> ix < length (items ar)"
    by (simp add: json_array_replace_value_def json_array_get_count_def)
qed

lemma remove_item_effect:
  assumes wf: "wf_array ar"
  shows "array_effect ar h (json_array_remove (Some ar) ix h) (take ix (items ar) @ drop (Suc ix) (items ar)) 0"
    and "fst (json_array_remove (Some ar) ix h) = JSONSuccess \<longleftrightarrow> ix < length (items ar)"
proof -
  have sum: "(\<Sum>x\<leftarrow>take ix (items ar). blocks x) + (\<Sum>x\<leftarrow>drop (Suc ix) (items ar). blocks x)
      = (\<Sum>x\<leftarrow>items ar. blocks x) - blocks (items ar ! ix)" if "ix < length (items ar)"
  proof -
    have "(\<Sum>x\<leftarrow>items ar. blocks x) = (\<Sum>x\<leftarrow>take ix (items ar) @ items ar ! ix # drop (Suc ix) (items ar). blocks x)"
      using id_take_nth_drop [OF that] by simp
    then show ?thesis by simp
  qed
  have "set (take ix (items ar) @ drop (Suc ix) (items ar)) \<subseteq> set (items ar)"
    by (auto dest: in_set_takeD in_set_dropD)
  then have "list_all wf_json (take ix (items ar) @ drop (Suc ix) (items ar))"
    using wf by (auto simp: JSONArray_of.simps list_all_iff dest!: subsetD)
  then show "array_effect ar h (json_array_remove (Some ar) ix h) (take ix (items ar) @ drop (Suc ix) (items ar)) 0"
    using wf sum by (auto simp: array_effect_def json_array_remove_def json_array_get_value_def json_array_get_count_def JSONArray_of.simps)
  show "fst (json_array_remove (Some ar) ix h) = JSONSuccess \<longleftrightarrow> ix < length (items ar)"
    by (simp add: json_array_remove_def json_array_get_count_def)
qed

section \<open>Fresh values\<close>

text \<open>A creating operation returns a well-formed value and owes exactly its blocks.\<close>

definition fresh_value :: "heap \<Rightarrow> json_value option \<times> heap \<Rightarrow> bool" where
  "fresh_value h r = (balanced_new h r \<and> (\<forall>v. fst r = Some v \<longrightarrow> wf_json v))"

lemma fresh_values:
  "fresh_value h (json_value_init_string str h)" "fresh_value h (json_value_init_null h)"
  "fresh_value h (json_value_init_boolean b h)" "canonical d \<Longrightarrow> fresh_value h (json_value_init_number d h)"
  using init_balanced [of h]
  by (auto simp: fresh_value_def json_value_init_string_def json_value_init_number_def json_value_init_boolean_def
      json_value_init_null_def json_value_init_string_no_copy_def parson_strndup_def cstr_take_prefix Let_def
      split: option.splits prod.splits bool.splits if_splits)

text \<open>The families that build a value and hand it over release it when that fails.\<close>

lemma dotset_fresh_balanced:
  assumes "fresh_value h vh" "wf_object ob" "dotset_fresh (Some ob) (Some nm) vh = (st, obj', h')"
  shows "\<exists>ob'. obj' = Some ob' \<and> wf_object ob' \<and> live h' = live h + oblocks ob' - oblocks ob"
proof (cases vh)
  case (Pair p h1)
  show ?thesis
  proof (cases p)
    case None
    then show ?thesis using assms Pair by (auto simp: dotset_fresh_def fresh_value_def balanced_new_def)
  next
    case (Some v)
    have v: "wf_json v" "live h1 = live h + blocks v"
      using assms(1) Pair Some by (auto simp: fresh_value_def balanced_new_def)
    obtain st1 o1 h2 where r: "json_object_dotset_value (Some ob) (Some nm) (Detached v) h1 = (st1, o1, h2)"
      by (rule prod_cases3)
    obtain ob' where ob': "o1 = Some ob'" "wf_object ob'"
      "live h2 = live h1 + oblocks ob' - oblocks ob - (if st1 = JSONSuccess then blocks v else 0)"
      using json_object_dotset_value_effect [OF assms(2) v(1), of nm h1] r by (auto simp: dotset_effect_def)
    have "obj' = o1 \<and> live h' = live h2 - (if st1 = JSONSuccess then 0 else blocks v)"
      using assms(3) Pair Some r by (cases st1) (auto simp: dotset_fresh_def)
    then show ?thesis using ob' v by auto
  qed
qed

lemma array_fresh_balanced:
  assumes "fresh_value h vh" and op: "\<And>v h1. wf_json v \<Longrightarrow> array_effect ar h1 (op (Detached v) h1) (xs v) (blocks v)"
    and "wf_array ar" and r: "array_fresh op (Some ar) vh = (st, arr', h')"
  shows "\<exists>ar'. arr' = Some ar' \<and> wf_array ar' \<and> live h' = live h + ablocks ar' - ablocks ar"
proof (cases vh)
  case (Pair p h1)
  show ?thesis
  proof (cases p)
    case None
    then show ?thesis using assms Pair by (auto simp: array_fresh_def fresh_value_def balanced_new_def)
  next
    case (Some v)
    have v: "wf_json v" "live h1 = live h + blocks v"
      using assms(1) Pair Some by (auto simp: fresh_value_def balanced_new_def)
    obtain st1 a1 h2 where o: "op (Detached v) h1 = (st1, a1, h2)" by (rule prod_cases3)
    have "arr' = a1 \<and> live h' = live h2 - (if st1 = JSONSuccess then 0 else blocks v)"
      using r Pair Some o by (cases st1) (auto simp: array_fresh_def)
    then show ?thesis using op [OF v(1), of h1] v(2) o by (auto simp: array_effect_def)
  qed
qed

section \<open>Properties\<close>

text \<open>C29. \<open>json_object_dotset_value\<close>, at every pattern of allocation failures: after success
  \<open>json_object_dotget_value\<close> finds the value under the dotted name; after failure the contents
  of the document are what they were; in both cases the document stays well formed and owns
  exactly what it should, the intermediate objects of a failed call released.\<close>

theorem dotset_dotget:
  assumes "wf_object ob" "wf_json v"
  shows "case json_object_dotset_value (Some ob) (Some nm) (Detached v) h of (st, obj', h') \<Rightarrow>
    \<exists>ob'. obj' = Some ob' \<and> wf_object ob' \<and>
      (st = JSONSuccess \<longrightarrow> json_object_dotget_value (Some ob') nm = Some v \<and>
         live h' = live h + oblocks ob' - oblocks ob - blocks v) \<and>
      (st = JSONFailure \<longrightarrow> contents (JSONObject_of ob') = contents (JSONObject_of ob) \<and>
         live h' = live h + oblocks ob' - oblocks ob)"
  using json_object_dotset_value_effect [OF assms, of nm h]
  by (auto simp: dotset_effect_def split: prod.splits)

theorem dotset_dotget_witness:
  "json_object_dotset_value (Some \<lparr>pairs = [], obj_capacity = 0\<rparr>) (Some ''a.b'') (Detached JSONNull) \<lparr>answers = [], live = 3\<rparr>
     = (JSONSuccess, Some \<lparr>pairs = [(''a'', JSONObject [(''b'', JSONNull)] 16)], obj_capacity = 16\<rparr>, \<lparr>answers = [], live = 11\<rparr>)
   \<and> json_object_dotget_value (Some \<lparr>pairs = [(''a'', JSONObject [(''b'', JSONNull)] 16)], obj_capacity = 16\<rparr>) ''a.b'' = Some JSONNull"
proof
  show run: "json_object_dotset_value (Some \<lparr>pairs = [], obj_capacity = 0\<rparr>) (Some ''a.b'') (Detached JSONNull) \<lparr>answers = [], live = 3\<rparr>
     = (JSONSuccess, Some \<lparr>pairs = [(''a'', JSONObject [(''b'', JSONNull)] 16)], obj_capacity = 16\<rparr>, \<lparr>answers = [], live = 11\<rparr>)"
    by code_simp
  show "json_object_dotget_value (Some \<lparr>pairs = [(''a'', JSONObject [(''b'', JSONNull)] 16)], obj_capacity = 16\<rparr>) ''a.b'' = Some JSONNull"
    using dotset_dotget [of "\<lparr>pairs = [], obj_capacity = 0\<rparr>" JSONNull "''a.b''" "\<lparr>answers = [], live = 3\<rparr>"]
    by (simp add: run JSONObject_of.simps)
qed

text \<open>\<open>json_object_dotremove\<close> succeeds exactly when the dotted name leads to a value;
  afterwards it leads nowhere, a failed call changes nothing, and the heap loses exactly the
  blocks the document no longer owns.\<close>

theorem dotremove_exact:
  assumes "wf_object ob"
  shows "case json_object_dotremove (Some ob) nm h of (st, obj', h') \<Rightarrow>
    (st = JSONSuccess \<longleftrightarrow> json_object_dotget_value (Some ob) nm \<noteq> None) \<and>
    (\<exists>ob'. obj' = Some ob' \<and> wf_object ob' \<and> live h' = live h + oblocks ob' - oblocks ob \<and>
       (st = JSONSuccess \<longrightarrow> json_object_dotget_value (Some ob') nm = None) \<and> (st = JSONFailure \<longrightarrow> ob' = ob))"
  using dotremove_effect [OF assms, of nm True h]
  by (auto simp: json_object_dotremove_def split: prod.splits option.splits)

theorem dotremove_exact_witness:
  "fst (json_object_dotremove (Some \<lparr>pairs = [(''a'', JSONObject [(''b'', JSONNull)] 16)], obj_capacity = 16\<rparr>) ''a.b'' \<lparr>answers = [], live = 11\<rparr>)
     = JSONSuccess"
proof -
  have "json_object_dotget_value (Some \<lparr>pairs = [(''a'', JSONObject [(''b'', JSONNull)] 16)], obj_capacity = 16\<rparr>) ''a.b'' = Some JSONNull"
    by code_simp
  then show ?thesis
    using dotremove_exact [of "\<lparr>pairs = [(''a'', JSONObject [(''b'', JSONNull)] 16)], obj_capacity = 16\<rparr>" "''a.b''" "\<lparr>answers = [], live = 11\<rparr>"]
    by (auto simp: JSONObject_of.simps split: prod.splits)
qed

text \<open>The functions that create a scalar and store it under a dotted name or in an array
  never leak: at every pattern of allocation failures, and for every text (valid UTF-8 or not),
  the live blocks change by what the container gained.\<close>

theorem fresh_setters_balanced:
  assumes "wf_object ob" "wf_array ar"
  shows "(case json_object_dotset_string (Some ob) (Some nm) str h of (st, obj', h') \<Rightarrow>
       \<exists>ob'. obj' = Some ob' \<and> wf_object ob' \<and> live h' = live h + oblocks ob' - oblocks ob) \<and>
     (case json_array_append_string (Some ar) str h of (st, arr', h') \<Rightarrow>
       \<exists>ar'. arr' = Some ar' \<and> wf_array ar' \<and> live h' = live h + ablocks ar' - ablocks ar) \<and>
     (case json_array_replace_string (Some ar) i str h of (st, arr', h') \<Rightarrow>
       \<exists>ar'. arr' = Some ar' \<and> wf_array ar' \<and> live h' = live h + ablocks ar' - ablocks ar)"
  unfolding json_object_dotset_string_def json_array_append_string_def json_array_replace_string_def
  using dotset_fresh_balanced [OF fresh_values(1) assms(1)]
    array_fresh_balanced [OF fresh_values(1) append_value_effect [OF assms(2)] assms(2)]
    array_fresh_balanced [OF fresh_values(1) replace_value_effect(1) [OF assms(2)] assms(2)]
  by (auto split: prod.splits)

theorem fresh_setters_balanced_witness:
  "json_array_append_string (Some \<lparr>items = [], arr_capacity = 0\<rparr>) (Some ''x'') \<lparr>answers = [True, True, False], live = 2\<rparr>
     = (JSONFailure, Some \<lparr>items = [], arr_capacity = 0\<rparr>, \<lparr>answers = [], live = 2\<rparr>)"
proof -
  let ?h = "\<lparr>answers = [True, True, False], live = 2\<rparr>" and ?ar = "\<lparr>items = [], arr_capacity = 0\<rparr>"
  have u: "is_valid_utf8 ''x'' (Suc 0)" using ascii_valid_utf8 [of "''x''"] by simp
  have run: "\<exists>n. json_array_append_string (Some ?ar) (Some ''x'') ?h = (JSONFailure, Some ?ar, \<lparr>answers = [], live = n\<rparr>)"
    by (simp add: json_array_append_string_def array_fresh_def json_array_append_value_def json_array_add_def
        json_array_resize_def STARTING_CAPACITY_def json_value_init_string_def json_value_init_string_no_copy_def
        parson_strndup_def malloc_def u strlen_def free_ptr_def free_blocks_def)
  then show ?thesis
    using fresh_setters_balanced [where ob = "\<lparr>pairs = [], obj_capacity = 0\<rparr>" and ar = ?ar and h = ?h
        and str = "Some ''x''"]
    by (auto simp: JSONObject_of.simps JSONArray_of.simps)
qed

text \<open>\<open>json_object_set_string\<close> has no such guarantee: called with no object, or with a name
  whose copy cannot be allocated, it reports failure and the string value it created is lost.
  Two blocks leak at every such call.\<close>

theorem set_string_leaks:
  assumes "plenty h" "is_valid_utf8 s (strlen s)"
  shows "json_object_set_string None (Some nm) (Some s) h = (JSONFailure, None, h\<lparr>live := live h + 2\<rparr>)"
proof -
  have "malloc h = (True, h\<lparr>live := live h + 1\<rparr>)" "malloc (h\<lparr>live := live h + 1\<rparr>) = (True, h\<lparr>live := live h + 2\<rparr>)"
    using assms(1) by (simp_all add: malloc_def plenty_def)
  then show ?thesis
    using assms(2)
    by (simp add: json_object_set_string_def json_value_init_string_def json_value_init_string_no_copy_def
        parson_strndup_def json_object_set_value_def fresh_ref_def)
qed

theorem set_string_leaks_witness:
  "json_object_set_string None (Some ''k'') (Some ''v'') \<lparr>answers = [], live = 0\<rparr> = (JSONFailure, None, \<lparr>answers = [], live = 2\<rparr>)"
proof -
  have "is_valid_utf8 ''v'' (strlen ''v'')" using ascii_valid_utf8 [of "''v''"] by (simp add: strlen_def)
  then show ?thesis using set_string_leaks [of "\<lparr>answers = [], live = 0\<rparr>" "''v''" "''k''"] by (simp add: plenty_def)
qed

end
