(* ===== verification/Parson_Parse.thy ===== *)
theory Parson_Parse
  imports Parson_Paths
begin

text \<open>
  The parser of \<^verbatim>\<open>common/json/parson.c\<close>. The pointer \<open>*string\<close> is the text from it on; a
  parse function returns the value with the text that is left, or fails. What \<open>*string\<close> is
  after a failure is not returned: every caller gives up then. The functions that call each
  other (\<open>parse_value\<close>, \<open>parse_object_value\<close>, \<open>parse_array_value\<close> and the loops of the last two)
  carry fuel, \<open>None\<close> meaning that it ran out; the lemmas show that \<open>3 n + 1\<close> is enough for a
  text of length \<open>n\<close> and that more fuel changes nothing, so \<open>json_parse_string\<close> always returns.

  The other lemmas: a failed parse leaks no heap block and a successful one owns exactly the
  blocks of its value; every value it returns is well formed and nested at most
  \<open>MAX_NESTING + 1\<close> deep; string processing stays inside the literal and inside its buffer.
\<close>

section \<open>Strings\<close>

definition MAX_NESTING :: nat where
  "MAX_NESTING = 2048"

definition SKIP_WHITESPACES :: "string \<Rightarrow> string" where
  "SKIP_WHITESPACES p = dropWhile isspace p"

fun skip_quotes_loop :: "string \<Rightarrow> string option" where
  "skip_quotes_loop [] = None"
| "skip_quotes_loop (c # cs) =
     (if c = CHR 0x22 then Some cs
      else if c = NUL then None
      else if c = CHR 0x5C then (case cs of [] \<Rightarrow> None | d # ds \<Rightarrow> if d = NUL then None else skip_quotes_loop ds)
      else skip_quotes_loop cs)"

definition skip_quotes :: "string \<Rightarrow> string option" where
  "skip_quotes p = (if cur p \<noteq> CHR 0x22 then None else skip_quotes_loop (tl p))"

text \<open>The one-character escapes.\<close>

definition simple_escape :: "char \<Rightarrow> char option" where
  "simple_escape c =
     (if c = CHR 0x22 then Some CHR 0x22 else if c = CHR 0x5C then Some CHR 0x5C
      else if c = CHR ''/'' then Some CHR ''/'' else if c = CHR ''b'' then Some CHR 0x08
      else if c = CHR ''f'' then Some CHR 0x0C else if c = CHR ''n'' then Some CHR 0x0A
      else if c = CHR ''r'' then Some CHR 0x0D else if c = CHR ''t'' then Some CHR 0x09
      else None)"

text \<open>The loop of \<open>process_string\<close>: \<open>p\<close> is the text from \<open>input_ptr\<close> on, \<open>r\<close> the number of
  characters left of \<open>len\<close>, \<open>out\<close> what is in the output buffer.\<close>

function process_string_loop :: "string \<Rightarrow> nat \<Rightarrow> string \<Rightarrow> string option" where
  "process_string_loop p r out =
     (if cur p = NUL \<or> r = 0 then Some out
      else if cur p = CHR 0x5C then
        (case simple_escape (nthc p 1) of
           Some c \<Rightarrow> process_string_loop (drop 2 p) (r - 2) (out @ [c])
         | None \<Rightarrow>
             if nthc p 1 = CHR ''u'' then
               (case parse_utf16 (drop 1 p) of
                  None \<Rightarrow> None
                | Some (w, adv) \<Rightarrow> process_string_loop (drop (adv + 2) p) (r - (adv + 2)) (out @ w))
             else None)
      else if byte (cur p) < 0x20 then None
      else process_string_loop (drop 1 p) (r - 1) (out @ [cur p]))"
  by pat_completeness auto
termination
  by (relation "measure (\<lambda>(p, r, out). r)") simp_all

declare process_string_loop.simps [simp del]

definition process_string :: "string \<Rightarrow> nat \<Rightarrow> heap \<Rightarrow> string option \<times> heap" where
  "process_string input len h =
     (case malloc h of
        (False, h1) \<Rightarrow> (None, free_ptr False h1)
      | (True, h1) \<Rightarrow>
          (case process_string_loop input len [] of
             None \<Rightarrow> (None, free_ptr True h1)
           | Some output \<Rightarrow>
               (case malloc h1 of
                  (False, h2) \<Rightarrow> (None, free_ptr True h2)
                | (True, h2) \<Rightarrow> (Some (cstr output), free_ptr True h2))))"

definition get_quoted_string :: "string \<Rightarrow> heap \<Rightarrow> (string \<times> string) option \<times> heap" where
  "get_quoted_string p h =
     (case skip_quotes p of
        None \<Rightarrow> (None, h)
      | Some rest \<Rightarrow>
          let string_len = length p - length rest - 2 in
          (case process_string (drop 1 p) string_len h of
             (None, h1) \<Rightarrow> (None, h1)
           | (Some s, h1) \<Rightarrow> (Some (s, rest), h1)))"

section \<open>Scalars\<close>

definition parse_string_value :: "string \<Rightarrow> heap \<Rightarrow> (json_value \<times> string) option \<times> heap" where
  "parse_string_value p h =
     (case get_quoted_string p h of
        (None, h1) \<Rightarrow> (None, h1)
      | (Some (s, rest), h1) \<Rightarrow>
          (case json_value_init_string_no_copy s h1 of
             (None, h2) \<Rightarrow> (None, free_ptr True h2)
           | (Some v, h2) \<Rightarrow> (Some (v, rest), h2)))"

text \<open>A new value together with the text after its token.\<close>

definition with_rest :: "string \<Rightarrow> json_value option \<times> heap \<Rightarrow> (json_value \<times> string) option \<times> heap" where
  "with_rest rest r = (map_option (\<lambda>v. (v, rest)) (fst r), snd r)"

definition parse_boolean_value :: "string \<Rightarrow> heap \<Rightarrow> (json_value \<times> string) option \<times> heap" where
  "parse_boolean_value p h =
     (if strneq ''true'' p 4 then with_rest (drop 4 p) (json_value_init_boolean 1 h)
      else if strneq ''false'' p 5 then with_rest (drop 5 p) (json_value_init_boolean 0 h)
      else (None, h))"

definition parse_number_value :: "string \<Rightarrow> heap \<Rightarrow> (json_value \<times> string) option \<times> heap" where
  "parse_number_value p h =
     (case strtod p of (number, errno, n) \<Rightarrow>
        if errno \<or> \<not> is_decimal p n then (None, h)
        else with_rest (drop n p) (json_value_init_number number h))"

definition parse_null_value :: "string \<Rightarrow> heap \<Rightarrow> (json_value \<times> string) option \<times> heap" where
  "parse_null_value p h =
     (if strneq ''null'' p 4 then with_rest (drop 4 p) (json_value_init_null h) else (None, h))"

section \<open>Containers\<close>

type_synonym parse_result = "(json_value \<times> string) option \<times> heap"

text \<open>What follows the loop of \<open>parse_object_value\<close>: the closing brace, and the trim.\<close>

definition parse_object_end :: "json_object \<Rightarrow> string \<Rightarrow> heap \<Rightarrow> parse_result" where
  "parse_object_end ob s h =
     (let s1 = SKIP_WHITESPACES s in
      if cur s1 \<noteq> CHR ''}'' then (None, json_value_free (JSONObject_of ob) h)
      else case json_object_resize ob (json_object_get_count (Some ob)) h of
             (JSONFailure, ob1, h1) \<Rightarrow> (None, json_value_free (JSONObject_of ob1) h1)
           | (JSONSuccess, ob1, h1) \<Rightarrow> (Some (JSONObject_of ob1, tl s1), h1))"

definition parse_array_end :: "json_array \<Rightarrow> string \<Rightarrow> heap \<Rightarrow> parse_result" where
  "parse_array_end ar s h =
     (let s1 = SKIP_WHITESPACES s in
      if cur s1 \<noteq> CHR '']'' then (None, json_value_free (JSONArray_of ar) h)
      else case json_array_resize ar (json_array_get_count (Some ar)) h of
             (JSONFailure, ar1, h1) \<Rightarrow> (None, json_value_free (JSONArray_of ar1) h1)
           | (JSONSuccess, ar1, h1) \<Rightarrow> (Some (JSONArray_of ar1, tl s1), h1))"

text \<open>The loop body of \<open>parse_object_value\<close> up to the call of \<open>parse_value\<close>: the key and the
  colon. \<open>Inl\<close> is a \<open>return\<close> out of the loop, \<open>Inr\<close> goes on.\<close>

definition parse_object_key :: "json_object \<Rightarrow> string \<Rightarrow> heap \<Rightarrow> parse_result + string \<times> string \<times> heap" where
  "parse_object_key ob s h =
     (case get_quoted_string s h of
        (None, h1) \<Rightarrow> Inl (None, json_value_free (JSONObject_of ob) h1)
      | (Some (new_key, s1), h1) \<Rightarrow>
          let s2 = SKIP_WHITESPACES s1 in
          if cur s2 \<noteq> CHR '':'' then Inl (None, json_value_free (JSONObject_of ob) (free_ptr True h1))
          else Inr (new_key, tl s2, h1))"

text \<open>The rest of the loop body: what \<open>parse_value\<close> returned is added, and a comma goes on.\<close>

definition parse_object_member :: "json_object \<Rightarrow> string \<Rightarrow> parse_result \<Rightarrow> parse_result + json_object \<times> string \<times> heap" where
  "parse_object_member ob new_key r =
     (case r of
        (None, h2) \<Rightarrow> Inl (None, json_value_free (JSONObject_of ob) (free_ptr True h2))
      | (Some (new_value, s3), h2) \<Rightarrow>
          (case json_object_add (Some ob) (Some new_key) (Some new_value) h2 of
             (JSONSuccess, Some ob1, h3) \<Rightarrow>
               (let h4 = free_ptr True h3; s4 = SKIP_WHITESPACES s3 in
                if cur s4 \<noteq> CHR '','' then Inl (parse_object_end ob1 s4 h4)
                else Inr (ob1, SKIP_WHITESPACES (tl s4), h4))
           | (_, ob1, h3) \<Rightarrow>
               Inl (None, free_value_ptr (map_option JSONObject_of ob1)
                            (json_value_free new_value (free_ptr True h3)))))"

text \<open>\<open>parse_object_value\<close> up to its loop.\<close>

definition parse_object_start :: "string \<Rightarrow> heap \<Rightarrow> parse_result + json_object \<times> string \<times> heap" where
  "parse_object_start s h =
     (case json_value_init_object h of
        (None, h1) \<Rightarrow> Inl (None, h1)
      | (Some output_value, h1) \<Rightarrow>
          if cur s \<noteq> CHR ''{'' then Inl (None, json_value_free output_value h1)
          else let p = SKIP_WHITESPACES (tl s) in
               if cur p = CHR ''}'' then Inl (Some (output_value, tl p), h1)
               else (case json_value_get_object (Some output_value) of
                       None \<Rightarrow> Inl (None, h1)
                     | Some output_object \<Rightarrow> Inr (output_object, p, h1)))"

definition parse_array_start :: "string \<Rightarrow> heap \<Rightarrow> parse_result + json_array \<times> string \<times> heap" where
  "parse_array_start s h =
     (case json_value_init_array h of
        (None, h1) \<Rightarrow> Inl (None, h1)
      | (Some output_value, h1) \<Rightarrow>
          if cur s \<noteq> CHR ''['' then Inl (None, json_value_free output_value h1)
          else let p = SKIP_WHITESPACES (tl s) in
               if cur p = CHR '']'' then Inl (Some (output_value, tl p), h1)
               else (case json_value_get_array (Some output_value) of
                       None \<Rightarrow> Inl (None, h1)
                     | Some output_array \<Rightarrow> Inr (output_array, p, h1)))"

definition parse_array_item :: "json_array \<Rightarrow> parse_result \<Rightarrow> parse_result + json_array \<times> string \<times> heap" where
  "parse_array_item ar r =
     (case r of
        (None, h1) \<Rightarrow> Inl (None, json_value_free (JSONArray_of ar) h1)
      | (Some (new_array_value, s1), h1) \<Rightarrow>
          (case json_array_add ar new_array_value h1 of
             (JSONFailure, ar1, h2) \<Rightarrow>
               Inl (None, json_value_free (JSONArray_of ar1) (json_value_free new_array_value h2))
           | (JSONSuccess, ar1, h2) \<Rightarrow>
               (let s2 = SKIP_WHITESPACES s1 in
                if cur s2 \<noteq> CHR '','' then Inl (parse_array_end ar1 s2 h2)
                else Inr (ar1, SKIP_WHITESPACES (tl s2), h2))))"

text \<open>The scalar cases of the \<open>switch\<close> of \<open>parse_value\<close>.\<close>

definition parse_scalar :: "string \<Rightarrow> heap \<Rightarrow> parse_result" where
  "parse_scalar p h =
     (let c = cur p in
      if c = CHR 0x22 then parse_string_value p h
      else if c = CHR ''f'' \<or> c = CHR ''t'' then parse_boolean_value p h
      else if c = CHR ''-'' \<or> isdigit c then parse_number_value p h
      else if c = CHR ''n'' then parse_null_value p h
      else (None, h))"

function (sequential) parse_value :: "nat \<Rightarrow> nat \<Rightarrow> string \<Rightarrow> heap \<Rightarrow> parse_result option"
  and parse_object_value :: "nat \<Rightarrow> nat \<Rightarrow> string \<Rightarrow> heap \<Rightarrow> parse_result option"
  and parse_object_loop :: "nat \<Rightarrow> nat \<Rightarrow> json_object \<Rightarrow> string \<Rightarrow> heap \<Rightarrow> parse_result option"
  and parse_array_value :: "nat \<Rightarrow> nat \<Rightarrow> string \<Rightarrow> heap \<Rightarrow> parse_result option"
  and parse_array_loop :: "nat \<Rightarrow> nat \<Rightarrow> json_array \<Rightarrow> string \<Rightarrow> heap \<Rightarrow> parse_result option" where
  "parse_value 0 nesting s h = None"
| "parse_value (Suc n) nesting s h =
     (if nesting > MAX_NESTING then Some (None, h)
      else let p = SKIP_WHITESPACES s in
           if cur p = CHR ''{'' then parse_object_value n (nesting + 1) p h
           else if cur p = CHR ''['' then parse_array_value n (nesting + 1) p h
           else Some (parse_scalar p h))"
| "parse_object_value 0 nesting s h = None"
| "parse_object_value (Suc n) nesting s h =
     (case parse_object_start s h of
        Inl r \<Rightarrow> Some r
      | Inr (ob, p, h1) \<Rightarrow> parse_object_loop n nesting ob p h1)"
| "parse_object_loop 0 nesting ob s h = None"
| "parse_object_loop (Suc n) nesting ob s h =
     (if cur s = NUL then Some (parse_object_end ob s h)
      else case parse_object_key ob s h of
             Inl r \<Rightarrow> Some r
           | Inr (new_key, s2, h1) \<Rightarrow>
               (case parse_value n nesting s2 h1 of
                  None \<Rightarrow> None
                | Some r \<Rightarrow>
                    (case parse_object_member ob new_key r of
                       Inl r' \<Rightarrow> Some r'
                     | Inr (ob1, s3, h3) \<Rightarrow> parse_object_loop n nesting ob1 s3 h3)))"
| "parse_array_value 0 nesting s h = None"
| "parse_array_value (Suc n) nesting s h =
     (case parse_array_start s h of
        Inl r \<Rightarrow> Some r
      | Inr (ar, p, h1) \<Rightarrow> parse_array_loop n nesting ar p h1)"
| "parse_array_loop 0 nesting ar s h = None"
| "parse_array_loop (Suc n) nesting ar s h =
     (if cur s = NUL then Some (parse_array_end ar s h)
      else case parse_value n nesting s h of
             None \<Rightarrow> None
           | Some r \<Rightarrow>
               (case parse_array_item ar r of
                  Inl r' \<Rightarrow> Some r'
                | Inr (ar1, s2, h2) \<Rightarrow> parse_array_loop n nesting ar1 s2 h2))"
  by pat_completeness auto
termination
  by (relation "measure (case_sum (case_sum fst fst) (case_sum fst (case_sum fst fst)))") simp_all

text \<open>The fuel that is enough for a text.\<close>

definition parse_fuel :: "string \<Rightarrow> nat" where
  "parse_fuel s = 3 * length s + 1"

definition json_parse_string :: "string option \<Rightarrow> heap \<Rightarrow> (json_value option \<times> heap) option" where
  "json_parse_string str h =
     (case str of
        None \<Rightarrow> Some (None, h)
      | Some s \<Rightarrow>
          let s1 = (if nthc s 0 = CHR 0xEF \<and> nthc s 1 = CHR 0xBB \<and> nthc s 2 = CHR 0xBF then drop 3 s else s)
          in map_option (map_prod (map_option fst) id) (parse_value (parse_fuel s1) 0 s1 h))"

definition json_parse_string_with_comments :: "string \<Rightarrow> heap \<Rightarrow> (json_value option \<times> heap) option" where
  "json_parse_string_with_comments s h =
     (case parson_strdup s h of
        (None, h1) \<Rightarrow> Some (None, h1)
      | (Some copy, h1) \<Rightarrow>
          let t = remove_comments (remove_comments copy ''/*'' ''*/'') ''//'' [CHR 0x0A]
          in map_option (map_prod (map_option fst) (free_ptr True)) (parse_value (parse_fuel t) 0 t h1))"

text \<open>\<open>json_parse_file\<close> and its sibling, on what \<open>read_file\<close> returned.\<close>

definition json_parse_file :: "string option \<Rightarrow> heap \<Rightarrow> (json_value option \<times> heap) option" where
  "json_parse_file file_contents h =
     (case file_contents of
        None \<Rightarrow> Some (None, h)
      | Some t \<Rightarrow> map_option (map_prod id (free_ptr True)) (json_parse_string (Some t) h))"

definition json_parse_file_with_comments :: "string option \<Rightarrow> heap \<Rightarrow> (json_value option \<times> heap) option" where
  "json_parse_file_with_comments file_contents h =
     (case file_contents of
        None \<Rightarrow> Some (None, h)
      | Some t \<Rightarrow> map_option (map_prod id (free_ptr True)) (json_parse_string_with_comments t h))"

section \<open>Numbers that strtod returns\<close>

lemma round_to_double_canonical:
  assumes "0 < d"
  shows "canonical (fst (round_to_double neg n d))"
proof (cases "n = 0")
  case False
  define e where "e = max (ratio_log 2 n d - 52) (- 1074)"
  obtain n' d' where s: "scale 2 e n d = (n', d')" by fastforce
  define y where "y = real n / real d"
  have d': "0 < d'" and q: "real n' / real d' = y / 2 powi e"
    using scale_ratio [OF s] assms by (auto simp: y_def)
  have lo: "2 powi ratio_log 2 n d \<le> y" and hi: "y < 2 powi (ratio_log 2 n d + 1)"
    using ratio_log_bounds [of 2 n d] False assms by (auto simp: y_def)
  have "ratio_log 2 n d + 1 \<le> e + 53" by (simp add: e_def)
  then have "(2::real) powi (ratio_log 2 n d + 1) \<le> 2 powi (e + 53)" by (intro power_int_increasing) simp_all
  then have "y < 2 powi e * 2 ^ 53" using hi by simp
  then have "real n' / real d' < 2 ^ 53" unfolding q by (simp add: divide_less_eq mult.commute)
  moreover define m where "m = round_half_even n' d'"
  ultimately have "real m < 2 ^ 53 + 1" using round_half_even_bound [OF d', of n'] unfolding m_def by linarith
  then have m: "m \<le> 2 ^ 53" by simp
  have "2 ^ 52 \<le> m" if "e \<noteq> - 1074"
  proof -
    have "e + 52 = ratio_log 2 n d" using that by (auto simp: e_def max_def split: if_splits)
    then have "2 powi e * 2 ^ 52 \<le> y" using lo real_powi_add [of 2 e 52] by simp
    then have "2 ^ 52 \<le> real n' / real d'" unfolding q by (simp add: le_divide_eq mult.commute)
    then have "2 ^ 52 - 1 < real m" using round_half_even_bound [OF d', of n'] unfolding m_def by linarith
    then show ?thesis by simp
  qed
  then show ?thesis
    using False m unfolding round_to_double_def e_def [symmetric]
    by (auto simp: Let_def s m_def [symmetric] e_def [symmetric] split: if_splits) (auto simp: e_def)
qed (simp add: round_to_double_def)

lemma strtod_canonical: "canonical (fst (strtod p))"
proof -
  have c: "canonical v" if "strtod_unsigned neg q = Some (v, er, r)" for neg q v er r
  proof -
    have sc: "0 < snd (scale b k m 1)" if "0 < b" for b k m using that by (simp add: scale_def)
    show ?thesis
      using that round_to_double_canonical [OF sc [of 2]] round_to_double_canonical [OF sc [of 10]]
      unfolding strtod_unsigned_def
      by (auto simp: Let_def split: option.splits if_splits prod.splits) (metis fst_conv snd_conv zero_less_numeral)+
  qed
  show ?thesis
    using c by (auto simp: strtod_def Let_def dzero_def split: option.splits)
qed

section \<open>String literals\<close>

text \<open>\<open>skip_quotes\<close> finds exactly the literal at the start of the text.\<close>

lemma skip_quotes_loop_literal: "literal_body b \<Longrightarrow> skip_quotes_loop (b @ CHR 0x22 # r) = Some r"
proof (induction b rule: literal_body.induct)
  case (2 c cs)
  then show ?case by (cases cs) (auto split: if_splits)
qed simp

lemma skip_quotes_loop_Some:
  "skip_quotes_loop p = Some r \<Longrightarrow> \<exists>b. p = b @ CHR 0x22 # r \<and> literal_body b"
proof (induction p rule: skip_quotes_loop.induct)
  case (2 c cs)
  consider "c = CHR 0x22" | "c = CHR 0x5C" | "c \<noteq> CHR 0x22" "c \<noteq> CHR 0x5C" by blast
  then show ?case
  proof cases
    case 1
    then show ?thesis using 2 by (intro exI [of _ "[]"]) simp
  next
    case c: 2
    then obtain d ds where cs: "cs = d # ds" "d \<noteq> NUL" "skip_quotes_loop ds = Some r"
      using "2.prems" by (auto split: list.splits if_splits)
    then obtain b where "ds = b @ CHR 0x22 # r" "literal_body b" using 2 c by auto
    then show ?thesis using cs c by (intro exI [of _ "c # d # b"]) simp
  next
    case 3
    then have "c \<noteq> NUL" "skip_quotes_loop cs = Some r" using "2.prems" by (auto split: if_splits)
    then obtain b where "cs = b @ CHR 0x22 # r" "literal_body b" using 2 3 by auto
    then show ?thesis using 3 \<open>c \<noteq> NUL\<close> by (intro exI [of _ "c # b"]) simp
  qed
qed simp

lemma skip_quotes_iff:
  "skip_quotes p = Some r \<longleftrightarrow> (\<exists>b. p = CHR 0x22 # b @ CHR 0x22 # r \<and> literal_body b)"
  using skip_quotes_loop_literal skip_quotes_loop_Some
  by (cases p) (auto simp: skip_quotes_def)

text \<open>Inside a literal an escape cannot reach past the closing quote.\<close>

lemma hex_not_quote: "hex_char_to_int CHR 0x22 = -1" "hex_char_to_int CHR 0x5C = -1" "hex_char_to_int NUL = -1"
  by (simp_all add: hex_char_to_int_def)

lemma parse_utf16_hex_inside:
  assumes "parse_utf16_hex (b @ CHR 0x22 # r) = Some u"
  obtains b0 b1 b2 b3 bs where "b = b0 # b1 # b2 # b3 # bs" "literal_body b \<Longrightarrow> literal_body bs"
    "\<And>r'. parse_utf16_hex (b @ CHR 0x22 # r') = Some u"
proof -
  have "\<exists>b0 b1 b2 b3 bs. b = b0 # b1 # b2 # b3 # bs"
    using assms hex_not_quote(1)
    by (cases b; cases "tl b"; cases "tl (tl b)"; cases "tl (tl (tl b))")
      (auto simp: parse_utf16_hex_def Let_def split: if_splits)
  then obtain b0 b1 b2 b3 bs where b: "b = b0 # b1 # b2 # b3 # bs" by blast
  have ne: "b0 \<noteq> CHR 0x5C" "b1 \<noteq> CHR 0x5C" "b2 \<noteq> CHR 0x5C" "b3 \<noteq> CHR 0x5C"
    using assms hex_not_quote(2) by (auto simp: parse_utf16_hex_def b split: if_splits)
  have "parse_utf16_hex (b @ CHR 0x22 # r') = parse_utf16_hex (b @ CHR 0x22 # r)" for r'
    by (simp add: parse_utf16_hex_def b)
  then show thesis
    using assms ne by (intro that [OF b]) (simp_all add: b)
qed

lemma parse_utf16_inside:
  assumes "parse_utf16 (CHR ''u'' # b @ CHR 0x22 # r) = Some (w, adv)" "literal_body b"
  shows "adv \<le> length b" "literal_body (drop adv b)" "length w \<le> adv"
    "parse_utf16 (CHR ''u'' # b @ CHR 0x22 # r') = Some (w, adv)"
proof -
  let ?p = "CHR ''u'' # b @ CHR 0x22 # r" and ?p' = "CHR ''u'' # b @ CHR 0x22 # r'"
  obtain cp where cp: "escape_code_point ?p = Some cp" and w: "w = utf8_encode cp" and adv: "adv = (if cp < 0x10000 then 4 else 10)"
    using assms(1) by (auto simp: parse_utf16_iff)
  obtain u where u: "parse_utf16_hex (b @ CHR 0x22 # r) = Some u"
    using cp by (auto simp: escape_code_point_def split: option.splits)
  from u obtain b0 b1 b2 b3 bs where b: "b = b0 # b1 # b2 # b3 # bs" and bs: "literal_body bs"
    and u': "\<And>r'. parse_utf16_hex (b @ CHR 0x22 # r') = Some u"
    by (rule parse_utf16_hex_inside) (use assms(2) in auto)
  have ecp: "escape_code_point (CHR ''u'' # b @ CHR 0x22 # q) =
      (if u < 0xD800 \<or> 0xDFFF < u then Some u
       else if u \<le> 0xDBFF \<and> nthc (bs @ CHR 0x22 # q) 0 = CHR 0x5C \<and> nthc (bs @ CHR 0x22 # q) 1 = CHR ''u''
       then (case parse_utf16_hex (drop 2 (bs @ CHR 0x22 # q)) of
               Some t \<Rightarrow> if 0xDC00 \<le> t \<and> t \<le> 0xDFFF then Some (0x10000 + (u - 0xD800) * 1024 + (t - 0xDC00)) else None
             | None \<Rightarrow> None)
       else None)" for q
    using u' [of q] by (simp add: escape_code_point_def b)
  have "adv \<le> length b \<and> literal_body (drop adv b) \<and> escape_code_point ?p' = Some cp"
  proof (cases "u < 0xD800 \<or> 0xDFFF < u")
    case True
    moreover have "u < 0x10000" using parse_utf16_hex_arith(2) [OF u] .
    ultimately show ?thesis using ecp [of r] ecp [of r'] cp bs adv by (auto simp: b)
  next
    case False
    have n: "nthc (bs @ CHR 0x22 # r) 0 = CHR 0x5C" "nthc (bs @ CHR 0x22 # r) 1 = CHR ''u''" "u \<le> 0xDBFF"
      using False cp ecp [of r] by (auto split: if_splits)
    then obtain b5 where b5: "bs = CHR 0x5C # CHR ''u'' # b5" "literal_body b5"
      using bs by (cases bs; cases "tl bs") (auto split: if_splits)
    obtain t where t: "parse_utf16_hex (b5 @ CHR 0x22 # r) = Some t" "0xDC00 \<le> t \<and> t \<le> 0xDFFF"
      and cp2: "cp = 0x10000 + (u - 0xD800) * 1024 + (t - 0xDC00)"
      using False n cp ecp [of r] by (auto simp: b5 split: option.splits if_splits)
    from t(1) obtain c0 c1 c2 c3 cs where c: "b5 = c0 # c1 # c2 # c3 # cs" and cs: "literal_body cs"
      and t': "\<And>r'. parse_utf16_hex (b5 @ CHR 0x22 # r') = Some t"
      by (rule parse_utf16_hex_inside) (use b5(2) in auto)
    have "escape_code_point ?p' = Some cp"
      using ecp [of r'] False n(3) t(2) t' [of r'] by (simp add: b5(1) cp2)
    then show ?thesis using cp2 adv cs by (simp add: b b5(1) c)
  qed
  then show "adv \<le> length b" "literal_body (drop adv b)" "parse_utf16 ?p' = Some (w, adv)"
    using w adv by (auto simp: parse_utf16_iff)
  show "length w \<le> adv" using w adv by (auto simp: utf8_encode_def)
qed

text \<open>Processing a literal reads only the literal and writes no more characters than it has.\<close>

lemma process_string_loop_inside:
  assumes "literal_body b" "process_string_loop (b @ CHR 0x22 # r) (length b) out = Some s"
  shows "length s \<le> length out + length b \<and> process_string_loop (b @ CHR 0x22 # r') (length b) out = Some s"
  using assms
proof (induction "length b" arbitrary: b out rule: less_induct)
  case less
  note ps = process_string_loop.simps
  show ?case
  proof (cases b)
    case Nil
    then show ?thesis using less by (simp add: ps)
  next
    case (Cons c cs)
    have c: "c \<noteq> NUL" "c \<noteq> CHR 0x22" using less.prems(1) Cons by auto
    show ?thesis
    proof (cases "c = CHR 0x5C")
      case False
      then have lb: "literal_body cs" using less.prems(1) Cons by simp
      have step: "process_string_loop (b @ CHR 0x22 # q) (length b) out = (if byte c < 0x20 then None
          else process_string_loop (cs @ CHR 0x22 # q) (length cs) (out @ [c]))" for q
        using False c by (subst ps) (simp add: Cons)
      show ?thesis using less.hyps [of cs "out @ [c]"] lb less.prems(2) step Cons by (auto split: if_splits)
    next
      case True
      then obtain d ds where cs: "cs = d # ds" "literal_body ds"
        using less.prems(1) Cons by (auto split: list.splits)
      show ?thesis
      proof (cases "simple_escape d")
        case (Some e)
        have step: "process_string_loop (b @ CHR 0x22 # q) (length b) out = process_string_loop (ds @ CHR 0x22 # q) (length ds) (out @ [e])" for q
          using True Some by (subst ps) (simp add: Cons cs)
        show ?thesis using less.hyps [of ds "out @ [e]"] cs less.prems(2) step Cons by auto
      next
        case None
        have step: "process_string_loop (b @ CHR 0x22 # q) (length b) out =
          (if d = CHR ''u'' then case parse_utf16 (CHR ''u'' # ds @ CHR 0x22 # q) of None \<Rightarrow> None
             | Some (w, adv) \<Rightarrow> process_string_loop (drop adv (ds @ CHR 0x22 # q)) (length ds - adv) (out @ w)
           else None)" for q
          using True None by (subst ps) (simp add: Cons cs split: option.split)
        obtain w adv where w: "parse_utf16 (CHR ''u'' # ds @ CHR 0x22 # r) = Some (w, adv)" and d: "d = CHR ''u''"
          using step [of r] less.prems(2) by (auto split: if_splits option.splits)
        note i = parse_utf16_inside [OF w cs(2)]
        have "process_string_loop (drop adv ds @ CHR 0x22 # r) (length (drop adv ds)) (out @ w) = Some s"
          using step [of r] w d less.prems(2) i(1) by simp
        moreover have "length (drop adv ds) < length b" using Cons cs by simp
        ultimately have ih: "length s \<le> length (out @ w) + length (drop adv ds)"
          "process_string_loop (drop adv ds @ CHR 0x22 # r') (length (drop adv ds)) (out @ w) = Some s"
          using less.hyps [of "drop adv ds" "out @ w"] i(2) by blast+
        have "length s \<le> length out + length b" using ih(1) i(1,3) Cons cs by simp
        then show ?thesis using ih(2) step [of r'] i(1) i(4) [of r'] d by simp
      qed
    qed
  qed
qed

section \<open>What the parts of the parser return\<close>

text \<open>Nesting depth.\<close>

fun depth :: "json_value \<Rightarrow> nat" where
  "depth (JSONObject fs c) = Suc (foldr max (map (\<lambda>f. depth (snd f)) fs) 0)"
| "depth (JSONArray xs c) = Suc (foldr max (map depth xs) 0)"
| "depth _ = 0"

lemma foldr_max_le: "foldr max xs 0 \<le> (d::nat) \<longleftrightarrow> (\<forall>x \<in> set xs. x \<le> d)"
  by (induction xs) auto

text \<open>The live blocks a result leaves beside its value, and what a result may be.\<close>

definition surplus :: "parse_result \<Rightarrow> int" where
  "surplus r = live (snd r) - (case fst r of None \<Rightarrow> 0 | Some (v, _) \<Rightarrow> blocks v)"

definition good :: "nat \<Rightarrow> nat \<Rightarrow> parse_result \<Rightarrow> bool" where
  "good d L r = (case fst r of None \<Rightarrow> True
     | Some (v, rest) \<Rightarrow> wf_json v \<and> depth v \<le> d \<and> length rest \<le> L)"

lemma surplus_simps [simp]:
  "surplus (None, h) = live h" "surplus (Some (v, rest), h) = live h - blocks v"
  by (simp_all add: surplus_def)

lemma good_simps [simp]:
  "good d L (None, h)" "good d L (Some (v, rest), h) \<longleftrightarrow> wf_json v \<and> depth v \<le> d \<and> length rest \<le> L"
  by (simp_all add: good_def)

lemma good_mono: "good d L r \<Longrightarrow> d \<le> d' \<Longrightarrow> L \<le> L' \<Longrightarrow> good d' L' r"
  by (auto simp: good_def split: option.splits)

lemma SKIP_le: "length (SKIP_WHITESPACES p) \<le> length p"
  by (simp add: SKIP_WHITESPACES_def dropWhile_length_le)

lemma cur_not_NUL: "cur p \<noteq> NUL \<Longrightarrow> p \<noteq> []"
  by (cases p) auto

lemma cur_tl_less: "cur p = c \<Longrightarrow> c \<noteq> NUL \<Longrightarrow> length (tl p) < length p"
  by (cases p) auto

lemma process_string_cases:
  obtains h1 where "process_string input len h = (None, h1)" "live h1 = live h"
  | h1 s where "process_string input len h = (Some (cstr s), h1)" "live h1 = live h + 1"
      "process_string_loop input len [] = Some s"
proof (cases rule: malloc_cases [of h])
  case (1 h1)
  show thesis
  proof (cases "process_string_loop input len []")
    case None
    then show thesis using 1 that(1) by (simp add: process_string_def)
  next
    case (Some s)
    then show thesis
      using 1 that by (cases rule: malloc_cases [of h1]) (auto simp: process_string_def)
  qed
next
  case (2 h1)
  then show thesis using that(1) by (simp add: process_string_def)
qed

lemma get_quoted_string_cases:
  obtains h1 where "get_quoted_string p h = (None, h1)" "live h1 = live h"
  | h1 b s r where "get_quoted_string p h = (Some (cstr s, r), h1)" "live h1 = live h + 1"
      "p = CHR 0x22 # b @ CHR 0x22 # r" "literal_body b"
      "process_string_loop (b @ CHR 0x22 # r) (length b) [] = Some s"
proof (cases "skip_quotes p")
  case None
  then show thesis using that(1) by (simp add: get_quoted_string_def)
next
  case (Some r)
  then obtain b where b: "p = CHR 0x22 # b @ CHR 0x22 # r" "literal_body b" by (auto simp: skip_quotes_iff)
  show thesis
    by (cases rule: process_string_cases [of "b @ CHR 0x22 # r" "length b" h])
      (use b Some that in \<open>auto simp: get_quoted_string_def\<close>)
qed

lemma parse_string_value_good:
  "surplus (parse_string_value p h) = live h" "good d (length p) (parse_string_value p h)"
proof -
  have "surplus (parse_string_value p h) = live h \<and> good d (length p) (parse_string_value p h)"
  proof (cases rule: get_quoted_string_cases [of p h])
    case (2 h1 b s r)
    then show ?thesis
      by (cases rule: malloc_cases [of h1]) (auto simp: parse_string_value_def json_value_init_string_no_copy_def)
  qed (simp add: parse_string_value_def)
  then show "surplus (parse_string_value p h) = live h" "good d (length p) (parse_string_value p h)" by auto
qed

lemma with_rest_surplus: "fresh_value h r \<Longrightarrow> surplus (with_rest rest r) = live h"
  by (cases r; cases "fst r") (auto simp: with_rest_def fresh_value_def balanced_new_def surplus_def)

lemma with_rest_good:
  "fresh_value h r \<Longrightarrow> (\<And>v. fst r = Some v \<Longrightarrow> depth v \<le> d) \<Longrightarrow> length rest \<le> L \<Longrightarrow> good d L (with_rest rest r)"
  by (cases r; cases "fst r") (auto simp: with_rest_def fresh_value_def good_def)

lemma scalar_depth:
  "fst (json_value_init_boolean b h) = Some v \<Longrightarrow> depth v = 0"
  "fst (json_value_init_number x h) = Some v \<Longrightarrow> depth v = 0"
  "fst (json_value_init_null h) = Some v \<Longrightarrow> depth v = 0"
  by (auto simp: json_value_init_boolean_def json_value_init_number_def json_value_init_null_def
      split: prod.splits bool.splits if_splits)

lemma parse_scalar_good: "surplus (parse_scalar p h) = live h \<and> good d (length p) (parse_scalar p h)"
proof -
  note f = fresh_values(2,3) [of h] fresh_values(4) [OF strtod_canonical [of p], of h]
  have b: "surplus (parse_boolean_value p h) = live h \<and> good d (length p) (parse_boolean_value p h)"
    using f scalar_depth(1) by (auto simp: parse_boolean_value_def with_rest_surplus intro!: with_rest_good [where h = h])
  have n: "surplus (parse_null_value p h) = live h \<and> good d (length p) (parse_null_value p h)"
    using f scalar_depth(3) by (auto simp: parse_null_value_def with_rest_surplus intro!: with_rest_good [where h = h])
  have "surplus (parse_number_value p h) = live h \<and> good d (length p) (parse_number_value p h)"
    using f(3) scalar_depth(2)
    by (auto simp: parse_number_value_def with_rest_surplus intro!: with_rest_good [where h = h] split: prod.splits)
  with b n show ?thesis
    using parse_string_value_good by (simp add: parse_scalar_def Let_def)
qed

lemma depth_object_le:
  "depth (JSONObject_of ob) \<le> Suc d \<longleftrightarrow> (\<forall>f \<in> set (pairs ob). depth (snd f) \<le> d)"
  "depth (JSONArray_of ar) \<le> Suc d \<longleftrightarrow> (\<forall>v \<in> set (items ar). depth v \<le> d)"
  by (simp_all add: JSONObject_of.simps JSONArray_of.simps foldr_max_le)

text \<open>An object or array under construction: well formed, at most \<open>d\<close> deep.\<close>

definition ob_ok :: "nat \<Rightarrow> json_object \<Rightarrow> bool" where
  "ob_ok d ob = (wf_object ob \<and> depth (JSONObject_of ob) \<le> d)"

definition ar_ok :: "nat \<Rightarrow> json_array \<Rightarrow> bool" where
  "ar_ok d ar = (wf_array ar \<and> depth (JSONArray_of ar) \<le> d)"

lemma parse_object_start_spec:
  "case parse_object_start s h of
     Inl r \<Rightarrow> surplus r = live h \<and> good (Suc d) (length s) r
   | Inr (ob, p, h1) \<Rightarrow> ob_ok (Suc d) ob \<and> live h1 - oblocks ob = live h \<and> length p < length s"
proof (cases rule: init_object_cases [of h])
  case (1 h1)
  then show ?thesis by (simp add: parse_object_start_def)
next
  case (2 h1 ob)
  let ?p = "SKIP_WHITESPACES (tl s)"
  have d: "depth (JSONObject_of ob) \<le> Suc d" using 2(5) by (simp add: depth_object_le)
  have l: "cur s = CHR ''{'' \<Longrightarrow> length ?p < length s"
    using SKIP_le [of "tl s"] cur_tl_less [of s] by force
  then show ?thesis
    using 2 d by (auto simp: parse_object_start_def Let_def ob_ok_def)
qed

lemma init_array_cases:
  obtains h1 where "json_value_init_array h = (None, h1)" "live h1 = live h"
  | h1 where "json_value_init_array h = (Some (JSONArray [] 0), h1)" "live h1 = live h + 2"
proof (cases "fst (json_value_init_array h)")
  case None
  then show thesis using that(1) init_balanced(3) [of h] by (cases "json_value_init_array h") (simp add: balanced_new_def)
next
  case (Some v)
  then have "v = JSONArray [] 0"
    by (auto simp: json_value_init_array_def json_array_init_def JSONArray_of.simps split: prod.splits bool.splits option.splits)
  then show thesis
    using that(2) init_balanced(3) [of h] Some by (cases "json_value_init_array h") (simp add: balanced_new_def)
qed

lemma parse_array_start_spec:
  "case parse_array_start s h of
     Inl r \<Rightarrow> surplus r = live h \<and> good (Suc d) (length s) r
   | Inr (ar, p, h1) \<Rightarrow> ar_ok (Suc d) ar \<and> live h1 - ablocks ar = live h \<and> length p < length s"
proof (cases rule: init_array_cases [of h])
  case (1 h1)
  then show ?thesis by (simp add: parse_array_start_def)
next
  case (2 h1)
  let ?p = "SKIP_WHITESPACES (tl s)"
  have l: "cur s = CHR ''['' \<Longrightarrow> length ?p < length s"
    using SKIP_le [of "tl s"] cur_tl_less [of s] by force
  then show ?thesis
    using 2 by (auto simp: parse_array_start_def Let_def ar_ok_def JSONArray_of.simps)
qed

lemma parse_object_end_spec:
  assumes "ob_ok d ob"
  shows "surplus (parse_object_end ob s h) = live h - oblocks ob \<and> good d (length s) (parse_object_end ob s h)"
proof -
  obtain st ob1 h1 where r: "json_object_resize ob (json_object_get_count (Some ob)) h = (st, ob1, h1)" by (rule prod_cases3)
  note rc = json_object_resize_cases [OF r]
  have ok: "st = JSONSuccess \<Longrightarrow> wf_object ob1 \<and> depth (JSONObject_of ob1) \<le> d"
    using rc assms by (simp add: ob_ok_def JSONObject_of.simps json_object_get_count_def)
  have "length (tl (SKIP_WHITESPACES s)) \<le> length s" using SKIP_le [of s] by simp
  then show ?thesis
    using rc(2) ok by (cases st) (simp_all add: parse_object_end_def Let_def r)
qed

lemma parse_array_end_spec:
  assumes "ar_ok d ar"
  shows "surplus (parse_array_end ar s h) = live h - ablocks ar \<and> good d (length s) (parse_array_end ar s h)"
proof -
  have "length (tl (SKIP_WHITESPACES s)) \<le> length s" using SKIP_le [of s] by simp
  then show ?thesis
    using assms
    by (cases rule: malloc_cases [of h])
      (auto simp: parse_array_end_def Let_def json_array_resize_def ar_ok_def JSONArray_of.simps json_array_get_count_def)
qed

lemma parse_object_key_spec:
  "case parse_object_key ob s h of
     Inl r \<Rightarrow> surplus r = live h - oblocks ob \<and> fst r = None
   | Inr (k, s2, h1) \<Rightarrow> nul_free k \<and> live h1 = live h + 1 \<and> length s2 + 3 \<le> length s"
proof (cases rule: get_quoted_string_cases [of s h])
  case (1 h1)
  then show ?thesis by (simp add: parse_object_key_def)
next
  case (2 h1 b t r)
  have "cur (SKIP_WHITESPACES r) = CHR '':'' \<Longrightarrow> length (tl (SKIP_WHITESPACES r)) + 3 \<le> length s"
    using cur_tl_less [of "SKIP_WHITESPACES r"] SKIP_le [of r] 2(3) by force
  then show ?thesis using 2(1,2) by (simp add: parse_object_key_def Let_def)
qed

lemma parse_object_member_spec:
  assumes ob: "ob_ok (Suc d) ob" and r: "good d L r" and k: "nul_free k"
  shows "case parse_object_member ob k r of
     Inl r' \<Rightarrow> surplus r' = surplus r - 1 - oblocks ob \<and> good (Suc d) L r'
   | Inr (ob1, s3, h3) \<Rightarrow> ob_ok (Suc d) ob1 \<and> live h3 - oblocks ob1 = surplus r - 1 - oblocks ob \<and> length s3 < L"
proof (cases r)
  case (Pair p h2)
  show ?thesis
  proof (cases p)
    case None
    then show ?thesis using Pair by (simp add: parse_object_member_def)
  next
    case (Some q)
    obtain v s3 where q: "q = (v, s3)" by fastforce
    have v: "wf_json v" "depth v \<le> d" "length s3 \<le> L" using r Pair Some q by auto
    have wf: "wf_object ob" using ob by (simp add: ob_ok_def)
    obtain st o1 h3 where a: "json_object_addn (Some ob) (Some k) (strlen k) (Some v) h2 = (st, o1, h3)" by (rule prod_cases3)
    obtain ob1 where ob1: "o1 = Some ob1" "length (pairs ob1) \<le> obj_capacity ob1"
      "st = JSONSuccess \<Longrightarrow> pairs ob1 = pairs ob @ [(k, v)] \<and> obj_map ob k = None"
      "live h3 = live h2 + oblocks ob1 - oblocks ob - (if st = JSONSuccess then blocks v else 0)"
      using json_object_addn_cases [OF a wf order_refl] k by auto
    have add: "json_object_add (Some ob) (Some k) (Some v) h2 = (st, Some ob1, h3)"
      using a ob1(1) by (simp add: json_object_add_def)
    show ?thesis
    proof (cases st)
      case JSONFailure
      then show ?thesis using Pair Some q add ob1(4) by (simp add: parse_object_member_def)
    next
      case JSONSuccess
      have ok: "ob_ok (Suc d) ob1"
        using ob1(3) [OF JSONSuccess] wf_object_append(1) [OF wf _ _ k v(1) ob1(2)] ob v(2)
        by (auto simp: ob_ok_def depth_object_le)
      let ?s4 = "SKIP_WHITESPACES s3"
      have lt: "cur ?s4 = CHR '','' \<Longrightarrow> length (SKIP_WHITESPACES (tl ?s4)) < L"
        using cur_tl_less [of ?s4] SKIP_le [of s3] SKIP_le [of "tl ?s4"] v(3) by force
      note e = parse_object_end_spec [OF ok, of ?s4 "free_ptr True h3"]
      have "good (Suc d) L (parse_object_end ob1 ?s4 (free_ptr True h3))"
        using e good_mono SKIP_le [of s3] v(3) by (meson le_trans order_refl)
      then show ?thesis
        using Pair Some q add JSONSuccess ob1(4) ok lt e by (simp add: parse_object_member_def Let_def)
    qed
  qed
qed

lemma parse_array_item_spec:
  assumes ar: "ar_ok (Suc d) ar" and r: "good d L r"
  shows "case parse_array_item ar r of
     Inl r' \<Rightarrow> surplus r' = surplus r - ablocks ar \<and> good (Suc d) L r'
   | Inr (ar1, s3, h3) \<Rightarrow> ar_ok (Suc d) ar1 \<and> live h3 - ablocks ar1 = surplus r - ablocks ar \<and> length s3 < L"
proof (cases r)
  case (Pair p h2)
  show ?thesis
  proof (cases p)
    case None
    then show ?thesis using Pair by (simp add: parse_array_item_def)
  next
    case (Some q)
    obtain v s3 where q: "q = (v, s3)" by fastforce
    have v: "wf_json v" "depth v \<le> d" "length s3 \<le> L" using r Pair Some q by auto
    have wf: "wf_array ar" using ar by (simp add: ar_ok_def)
    obtain st ar1 h3 where add: "json_array_add ar v h2 = (st, ar1, h3)" by (rule prod_cases3)
    have ar1: "wf_array ar1" "items ar1 = (if st = JSONSuccess then items ar @ [v] else items ar)"
      "live h3 = live h2 + ablocks ar1 - ablocks ar - (if st = JSONSuccess then blocks v else 0)"
      using append_value_effect [OF wf v(1), of h2] add by (auto simp: array_effect_def json_array_append_value_def)
    show ?thesis
    proof (cases st)
      case JSONFailure
      then show ?thesis using Pair Some q add ar1(3) by (simp add: parse_array_item_def)
    next
      case JSONSuccess
      have ok: "ar_ok (Suc d) ar1"
        using ar1(1,2) JSONSuccess ar v(2) by (auto simp: ar_ok_def depth_object_le)
      let ?s4 = "SKIP_WHITESPACES s3"
      have lt: "cur ?s4 = CHR '','' \<Longrightarrow> length (SKIP_WHITESPACES (tl ?s4)) < L"
        using cur_tl_less [of ?s4] SKIP_le [of s3] SKIP_le [of "tl ?s4"] v(3) by force
      note e = parse_array_end_spec [OF ok, of ?s4 h3]
      have "good (Suc d) L (parse_array_end ar1 ?s4 h3)"
        using e good_mono SKIP_le [of s3] v(3) by (meson le_trans order_refl)
      then show ?thesis
        using Pair Some q add JSONSuccess ar1(3) ok lt e by (simp add: parse_array_item_def Let_def)
    qed
  qed
qed

section \<open>The parser returns, owns what it returns, and returns well-formed values\<close>

text \<open>What the functions that call each other promise with fuel \<open>n\<close>.\<close>

definition value_spec :: "nat \<Rightarrow> bool" where
  "value_spec n = (\<forall>k s h. 3 * length s + 1 \<le> n \<longrightarrow>
     (\<exists>r. parse_value n k s h = Some r \<and> surplus r = live h \<and> good (MAX_NESTING + 1 - k) (length s) r))"

definition object_spec :: "nat \<Rightarrow> bool" where
  "object_spec n = (\<forall>k s h. 3 * length s \<le> n \<longrightarrow> s \<noteq> [] \<longrightarrow>
     (\<exists>r. parse_object_value n k s h = Some r \<and> surplus r = live h \<and> good (Suc (MAX_NESTING + 1 - k)) (length s) r))"

definition object_loop_spec :: "nat \<Rightarrow> bool" where
  "object_loop_spec n = (\<forall>k ob s h. 3 * length s + 2 \<le> n \<longrightarrow> ob_ok (Suc (MAX_NESTING + 1 - k)) ob \<longrightarrow>
     (\<exists>r. parse_object_loop n k ob s h = Some r \<and> surplus r = live h - oblocks ob \<and>
        good (Suc (MAX_NESTING + 1 - k)) (length s) r))"

definition array_spec :: "nat \<Rightarrow> bool" where
  "array_spec n = (\<forall>k s h. 3 * length s \<le> n \<longrightarrow> s \<noteq> [] \<longrightarrow>
     (\<exists>r. parse_array_value n k s h = Some r \<and> surplus r = live h \<and> good (Suc (MAX_NESTING + 1 - k)) (length s) r))"

definition array_loop_spec :: "nat \<Rightarrow> bool" where
  "array_loop_spec n = (\<forall>k ar s h. 3 * length s + 2 \<le> n \<longrightarrow> ar_ok (Suc (MAX_NESTING + 1 - k)) ar \<longrightarrow>
     (\<exists>r. parse_array_loop n k ar s h = Some r \<and> surplus r = live h - ablocks ar \<and>
        good (Suc (MAX_NESTING + 1 - k)) (length s) r))"

lemma value_step:
  assumes "object_spec n" "array_spec n"
  shows "value_spec (Suc n)"
  unfolding value_spec_def
proof (intro allI impI)
  fix k :: nat and s :: string and h :: heap
  assume len: "3 * length s + 1 \<le> Suc n"
  let ?p = "SKIP_WHITESPACES s"
  have lp: "length ?p \<le> length s" by (rule SKIP_le)
  show "\<exists>r. parse_value (Suc n) k s h = Some r \<and> surplus r = live h \<and> good (MAX_NESTING + 1 - k) (length s) r"
  proof (cases "k > MAX_NESTING")
    case True
    then show ?thesis by simp
  next
    case False
    then have d: "Suc (MAX_NESTING + 1 - (k + 1)) = MAX_NESTING + 1 - k" by simp
    have fuel: "3 * length ?p \<le> n" using len lp by simp
    show ?thesis
    proof (cases "cur ?p = CHR ''{'' \<or> cur ?p = CHR ''[''")
      case True
      then have ne: "?p \<noteq> []" by auto
      obtain r where r: "(if cur ?p = CHR ''{'' then parse_object_value n (k + 1) ?p h else parse_array_value n (k + 1) ?p h) = Some r"
        "surplus r = live h" "good (MAX_NESTING + 1 - k) (length ?p) r"
        using assms fuel ne d unfolding object_spec_def array_spec_def by (metis (full_types))
      moreover have "parse_value (Suc n) k s h = Some r" using r(1) True False by (auto simp: Let_def split: if_splits)
      ultimately show ?thesis using good_mono [OF r(3) order_refl lp] by blast
    next
      case c: False
      then have "parse_value (Suc n) k s h = Some (parse_scalar ?p h)" using False by (simp add: Let_def)
      then show ?thesis
        using parse_scalar_good [of ?p h "MAX_NESTING + 1 - k"] good_mono [OF _ order_refl lp] by blast
    qed
  qed
qed

lemma object_step:
  assumes "object_loop_spec n"
  shows "object_spec (Suc n)"
  unfolding object_spec_def
proof (intro allI impI)
  fix k :: nat and s :: string and h :: heap
  assume len: "3 * length s \<le> Suc n" and ne: "s \<noteq> []"
  note st = parse_object_start_spec [where s = s and h = h and d = "MAX_NESTING + 1 - k"]
  show "\<exists>r. parse_object_value (Suc n) k s h = Some r \<and> surplus r = live h \<and> good (Suc (MAX_NESTING + 1 - k)) (length s) r"
  proof (cases "parse_object_start s h")
    case (Inl r)
    then show ?thesis using st by simp
  next
    case (Inr t)
    obtain ob p h1 where t: "t = (ob, p, h1)" by (rule prod_cases3)
    have ok: "ob_ok (Suc (MAX_NESTING + 1 - k)) ob" "live h1 - oblocks ob = live h" and lp: "length p < length s"
      using st Inr t by auto
    have "3 * length p + 2 \<le> n" using len lp by simp
    then obtain r where "parse_object_loop n k ob p h1 = Some r" "surplus r = live h1 - oblocks ob"
      "good (Suc (MAX_NESTING + 1 - k)) (length p) r"
      using assms ok(1) unfolding object_loop_spec_def by blast
    then show ?thesis using Inr t ok(2) good_mono [OF _ order_refl less_imp_le [OF lp]] by auto
  qed
qed

lemma array_step:
  assumes "array_loop_spec n"
  shows "array_spec (Suc n)"
  unfolding array_spec_def
proof (intro allI impI)
  fix k :: nat and s :: string and h :: heap
  assume len: "3 * length s \<le> Suc n" and ne: "s \<noteq> []"
  note st = parse_array_start_spec [where s = s and h = h and d = "MAX_NESTING + 1 - k"]
  show "\<exists>r. parse_array_value (Suc n) k s h = Some r \<and> surplus r = live h \<and> good (Suc (MAX_NESTING + 1 - k)) (length s) r"
  proof (cases "parse_array_start s h")
    case (Inl r)
    then show ?thesis using st by simp
  next
    case (Inr t)
    obtain ar p h1 where t: "t = (ar, p, h1)" by (rule prod_cases3)
    have ok: "ar_ok (Suc (MAX_NESTING + 1 - k)) ar" "live h1 - ablocks ar = live h" and lp: "length p < length s"
      using st Inr t by auto
    have "3 * length p + 2 \<le> n" using len lp by simp
    then obtain r where "parse_array_loop n k ar p h1 = Some r" "surplus r = live h1 - ablocks ar"
      "good (Suc (MAX_NESTING + 1 - k)) (length p) r"
      using assms ok(1) unfolding array_loop_spec_def by blast
    then show ?thesis using Inr t ok(2) good_mono [OF _ order_refl less_imp_le [OF lp]] by auto
  qed
qed

lemma array_loop_step:
  assumes "value_spec n" "array_loop_spec n"
  shows "array_loop_spec (Suc n)"
  unfolding array_loop_spec_def
proof (intro allI impI)
  fix k :: nat and ar :: json_array and s :: string and h :: heap
  let ?d = "MAX_NESTING + 1 - k"
  assume len: "3 * length s + 2 \<le> Suc n" and ok: "ar_ok (Suc ?d) ar"
  show "\<exists>r. parse_array_loop (Suc n) k ar s h = Some r \<and> surplus r = live h - ablocks ar \<and> good (Suc ?d) (length s) r"
  proof (cases "cur s = NUL")
    case True
    then show ?thesis using parse_array_end_spec [OF ok] by simp
  next
    case False
    obtain r where r: "parse_value n k s h = Some r" "surplus r = live h" "good ?d (length s) r"
      using assms(1) len unfolding value_spec_def by (metis Suc_le_mono add_2_eq_Suc' add.commute plus_1_eq_Suc)
    note it = parse_array_item_spec [OF ok r(3)]
    show ?thesis
    proof (cases "parse_array_item ar r")
      case (Inl r')
      then show ?thesis using it r False by simp
    next
      case (Inr t)
      obtain ar1 s3 h3 where t: "t = (ar1, s3, h3)" by (rule prod_cases3)
      have t1: "ar_ok (Suc ?d) ar1" "live h3 - ablocks ar1 = surplus r - ablocks ar" and ls: "length s3 < length s"
        using it Inr t by auto
      have "3 * length s3 + 2 \<le> n" using len ls by simp
      then obtain r' where "parse_array_loop n k ar1 s3 h3 = Some r'" "surplus r' = live h3 - ablocks ar1"
        "good (Suc ?d) (length s3) r'"
        using assms(2) t1(1) unfolding array_loop_spec_def by blast
      then show ?thesis using Inr t r t1(2) False good_mono [OF _ order_refl less_imp_le [OF ls]] by auto
    qed
  qed
qed

lemma object_loop_continue:
  assumes vs: "value_spec n" and ls': "object_loop_spec n" and len: "3 * length s + 2 \<le> Suc n"
    and ok: "ob_ok (Suc (MAX_NESTING + 1 - k)) ob"
    and ne: "cur s \<noteq> NUL" and key: "parse_object_key ob s h = Inr (key, s2, h1)"
  shows "\<exists>r. parse_object_loop (Suc n) k ob s h = Some r \<and> surplus r = live h - oblocks ob \<and>
    good (Suc (MAX_NESTING + 1 - k)) (length s) r"
proof -
  let ?d = "MAX_NESTING + 1 - k"
  note ks = parse_object_key_spec [where ob = ob and s = s and h = h]
  have k1: "nul_free key" "live h1 = live h + 1" "length s2 + 3 \<le> length s" using ks key by auto
  have "3 * length s2 + 1 \<le> n" using len k1(3) by simp
  then obtain r where r: "parse_value n k s2 h1 = Some r" "surplus r = live h1" "good ?d (length s2) r"
    using vs unfolding value_spec_def by blast
  note it = parse_object_member_spec [OF ok r(3) k1(1)]
  have ls2: "length s2 \<le> length s" using k1(3) by simp
  show ?thesis
  proof (cases "parse_object_member ob key r")
    case (Inl r')
    then show ?thesis using it r key ne k1(2) good_mono [OF _ order_refl ls2] by auto
  next
    case (Inr t)
    obtain ob1 s3 h3 where t: "t = (ob1, s3, h3)" by (rule prod_cases3)
    have t1: "ob_ok (Suc ?d) ob1" "live h3 - oblocks ob1 = surplus r - 1 - oblocks ob" and ls: "length s3 < length s2"
      using it Inr t by auto
    have "3 * length s3 + 2 \<le> n" using len ls k1(3) by simp
    then obtain r' where "parse_object_loop n k ob1 s3 h3 = Some r'" "surplus r' = live h3 - oblocks ob1"
      "good (Suc ?d) (length s3) r'"
      using ls' t1(1) unfolding object_loop_spec_def by blast
    moreover have "length s3 \<le> length s" using ls ls2 by simp
    ultimately show ?thesis using Inr t r t1(2) key ne k1(2) good_mono [OF _ order_refl] by auto
  qed
qed

lemma object_loop_step:
  assumes "value_spec n" "object_loop_spec n"
  shows "object_loop_spec (Suc n)"
  unfolding object_loop_spec_def
proof (intro allI impI)
  fix k :: nat and ob :: json_object and s :: string and h :: heap
  let ?d = "MAX_NESTING + 1 - k"
  assume len: "3 * length s + 2 \<le> Suc n" and ok: "ob_ok (Suc ?d) ob"
  note ks = parse_object_key_spec [where ob = ob and s = s and h = h]
  show "\<exists>r. parse_object_loop (Suc n) k ob s h = Some r \<and> surplus r = live h - oblocks ob \<and> good (Suc ?d) (length s) r"
  proof -
    consider "cur s = NUL" | r where "cur s \<noteq> NUL" "parse_object_key ob s h = Inl r"
      | key s2 h1 where "cur s \<noteq> NUL" "parse_object_key ob s h = Inr (key, s2, h1)"
      by (metis prod_cases3 sum.exhaust)
    then show ?thesis
    proof cases
      case 1
      then show ?thesis using parse_object_end_spec [OF ok] by simp
    next
      case (2 r)
      then have "good (Suc ?d) (length s) r" using ks by (simp add: good_def)
      with 2 show ?thesis using ks by simp
    next
      case (3 key s2 h1)
      then show ?thesis by (intro object_loop_continue [OF assms len ok])
    qed
  qed
qed

lemma parser_specs:
  "value_spec n \<and> object_spec n \<and> object_loop_spec n \<and> array_spec n \<and> array_loop_spec n"
proof (induction n)
  case 0
  show ?case by (simp add: value_spec_def object_spec_def object_loop_spec_def array_spec_def array_loop_spec_def)
next
  case (Suc n)
  then show ?case using value_step object_step array_step object_loop_step array_loop_step by blast
qed

lemma parse_value_returns:
  obtains r where "parse_value (parse_fuel s) k s h = Some r" "surplus r = live h" "good (MAX_NESTING + 1 - k) (length s) r"
  using parser_specs [of "parse_fuel s"] unfolding value_spec_def parse_fuel_def by blast

text \<open>More fuel changes nothing.\<close>

lemma fuel_mono:
  "(\<forall>k s h r. parse_value n k s h = Some r \<longrightarrow> parse_value (Suc n) k s h = Some r) \<and>
   (\<forall>k s h r. parse_object_value n k s h = Some r \<longrightarrow> parse_object_value (Suc n) k s h = Some r) \<and>
   (\<forall>k ob s h r. parse_object_loop n k ob s h = Some r \<longrightarrow> parse_object_loop (Suc n) k ob s h = Some r) \<and>
   (\<forall>k s h r. parse_array_value n k s h = Some r \<longrightarrow> parse_array_value (Suc n) k s h = Some r) \<and>
   (\<forall>k ar s h r. parse_array_loop n k ar s h = Some r \<longrightarrow> parse_array_loop (Suc n) k ar s h = Some r)"
proof (induction n)
  case (Suc n)
  note ih = Suc.IH [THEN conjunct1, rule_format] Suc.IH [THEN conjunct2, THEN conjunct1, rule_format]
    Suc.IH [THEN conjunct2, THEN conjunct2, THEN conjunct1, rule_format]
    Suc.IH [THEN conjunct2, THEN conjunct2, THEN conjunct2, THEN conjunct1, rule_format]
    Suc.IH [THEN conjunct2, THEN conjunct2, THEN conjunct2, THEN conjunct2, rule_format]
  note simps = parse_value.simps(2) parse_object_value.simps(2) parse_object_loop.simps(2)
    parse_array_value.simps(2) parse_array_loop.simps(2)
  show ?case
  proof (intro conjI allI impI)
    fix k s h r
    assume a: "parse_value (Suc n) k s h = Some r"
    from a [unfolded simps(1)] show "parse_value (Suc (Suc n)) k s h = Some r"
      unfolding simps(1) [of "Suc n"] using ih(2,4) by (auto simp: Let_def simp del: simps split: if_splits)
  next
    fix k s h r
    assume a: "parse_object_value (Suc n) k s h = Some r"
    from a [unfolded simps(2)] show "parse_object_value (Suc (Suc n)) k s h = Some r"
      unfolding simps(2) [of "Suc n"] using ih(3) by (simp split: sum.splits prod.splits del: simps)
  next
    fix k ob s h r
    assume a: "parse_object_loop (Suc n) k ob s h = Some r"
    from a [unfolded simps(3)] show "parse_object_loop (Suc (Suc n)) k ob s h = Some r"
      unfolding simps(3) [of "Suc n"] using ih(1,3)
      by (cases r) (auto split: sum.splits prod.splits if_splits option.splits simp del: simps)
  next
    fix k s h r
    assume a: "parse_array_value (Suc n) k s h = Some r"
    from a [unfolded simps(4)] show "parse_array_value (Suc (Suc n)) k s h = Some r"
      unfolding simps(4) [of "Suc n"] using ih(5) by (simp split: sum.splits prod.splits del: simps)
  next
    fix k ar s h r
    assume a: "parse_array_loop (Suc n) k ar s h = Some r"
    from a [unfolded simps(5)] show "parse_array_loop (Suc (Suc n)) k ar s h = Some r"
      unfolding simps(5) [of "Suc n"] using ih(1,5)
      by (cases r) (auto split: sum.splits prod.splits if_splits option.splits simp del: simps)
  qed
qed simp

lemma parse_value_mono: "parse_value n k s h = Some r \<Longrightarrow> n \<le> m \<Longrightarrow> parse_value m k s h = Some r"
proof (induction m)
  case (Suc m)
  show ?case
  proof (cases "n = Suc m")
    case False
    then have "parse_value m k s h = Some r" using Suc by simp
    then show ?thesis by (rule fuel_mono [of m, THEN conjunct1, rule_format])
  qed (use Suc in simp)
qed simp

section \<open>Properties\<close>

text \<open>C10. \<open>json_parse_string\<close> terminates on every text, and whatever the text and whichever
  allocations fail it leaks nothing: after a failure the live blocks are what they were, after
  a success they have grown by exactly the blocks of the returned value.\<close>

theorem json_parse_string_no_leak:
  "\<exists>p h'. json_parse_string str h = Some (p, h') \<and> live h' = live h + (case p of None \<Rightarrow> 0 | Some v \<Rightarrow> blocks v)"
proof (cases str)
  case None
  then show ?thesis by (simp add: json_parse_string_def)
next
  case (Some s)
  define s1 where "s1 = (if nthc s 0 = CHR 0xEF \<and> nthc s 1 = CHR 0xBB \<and> nthc s 2 = CHR 0xBF then drop 3 s else s)"
  obtain r where r: "parse_value (parse_fuel s1) 0 s1 h = Some r" "surplus r = live h"
    using parse_value_returns [of s1 0 h] by blast
  have "json_parse_string str h = Some (map_option fst (fst r), snd r)"
    unfolding json_parse_string_def Some option.case s1_def [symmetric] Let_def r(1) by (simp add: map_prod_def split_beta)
  then show ?thesis using r(2) by (cases "fst r") (auto simp: surplus_def)
qed

text \<open>C30. Every value \<open>json_parse_string\<close> returns is well formed: the names of each object are
  distinct and without an inner NUL, counts do not exceed capacities, numbers are finite, and
  containers are nested at most \<open>MAX_NESTING + 1\<close> deep.\<close>

theorem json_parse_string_wf:
  assumes "json_parse_string (Some s) h = Some (Some v, h')"
  shows "wf_json v \<and> depth v \<le> 2049"
proof -
  define s1 where "s1 = (if nthc s 0 = CHR 0xEF \<and> nthc s 1 = CHR 0xBB \<and> nthc s 2 = CHR 0xBF then drop 3 s else s)"
  obtain r where r: "parse_value (parse_fuel s1) 0 s1 h = Some r" "good (MAX_NESTING + 1 - 0) (length s1) r"
    using parse_value_returns [of s1 0 h] by blast
  have "map_option fst (fst r) = Some v"
    using assms unfolding json_parse_string_def option.case s1_def [symmetric] Let_def r(1)
    by (simp add: map_prod_def split_beta)
  then show ?thesis using r(2) by (auto simp: good_def MAX_NESTING_def)
qed

theorem json_parse_string_wf_witness:
  "json_parse_string (Some ''[null, {}]'') \<lparr>answers = [], live = 0\<rparr>
     = Some (Some (JSONArray [JSONNull, JSONObject [] 0] 2), \<lparr>answers = [], live = 6\<rparr>)
   \<and> wf_json (JSONArray [JSONNull, JSONObject [] 0] 2) \<and> depth (JSONArray [JSONNull, JSONObject [] 0] 2) \<le> 2049"
proof -
  have run: "json_parse_string (Some ''[null, {}]'') \<lparr>answers = [], live = 0\<rparr>
     = Some (Some (JSONArray [JSONNull, JSONObject [] 0] 2), \<lparr>answers = [], live = 6\<rparr>)"
    by code_simp
  show ?thesis using run json_parse_string_wf [OF run] by simp
qed

text \<open>\<open>json_parse_string_with_comments\<close> terminates and leaks nothing either: its copy of the
  text is released on every path.\<close>

theorem json_parse_string_with_comments_no_leak:
  "\<exists>p h'. json_parse_string_with_comments s h = Some (p, h') \<and>
     live h' = live h + (case p of None \<Rightarrow> 0 | Some v \<Rightarrow> blocks v)"
proof (cases rule: malloc_cases [of h])
  case (1 h1)
  define t where "t = remove_comments (remove_comments (cstr (take (strlen s) s)) ''/*'' ''*/'') ''//'' [CHR 0x0A]"
  obtain r where r: "parse_value (parse_fuel t) 0 t h1 = Some r" "surplus r = live h1"
    using parse_value_returns [of t 0 h1] by blast
  have "json_parse_string_with_comments s h = Some (map_option fst (fst r), free_ptr True (snd r))"
    using 1 r(1) by (simp add: json_parse_string_with_comments_def parson_strdup_def parson_strndup_def
        t_def [symmetric] map_prod_def split_beta)
  then show ?thesis using r(2) 1 by (cases "fst r") (auto simp: surplus_def)
next
  case (2 h1)
  then show ?thesis by (simp add: json_parse_string_with_comments_def parson_strdup_def parson_strndup_def)
qed

text \<open>A quoted string is processed inside its quotes and inside its buffer: the text read
  is a literal up to its closing quote, what follows it has no influence on the result, and the
  characters written, with the terminator, fit the block of \<open>len + 1\<close> bytes.\<close>

theorem get_quoted_string_in_bounds:
  assumes "get_quoted_string p h = (Some (key, rest), h')"
  shows "\<exists>b out. p = CHR 0x22 # b @ CHR 0x22 # rest \<and> literal_body b \<and> key = cstr out \<and> length out + 1 \<le> length b + 1 \<and>
    (\<forall>rest'. process_string_loop (b @ CHR 0x22 # rest') (length b) [] = Some out)"
proof (cases rule: get_quoted_string_cases [of p h])
  case (1 h1)
  then show ?thesis using assms by simp
next
  case (2 h1 b s r)
  then show ?thesis
    using assms process_string_loop_inside [OF 2(4,5)] by (intro exI [of _ b] exI [of _ s]) auto
qed

theorem get_quoted_string_in_bounds_witness:
  "get_quoted_string [CHR 0x22, CHR 0x5C, CHR ''n'', CHR 0x22, CHR '':''] \<lparr>answers = [], live = 0\<rparr>
     = (Some ([CHR 0x0A], '':''), \<lparr>answers = [], live = 1\<rparr>)
   \<and> (\<exists>b out. [CHR 0x22, CHR 0x5C, CHR ''n'', CHR 0x22, CHR '':''] = CHR 0x22 # b @ CHR 0x22 # '':'' \<and> [CHR 0x0A] = cstr out \<and> length out \<le> length b)"
proof -
  have run: "get_quoted_string [CHR 0x22, CHR 0x5C, CHR ''n'', CHR 0x22, CHR '':''] \<lparr>answers = [], live = 0\<rparr>
     = (Some ([CHR 0x0A], '':''), \<lparr>answers = [], live = 1\<rparr>)"
    by code_simp
  then show ?thesis using get_quoted_string_in_bounds [OF run] by auto
qed

text \<open>A minus sign that no number follows is accepted as the number zero, although JSON has
  no such value: \<open>strtod\<close> converts nothing and reports no error, and \<open>is_decimal\<close> passes the
  empty text.\<close>

theorem lone_minus_parses_as_zero:
  assumes "plenty h" "\<not> isdigit c" "c \<notin> set ''.iInN''"
  shows "json_parse_string (Some (CHR ''-'' # c # rest)) h = Some (Some (JSONNumber dzero), h\<lparr>live := live h + 1\<rparr>)"
proof -
  let ?s = "CHR ''-'' # c # rest"
  have sp: "\<not> isspace CHR ''-''" by (simp add: isspace_def)
  have hex: "\<not> strneq (c # rest) ''0x'' 2" "\<not> strneq (c # rest) ''0X'' 2"
    using assms(2) by (auto simp: strneq_def isdigit_def)
  have "scan_mantissa isdigit dec_val (c # rest) = None" using assms(2,3) by (simp add: scan_mantissa_def)
  moreover have "\<not> tolower_eq c CHR ''i''" "\<not> tolower_eq c CHR ''n''"
    using assms(3) byte_eq_iff [of c "CHR ''I''"] byte_eq_iff [of c "CHR ''N''"] by (auto simp: tolower_eq_def)
  then have "\<not> prefix_nocase (l # w) (c # rest)" if "l = CHR ''i'' \<or> l = CHR ''n''" for l w
    using that by (auto simp: prefix_nocase_def)
  ultimately have "strtod ?s = (dzero, False, 0)"
    using hex sp by (simp add: strtod_def strtod_unsigned_def)
  then have "parse_number_value ?s h = (Some (JSONNumber dzero, ?s), h\<lparr>live := live h + 1\<rparr>)"
    using assms(1) by (simp add: parse_number_value_def is_decimal_def with_rest_def json_value_init_number_def dzero_def)
  moreover obtain n where "parse_fuel ?s = Suc n" by (simp add: parse_fuel_def)
  ultimately have "parse_value (parse_fuel ?s) 0 ?s h = Some (Some (JSONNumber dzero, ?s), h\<lparr>live := live h + 1\<rparr>)"
    using sp by (simp add: SKIP_WHITESPACES_def parse_scalar_def Let_def)
  then show ?thesis by (simp add: json_parse_string_def)
qed

theorem lone_minus_parses_as_zero_witness:
  "json_parse_string (Some ''-x'') \<lparr>answers = [], live = 0\<rparr> = Some (Some (JSONNumber dzero), \<lparr>answers = [], live = 1\<rparr>)"
  using lone_minus_parses_as_zero [of "\<lparr>answers = [], live = 0\<rparr>" "CHR ''x''" "[]"] by (simp add: plenty_def isdigit_def)

end
