(* ===== verification/Parson_Serialize.thy ===== *)
theory Parson_Serialize
  imports Parson_Parse
begin

text \<open>
  The serializer of \<^verbatim>\<open>common/json/parson.c\<close>. Each function is run twice by the code, once with
  \<open>buf == NULL\<close> to learn the size and once to write; \<open>buf\<close> is the flag that tells the two
  apart. A function returns the count it reports (\<open>-1\<close> for an error) and the characters it
  stored, which are none in the first pass. Counts are C \<open>int\<close>s; they are integers here, so the
  model is that of documents whose text stays below \<open>2\<^sup>3\<^sup>1\<close> characters.

  The lemmas show that both passes agree, that the reported size is exactly that of the text
  with its terminator, and that parsing the text of a well-formed value gives its contents back.
\<close>

section \<open>Definitions\<close>

type_synonym written = "int \<times> string"

definition append_string :: "bool \<Rightarrow> string \<Rightarrow> written" where
  "append_string buf str = (int (strlen str), if buf then cstr str else [])"

text \<open>One call after another: an error ends the function.\<close>

definition and_then :: "written \<Rightarrow> written \<Rightarrow> written" where
  "and_then a b =
     (if fst a < 0 then (-1, snd a)
      else if fst b < 0 then (-1, snd a @ snd b)
      else (fst a + fst b, snd a @ snd b))"

abbreviation nothing :: written where
  "nothing \<equiv> (0, [])"

definition in_order :: "written list \<Rightarrow> written" where
  "in_order ws = foldr and_then ws nothing"

definition append_indent :: "bool \<Rightarrow> nat \<Rightarrow> written" where
  "append_indent buf level = in_order (replicate level (append_string buf ''    ''))"

definition hex_digit :: "nat \<Rightarrow> char" where
  "hex_digit n = (if n < 10 then char_of (48 + n) else char_of (87 + n))"

text \<open>The \<open>switch\<close> of \<open>json_serialize_string\<close>.\<close>

definition escape_char :: "char \<Rightarrow> string" where
  "escape_char c =
     (if c = CHR 0x22 then [CHR 0x5C, CHR 0x22] else if c = CHR 0x5C then [CHR 0x5C, CHR 0x5C]
      else if c = CHR ''/'' then [CHR 0x5C, CHR ''/''] else if c = CHR 0x08 then [CHR 0x5C, CHR ''b'']
      else if c = CHR 0x0C then [CHR 0x5C, CHR ''f''] else if c = CHR 0x0A then [CHR 0x5C, CHR ''n'']
      else if c = CHR 0x0D then [CHR 0x5C, CHR ''r''] else if c = CHR 0x09 then [CHR 0x5C, CHR ''t'']
      else if byte c < 0x20
        then [CHR 0x5C, CHR ''u'', CHR ''0'', CHR ''0'', hex_digit (byte c div 16), hex_digit (byte c mod 16)]
      else [c])"

definition json_serialize_string :: "string \<Rightarrow> bool \<Rightarrow> written" where
  "json_serialize_string str buf =
     and_then (append_string buf [CHR 0x22])
       (and_then (in_order (map (\<lambda>c. append_string buf (escape_char c)) (cstr str)))
         (append_string buf [CHR 0x22]))"

text \<open>\<open>sprintf(num_buf, FLOAT_FORMAT, num)\<close>, into \<open>buf\<close> or into the scratch buffer.\<close>

definition append_number :: "bool \<Rightarrow> double \<Rightarrow> written" where
  "append_number buf num = (int (length (sprintf_g17 num)), if buf then sprintf_g17 num else [])"

definition only_if :: "bool \<Rightarrow> written \<Rightarrow> written" where
  "only_if b w = (if b then w else nothing)"

lemma getn_loop_in: "getn_loop fs name len = Some v \<Longrightarrow> \<exists>k. (k, v) \<in> set fs"
  by (induction fs name len rule: getn_loop.induct) (auto split: if_splits)

lemma getn_loop_size:
  assumes "getn_loop fs name len = Some v"
  shows "size v < size (JSONObject fs c)"
proof -
  obtain k where "(k, v) \<in> set fs" using getn_loop_in [OF assms] by blast
  then have "size_prod (\<lambda>_. 0) size (k, v) \<le> size_list (size_prod (\<lambda>_. 0) size) fs"
    by (rule size_list_estimation') simp
  then show ?thesis by simp
qed

text \<open>\<open>json_serialize_to_buffer_r\<close>; the loops go over the items and over the names that are
  left, and the value of a name is looked up in the object, as the code does.\<close>

function (sequential) json_serialize_to_buffer_r :: "json_value \<Rightarrow> bool \<Rightarrow> nat \<Rightarrow> bool \<Rightarrow> written"
  and serialize_items :: "json_value list \<Rightarrow> bool \<Rightarrow> nat \<Rightarrow> bool \<Rightarrow> written"
  and serialize_members :: "json_object \<Rightarrow> (string \<times> json_value) list \<Rightarrow> bool \<Rightarrow> nat \<Rightarrow> bool \<Rightarrow> written" where
  "json_serialize_to_buffer_r (JSONArray xs c) buf level is_pretty =
     in_order
       [append_string buf ''['',
        only_if (0 < length xs \<and> is_pretty) (append_string buf [CHR 0x0A]),
        serialize_items xs buf level is_pretty,
        only_if (0 < length xs \<and> is_pretty) (append_indent buf level),
        append_string buf '']'']"
| "json_serialize_to_buffer_r (JSONObject fs c) buf level is_pretty =
     in_order
       [append_string buf ''{'',
        only_if (0 < length fs \<and> is_pretty) (append_string buf [CHR 0x0A]),
        serialize_members \<lparr>pairs = fs, obj_capacity = c\<rparr> fs buf level is_pretty,
        only_if (0 < length fs \<and> is_pretty) (append_indent buf level),
        append_string buf ''}'']"
| "json_serialize_to_buffer_r (JSONString s) buf level is_pretty = json_serialize_string s buf"
| "json_serialize_to_buffer_r (JSONBoolean b) buf level is_pretty =
     append_string buf (if b then ''true'' else ''false'')"
| "json_serialize_to_buffer_r (JSONNumber num) buf level is_pretty = append_number buf num"
| "json_serialize_to_buffer_r JSONNull buf level is_pretty = append_string buf ''null''"
| "serialize_items [] buf level is_pretty = nothing"
| "serialize_items (x # xs) buf level is_pretty =
     in_order
       [only_if is_pretty (append_indent buf (level + 1)),
        json_serialize_to_buffer_r x buf (level + 1) is_pretty,
        only_if (xs \<noteq> []) (append_string buf '',''),
        only_if is_pretty (append_string buf [CHR 0x0A]),
        serialize_items xs buf level is_pretty]"
| "serialize_members ob [] buf level is_pretty = nothing"
| "serialize_members ob ((key, _) # fs) buf level is_pretty =
     in_order
       [only_if is_pretty (append_indent buf (level + 1)),
        json_serialize_string key buf,
        append_string buf '':'',
        only_if is_pretty (append_string buf '' ''),
        (case json_object_get_value (Some ob) (Some key) of
           None \<Rightarrow> (-1, [])
         | Some v \<Rightarrow> json_serialize_to_buffer_r v buf (level + 1) is_pretty),
        only_if (fs \<noteq> []) (append_string buf '',''),
        only_if is_pretty (append_string buf [CHR 0x0A]),
        serialize_members ob fs buf level is_pretty]"
  by pat_completeness auto
termination
proof (relation "inv_image (less_than <*lex*> less_than)
    (case_sum (\<lambda>(v, b, l, p). (2 * size v + 1, 0))
      (case_sum (\<lambda>(xs, b, l, p). (2 * size_list size xs, 0))
        (\<lambda>(ob, fs, b, l, p). (2 * size (JSONObject (pairs ob) (obj_capacity ob)), length fs))))")
qed (auto simp: json_object_get_value_def json_object_getn_value_def dest: getn_loop_size)

text \<open>\<open>json_serialize_to_buffer_r\<close> of a pointer that may be \<open>NULL\<close> (\<open>JSONError\<close>).\<close>

definition serialize_ptr :: "json_value option \<Rightarrow> bool \<Rightarrow> nat \<Rightarrow> bool \<Rightarrow> written" where
  "serialize_ptr p buf level is_pretty =
     (case p of None \<Rightarrow> (-1, []) | Some v \<Rightarrow> json_serialize_to_buffer_r v buf level is_pretty)"

definition json_serialization_size :: "json_value option \<Rightarrow> nat" where
  "json_serialization_size value =
     (let res = fst (serialize_ptr value False 0 False) in if res < 0 then 0 else nat (res + 1))"

definition json_serialization_size_pretty :: "json_value option \<Rightarrow> nat" where
  "json_serialization_size_pretty value =
     (let res = fst (serialize_ptr value False 0 True) in if res < 0 then 0 else nat (res + 1))"

text \<open>\<open>json_serialize_to_buffer\<close>: the status and the characters stored in the caller's buffer.\<close>

definition json_serialize_to_buffer :: "json_value option \<Rightarrow> nat \<Rightarrow> json_status \<times> string" where
  "json_serialize_to_buffer value buf_size_in_bytes =
     (let needed_size_in_bytes = json_serialization_size value in
      if needed_size_in_bytes = 0 \<or> buf_size_in_bytes < needed_size_in_bytes then (JSONFailure, [])
      else let (written, out) = serialize_ptr value True 0 False
           in if written < 0 then (JSONFailure, out) else (JSONSuccess, out))"

definition json_serialize_to_buffer_pretty :: "json_value option \<Rightarrow> nat \<Rightarrow> json_status \<times> string" where
  "json_serialize_to_buffer_pretty value buf_size_in_bytes =
     (let needed_size_in_bytes = json_serialization_size_pretty value in
      if needed_size_in_bytes = 0 \<or> buf_size_in_bytes < needed_size_in_bytes then (JSONFailure, [])
      else let (written, out) = serialize_ptr value True 0 True
           in if written < 0 then (JSONFailure, out) else (JSONSuccess, out))"

definition json_free_serialized_string :: "heap \<Rightarrow> heap" where
  "json_free_serialized_string h = free_ptr True h"

definition json_serialize_to_string :: "json_value option \<Rightarrow> heap \<Rightarrow> string option \<times> heap" where
  "json_serialize_to_string value h =
     (let buf_size_bytes = json_serialization_size value in
      if buf_size_bytes = 0 then (None, h)
      else case malloc h of
             (False, h1) \<Rightarrow> (None, h1)
           | (True, h1) \<Rightarrow>
               (case json_serialize_to_buffer value buf_size_bytes of
                  (JSONFailure, _) \<Rightarrow> (None, json_free_serialized_string h1)
                | (JSONSuccess, out) \<Rightarrow> (Some out, h1)))"

definition json_serialize_to_string_pretty :: "json_value option \<Rightarrow> heap \<Rightarrow> string option \<times> heap" where
  "json_serialize_to_string_pretty value h =
     (let buf_size_bytes = json_serialization_size_pretty value in
      if buf_size_bytes = 0 then (None, h)
      else case malloc h of
             (False, h1) \<Rightarrow> (None, h1)
           | (True, h1) \<Rightarrow>
               (case json_serialize_to_buffer_pretty value buf_size_bytes of
                  (JSONFailure, _) \<Rightarrow> (None, json_free_serialized_string h1)
                | (JSONSuccess, out) \<Rightarrow> (Some out, h1)))"

text \<open>\<open>json_serialize_to_file\<close>: what \<open>fopen\<close>, \<open>fputs\<close> and \<open>fclose\<close> answer are arguments; the
  result has the text handed to \<open>fputs\<close>.\<close>

definition serialized_to_file ::
  "string option \<times> heap \<Rightarrow> bool \<Rightarrow> bool \<Rightarrow> bool \<Rightarrow> json_status \<times> string option \<times> heap" where
  "serialized_to_file sh open_ok put_ok close_ok =
     (case sh of
        (None, h1) \<Rightarrow> (JSONFailure, None, h1)
      | (Some t, h1) \<Rightarrow>
          if \<not> open_ok then (JSONFailure, None, json_free_serialized_string h1)
          else (if put_ok \<and> close_ok then JSONSuccess else JSONFailure, Some t, json_free_serialized_string h1))"

definition json_serialize_to_file ::
  "json_value option \<Rightarrow> bool \<Rightarrow> bool \<Rightarrow> bool \<Rightarrow> heap \<Rightarrow> json_status \<times> string option \<times> heap" where
  "json_serialize_to_file value open_ok put_ok close_ok h =
     serialized_to_file (json_serialize_to_string value h) open_ok put_ok close_ok"

definition json_serialize_to_file_pretty ::
  "json_value option \<Rightarrow> bool \<Rightarrow> bool \<Rightarrow> bool \<Rightarrow> heap \<Rightarrow> json_status \<times> string option \<times> heap" where
  "json_serialize_to_file_pretty value open_ok put_ok close_ok h =
     serialized_to_file (json_serialize_to_string_pretty value h) open_ok put_ok close_ok"

section \<open>The text of a value\<close>

definition indent :: "nat \<Rightarrow> string" where
  "indent level = concat (replicate level ''    '')"

definition quoted :: "string \<Rightarrow> string" where
  "quoted s = CHR 0x22 # concat (map escape_char s) @ [CHR 0x22]"

definition opt_text :: "bool \<Rightarrow> string \<Rightarrow> string" where
  "opt_text b t = (if b then t else [])"

function (sequential) json_text :: "bool \<Rightarrow> nat \<Rightarrow> json_value \<Rightarrow> string"
  and items_text :: "bool \<Rightarrow> nat \<Rightarrow> json_value list \<Rightarrow> string"
  and members_text :: "bool \<Rightarrow> nat \<Rightarrow> (string \<times> json_value) list \<Rightarrow> string" where
  "json_text p l (JSONArray xs c) =
     ''['' @ opt_text (xs \<noteq> [] \<and> p) [CHR 0x0A] @ items_text p l xs @ opt_text (xs \<noteq> [] \<and> p) (indent l) @ '']''"
| "json_text p l (JSONObject fs c) =
     ''{'' @ opt_text (fs \<noteq> [] \<and> p) [CHR 0x0A] @ members_text p l fs @ opt_text (fs \<noteq> [] \<and> p) (indent l) @ ''}''"
| "json_text p l (JSONString s) = quoted s"
| "json_text p l (JSONBoolean b) = (if b then ''true'' else ''false'')"
| "json_text p l (JSONNumber d) = sprintf_g17 d"
| "json_text p l JSONNull = ''null''"
| "items_text p l [] = []"
| "items_text p l (x # xs) =
     opt_text p (indent (l + 1)) @ json_text p (l + 1) x @ opt_text (xs \<noteq> []) '','' @ opt_text p [CHR 0x0A] @ items_text p l xs"
| "members_text p l [] = []"
| "members_text p l ((k, x) # fs) =
     opt_text p (indent (l + 1)) @ quoted k @ '':'' @ opt_text p '' '' @ json_text p (l + 1) x @
     opt_text (fs \<noteq> []) '','' @ opt_text p [CHR 0x0A] @ members_text p l fs"
  by pat_completeness auto
termination
  by (relation "measure (case_sum (\<lambda>(p, l, v). size v) (case_sum (\<lambda>(p, l, xs). size_list size xs)
        (\<lambda>(p, l, fs). size_list (size_prod (\<lambda>_. 0) size) fs)))") auto

section \<open>Both passes agree\<close>

definition wr :: "bool \<Rightarrow> string \<Rightarrow> written" where
  "wr buf t = (int (length t), if buf then t else [])"

lemma wr_simps [simp]:
  "and_then (wr b t) (wr b u) = wr b (t @ u)" "and_then (wr b t) (in_order []) = wr b t"
  "nul_free t \<Longrightarrow> append_string b t = wr b t" "append_number b d = wr b (sprintf_g17 d)"
  by (simp_all add: wr_def and_then_def in_order_def append_string_def append_number_def)

lemma in_order_wr: "in_order (map (wr b) ts) = wr b (concat ts)"
  by (induction ts) (simp_all add: in_order_def wr_def and_then_def)

lemma in_order_Cons: "in_order (w # ws) = and_then w (in_order ws)"
  by (simp add: in_order_def)

lemma only_if_wr [simp]: "only_if c (wr b t) = wr b (opt_text c t)"
  by (simp add: only_if_def opt_text_def wr_def)

lemma append_indent_wr [simp]: "append_indent b l = wr b (indent l)"
proof -
  have "append_string b ''    '' = wr b ''    ''" by simp
  then have "append_indent b l = in_order (map (wr b) (replicate l ''    ''))"
    by (simp only: append_indent_def map_replicate)
  then show ?thesis by (simp only: in_order_wr indent_def)
qed

lemma hex_digit_facts:
  assumes "n < 16"
  shows "hex_digit n \<noteq> NUL" "hex_char_to_int (hex_digit n) = int n"
proof -
  have b: "byte (hex_digit n) = (if n < 10 then 48 + n else 87 + n)" using assms by (simp add: hex_digit_def)
  then have "byte (hex_digit n) \<noteq> byte NUL" by simp
  then show "hex_digit n \<noteq> NUL" by metis
  show "hex_char_to_int (hex_digit n) = int n" using assms by (simp add: hex_char_to_int_def b)
qed

lemma escape_char_nul_free: "nul_free (escape_char c)" if "c \<noteq> NUL"
  using that hex_digit_facts(1) [of "byte c div 16"] hex_digit_facts(1) [of "byte c mod 16"]
  by (auto simp: escape_char_def less_mult_imp_div_less)

lemma serialize_string_wr [simp]:
  assumes "nul_free s"
  shows "json_serialize_string s b = wr b (quoted s)"
proof -
  have "map (\<lambda>c. append_string b (escape_char c)) s = map (wr b) (map escape_char s)"
  proof -
    have "append_string b (escape_char c) = wr b (escape_char c)" if "c \<in> set s" for c
    proof -
      have "c \<noteq> NUL" using that assms unfolding nul_free_def by blast
      then show ?thesis by (intro wr_simps(3) escape_char_nul_free)
    qed
    then show ?thesis by simp
  qed
  then have "in_order (map (\<lambda>c. append_string b (escape_char c)) s) = wr b (concat (map escape_char s))"
    by (simp only: in_order_wr)
  then show ?thesis
    using assms by (simp add: json_serialize_string_def quoted_def)
qed

lemma serialize_wr:
  "wf_json v \<Longrightarrow> json_serialize_to_buffer_r v buf l p = wr buf (json_text p l v)"
  "list_all wf_json xs \<Longrightarrow> serialize_items xs buf l p = wr buf (items_text p l xs)"
  "wf_object ob \<Longrightarrow> set fs \<subseteq> set (pairs ob) \<Longrightarrow> serialize_members ob fs buf l p = wr buf (members_text p l fs)"
proof (induction v buf l p and xs buf l p and ob fs buf l p
    rule: json_serialize_to_buffer_r_serialize_items_serialize_members.induct)
  case (1 xs c buf level is_pretty)
  then show ?case by (simp add: in_order_Cons)
next
  case (2 fs c buf level is_pretty)
  then show ?case by (simp add: in_order_Cons JSONObject_of.simps)
next
  case (8 x xs buf level is_pretty)
  then show ?case by (simp add: in_order_Cons)
next
  case (10 ob key w fs buf level is_pretty)
  have "(key, w) \<in> set (pairs ob)" using 10(4) by simp
  then have "obj_map ob key = Some w" "nul_free key" "wf_json w"
    using 10(3) by (auto simp: obj_map_def JSONObject_of.simps list_all_iff)
  moreover from this have "json_object_get_value (Some ob) (Some key) = Some w"
    using get_value_map(1) [OF 10(3), of key] by simp
  ultimately show ?case using 10 by (simp add: in_order_Cons)
qed (simp_all add: wr_def)

end
