(* ===== verification/Parson_Roundtrip.thy ===== *)
theory Parson_Roundtrip
  imports Parson_Serialize
begin

text \<open>
  Writing and reading back: the text \<^verbatim>\<open>json_serialize_to_string\<close> and its pretty variant
  produce for a well-formed value is read by \<open>json_parse_string\<close> as a value with the same
  contents (capacities may differ), provided its numbers are zeros or normal doubles, it is
  nested at most \<open>MAX_NESTING + 1\<close> levels deep and memory lasts. The sections follow the
  grammar: string literals, scalars, arrays, objects. The last sections bound the text of a
  number and state the properties of the serializer.
\<close>

section \<open>Reading a string back\<close>

lemma parse_utf16_control:
  assumes "byte c < 0x20"
  shows "parse_utf16 (CHR ''u'' # CHR ''0'' # CHR ''0'' # hex_digit (byte c div 16) # hex_digit (byte c mod 16) # r) = Some ([c], 4)"
proof -
  have d: "byte c div 16 < 16" "byte c mod 16 < 16" using assms by simp_all
  note h = hex_digit_facts [OF d(1)] hex_digit_facts [OF d(2)]
  let ?s = "CHR ''0'' # CHR ''0'' # hex_digit (byte c div 16) # hex_digit (byte c mod 16) # r"
  have "\<exists>u. parse_utf16_hex ?s = Some u"
    using h by (auto simp: parse_utf16_hex_def hex_char_to_int_def [of "CHR ''0''"] Let_def)
  then obtain u where u: "parse_utf16_hex ?s = Some u" by blast
  have "u = byte c" using parse_utf16_hex_arith(1) [OF u] h by (simp add: hex_char_to_int_def [of "CHR ''0''"])
  then show ?thesis
    using u assms by (simp add: parse_utf16_iff escape_code_point_def utf8_encode_def)
qed

lemma escape_char_cases:
  assumes "c \<noteq> NUL"
  obtains e where "escape_char c = [CHR 0x5C, e]" "simple_escape e = Some c" "e \<noteq> NUL"
  | "escape_char c = [CHR 0x5C, CHR ''u'', CHR ''0'', CHR ''0'', hex_digit (byte c div 16), hex_digit (byte c mod 16)]" "byte c < 0x20"
  | "escape_char c = [c]" "c \<noteq> CHR 0x22" "c \<noteq> CHR 0x5C" "\<not> byte c < 0x20"
  using assms
  by (cases "c = CHR 0x22 \<or> c = CHR 0x5C \<or> c = CHR ''/'' \<or> c = CHR 0x08 \<or> c = CHR 0x0C \<or> c = CHR 0x0A \<or> c = CHR 0x0D \<or> c = CHR 0x09")
    (auto simp: escape_char_def simple_escape_def split: if_splits)

lemma process_escaped:
  "nul_free s \<Longrightarrow> process_string_loop (concat (map escape_char s) @ CHR 0x22 # r) (length (concat (map escape_char s))) out = Some (out @ s)"
proof (induction s arbitrary: out)
  case Nil
  then show ?case by (simp add: process_string_loop.simps)
next
  case (Cons c s)
  have c: "c \<noteq> NUL" using Cons.prems by simp
  have ih: "process_string_loop (concat (map escape_char s) @ CHR 0x22 # r) (length (concat (map escape_char s))) (out @ [c]) = Some (out @ c # s)"
    using Cons.IH [of "out @ [c]"] Cons.prems by simp
  show ?case
  proof (cases rule: escape_char_cases [OF c])
    case (1 e)
    then show ?thesis using ih by (subst process_string_loop.simps) simp
  next
    case 2
    note pu = parse_utf16_control [OF 2(2)]
    show ?thesis
      using ih pu by (subst process_string_loop.simps) (simp add: 2 simple_escape_def)
  next
    case 3
    then show ?thesis using ih c by (subst process_string_loop.simps) simp
  qed
qed

lemma literal_body_escaped: "nul_free s \<Longrightarrow> literal_body (concat (map escape_char s))"
proof (induction s)
  case (Cons c s)
  have c: "c \<noteq> NUL" using Cons.prems by simp
  have ih: "literal_body (concat (map escape_char s))" using Cons by simp
  show ?case
  proof (cases rule: escape_char_cases [OF c])
    case (1 e)
    then show ?thesis using ih by simp
  next
    case 2
    have d: "byte c div 16 < 16" "byte c mod 16 < 16" using 2 by simp_all
    have "hex_digit n \<noteq> CHR 0x22 \<and> hex_digit n \<noteq> CHR 0x5C \<and> hex_digit n \<noteq> NUL" if "n < 16" for n
      using hex_digit_facts [OF that] hex_not_quote by auto
    from this [OF d(1)] this [OF d(2)] show ?thesis using ih by (simp add: 2)
  next
    case 3
    then show ?thesis using ih c by simp
  qed
qed simp

lemma get_quoted_string_quoted:
  assumes "nul_free s" "plenty h"
  shows "get_quoted_string (quoted s @ r) h = (Some (s, r), h\<lparr>live := live h + 1\<rparr>)"
proof -
  have sk: "skip_quotes (quoted s @ r) = Some r"
    unfolding skip_quotes_iff using literal_body_escaped [OF assms(1)] by (auto simp: quoted_def)
  have "length (quoted s @ r) - length r - 2 = length (concat (map escape_char s))" by (simp add: quoted_def)
  then show ?thesis
    using sk process_escaped [OF assms(1), of r "[]"] assms
    by (simp add: get_quoted_string_def process_string_def quoted_def free_ptr_blocks)
qed

section \<open>With memory to spare\<close>

lemma array_add_plenty:
  assumes "plenty h"
  obtains ar' h' where "json_array_add ar v h = (JSONSuccess, ar', h')" "items ar' = items ar @ [v]" "plenty h'"
  using assms that
  by (cases "arr_capacity ar \<le> length (items ar)")
    (auto simp: json_array_add_def json_array_resize_def STARTING_CAPACITY_def free_ptr_blocks)

lemma object_resize_plenty:
  assumes "plenty h" "n \<noteq> 0"
  obtains ob' h' where "json_object_resize ob n h = (JSONSuccess, ob', h')" "pairs ob' = pairs ob" "plenty h'"
  using assms that by (auto simp: json_object_resize_def free_ptr_blocks)

lemma object_add_plenty:
  assumes "plenty h" "names_ok (pairs ob)" "nul_free k" "k \<notin> fst ` set (pairs ob)"
  obtains ob' h' where "json_object_add (Some ob) (Some k) (Some v) h = (JSONSuccess, Some ob', h')"
    "pairs ob' = pairs ob @ [(k, v)]" "plenty h'"
proof -
  have g: "json_object_getn_value (Some ob) k (strlen k) = None"
    using getn_loop_map_of [OF assms(2), of "strlen k" k] assms(3,4)
    by (simp add: json_object_getn_value_def map_of_eq_None_iff)
  let ?n = "max (obj_capacity ob * 2) STARTING_CAPACITY"
  have "?n \<noteq> 0" by (simp add: STARTING_CAPACITY_def)
  then obtain ob1 h1 where r: "json_object_resize ob ?n h = (JSONSuccess, ob1, h1)" "pairs ob1 = pairs ob" "plenty h1"
    using object_resize_plenty [OF assms(1)] by metis
  show thesis
  proof (cases "obj_capacity ob \<le> length (pairs ob)")
    case True
    then show thesis
      using g r assms(3) by (intro that [of "ob1\<lparr>pairs := pairs ob1 @ [(k, v)]\<rparr>" "h1\<lparr>live := live h1 + 1\<rparr>"])
        (simp_all add: json_object_add_def json_object_addn_def parson_strndup_def)
  next
    case False
    then show thesis
      using g assms by (intro that [of "ob\<lparr>pairs := pairs ob @ [(k, v)]\<rparr>" "h\<lparr>live := live h + 1\<rparr>"])
        (simp_all add: json_object_add_def json_object_addn_def parson_strndup_def)
  qed
qed

lemma init_plenty:
  assumes "plenty h"
  shows "json_value_init_object h = (Some (JSONObject [] 0), h\<lparr>live := live h + 2\<rparr>)"
    "json_value_init_array h = (Some (JSONArray [] 0), h\<lparr>live := live h + 2\<rparr>)"
  using assms
  by (simp_all add: json_value_init_object_def json_value_init_array_def json_object_init_def json_array_init_def
      JSONObject_of.simps JSONArray_of.simps)

section \<open>Blanks\<close>

abbreviation spaces :: "string \<Rightarrow> bool" where
  "spaces ws \<equiv> list_all isspace ws"

lemma SKIP_spaces: "spaces ws \<Longrightarrow> SKIP_WHITESPACES (ws @ s) = SKIP_WHITESPACES s"
  by (induction ws) (simp_all add: SKIP_WHITESPACES_def)

lemma SKIP_Cons [simp]: "\<not> isspace c \<Longrightarrow> SKIP_WHITESPACES (c # s) = c # s"
  by (simp add: SKIP_WHITESPACES_def)

lemma SKIP_idem [simp]: "SKIP_WHITESPACES (SKIP_WHITESPACES s) = SKIP_WHITESPACES s"
  by (simp add: SKIP_WHITESPACES_def)

lemma parse_value_SKIP: "parse_value n k (SKIP_WHITESPACES s) h = parse_value n k s h"
  by (cases n) (simp_all add: Let_def)

lemma spaces_indent [simp]: "spaces (indent l)"
  by (induction l) (simp_all add: indent_def isspace_def)

lemma spaces_opt [simp]: "spaces t \<Longrightarrow> spaces (opt_text b t)"
  by (simp add: opt_text_def)

lemma isspace_simps [simp]:
  "isspace CHR 0x0A" "isspace CHR '' ''" "\<not> isspace CHR '',''" "\<not> isspace CHR '']''" "\<not> isspace CHR ''}''"
  "\<not> isspace CHR '':''" "\<not> isspace CHR 0x22" "\<not> isspace CHR ''{''" "\<not> isspace CHR ''[''"
  by (simp_all add: isspace_def)

section \<open>Reading a value back\<close>

text \<open>The nesting levels the parser goes through: one for a scalar.\<close>

fun levels :: "json_value \<Rightarrow> nat" where
  "levels (JSONObject fs c) = Suc (foldr max (map (\<lambda>f. levels (snd f)) fs) 0)"
| "levels (JSONArray xs c) = Suc (foldr max (map levels xs) 0)"
| "levels _ = 1"

fun numbers_ok :: "json_value \<Rightarrow> bool" where
  "numbers_ok (JSONNumber d) = reads_back d"
| "numbers_ok (JSONObject fs c) = list_all (\<lambda>f. numbers_ok (snd f)) fs"
| "numbers_ok (JSONArray xs c) = list_all numbers_ok xs"
| "numbers_ok _ = True"

text \<open>What may follow a value in the text of a document.\<close>

definition value_stop :: "string \<Rightarrow> bool" where
  "value_stop r = (r = [] \<or> cur r \<in> {CHR '','', CHR '']'', CHR ''}'', CHR 0x0A})"

lemma value_stop_number: "value_stop r \<Longrightarrow> number_stop r"
  by (cases r) (auto simp: value_stop_def number_stop_def isdigit_def)

text \<open>Objects and arrays end themselves: anything may follow their text.\<close>

fun container :: "json_value \<Rightarrow> bool" where
  "container (JSONObject fs c) = True"
| "container (JSONArray xs c) = True"
| "container _ = False"

definition reads :: "bool \<Rightarrow> json_value \<Rightarrow> bool" where
  "reads p v = (\<forall>l k ws r h. levels v + k \<le> MAX_NESTING + 1 \<longrightarrow> plenty h \<longrightarrow> spaces ws \<longrightarrow> container v \<or> value_stop r \<longrightarrow>
     (\<exists>n v' h'. parse_value n k (ws @ json_text p l v @ r) h = Some (Some (v', r), h') \<and>
        contents v' = contents v \<and> plenty h'))"

lemma sprintf_g17_head:
  assumes "reads_back d"
  obtains c t where "sprintf_g17 d = c # t" "c = CHR ''-'' \<or> isdigit c"
proof -
  obtain s m e where d: "d = Finite s m e" using assms by (cases d) auto
  obtain c t where "sprintf_g17 (Finite s m e) = (if s then ''-'' else []) @ c # t" "isdigit c"
    by (rule sprintf_g17_finite [of s m e]) (use assms d in simp_all)
  then show thesis using that d by (cases s) (auto simp del: sprintf_g17.simps)
qed

text \<open>The first character of a text decides the case of the \<open>switch\<close>.\<close>

lemma json_text_head:
  assumes "numbers_ok v"
  obtains c t where "json_text p l v = c # t" "\<not> isspace c" "c \<noteq> NUL" "c \<noteq> CHR '']''" "c \<noteq> CHR ''}''"
    "c \<noteq> CHR 0xEF"
proof (cases v)
  case (JSONNumber d)
  then obtain c t where "sprintf_g17 d = c # t" "c = CHR ''-'' \<or> isdigit c"
    using sprintf_g17_head [of d] assms by auto
  then show thesis using JSONNumber by (intro that [of c t]) (auto simp: isspace_def isdigit_def)
next
  case (JSONBoolean b)
  then show thesis using that by (cases b) (auto simp: isspace_def)
qed (use that in \<open>auto simp: quoted_def isspace_def\<close>)

lemma parse_value_scalar:
  assumes "k \<le> MAX_NESTING" "spaces ws" "\<not> isspace c" "c \<noteq> CHR ''{''" "c \<noteq> CHR ''[''"
  shows "parse_value (Suc n) k (ws @ c # t) h = Some (parse_scalar (c # t) h)"
  using assms by (simp add: SKIP_spaces Let_def)

lemma reads_scalars:
  "nul_free s \<Longrightarrow> reads p (JSONString s)" "reads p (JSONBoolean b)" "reads p JSONNull"
  "reads_back d \<Longrightarrow> reads p (JSONNumber d)"
proof -
  show "reads p (JSONString s)" if "nul_free s"
    unfolding reads_def
  proof (intro allI impI)
    fix l k ws r and h :: heap
    assume a: "levels (JSONString s) + k \<le> MAX_NESTING + 1" "plenty h" "spaces ws"
    have "parse_value (Suc 0) k (ws @ quoted s @ r) h = Some (parse_scalar (quoted s @ r) h)"
      using a parse_value_scalar [of k ws "CHR 0x22"] by (simp add: quoted_def)
    moreover have "parse_scalar (quoted s @ r) h = parse_string_value (quoted s @ r) h"
      by (simp add: parse_scalar_def quoted_def Let_def)
    ultimately show "\<exists>n v' h'. parse_value n k (ws @ json_text p l (JSONString s) @ r) h = Some (Some (v', r), h') \<and>
        contents v' = contents (JSONString s) \<and> plenty h'"
      using a get_quoted_string_quoted [OF that a(2)]
      by (intro exI [of _ "Suc 0"]) (simp add: parse_string_value_def json_value_init_string_no_copy_def)
  qed
  show "reads p (JSONBoolean b)"
    unfolding reads_def
  proof (intro allI impI)
    fix l k ws r and h :: heap
    assume a: "levels (JSONBoolean b) + k \<le> MAX_NESTING + 1" "plenty h" "spaces ws"
    then show "\<exists>n v' h'. parse_value n k (ws @ json_text p l (JSONBoolean b) @ r) h = Some (Some (v', r), h') \<and>
        contents v' = contents (JSONBoolean b) \<and> plenty h'"
      using parse_value_scalar [of k ws "CHR ''t''" 0 "''rue'' @ r" h] parse_value_scalar [of k ws "CHR ''f''" 0 "''alse'' @ r" h]
      by (intro exI [of _ "Suc 0"])
        (simp add: parse_scalar_def parse_boolean_value_def with_rest_def json_value_init_boolean_def strneq_def isspace_def)
  qed
  show "reads p JSONNull"
    unfolding reads_def
  proof (intro allI impI)
    fix l k ws r and h :: heap
    assume a: "levels JSONNull + k \<le> MAX_NESTING + 1" "plenty h" "spaces ws"
    then show "\<exists>n v' h'. parse_value n k (ws @ json_text p l JSONNull @ r) h = Some (Some (v', r), h') \<and>
        contents v' = contents JSONNull \<and> plenty h'"
      using parse_value_scalar [of k ws "CHR ''n''" 0 "''ull'' @ r" h]
      by (intro exI [of _ "Suc 0"])
        (simp add: parse_scalar_def parse_null_value_def with_rest_def json_value_init_null_def strneq_def isspace_def isdigit_def)
  qed
  show "reads p (JSONNumber d)" if rb: "reads_back d"
    unfolding reads_def
  proof (intro allI impI)
    fix l k ws r and h :: heap
    assume a: "levels (JSONNumber d) + k \<le> MAX_NESTING + 1" "plenty h" "spaces ws" "container (JSONNumber d) \<or> value_stop r"
    have stop: "value_stop r" using a(4) by simp
    have fin: "\<not> times_zero_nonzero d" using rb by (cases d) auto
    obtain c t where ct: "sprintf_g17 d = c # t" "c = CHR ''-'' \<or> isdigit c"
      using sprintf_g17_head [OF rb] .
    note st = strtod_sprintf [OF rb value_stop_number [OF stop]]
    have ps: "parse_scalar (sprintf_g17 d @ r) h = parse_number_value (sprintf_g17 d @ r) h"
      using ct by (auto simp: parse_scalar_def isdigit_def)
    have "\<not> isspace c" "c \<noteq> CHR ''{''" "c \<noteq> CHR ''[''" using ct(2) by (auto simp: isspace_def isdigit_def)
    then have "parse_value (Suc 0) k (ws @ c # t @ r) h = Some (parse_scalar (c # t @ r) h)"
      using a by (intro parse_value_scalar) simp_all
    then have "parse_value (Suc 0) k (ws @ sprintf_g17 d @ r) h = Some (parse_scalar (sprintf_g17 d @ r) h)"
      by (simp only: ct(1) append_Cons)
    then show "\<exists>n v' h'. parse_value n k (ws @ json_text p l (JSONNumber d) @ r) h = Some (Some (v', r), h') \<and>
        contents v' = contents (JSONNumber d) \<and> plenty h'"
      using a st ps fin
      by (intro exI [of _ "Suc 0"]) (simp add: parse_number_value_def with_rest_def json_value_init_number_def)
  qed
qed

lemma loop_mono:
  "parse_array_loop n k ar s h = Some r \<Longrightarrow> n \<le> m \<Longrightarrow> parse_array_loop m k ar s h = Some r"
  "parse_object_loop n k ob s h = Some r \<Longrightarrow> n \<le> m \<Longrightarrow> parse_object_loop m k ob s h = Some r"
proof (induction m)
  case (Suc m)
  {
    case 1
    show ?case
    proof (cases "n = Suc m")
      case False
      then have "parse_array_loop m k ar s h = Some r" using Suc(1) 1 by simp
      then show ?thesis by (rule fuel_mono [of m, THEN conjunct2, THEN conjunct2, THEN conjunct2, THEN conjunct2, rule_format])
    qed (use 1 in simp)
  next
    case 2
    show ?case
    proof (cases "n = Suc m")
      case False
      then have "parse_object_loop m k ob s h = Some r" using Suc(2) 2 by simp
      then show ?thesis by (rule fuel_mono [of m, THEN conjunct2, THEN conjunct2, THEN conjunct1, rule_format])
    qed (use 2 in simp)
  }
qed simp_all

lemma array_end_plenty:
  assumes "plenty h" "items ar \<noteq> []"
  obtains h' where "parse_array_end ar (CHR '']'' # r) h = (Some (JSONArray (items ar) (length (items ar)), r), h')" "plenty h'"
  using assms that
  by (simp add: parse_array_end_def json_array_resize_def json_array_get_count_def JSONArray_of.simps free_ptr_blocks)

lemma object_end_plenty:
  assumes "plenty h" "pairs ob \<noteq> []"
  obtains h' c where "parse_object_end ob (CHR ''}'' # r) h = (Some (JSONObject (pairs ob) c, r), h')" "plenty h'"
proof -
  have "length (pairs ob) \<noteq> 0" using assms(2) by simp
  then obtain ob' h' where "json_object_resize ob (length (pairs ob)) h = (JSONSuccess, ob', h')" "pairs ob' = pairs ob" "plenty h'"
    using object_resize_plenty [OF assms(1)] by metis
  then show thesis
    by (intro that [of "obj_capacity ob'" h'])
      (simp_all add: parse_object_end_def json_object_get_count_def JSONObject_of.simps)
qed

text \<open>The rest of a container after one of its entries.\<close>

lemma after_entry:
  assumes "c = CHR '']'' \<or> c = CHR ''}''"
  shows "value_stop (opt_text b '','' @ opt_text p [CHR 0x0A] @ opt_text (\<not> b) (opt_text p (indent l) @ c # r) @ opt_text b t)"
    "b \<Longrightarrow> SKIP_WHITESPACES (opt_text b '','' @ opt_text p [CHR 0x0A] @ t) = CHR '','' # opt_text p [CHR 0x0A] @ t"
    "SKIP_WHITESPACES (opt_text p [CHR 0x0A] @ opt_text p (indent l) @ c # r) = c # r"
    "SKIP_WHITESPACES (opt_text p [CHR 0x0A] @ t) = SKIP_WHITESPACES t"
  using assms by (auto simp: value_stop_def opt_text_def SKIP_spaces)

lemma reads_items:
  assumes "\<And>x. x \<in> set xs \<Longrightarrow> reads p x \<and> numbers_ok x \<and> levels x + k \<le> MAX_NESTING + 1" "xs \<noteq> []" "plenty h"
  shows "\<exists>n v' h'. parse_array_loop n k ar (SKIP_WHITESPACES (items_text p l xs @ opt_text p (indent l) @ CHR '']'' # r)) h
      = Some (Some (v', r), h') \<and> contents v' = JSONArray (map contents (items ar @ xs)) 0 \<and> plenty h'"
  using assms
proof (induction xs arbitrary: ar h)
  case (Cons x xs)
  define R where "R = opt_text (xs \<noteq> []) '','' @ opt_text p [CHR 0x0A] @ items_text p l xs @ opt_text p (indent l) @ CHR '']'' # r"
  obtain c t where ct: "json_text p (l + 1) x = c # t" "\<not> isspace c" "c \<noteq> NUL"
    using json_text_head Cons.prems(1) [of x] by (metis list.set_intros(1))
  have s: "SKIP_WHITESPACES (items_text p l (x # xs) @ opt_text p (indent l) @ CHR '']'' # r) = json_text p (l + 1) x @ R"
    using ct by (simp add: SKIP_spaces R_def)
  have "value_stop R"
    by (cases "xs = []"; cases p) (simp_all add: R_def value_stop_def opt_text_def)
  then obtain n1 v1 h1 where v1: "parse_value n1 k ([] @ json_text p (l + 1) x @ R) h = Some (Some (v1, R), h1)"
    "contents v1 = contents x" "plenty h1"
    using Cons.prems(1) [of x] Cons.prems(3) list.pred_inject(1) [of isspace] unfolding reads_def by (meson list.set_intros(1))
  obtain ar1 h2 where ar1: "json_array_add ar v1 h1 = (JSONSuccess, ar1, h2)" "items ar1 = items ar @ [v1]" "plenty h2"
    using array_add_plenty [OF v1(3)] .
  have loop: "parse_array_loop (Suc n) k ar (json_text p (l + 1) x @ R) h =
      (case parse_array_item ar (Some (v1, R), h1) of Inl r' \<Rightarrow> Some r' | Inr (ar1, s2, h2) \<Rightarrow> parse_array_loop n k ar1 s2 h2)"
    if "n1 \<le> n" for n
    using parse_value_mono [OF v1(1) that] ct by simp
  show ?case
  proof (cases "xs = []")
    case True
    have "SKIP_WHITESPACES R = CHR '']'' # r" using after_entry(3) [of "CHR '']''" p l r] True by (simp add: R_def opt_text_def)
    then have item: "parse_array_item ar (Some (v1, R), h1) = Inl (parse_array_end ar1 (CHR '']'' # r) h2)"
      using ar1(1) by (simp add: parse_array_item_def)
    have ne: "items ar1 \<noteq> []" using ar1(2) by simp
    obtain h3 where "parse_array_end ar1 (CHR '']'' # r) h2 = (Some (JSONArray (items ar1) (length (items ar1)), r), h3)" "plenty h3"
      using array_end_plenty [OF ar1(3) ne] .
    then show ?thesis
      using loop [OF order_refl] item s v1(2) ar1(2) True by (intro exI [of _ "Suc n1"]) simp
  next
    case False
    let ?Y = "items_text p l xs @ opt_text p (indent l) @ CHR '']'' # r"
    have "SKIP_WHITESPACES R = CHR '','' # opt_text p [CHR 0x0A] @ ?Y" using False by (simp add: R_def opt_text_def)
    then have item: "parse_array_item ar (Some (v1, R), h1) = Inr (ar1, SKIP_WHITESPACES ?Y, h2)"
      using ar1(1) after_entry(4) [of "CHR '']''"] by (simp add: parse_array_item_def)
    obtain n2 v' h' where ih: "parse_array_loop n2 k ar1 (SKIP_WHITESPACES ?Y) h2 = Some (Some (v', r), h')"
      "contents v' = JSONArray (map contents (items ar1 @ xs)) 0" "plenty h'"
      using Cons.IH [OF Cons.prems(1) False ar1(3)] by (metis list.set_intros(2))
    have "parse_array_loop (Suc (max n1 n2)) k ar (json_text p (l + 1) x @ R) h = Some (Some (v', r), h')"
      using loop [of "max n1 n2"] item loop_mono(1) [OF ih(1), of "max n1 n2"] by simp
    then show ?thesis using s ih v1(2) ar1(2) by (intro exI [of _ "Suc (max n1 n2)"]) simp
  qed
qed simp

lemma reads_array:
  assumes "\<And>x. x \<in> set xs \<Longrightarrow> reads p x" "list_all numbers_ok xs"
  shows "reads p (JSONArray xs c)"
  unfolding reads_def
proof (intro allI impI)
  fix l k ws r and h :: heap
  assume a: "levels (JSONArray xs c) + k \<le> MAX_NESTING + 1" "plenty h" "spaces ws"
  let ?T = "opt_text (xs \<noteq> [] \<and> p) [CHR 0x0A] @ items_text p l xs @ opt_text (xs \<noteq> [] \<and> p) (indent l) @ CHR '']'' # r"
  have pv: "parse_value (Suc (Suc n)) k (ws @ json_text p l (JSONArray xs c) @ r) h =
      (case parse_array_start (CHR ''['' # ?T) h of Inl r \<Rightarrow> Some r | Inr (ar, q, h1) \<Rightarrow> parse_array_loop n (Suc k) ar q h1)" for n
    using a by (simp add: SKIP_spaces Let_def)
  show "\<exists>n v' h'. parse_value n k (ws @ json_text p l (JSONArray xs c) @ r) h = Some (Some (v', r), h') \<and>
      contents v' = contents (JSONArray xs c) \<and> plenty h'"
  proof (cases "xs = []")
    case True
    then have "parse_array_start (CHR ''['' # ?T) h = Inl (Some (JSONArray [] 0, r), h\<lparr>live := live h + 2\<rparr>)"
      using init_plenty(2) [OF a(2)] by (simp add: parse_array_start_def opt_text_def)
    then show ?thesis using pv a(2) True by (intro exI [of _ "Suc (Suc 0)"]) simp
  next
    case False
    let ?Y = "items_text p l xs @ opt_text p (indent l) @ CHR '']'' # r"
    let ?h1 = "h\<lparr>live := live h + 2\<rparr>" and ?ar = "\<lparr>items = [], arr_capacity = 0\<rparr>"
    have lv: "levels x + Suc k \<le> MAX_NESTING + 1" if "x \<in> set xs" for x
    proof -
      have "levels x \<le> foldr max (map levels xs) 0" using that foldr_max_le [of "map levels xs"] by auto
      then show ?thesis using a(1) by simp
    qed
    have ok: "reads p x \<and> numbers_ok x \<and> levels x + Suc k \<le> MAX_NESTING + 1" if "x \<in> set xs" for x
      using that assms lv by (auto simp: list_all_iff)
    obtain y ys where xs: "xs = y # ys" using False by (cases xs) auto
    obtain c t where ct: "json_text p (l + 1) y = c # t" "\<not> isspace c" "c \<noteq> CHR '']''"
      using json_text_head ok [of y] xs by (metis list.set_intros(1))
    have sk: "SKIP_WHITESPACES ?T = SKIP_WHITESPACES ?Y" "cur (SKIP_WHITESPACES ?Y) \<noteq> CHR '']''"
      using False ct after_entry(4) [of "CHR '']''" p] by (simp_all add: xs SKIP_spaces opt_text_def)
    have start: "parse_array_start (CHR ''['' # ?T) h = Inr (?ar, SKIP_WHITESPACES ?Y, ?h1)"
      using init_plenty(2) [OF a(2)] sk by (simp add: parse_array_start_def)
    obtain n v' h' where "parse_array_loop n (Suc k) ?ar (SKIP_WHITESPACES ?Y) ?h1 = Some (Some (v', r), h')"
      "contents v' = JSONArray (map contents (items ?ar @ xs)) 0" "plenty h'"
      using reads_items [of xs p "Suc k" ?h1 ?ar l r] ok False a(2) by auto
    then show ?thesis using pv start by (intro exI [of _ "Suc (Suc n)"]) simp
  qed
qed

lemma reads_members:
  assumes "\<And>f. f \<in> set fs \<Longrightarrow> reads p (snd f) \<and> nul_free (fst f) \<and> levels (snd f) + k \<le> MAX_NESTING + 1"
    "fs \<noteq> []" "plenty h" "names_ok (pairs ob)" "distinct (map fst (pairs ob @ fs))"
  shows "\<exists>n v' h'. parse_object_loop n k ob (SKIP_WHITESPACES (members_text p l fs @ opt_text p (indent l) @ CHR ''}'' # r)) h
      = Some (Some (v', r), h') \<and>
      contents v' = JSONObject (map (\<lambda>f. (fst f, contents (snd f))) (pairs ob @ fs)) 0 \<and> plenty h'"
  using assms
proof (induction fs arbitrary: ob h)
  case (Cons f fs)
  obtain key x where f: "f = (key, x)" by fastforce
  have kx: "reads p x" "nul_free key" "levels x + k \<le> MAX_NESTING + 1" using Cons.prems(1) [of f] f by auto
  define R where "R = opt_text (fs \<noteq> []) '','' @ opt_text p [CHR 0x0A] @ members_text p l fs @ opt_text p (indent l) @ CHR ''}'' # r"
  let ?V = "opt_text p '' '' @ json_text p (l + 1) x @ R"
  have s: "SKIP_WHITESPACES (members_text p l (f # fs) @ opt_text p (indent l) @ CHR ''}'' # r) = quoted key @ CHR '':'' # ?V"
    by (simp add: f SKIP_spaces R_def quoted_def)
  let ?h1 = "h\<lparr>live := live h + 1\<rparr>"
  have pk: "parse_object_key ob (quoted key @ CHR '':'' # ?V) h = Inr (key, ?V, ?h1)"
    using get_quoted_string_quoted [OF kx(2) Cons.prems(3), of "CHR '':'' # ?V"] by (simp add: parse_object_key_def)
  have "value_stop R" by (cases "fs = []"; cases p) (simp_all add: R_def value_stop_def opt_text_def)
  moreover have "spaces (opt_text p '' '')" "plenty ?h1" using Cons.prems(3) by simp_all
  ultimately obtain n1 v1 h2 where v1: "parse_value n1 k ?V ?h1 = Some (Some (v1, R), h2)" "contents v1 = contents x" "plenty h2"
    using kx(1,3) unfolding reads_def by blast
  have nin: "key \<notin> fst ` set (pairs ob)" using Cons.prems(5) f by auto
  obtain ob1 h3 where ob1: "json_object_add (Some ob) (Some key) (Some v1) h2 = (JSONSuccess, Some ob1, h3)"
    "pairs ob1 = pairs ob @ [(key, v1)]" "plenty h3"
    using object_add_plenty [OF v1(3) Cons.prems(4) kx(2) nin] .
  let ?h4 = "free_ptr True h3"
  have p4: "plenty ?h4" using ob1(3) by (simp add: free_ptr_blocks)
  have loop: "parse_object_loop (Suc n) k ob (quoted key @ CHR '':'' # ?V) h =
      (case parse_object_member ob key (Some (v1, R), h2) of Inl r' \<Rightarrow> Some r'
       | Inr (ob1, s3, h3) \<Rightarrow> parse_object_loop n k ob1 s3 h3)" if "n1 \<le> n" for n
    using parse_value_mono [OF v1(1) that] pk by (simp add: quoted_def)
  show ?case
  proof (cases "fs = []")
    case True
    have "SKIP_WHITESPACES R = CHR ''}'' # r" using after_entry(3) [of "CHR ''}''" p l r] True by (simp add: R_def opt_text_def)
    then have mem: "parse_object_member ob key (Some (v1, R), h2) = Inl (parse_object_end ob1 (CHR ''}'' # r) ?h4)"
      using ob1(1) by (simp add: parse_object_member_def)
    have ne: "pairs ob1 \<noteq> []" using ob1(2) by simp
    obtain h5 c where "parse_object_end ob1 (CHR ''}'' # r) ?h4 = (Some (JSONObject (pairs ob1) c, r), h5)" "plenty h5"
      using object_end_plenty [OF p4 ne] .
    then show ?thesis
      using loop [OF order_refl] mem s v1(2) ob1(2) True f by (intro exI [of _ "Suc n1"]) simp
  next
    case False
    let ?Y = "members_text p l fs @ opt_text p (indent l) @ CHR ''}'' # r"
    have "SKIP_WHITESPACES R = CHR '','' # opt_text p [CHR 0x0A] @ ?Y" using False by (simp add: R_def opt_text_def)
    then have mem: "parse_object_member ob key (Some (v1, R), h2) = Inr (ob1, SKIP_WHITESPACES ?Y, ?h4)"
      using ob1(1) after_entry(4) [of "CHR ''}''"] by (simp add: parse_object_member_def)
    have nd: "names_ok (pairs ob1)" "distinct (map fst (pairs ob1 @ fs))"
      using Cons.prems(4,5) kx(2) ob1(2) f by auto
    have pf: "\<And>g. g \<in> set fs \<Longrightarrow> reads p (snd g) \<and> nul_free (fst g) \<and> levels (snd g) + k \<le> MAX_NESTING + 1"
      using Cons.prems(1) by simp
    obtain n2 v' h' where ih: "parse_object_loop n2 k ob1 (SKIP_WHITESPACES ?Y) ?h4 = Some (Some (v', r), h')"
      "contents v' = JSONObject (map (\<lambda>f. (fst f, contents (snd f))) (pairs ob1 @ fs)) 0" "plenty h'"
      using Cons.IH [OF pf False p4 nd] by blast
    have "parse_object_loop (Suc (max n1 n2)) k ob (quoted key @ CHR '':'' # ?V) h = Some (Some (v', r), h')"
      using loop [of "max n1 n2"] mem loop_mono(2) [OF ih(1), of "max n1 n2"] by simp
    then show ?thesis using s ih v1(2) ob1(2) f by (intro exI [of _ "Suc (max n1 n2)"]) simp
  qed
qed simp

lemma reads_object:
  assumes "\<And>f. f \<in> set fs \<Longrightarrow> reads p (snd f) \<and> nul_free (fst f)" "distinct (map fst fs)"
  shows "reads p (JSONObject fs c)"
  unfolding reads_def
proof (intro allI impI)
  fix l k ws r and h :: heap
  assume a: "levels (JSONObject fs c) + k \<le> MAX_NESTING + 1" "plenty h" "spaces ws"
  let ?T = "opt_text (fs \<noteq> [] \<and> p) [CHR 0x0A] @ members_text p l fs @ opt_text (fs \<noteq> [] \<and> p) (indent l) @ CHR ''}'' # r"
  have pv: "parse_value (Suc (Suc n)) k (ws @ json_text p l (JSONObject fs c) @ r) h =
      (case parse_object_start (CHR ''{'' # ?T) h of Inl r \<Rightarrow> Some r | Inr (ob, q, h1) \<Rightarrow> parse_object_loop n (Suc k) ob q h1)" for n
    using a by (simp add: SKIP_spaces Let_def)
  show "\<exists>n v' h'. parse_value n k (ws @ json_text p l (JSONObject fs c) @ r) h = Some (Some (v', r), h') \<and>
      contents v' = contents (JSONObject fs c) \<and> plenty h'"
  proof (cases "fs = []")
    case True
    then have "parse_object_start (CHR ''{'' # ?T) h = Inl (Some (JSONObject [] 0, r), h\<lparr>live := live h + 2\<rparr>)"
      using init_plenty(1) [OF a(2)] by (simp add: parse_object_start_def opt_text_def)
    then show ?thesis using pv a(2) True by (intro exI [of _ "Suc (Suc 0)"]) simp
  next
    case False
    let ?Y = "members_text p l fs @ opt_text p (indent l) @ CHR ''}'' # r"
    let ?h1 = "h\<lparr>live := live h + 2\<rparr>" and ?ob = "\<lparr>pairs = [], obj_capacity = 0\<rparr>"
    have lv: "levels (snd f) + Suc k \<le> MAX_NESTING + 1" if "f \<in> set fs" for f
    proof -
      have "levels (snd f) \<le> foldr max (map (\<lambda>f. levels (snd f)) fs) 0"
        using that foldr_max_le [of "map (\<lambda>f. levels (snd f)) fs"] by auto
      then show ?thesis using a(1) by simp
    qed
    obtain y ys where fs: "fs = y # ys" using False by (cases fs) auto
    have sk: "SKIP_WHITESPACES ?T = SKIP_WHITESPACES ?Y" "cur (SKIP_WHITESPACES ?Y) \<noteq> CHR ''}''"
      using False after_entry(4) [of "CHR ''}''" p] by (cases y; simp add: fs SKIP_spaces opt_text_def quoted_def)+
    have start: "parse_object_start (CHR ''{'' # ?T) h = Inr (?ob, SKIP_WHITESPACES ?Y, ?h1)"
      using init_plenty(1) [OF a(2)] sk by (simp add: parse_object_start_def)
    obtain n v' h' where "parse_object_loop n (Suc k) ?ob (SKIP_WHITESPACES ?Y) ?h1 = Some (Some (v', r), h')"
      "contents v' = JSONObject (map (\<lambda>f. (fst f, contents (snd f))) (pairs ?ob @ fs)) 0" "plenty h'"
      using reads_members [of fs p "Suc k" ?h1 ?ob l r] assms lv False a(2) by auto
    then show ?thesis using pv start by (intro exI [of _ "Suc (Suc n)"]) simp
  qed
qed

lemma reads_wf: "wf_json v \<Longrightarrow> numbers_ok v \<Longrightarrow> reads p v"
proof (induction v)
  case (JSONObject fs c)
  then have "reads p (snd f) \<and> nul_free (fst f)" if "f \<in> set fs" for f
    using that by (fastforce simp: list_all_iff snds.simps)
  then show ?case using JSONObject.prems by (intro reads_object) auto
next
  case (JSONArray xs c)
  then show ?case by (intro reads_array) (auto simp: list_all_iff)
qed (auto intro: reads_scalars)

section \<open>The size of the text of a number\<close>

lemma length_fraction_part: "length (fraction_part ds) \<le> Suc (length ds)"
proof -
  have "length (strip_zeros ds) \<le> length ds"
    using strip_zeros_split [of ds] by (metis length_append le_add1)
  then show ?thesis by (simp add: fraction_part_def)
qed

lemma length_nat_digits_le: "n < 1000 \<Longrightarrow> length (nat_digits n) \<le> 3"
  by (subst nat_digits.simps, subst nat_digits.simps, subst nat_digits.simps) auto

lemma length_format_g17:
  assumes "10 ^ 16 \<le> D" "D < 10 ^ 17" "\<bar>x\<bar> < 1000"
  shows "length (format_g17 D x) \<le> 23"
proof -
  let ?ds = "nat_digits D"
  have len: "length ?ds = 17" using length_nat_digits [of 16 D] assms by simp
  have e: "length (nat_digits (nat \<bar>x\<bar>)) \<le> 3" using assms(3) by (intro length_nat_digits_le) linarith
  have "length (fraction_part (drop k ?ds)) \<le> Suc (17 - k)" for k using length_fraction_part [of "drop k ?ds"] len by simp
  from this [of 1] this [of "nat x + 1"] show ?thesis
  proof -
    assume f: "length (fraction_part (drop 1 ?ds)) \<le> Suc (17 - 1)"
      "length (fraction_part (drop (nat x + 1) ?ds)) \<le> Suc (17 - (nat x + 1))"
    have z: "length (strip_zeros ?ds) \<le> 17" using strip_zeros_split [of ?ds] len by (metis length_append le_add1)
    consider "0 \<le> x \<and> x < 17" | "\<not> (0 \<le> x \<and> x < 17)" "- 4 \<le> x \<and> x < 0" | "\<not> (0 \<le> x \<and> x < 17)" "\<not> (- 4 \<le> x \<and> x < 0)" by blast
    then show ?thesis
    proof cases
      case 1
      then show ?thesis using f(2) len by (simp add: format_g17_def Let_def)
    next
      case 2
      then have "nat (- x) - 1 \<le> 3" by linarith
      then show ?thesis using 2 z by (simp add: format_g17_def Let_def)
    next
      case 3
      define es where "es = nat_digits (nat \<bar>x\<bar>)"
      have fmt: "format_g17 D x = take 1 ?ds @ fraction_part (drop 1 ?ds) @ ''e'' @ (if x < 0 then ''-'' else ''+'') @ (if length es < 2 then CHR ''0'' # es else es)"
        unfolding format_g17_def Let_def es_def using 3 by auto
      have "length (if length es < 2 then CHR ''0'' # es else es) \<le> 3" using e by (simp add: es_def)
      then show ?thesis using f(1) len unfolding fmt by (auto split: if_splits)
    qed
  qed
qed

lemma decimal_exponent_bound:
  assumes "canonical (Finite s m e)" "0 < m" "scale 2 (- e) m 1 = (n, d)"
  shows "- 325 < ratio_log 10 n d" "ratio_log 10 n d < 309" "0 < n" "0 < d"
proof -
  have d: "0 < d" and q: "real n / real d = real m * 2 powi e"
    using scale_ratio [OF assms(3)] by (auto simp: power_int_minus divide_inverse)
  show n: "0 < n" using assms(2,3) by (auto simp: scale_def split: if_splits)
  show "0 < d" by (rule d)
  have ten: "1 < (10::nat)" by simp
  note lb = ratio_log_bounds [OF ten n d, unfolded of_nat_numeral]
  have m: "1 \<le> real m" "real m < 2 ^ 53" "- 1074 \<le> e" "e \<le> 971" using assms(1,2) by auto
  have pe: "(2::real) powi (- 1074) \<le> 2 powi e" "(2::real) powi e \<le> 2 powi 971"
    using m(3,4) by (intro power_int_increasing; simp)+
  have lo: "(2::real) powi (- 1074) \<le> real n / real d"
    unfolding q using pe(1) m(1) mult_mono [of 1 "real m" "2 powi (- 1074)" "2 powi e"] by simp
  have hi: "real n / real d < 2 ^ 53 * 2 powi 971"
    unfolding q using pe(2) m mult_strict_mono' [of "real m" "2 ^ 53" "2 powi e" "2 powi 971"]
      mult_less_le_imp_less [of "real m" "2 ^ 53" "2 powi e" "2 powi 971"] by simp
  show "ratio_log 10 n d < 309"
  proof (rule ccontr)
    assume "\<not> ratio_log 10 n d < 309"
    then have "(10::real) powi 309 \<le> 10 powi ratio_log 10 n d" by (intro power_int_increasing) simp_all
    then have "(10::real) powi 309 < 2 ^ 53 * 2 powi 971" using lb(1) hi by linarith
    then show False by simp
  qed
  show "- 325 < ratio_log 10 n d"
  proof (rule ccontr)
    assume "\<not> - 325 < ratio_log 10 n d"
    then have "(10::real) powi (ratio_log 10 n d + 1) \<le> 10 powi (- 324)" by (intro power_int_increasing) simp_all
    then have "(2::real) powi (- 1074) < 10 powi (- 324)" using lb(2) lo by linarith
    then have "(10::real) ^ 324 < 2 ^ 1074" by (simp add: power_int_def field_simps)
    then show False by simp
  qed
qed

lemma length_sprintf_g17:
  assumes "canonical d"
  shows "length (sprintf_g17 d) \<le> 24"
proof (cases d)
  case (Finite s m e)
  show ?thesis
  proof (cases "m = 0")
    case False
    obtain n q where nq: "scale 2 (- e) m 1 = (n, q)" by fastforce
    obtain D x where Dx: "digits17 n q = (D, x)" by fastforce
    note b = decimal_exponent_bound [OF assms [unfolded Finite] _ nq]
    have "\<bar>x\<bar> < 1000" "10 ^ 16 \<le> D" "D < 10 ^ 17"
      using digits17_close(1-3) [OF b(3,4) Dx] b(1,2) False by auto
    then show ?thesis using length_format_g17 [of D x] False Finite nq Dx by simp
  qed (simp add: Finite)
qed simp_all

section \<open>Properties\<close>

lemma serialize_ptr_text:
  "wf_json v \<Longrightarrow> serialize_ptr (Some v) buf 0 p = wr buf (json_text p 0 v)"
  by (simp add: serialize_ptr_def serialize_wr)

lemma serialization_sizes:
  assumes "wf_json v"
  shows "json_serialization_size (Some v) = length (json_text False 0 v) + 1"
    "json_serialization_size_pretty (Some v) = length (json_text True 0 v) + 1"
  using serialize_ptr_text [OF assms]
  by (simp_all add: json_serialization_size_def json_serialization_size_pretty_def wr_def nat_add_distrib)

lemma serialize_to_buffer_text:
  assumes "wf_json v"
  shows "json_serialize_to_buffer (Some v) n
      = (if length (json_text False 0 v) + 1 \<le> n then (JSONSuccess, json_text False 0 v) else (JSONFailure, []))"
    "json_serialize_to_buffer_pretty (Some v) n
      = (if length (json_text True 0 v) + 1 \<le> n then (JSONSuccess, json_text True 0 v) else (JSONFailure, []))"
  using serialize_ptr_text [OF assms] serialization_sizes [OF assms]
  by (simp_all add: json_serialize_to_buffer_def json_serialize_to_buffer_pretty_def wr_def)

lemma json_parse_text:
  assumes "wf_json v" "numbers_ok v" "levels v \<le> MAX_NESTING + 1" "plenty h"
    and r: "container v \<or> value_stop r"
  shows "\<exists>v' h'. json_parse_string (Some (json_text p 0 v @ r)) h = Some (Some v', h') \<and> contents v' = contents v \<and> plenty h'"
proof -
  let ?t = "json_text p 0 v @ r"
  have "levels v + 0 \<le> MAX_NESTING + 1" using assms(3) by simp
  moreover have "spaces []" by simp
  ultimately obtain n v' h' where pv: "parse_value n 0 ([] @ ?t) h = Some (Some (v', r), h')" "contents v' = contents v" "plenty h'"
    using reads_wf [OF assms(1,2), of p] assms(4) r unfolding reads_def by blast
  obtain res where res: "parse_value (parse_fuel ?t) 0 ?t h = Some res" using parse_value_returns by metis
  have "res = (Some (v', r), h')"
    using parse_value_mono [OF res, of "max n (parse_fuel ?t)"] parse_value_mono [OF pv(1), of "max n (parse_fuel ?t)"] by simp
  moreover obtain c s where "?t = c # s" "c \<noteq> CHR 0xEF" using json_text_head [OF assms(2), of p 0] by (metis append_Cons)
  ultimately show ?thesis using res pv(2,3) by (auto simp: json_parse_string_def Let_def)
qed

text \<open>The reported size is exact, in both modes: \<open>json_serialization_size\<close> is the number of
  characters \<open>json_serialize_to_buffer\<close> stores plus one for the terminator, a buffer of that
  size always suffices, and a smaller one is refused untouched.\<close>

theorem serialization_size_exact:
  assumes "wf_json v"
  shows "(\<exists>t. json_serialization_size (Some v) = length t + 1 \<and>
      json_serialize_to_buffer (Some v) n = (if length t + 1 \<le> n then (JSONSuccess, t) else (JSONFailure, []))) \<and>
    (\<exists>t. json_serialization_size_pretty (Some v) = length t + 1 \<and>
      json_serialize_to_buffer_pretty (Some v) n = (if length t + 1 \<le> n then (JSONSuccess, t) else (JSONFailure, [])))"
  using serialization_sizes [OF assms] serialize_to_buffer_text [OF assms, of n] by blast

theorem serialization_size_exact_witness:
  "json_serialization_size (Some (JSONArray [JSONNull, JSONBoolean True] 2)) = 12 \<and>
   json_serialize_to_buffer (Some (JSONArray [JSONNull, JSONBoolean True] 2)) 11 = (JSONFailure, [])"
proof -
  have size: "json_serialization_size (Some (JSONArray [JSONNull, JSONBoolean True] 2)) = 12" by code_simp
  show ?thesis
    using size serialization_size_exact [of "JSONArray [JSONNull, JSONBoolean True] 2" 11, THEN conjunct1] by auto
qed

text \<open>C6. Round trip: \<open>json_parse_string\<close> reads the text \<open>json_serialize_to_string\<close> wrote, plain or
  pretty, and returns a value with the same contents. Every string of bytes without a NUL
  survives, as does every zero and normal double.\<close>

theorem serialize_parse_roundtrip:
  assumes "wf_json v" "numbers_ok v" "levels v \<le> 2049" "plenty h" "plenty h2"
  shows "\<exists>t h1 v' h'. (if pretty then json_serialize_to_string_pretty (Some v) h else json_serialize_to_string (Some v) h)
      = (Some t, h1) \<and> json_parse_string (Some t) h2 = Some (Some v', h') \<and> contents v' = contents v"
proof -
  have "\<exists>h1. (if pretty then json_serialize_to_string_pretty (Some v) h else json_serialize_to_string (Some v) h)
      = (Some (json_text pretty 0 v), h1)"
    using assms(4) serialization_sizes [OF assms(1)] serialize_to_buffer_text [OF assms(1)]
    by (simp add: json_serialize_to_string_def json_serialize_to_string_pretty_def)
  moreover have "\<exists>v' h'. json_parse_string (Some (json_text pretty 0 v)) h2 = Some (Some v', h') \<and> contents v' = contents v"
    using assms json_parse_text [of v h2 "[]" pretty] by (simp add: MAX_NESTING_def value_stop_def) blast
  ultimately show ?thesis by blast
qed

theorem serialize_parse_roundtrip_witness:
  "\<exists>t h1 v' h'. json_serialize_to_string_pretty (Some (JSONObject [(''k'', JSONNumber (Finite True (2 ^ 52 + 1) (- 60)))] 1)) \<lparr>answers = [], live = 0\<rparr>
      = (Some t, h1) \<and> json_parse_string (Some t) \<lparr>answers = [], live = 0\<rparr> = Some (Some v', h') \<and>
      contents v' = JSONObject [(''k'', JSONNumber (Finite True (2 ^ 52 + 1) (- 60)))] 0"
  using serialize_parse_roundtrip [of "JSONObject [(''k'', JSONNumber (Finite True (2 ^ 52 + 1) (- 60)))] 1"
      "\<lparr>answers = [], live = 0\<rparr>" "\<lparr>answers = [], live = 0\<rparr>" True]
  by (simp add: plenty_def)

text \<open>The serializers that allocate give back what they took: the heap changes by the one
  block of a returned string and by nothing on any failure, and writing to a file leaves it as
  it was whatever the file operations answer.\<close>

theorem serialize_no_leak:
  "live (snd (json_serialize_to_string p h)) = live h + (if fst (json_serialize_to_string p h) = None then 0 else 1) \<and>
   live (snd (json_serialize_to_string_pretty p h)) = live h + (if fst (json_serialize_to_string_pretty p h) = None then 0 else 1) \<and>
   live (snd (snd (json_serialize_to_file p open_ok put_ok close_ok h))) = live h \<and>
   live (snd (snd (json_serialize_to_file_pretty p open_ok put_ok close_ok h))) = live h"
  by (auto simp: json_serialize_to_string_def json_serialize_to_string_pretty_def json_serialize_to_file_def
      json_serialize_to_file_pretty_def serialized_to_file_def json_free_serialized_string_def Let_def
      dest!: malloc_live split: prod.splits bool.splits option.splits json_status.splits)

text \<open>The text of a number fits the scratch buffer of \<open>NUM_BUF_SIZE\<close> (64) bytes with room to
  spare: at most 24 characters and the terminator for every double.\<close>

theorem number_text_fits:
  assumes "canonical d"
  shows "fst (append_number buf d) + 1 \<le> 25 \<and> length (snd (append_number buf d)) + 1 \<le> 25"
  using length_sprintf_g17 [OF assms] by (simp add: wr_def)

theorem number_text_fits_witness:
  "canonical (Finite True (2 ^ 53 - 1) 971) \<and> fst (append_number True (Finite True (2 ^ 53 - 1) 971)) + 1 \<le> 25"
  using number_text_fits [of "Finite True (2 ^ 53 - 1) 971" True] by simp

end
