(* ===== verification/Ecc_Json.thy ===== *)
theory Ecc_Json
  imports Cpp_Base Base64 Parson_Roundtrip
begin

text \<open>
  \<^verbatim>\<open>tlcc_enclave/enclave/ecc_json.cpp\<close>: the JSON that the ledger enclave exchanges with private
  chaincodes, over the parson model. An output buffer with its in/out length is a pair; a pair
  that is absent stands for a call in which one of the two pointers is \<open>NULL\<close>. The arguments of
  an invocation are marshalled injectively, and unmarshalling a response stays inside the
  buffers; the paths that report a short buffer lose the parsed value.
\<close>

section \<open>Calling parson\<close>

text \<open>\<open>json_parse_string\<close> as a computation that may fail; it never does (\<open>parse_json_returns\<close>).\<close>

definition parse_json :: "string \<Rightarrow> heap \<Rightarrow> (json_value option \<times> heap) run" where
  "parse_json s h = (case json_parse_string (Some s) h of None \<Rightarrow> Inl Diverges | Some r \<Rightarrow> Inr r)"

section \<open>Operations\<close>

fun append_args :: "string list \<Rightarrow> json_array option \<Rightarrow> heap \<Rightarrow> json_array option \<times> heap" where
  "append_args [] lst h = (lst, h)"
| "append_args (arg # argss) lst h =
     (case json_array_append_string lst (Some (cstr arg)) h of (_, lst1, h1) \<Rightarrow> append_args argss lst1 h1)"

definition marshal_ecc_args :: "string list \<Rightarrow> string \<Rightarrow> heap \<Rightarrow> (int \<times> string \<times> heap) run" where
  "marshal_ecc_args argss encoded_string h =
     (let (root, h1) = json_value_init_array h;
          (lst, h2) = append_args argss (json_value_get_array root) h1;
          root1 = map_option JSONArray_of lst;
          (ss, h3) = json_serialize_to_string root1 h2
      in run_bind (deref ss) (\<lambda>s.
           Inr (1, encoded_string @ s, free_value_ptr root1 (json_free_serialized_string h3))))"

text \<open>Copying a decoded field into the caller's buffer, and the new length; \<open>None\<close> when it does
  not fit.\<close>

definition copy_out :: "string \<Rightarrow> string \<times> nat \<Rightarrow> (string \<times> nat) option" where
  "copy_out s out = (case out of (buf, len) \<Rightarrow>
     if len < length s then None else Some (s @ drop (length s) buf, length s))"

definition unmarshal_ecc_response ::
  "string \<Rightarrow> (string \<times> nat) option \<Rightarrow> (string \<times> nat) option \<Rightarrow> (string \<times> nat) option \<Rightarrow> heap \<Rightarrow>
     (int \<times> (string \<times> nat) option \<times> (string \<times> nat) option \<times> (string \<times> nat) option \<times> heap) run" where
  "unmarshal_ecc_response json_bytes response_data signature pk h =
     (case (response_data, signature, pk) of
        (Some r, Some s, Some p) \<Rightarrow>
          run_bind (parse_json json_bytes h) (\<lambda>(root, h1).
          run_bind (deref (json_object_get_string (json_object_c root) (Some ''ResponseData''))) (\<lambda>base64_response.
          (case copy_out (base64_decode base64_response) r of
             None \<Rightarrow> Inr (0, Some r, Some s, Some p, h1)
           | Some r1 \<Rightarrow>
          run_bind (deref (json_object_get_string (json_object_c root) (Some ''Signature''))) (\<lambda>base64_signature.
          (case copy_out (base64_decode base64_signature) s of
             None \<Rightarrow> Inr (0, Some r1, Some s, Some p, h1)
           | Some s1 \<Rightarrow>
          run_bind (deref (json_object_get_string (json_object_c root) (Some ''PublicKey''))) (\<lambda>base64_pk.
          (case copy_out (base64_decode base64_pk) p of
             None \<Rightarrow> Inr (0, Some r1, Some s1, Some p, h1)
           | Some p1 \<Rightarrow> Inr (1, Some r1, Some s1, Some p1, free_value_ptr root h1))))))))
      | _ \<Rightarrow> Inr (0, response_data, signature, pk, h))"

section \<open>Lemmas\<close>

lemma parse_json_returns:
  obtains p h' where "parse_json s h = Inr (p, h')" "live h' = live h + (case p of None \<Rightarrow> 0 | Some v \<Rightarrow> blocks v)"
proof -
  define s1 where "s1 = (if nthc s 0 = CHR 0xEF \<and> nthc s 1 = CHR 0xBB \<and> nthc s 2 = CHR 0xBF then drop 3 s else s)"
  obtain r where r: "parse_value (parse_fuel s1) 0 s1 h = Some r" "surplus r = live h"
    using parse_value_returns [of s1 0 h] by blast
  have "parse_json s h = Inr (map_option fst (fst r), snd r)"
    unfolding parse_json_def json_parse_string_def option.case s1_def [symmetric] Let_def r(1)
    by (simp add: map_prod_def split_beta)
  then show thesis using r(2) by (intro that) (auto simp: surplus_def split: option.splits)
qed

lemma parse_json_text:
  assumes "wf_json v" "numbers_ok v" "levels v \<le> 2049" "plenty h" "container v \<or> r = []"
  obtains v' h' where "parse_json (json_text p 0 v @ r) h = Inr (Some v', h')" "contents v' = contents v" "plenty h'"
proof -
  have "container v \<or> value_stop r" using assms(5) by (auto simp: value_stop_def)
  then show thesis
    using that json_parse_text [OF assms(1,2) _ assms(4), of r p] assms(3)
    by (auto simp: parse_json_def MAX_NESTING_def)
qed

text \<open>What \<open>append_args\<close> does: with memory, every argument that is UTF-8 is appended.\<close>

abbreviation utf8_arg :: "string \<Rightarrow> bool" where
  "utf8_arg a \<equiv> is_valid_utf8 (cstr a) (strlen (cstr a))"

lemma append_args_balanced:
  "wf_array ar \<Longrightarrow> append_args argss (Some ar) h = (lst, h') \<Longrightarrow>
     \<exists>ar'. lst = Some ar' \<and> wf_array ar' \<and> live h' = live h + ablocks ar' - ablocks ar"
proof (induction argss arbitrary: ar h)
  case (Cons a argss)
  obtain st lst1 h1 where ap: "json_array_append_string (Some ar) (Some (cstr a)) h = (st, lst1, h1)"
    by (cases "json_array_append_string (Some ar) (Some (cstr a)) h")
  have "array_fresh (json_array_append_value (Some ar)) (Some ar) (json_value_init_string (Some (cstr a)) h) = (st, lst1, h1)"
    using ap by (simp add: json_array_append_string_def)
  then obtain ar1 where ar1: "lst1 = Some ar1" "wf_array ar1" "live h1 = live h + ablocks ar1 - ablocks ar"
    using array_fresh_balanced [OF fresh_values(1) append_value_effect [OF Cons.prems(1)] Cons.prems(1)] by fastforce
  have "append_args argss (Some ar1) h1 = (lst, h')" using Cons.prems(2) ap ar1(1) by simp
  from Cons.IH [OF ar1(2) this] show ?case using ar1(3) by auto
qed auto

lemma append_string_plenty:
  assumes "plenty h"
  shows "\<exists>ar' h'. json_array_append_string (Some ar) (Some (cstr a)) h =
      (if utf8_arg a then JSONSuccess else JSONFailure, Some ar', h') \<and>
      items ar' = items ar @ (if utf8_arg a then [JSONString (cstr a)] else []) \<and> plenty h'"
proof (cases "utf8_arg a")
  case True
  have v: "json_value_init_string (Some (cstr a)) h = (Some (JSONString (cstr a)), h\<lparr>live := live h + 2\<rparr>)"
    using assms True
    by (simp add: json_value_init_string_def parson_strndup_def json_value_init_string_no_copy_def Let_def)
  have "plenty (h\<lparr>live := live h + 2\<rparr>)" using assms by simp
  then obtain ar' h' where "json_array_add ar (JSONString (cstr a)) (h\<lparr>live := live h + 2\<rparr>) = (JSONSuccess, ar', h')"
    "items ar' = items ar @ [JSONString (cstr a)]" "plenty h'"
    using array_add_plenty by blast
  then show ?thesis
    using True by (simp add: json_array_append_string_def array_fresh_def v json_array_append_value_def)
next
  case False
  then show ?thesis
    using assms by (simp add: json_array_append_string_def array_fresh_def json_value_init_string_def)
qed

lemma append_args_plenty:
  "plenty h \<Longrightarrow> \<exists>ar' h'. append_args argss (Some ar) h = (Some ar', h') \<and> plenty h' \<and>
     items ar' = items ar @ map (\<lambda>a. JSONString (cstr a)) (filter utf8_arg argss)"
proof (induction argss arbitrary: ar h)
  case (Cons a argss)
  from append_string_plenty [OF Cons.prems, of ar a] Cons.IH show ?case by fastforce
qed simp

definition args_json :: "string list \<Rightarrow> json_value" where
  "args_json argss = JSONArray (map (\<lambda>a. JSONString (cstr a)) argss) (length argss)"

lemma json_text_capacity: "json_text p l (JSONArray xs c) = json_text p l (JSONArray xs d)"
  by simp

lemma wf_args_json [simp]: "wf_json (args_json argss)" "numbers_ok (args_json argss)" "levels (args_json argss) \<le> 2049"
  "container (args_json argss)"
proof -
  have "foldr max (map (\<lambda>a. levels (JSONString (cstr a))) argss) 0 \<le> 1"
    using foldr_max_le [of "map (\<lambda>a. levels (JSONString (cstr a))) argss" 1] by simp
  then show "levels (args_json argss) \<le> 2049" by (simp add: args_json_def comp_def)
qed (auto simp: args_json_def list_all_iff)

lemma serialize_string_plenty:
  assumes "wf_json v" "plenty h"
  shows "json_serialize_to_string (Some v) h = (Some (json_text False 0 v), h\<lparr>live := live h + 1\<rparr>)"
  using assms(2) serialization_sizes [OF assms(1)] serialize_to_buffer_text [OF assms(1)]
  by (simp add: json_serialize_to_string_def)

lemma marshal_ecc_args_plenty:
  assumes "plenty h"
  shows "\<exists>h'. marshal_ecc_args argss enc h = Inr (1, enc @ json_text False 0 (args_json (filter utf8_arg argss)), h') \<and> plenty h'"
proof -
  obtain ar h2 where ap: "append_args argss (Some \<lparr>items = [], arr_capacity = 0\<rparr>) (h\<lparr>live := live h + 2\<rparr>) = (Some ar, h2)"
    "plenty h2" "items ar = map (\<lambda>a. JSONString (cstr a)) (filter utf8_arg argss)"
    using append_args_plenty [of "h\<lparr>live := live h + 2\<rparr>" argss "\<lparr>items = [], arr_capacity = 0\<rparr>"] assms by auto
  have "wf_array ar"
    using append_args_balanced [OF _ ap(1)] by (auto simp: JSONArray_of.simps)
  then have "json_serialize_to_string (Some (JSONArray_of ar)) h2 = (Some (json_text False 0 (JSONArray_of ar)), h2\<lparr>live := live h2 + 1\<rparr>)"
    using ap(2) serialize_string_plenty by blast
  moreover have "json_text False 0 (JSONArray_of ar) = json_text False 0 (args_json (filter utf8_arg argss))"
    using ap(3) by (simp add: JSONArray_of.simps args_json_def)
  ultimately show ?thesis
    using ap(1,2) by (simp add: marshal_ecc_args_def init_plenty(2) [OF assms] plenty_def json_free_serialized_string_def)
qed

text \<open>The text determines the arguments.\<close>

lemma args_json_inj:
  assumes "json_text False 0 (args_json xs) = json_text False 0 (args_json ys)"
  shows "map cstr xs = map cstr ys"
proof -
  define h where "h = \<lparr>answers = [], live = 0\<rparr>"
  have "plenty h" by (simp add: h_def plenty_def)
  obtain u h1 where u: "parse_json (json_text False 0 (args_json xs) @ []) h = Inr (Some u, h1)" "contents u = contents (args_json xs)"
    by (rule parse_json_text [of "args_json xs" h "[]" False]) (simp_all add: \<open>plenty h\<close>)
  obtain v h2 where v: "parse_json (json_text False 0 (args_json ys) @ []) h = Inr (Some v, h2)" "contents v = contents (args_json ys)"
    by (rule parse_json_text [of "args_json ys" h "[]" False]) (simp_all add: \<open>plenty h\<close>)
  have "contents (args_json xs) = contents (args_json ys)" using u v assms by simp
  then have "map (\<lambda>a. JSONString (cstr a)) xs = map (\<lambda>a. JSONString (cstr a)) ys" by (simp add: args_json_def comp_def)
  from arg_cong [OF this, of "map (\<lambda>v. the (json_value_get_string (Some v)))"] show ?thesis by (simp add: comp_def)
qed

lemma append_string_None: "\<exists>h1. json_array_append_string None s h = (JSONFailure, None, h1)"
proof -
  obtain v h1 where "json_value_init_string s h = (v, h1)" by fastforce
  then show ?thesis
    by (cases v) (simp_all add: json_array_append_string_def array_fresh_def json_array_append_value_def)
qed

lemma append_args_None: "fst (append_args xs None h) = None"
proof (induction xs arbitrary: h)
  case (Cons x xs)
  obtain h1 where "json_array_append_string None (Some (cstr x)) h = (JSONFailure, None, h1)"
    using append_string_None by blast
  then show ?case using Cons by simp
qed simp

lemma get_array_of: "json_value_get_array (Some (JSONArray_of ar)) = Some ar"
  by (simp add: JSONArray_of.simps)

lemma marshal_live:
  assumes "marshal_ecc_args argss enc h = Inr (r, s, h')"
  shows "live h' = live h"
proof -
  obtain root h1 where i: "json_value_init_array h = (root, h1)" by fastforce
  obtain lst h2 where ap: "append_args argss (json_value_get_array root) h1 = (lst, h2)" by fastforce
  obtain ss h3 where se: "json_serialize_to_string (map_option JSONArray_of lst) h2 = (Some ss, h3)"
    and h': "h' = free_value_ptr (map_option JSONArray_of lst) (json_free_serialized_string h3)"
    using assms by (auto simp: marshal_ecc_args_def i ap run_simps Let_def split: prod.splits)
  have l3: "live h3 = live h2 + 1"
    using se by (auto simp: json_serialize_to_string_def json_free_serialized_string_def Let_def
        dest!: malloc_live split: if_splits prod.splits bool.splits json_status.splits)
  have "lst \<noteq> None"
    using se by (cases lst) (simp_all add: json_serialize_to_string_def json_serialization_size_def serialize_ptr_def)
  then obtain ar where root: "root = Some (JSONArray_of ar)"
  proof (cases root)
    case None
    then show ?thesis using ap append_args_None [of argss h1] \<open>lst \<noteq> None\<close> by simp
  next
    case (Some v)
    then show ?thesis
      using i that by (auto simp: json_value_init_array_def split: prod.splits bool.splits option.splits)
  qed
  have ar: "wf_array ar" "live h1 = live h + ablocks ar"
    using i root init_balanced(3) [of h]
    by (auto simp: balanced_new_def json_value_init_array_def json_array_init_def JSONArray_of.simps
        split: prod.splits bool.splits option.splits)
  then obtain ar' where "lst = Some ar'" "live h2 = live h1 + ablocks ar' - ablocks ar"
    using append_args_balanced [OF ar(1), of argss h1 lst h2] ap by (auto simp: root get_array_of)
  then show ?thesis using ar(2) l3 h' by (simp add: json_free_serialized_string_def)
qed

definition fits :: "string \<times> nat \<Rightarrow> (string \<times> nat) option \<Rightarrow> bool" where
  "fits out res = (case out of (b, l) \<Rightarrow> \<exists>b' l'. res = Some (b', l') \<and> length b' = length b \<and> l' \<le> l)"

lemma fits_refl [simp]: "fits out (Some out)"
  by (cases out) (simp add: fits_def)

lemma copy_out_fits [simp]: "copy_out x (b, l) = Some res \<Longrightarrow> l \<le> length b \<Longrightarrow> fits (b, l) (Some res)"
  by (auto simp: copy_out_def fits_def split: if_splits)

lemma copy_out_fits': "Some res = copy_out x (b, l) \<Longrightarrow> l \<le> length b \<Longrightarrow> fits (b, l) (copy_out x (b, l))"
  by (metis copy_out_fits)

section \<open>Properties\<close>

text \<open>C27. The encoding of an invocation's arguments that both enclaves hash is injective: two
  argument lists of UTF-8 strings are encoded alike only if they are the same list, so a
  signature over the encoding is a signature over the arguments. An argument that is not UTF-8
  is left out of the encoding without an error.\<close>

theorem marshal_ecc_args_injective:
  assumes "marshal_ecc_args xs [] h = Inr (r, s, h1)" "plenty h"
    and "marshal_ecc_args ys [] k = Inr (q, t, k1)" "plenty k"
  shows "s = t \<longleftrightarrow> map cstr (filter utf8_arg xs) = map cstr (filter utf8_arg ys)"
proof -
  have st: "s = json_text False 0 (args_json (filter utf8_arg xs))" "t = json_text False 0 (args_json (filter utf8_arg ys))"
    using marshal_ecc_args_plenty [OF assms(2), of xs "[]"] marshal_ecc_args_plenty [OF assms(4), of ys "[]"] assms by auto
  have "s = t" if eq: "map cstr (filter utf8_arg xs) = map cstr (filter utf8_arg ys)"
  proof -
    have "map JSONString (map cstr (filter utf8_arg xs)) = map JSONString (map cstr (filter utf8_arg ys))" using eq by simp
    then show ?thesis by (simp add: st args_json_def comp_def)
  qed
  then show ?thesis using args_json_inj st by blast
qed

theorem marshal_ecc_args_injective_witness:
  "marshal_ecc_args [''a'', ''b''] [] \<lparr>answers = [], live = 0\<rparr> \<noteq> marshal_ecc_args [''a,b''] [] \<lparr>answers = [], live = 0\<rparr>"
proof -
  let ?h = "\<lparr>answers = [], live = 0\<rparr>"
  have p: "plenty ?h" by (simp add: plenty_def)
  have u: "utf8_arg ''a''" "utf8_arg ''b''" "utf8_arg ''a,b''"
    using ascii_valid_utf8 [of "''a''"] ascii_valid_utf8 [of "''b''"] ascii_valid_utf8 [of "''a,b''"]
    by (simp_all add: strlen_def)
  obtain h1 where m1: "marshal_ecc_args [''a'', ''b''] [] ?h = Inr (1, json_text False 0 (args_json (filter utf8_arg [''a'', ''b''])), h1)"
    using marshal_ecc_args_plenty [OF p, of "[''a'', ''b'']" "[]"] by auto
  obtain h2 where m2: "marshal_ecc_args [''a,b''] [] ?h = Inr (1, json_text False 0 (args_json (filter utf8_arg [''a,b''])), h2)"
    using marshal_ecc_args_plenty [OF p, of "[''a,b'']" "[]"] by auto
  have "map cstr (filter utf8_arg [''a'', ''b'']) \<noteq> map cstr (filter utf8_arg [''a,b''])" using u by simp
  then show ?thesis unfolding m1 m2 using marshal_ecc_args_injective [OF m1 p m2 p] by blast
qed

text \<open>\<open>marshal_ecc_args\<close> gives back everything it allocated, whichever allocations fail on the
  way: a call that returns leaves the heap with as many live blocks as before.\<close>

theorem marshal_ecc_args_no_leak:
  assumes "marshal_ecc_args argss enc h = Inr (r, s, h')"
  shows "live h' = live h"
  using assms by (rule marshal_live)

theorem marshal_ecc_args_no_leak_witness:
  "\<exists>r s h'. marshal_ecc_args [''x''] [] \<lparr>answers = [True, True, False], live = 5\<rparr> = Inr (r, s, h') \<and> live h' = 5"
proof -
  let ?h = "\<lparr>answers = [True, True, False], live = 5\<rparr>" and ?k = "\<lparr>answers = [False], live = 7\<rparr>"
  have u: "is_valid_utf8 ''x'' (Suc 0)" using ascii_valid_utf8 [of "''x''"] by simp
  have i: "json_value_init_array ?h = (Some (JSONArray [] 0), ?k)"
    by (simp add: json_value_init_array_def json_array_init_def malloc_def JSONArray_of.simps)
  have a: "append_args [''x''] (Some \<lparr>items = [], arr_capacity = 0\<rparr>) ?k = (Some \<lparr>items = [], arr_capacity = 0\<rparr>, \<lparr>answers = [], live = 7\<rparr>)"
    by (simp add: json_array_append_string_def array_fresh_def json_value_init_string_def parson_strndup_def
        strlen_def malloc_def u)
  have s: "json_serialize_to_string (Some (JSONArray [] 0)) \<lparr>answers = [], live = 7\<rparr> = (Some ''[]'', \<lparr>answers = [], live = 8\<rparr>)"
    by code_simp
  have "\<exists>r s h'. marshal_ecc_args [''x''] [] ?h = Inr (r, s, h')"
    by (simp add: marshal_ecc_args_def i a s JSONArray_of.simps del: append_args.simps)
  then show ?thesis using marshal_ecc_args_no_leak [of "[''x'']" "[]" ?h] by auto
qed

text \<open>\<open>unmarshal_ecc_response\<close> stays inside the caller's buffers: whatever the JSON says, each
  buffer keeps its size and the length reported back is at most the length given.\<close>

theorem unmarshal_ecc_response_in_bounds:
  assumes "unmarshal_ecc_response js (Some (rb, rl)) (Some (sb, sl)) (Some (pb, pl)) h = Inr (ret, r, s, p, h')"
    and "rl \<le> length rb" "sl \<le> length sb" "pl \<le> length pb"
  shows "\<exists>rb' rl' sb' sl' pb' pl'. r = Some (rb', rl') \<and> s = Some (sb', sl') \<and> p = Some (pb', pl') \<and>
    length rb' = length rb \<and> rl' \<le> rl \<and> length sb' = length sb \<and> sl' \<le> sl \<and> length pb' = length pb \<and> pl' \<le> pl"
proof -
  have "fits (rb, rl) r \<and> fits (sb, sl) s \<and> fits (pb, pl) p"
    using assms by (auto simp: unmarshal_ecc_response_def run_simps split: option.splits) (metis copy_out_fits')+
  then show ?thesis unfolding fits_def by (simp only: prod.case) blast
qed

theorem unmarshal_ecc_response_in_bounds_witness:
  "unmarshal_ecc_response ''{\"ResponseData\":\"aGk=\"}'' (Some (''.'', 1)) (Some ([], 0)) (Some ([], 0)) \<lparr>answers = [], live = 0\<rparr>
     = Inr (0, Some (''.'', 1), Some ([], 0), Some ([], 0), \<lparr>answers = [], live = 7\<rparr>) \<and>
   (\<exists>rb' rl'. Some (''.'', 1) = Some (rb', rl') \<and> length rb' = 1 \<and> rl' \<le> (1::nat))"
proof -
  have run: "unmarshal_ecc_response ''{\"ResponseData\":\"aGk=\"}'' (Some (''.'', 1)) (Some ([], 0)) (Some ([], 0)) \<lparr>answers = [], live = 0\<rparr>
     = Inr (0, Some (''.'', 1), Some ([], 0), Some ([], 0), \<lparr>answers = [], live = 7\<rparr>)"
    by code_simp
  show ?thesis using run unmarshal_ecc_response_in_bounds [OF run] by simp
qed

text \<open>A response that fits is delivered and the parsed value released: when the text parses to
  an object whose fields are the base64 encodings of a response, a signature and a key, those
  are what the buffers start with, and no block is left over.\<close>

theorem unmarshal_ecc_response_delivers:
  assumes "json_parse_string (Some js) h = Some (Some rt, h1)"
    and "json_object_get_string (json_object_c (Some rt)) (Some ''ResponseData'') = Some (base64_encode x)" "length x \<le> rl"
    and "json_object_get_string (json_object_c (Some rt)) (Some ''Signature'') = Some (base64_encode y)" "length y \<le> sl"
    and "json_object_get_string (json_object_c (Some rt)) (Some ''PublicKey'') = Some (base64_encode z)" "length z \<le> pl"
  shows "\<exists>h'. unmarshal_ecc_response js (Some (rb, rl)) (Some (sb, sl)) (Some (pb, pl)) h =
      Inr (1, Some (x @ drop (length x) rb, length x), Some (y @ drop (length y) sb, length y),
           Some (z @ drop (length z) pb, length z), h') \<and> live h' = live h"
proof -
  have "parse_json js h = Inr (Some rt, h1)" using assms(1) by (simp add: parse_json_def)
  moreover have "live h1 = live h + blocks rt"
    using parse_json_returns [of js h] calculation by fastforce
  ultimately show ?thesis
    using assms by (simp add: unmarshal_ecc_response_def copy_out_def free_value_ptr_def)
qed

theorem unmarshal_ecc_response_delivers_witness:
  "\<exists>h'. unmarshal_ecc_response ''{\"ResponseData\":\"aGk=\",\"Signature\":\"Kw==\",\"PublicKey\":\"\"}''
      (Some (''.....'', 5)) (Some (''--'', 2)) (Some (''--'', 2)) \<lparr>answers = [], live = 7\<rparr> =
      Inr (1, Some (''hi...'', 2), Some (''+-'', 1), Some (''--'', 0), h') \<and> live h' = 7"
proof -
  let ?js = "''{\"ResponseData\":\"aGk=\",\"Signature\":\"Kw==\",\"PublicKey\":\"\"}''"
  let ?fs = "[(''ResponseData'', JSONString ''aGk=''), (''Signature'', JSONString ''Kw==''), (''PublicKey'', JSONString [])]"
  have p: "json_parse_string (Some ?js) \<lparr>answers = [], live = 7\<rparr> = Some (Some (JSONObject ?fs 3), \<lparr>answers = [], live = 20\<rparr>)"
    by code_simp
  have b: "base64_encode ''hi'' = ''aGk=''" "base64_encode ''+'' = ''Kw==''" "base64_encode [] = []"
    by code_simp+
  have g: "json_object_get_string (json_object_c (Some (JSONObject ?fs 3))) (Some ''ResponseData'') = Some (base64_encode ''hi'')"
    "json_object_get_string (json_object_c (Some (JSONObject ?fs 3))) (Some ''Signature'') = Some (base64_encode ''+'')"
    "json_object_get_string (json_object_c (Some (JSONObject ?fs 3))) (Some ''PublicKey'') = Some (base64_encode [])"
    unfolding b by code_simp+
  show ?thesis
    using unmarshal_ecc_response_delivers [OF p g(1) _ g(2) _ g(3), of 5 2 2 "''.....''" "''--''" "''--''"] by (simp add: numeral_2_eq_2)
qed

end
