(* ===== verification/Spectrum_Json.thy ===== *)
theory Spectrum_Json
  imports Spectrum Ecc_Json
begin

text \<open>
  The JSON of the spectrum auction, \<^verbatim>\<open>demo/chaincode/fpc\<close>: \<^verbatim>\<open>utils.cpp\<close> and the members \<open>toJsonObject\<close>
  and \<open>fromJsonObject\<close> of all classes, over the model of parson.

  A \<open>writer\<close> is what a \<open>toJsonObject\<close> does to the object it is given: the object may be \<open>NULL\<close>, every
  allocation may fail, and the answers of parson are ignored as in the source. Arrays that are filled
  through a pointer into their object are written back (\<open>put_array\<close>). A reader returns \<open>None\<close> where the
  source leaves with \<open>FAST_FAIL_CHECK\<close>; the error code is \<open>EC_INVALID_INPUT\<close> in every case. A conversion
  of a number that does not fit its type is undefined, here a failure.
\<close>

section \<open>utils.cpp\<close>

definition isInteger :: "double \<Rightarrow> bool run" where
  "isInteger d = run_bind (int_of_double d) (\<lambda>i. Inr (deq d (double_of_int i)))"

definition openJsonObject :: "string option \<Rightarrow> heap \<Rightarrow> (json_object option \<times> heap) run" where
  "openJsonObject c_str h =
     (case c_str of
        None \<Rightarrow> (case json_value_init_object h of (root_value, h1) \<Rightarrow> Inr (json_value_get_object root_value, h1))
      | Some s \<Rightarrow>
          run_bind (parse_json s h) (\<lambda>(root_value, h1). Inr (json_value_get_object root_value, h1)))"

text \<open>The value an object belongs to; the object may not be \<open>NULL\<close>.\<close>

definition json_object_get_wrapping_value :: "json_object option \<Rightarrow> json_value run" where
  "json_object_get_wrapping_value ob = run_bind (deref ob) (\<lambda>b. Inr (JSONObject_of b))"

text \<open>\<open>closeJsonObject\<close>; \<open>str\<close> says whether a string is assigned, and the result is that string.\<close>

definition closeJsonObject :: "json_object option \<Rightarrow> bool \<Rightarrow> heap \<Rightarrow> (string option \<times> heap) run" where
  "closeJsonObject root_object str h =
     (case root_object of
        None \<Rightarrow> Inr (None, h)
      | Some ob \<Rightarrow>
          run_bind (json_object_get_wrapping_value root_object) (\<lambda>root_value.
            if str
            then case json_serialize_to_string (Some root_value) h of (serialized_string, h1) \<Rightarrow>
                 run_bind (deref serialized_string) (\<lambda>s.
                   Inr (Some (cstr s), json_value_free root_value (json_free_serialized_string h1)))
            else Inr (None, json_value_free root_value h)))"

section \<open>Writing\<close>

type_synonym writer = "json_object option \<Rightarrow> heap \<Rightarrow> (json_object option \<times> heap) run"

type_synonym filler = "json_array option \<Rightarrow> heap \<Rightarrow> (json_array option \<times> heap) run"

text \<open>Statements one after the other, and a loop that appends to an array.\<close>

definition write_all :: "writer list \<Rightarrow> writer" where
  "write_all ws ob h = run_fold (\<lambda>w (b, g). w b g) ws (ob, h)"

definition fill_each :: "('a \<Rightarrow> filler) \<Rightarrow> 'a list \<Rightarrow> filler" where
  "fill_each f xs ar h = run_fold (\<lambda>x (b, g). f x b g) xs (ar, h)"

definition put_value :: "string \<Rightarrow> json_value option \<Rightarrow> writer" where
  "put_value key v ob h = (case json_object_set_value ob (Some key) (fresh_ref v) h of (_, ob1, h1) \<Rightarrow> Inr (ob1, h1))"

definition put_number :: "string \<Rightarrow> double \<Rightarrow> writer" where
  "put_number key d ob h = (case json_object_set_number ob (Some key) d h of (_, ob1, h1) \<Rightarrow> Inr (ob1, h1))"

text \<open>Integers are converted to \<open>double\<close>.\<close>

definition put_int :: "string \<Rightarrow> int \<Rightarrow> writer" where
  "put_int key i = put_number key (double_of_int i)"

definition put_string :: "string \<Rightarrow> string \<Rightarrow> writer" where
  "put_string key s ob h = (case json_object_set_string ob (Some key) (Some (cstr s)) h of (_, ob1, h1) \<Rightarrow> Inr (ob1, h1))"

definition put_boolean :: "string \<Rightarrow> bool \<Rightarrow> writer" where
  "put_boolean key b ob h =
     (case json_object_set_boolean ob (Some key) (if b then 1 else 0) h of (_, ob1, h1) \<Rightarrow> Inr (ob1, h1))"

text \<open>A new object, written and then stored under a name.\<close>

definition put_object :: "string \<Rightarrow> writer \<Rightarrow> writer" where
  "put_object key w ob h =
     (case json_value_init_object h of (v, h1) \<Rightarrow>
      run_bind (w (json_value_get_object v) h1) (\<lambda>(b, h2).
        put_value key (map_option JSONObject_of b) ob h2))"

text \<open>The same with \<open>openJsonObject\<close> and \<open>json_object_get_wrapping_value\<close>, which needs an object.\<close>

definition put_opened :: "string \<Rightarrow> writer \<Rightarrow> writer" where
  "put_opened key w ob h =
     run_bind (openJsonObject None h) (\<lambda>(r, h1).
     run_bind (w r h1) (\<lambda>(r1, h2).
     run_bind (json_object_get_wrapping_value r1) (\<lambda>v.
       put_value key (Some v) ob h2)))"

text \<open>A new array, stored under a name, found again with \<open>json_object_get_array\<close> and filled in place.\<close>

definition update_array :: "json_object option \<Rightarrow> string \<Rightarrow> json_array option \<Rightarrow> json_object option" where
  "update_array ob key ar =
     (case (ob, ar) of
        (Some b, Some a) \<Rightarrow> Some (b\<lparr>pairs := setn_loop (pairs b) key (strlen key) (JSONArray_of a)\<rparr>)
      | _ \<Rightarrow> ob)"

definition put_array :: "string \<Rightarrow> filler \<Rightarrow> writer" where
  "put_array key f ob h =
     (case json_value_init_array h of (v, h1) \<Rightarrow>
      run_bind (put_value key v ob h1) (\<lambda>(ob1, h2).
      run_bind (f (json_object_get_array ob1 (Some key)) h2) (\<lambda>(ar, h3).
        Inr (update_array ob1 key ar, h3))))"

definition item_number :: "double \<Rightarrow> filler" where
  "item_number d ar h = (case json_array_append_number ar d h of (_, ar1, h1) \<Rightarrow> Inr (ar1, h1))"

definition item_object :: "writer \<Rightarrow> filler" where
  "item_object w ar h =
     (case json_value_init_object h of (v, h1) \<Rightarrow>
      run_bind (w (json_value_get_object v) h1) (\<lambda>(b, h2).
        case json_array_append_value ar (fresh_ref (map_option JSONObject_of b)) h2 of (_, ar1, h3) \<Rightarrow> Inr (ar1, h3)))"

definition item_array :: "filler \<Rightarrow> filler" where
  "item_array f ar h =
     (case json_value_init_array h of (v, h1) \<Rightarrow>
      run_bind (f (json_value_get_array v) h1) (\<lambda>(a, h2).
        case json_array_append_value ar (fresh_ref (map_option JSONArray_of a)) h2 of (_, ar1, h3) \<Rightarrow> Inr (ar1, h3)))"

text \<open>Vectors of vectors of numbers.\<close>

definition put_matrix :: "string \<Rightarrow> ('a \<Rightarrow> double) \<Rightarrow> 'a list list \<Rightarrow> writer" where
  "put_matrix key f rows = put_array key (fill_each (\<lambda>row. item_array (fill_each (\<lambda>x. item_number (f x)) row)) rows)"

section \<open>Reading\<close>

type_synonym 'a reader = "json_object option \<Rightarrow> 'a option run"

text \<open>Going on after a part was read.\<close>

definition read_bind :: "'a option run \<Rightarrow> ('a \<Rightarrow> 'b option run) \<Rightarrow> 'b option run" where
  "read_bind m f = run_bind m (\<lambda>r. case r of None \<Rightarrow> Inr None | Some x \<Rightarrow> f x)"

definition read_check :: "bool \<Rightarrow> 'a option run \<Rightarrow> 'a option run" where
  "read_check ok m = (if ok then m else Inr None)"

definition read_uint32 :: "string \<Rightarrow> nat reader" where
  "read_uint32 key ob =
     read_check (json_object_has_value_of_type ob (Some key) JSONNumber_t)
       (let d = json_object_get_number ob (Some key) in
        run_bind (isInteger d) (\<lambda>integral.
          read_check integral (run_bind (uint32_of_double d) (\<lambda>n. Inr (Some n)))))"

definition read_string :: "string \<Rightarrow> string reader" where
  "read_string key ob =
     (case json_object_get_string ob (Some key) of None \<Rightarrow> Inr None | Some str \<Rightarrow> Inr (Some (cstr str)))"

text \<open>A loop over the items of an array that stops at the first failure.\<close>

fun read_items :: "(json_value \<Rightarrow> 'a option run) \<Rightarrow> json_value list \<Rightarrow> 'a list option run" where
  "read_items f [] = Inr (Some [])"
| "read_items f (v # vs) = read_bind (f v) (\<lambda>x. read_bind (read_items f vs) (\<lambda>xs. Inr (Some (x # xs))))"

definition read_array :: "string \<Rightarrow> (json_value \<Rightarrow> 'a option run) \<Rightarrow> 'a list reader" where
  "read_array key f ob =
     (case json_object_get_array ob (Some key) of None \<Rightarrow> Inr None | Some ar \<Rightarrow> read_items f (items ar))"

definition read_object_item :: "'a reader \<Rightarrow> json_value \<Rightarrow> 'a option run" where
  "read_object_item f v = f (json_value_get_object (Some v))"

text \<open>\<open>json_value_get_array\<close> of an item that is no array is \<open>NULL\<close>, which has no items.\<close>

definition read_array_item :: "(json_value \<Rightarrow> 'a option run) \<Rightarrow> json_value \<Rightarrow> 'a list option run" where
  "read_array_item f v =
     (case json_value_get_array (Some v) of None \<Rightarrow> Inr (Some []) | Some ar \<Rightarrow> read_items f (items ar))"

text \<open>Numbers converted to the type of the vector.\<close>

definition number_item :: "(double \<Rightarrow> 'a run) \<Rightarrow> json_value \<Rightarrow> 'a option run" where
  "number_item f v = run_bind (f (json_value_get_number (Some v))) (\<lambda>x. Inr (Some x))"

definition read_matrix :: "string \<Rightarrow> (double \<Rightarrow> 'a run) \<Rightarrow> 'a list list reader" where
  "read_matrix key f = read_array key (read_array_item (number_item f))"

section \<open>The classes\<close>

definition Principal_toJsonObject :: "Principal \<Rightarrow> writer" where
  "Principal_toJsonObject p = write_all [put_string ''mspId'' (mspId p), put_string ''dn'' (dn p)]"

definition Principal_fromJsonObject :: "Principal reader" where
  "Principal_fromJsonObject ob =
     read_bind (read_string ''mspId'' ob) (\<lambda>m.
     read_bind (read_string ''dn'' ob) (\<lambda>n. Inr (Some \<lparr>mspId = m, dn = n\<rparr>)))"

definition Channel_toJsonObject :: "Channel \<Rightarrow> writer" where
  "Channel_toJsonObject c = write_all
     [put_int ''id'' (int (chan_id c)), put_string ''name'' (chan_name c), put_int ''impairment'' (int (impairment c))]"

definition Channel_fromJsonObject :: "Channel reader" where
  "Channel_fromJsonObject ob =
     read_bind (read_uint32 ''id'' ob) (\<lambda>i.
     read_bind (read_string ''name'' ob) (\<lambda>n.
     read_bind (read_uint32 ''impairment'' ob) (\<lambda>m. Inr (Some \<lparr>chan_id = i, chan_name = n, impairment = m\<rparr>))))"

definition Territory_toJsonObject :: "Territory \<Rightarrow> writer" where
  "Territory_toJsonObject t = write_all
     [put_int ''id'' (int (ter_id t)), put_string ''name'' (ter_name t), put_boolean ''isHighDemand'' (isHighDemand t),
      put_number ''minPrice'' (minPrice t),
      put_array ''channels'' (fill_each (\<lambda>c. item_object (Channel_toJsonObject c)) (channels t))]"

definition Territory_fromJsonObject :: "Territory reader" where
  "Territory_fromJsonObject ob =
     read_bind (read_uint32 ''id'' ob) (\<lambda>i.
     read_bind (read_string ''name'' ob) (\<lambda>n.
       let b = json_object_get_boolean ob (Some ''isHighDemand'') in
     read_check (b \<noteq> - 1)
    (read_check (json_object_has_value_of_type ob (Some ''minPrice'') JSONNumber_t)
      (let p = json_object_get_number ob (Some ''minPrice'') in
     read_check (\<not> dless p dzero)
    (read_bind (read_array ''channels'' (read_object_item Channel_fromJsonObject) ob) (\<lambda>cs.
       Inr (Some \<lparr>ter_id = i, ter_name = n, isHighDemand = (b \<noteq> 0), minPrice = p, channels = cs\<rparr>)))))))"

definition Bidder_toJsonObject :: "Bidder \<Rightarrow> writer" where
  "Bidder_toJsonObject b = write_all
     [put_int ''id'' (int (bidder_id b)), put_string ''displayName'' (displayName b),
      put_object ''principal'' (Principal_toJsonObject (bidder_principal b))]"

definition Bidder_fromJsonObject :: "Bidder reader" where
  "Bidder_fromJsonObject ob =
     read_bind (read_uint32 ''id'' ob) (\<lambda>i.
     read_bind (read_string ''displayName'' ob) (\<lambda>n.
       let v = json_object_get_value ob (Some ''principal'') in
     read_check (v \<noteq> None)
    (read_bind (Principal_fromJsonObject (json_value_get_object v)) (\<lambda>p.
       Inr (Some \<lparr>bidder_id = i, displayName = n, bidder_principal = p\<rparr>)))))"

definition Eligibility_toJsonObject :: "Eligibility \<Rightarrow> writer" where
  "Eligibility_toJsonObject e = write_all
     [put_int ''bidderId'' (int (elig_bidderId e)), put_int ''number'' (int (elig_number e))]"

definition Eligibility_fromJsonObject :: "Eligibility reader" where
  "Eligibility_fromJsonObject ob =
     read_bind (read_uint32 ''bidderId'' ob) (\<lambda>i.
     read_bind (read_uint32 ''number'' ob) (\<lambda>n. Inr (Some \<lparr>elig_bidderId = i, elig_number = n\<rparr>)))"

definition Demand_toJsonObject :: "Demand \<Rightarrow> writer" where
  "Demand_toJsonObject x = write_all
     [put_int ''terId'' (int (territoryId x)), put_int ''qty'' (int (quantity x)), put_number ''price'' (price x)]"

text \<open>The price is read as an integer of 32 bits.\<close>

definition Demand_fromJsonObject :: "Demand reader" where
  "Demand_fromJsonObject ob =
     read_bind (read_uint32 ''terId'' ob) (\<lambda>t.
     read_bind (read_uint32 ''qty'' ob) (\<lambda>q.
     read_bind (read_uint32 ''price'' ob) (\<lambda>p.
       Inr (Some \<lparr>territoryId = t, quantity = q, price = double_of_int (int p)\<rparr>))))"

definition Bid_toJsonObject :: "Bid \<Rightarrow> writer" where
  "Bid_toJsonObject b = write_all
     [put_int ''auctionId'' (int (auctionId b)), put_int ''round'' (int (bid_round b)),
      put_array ''bids'' (fill_each (\<lambda>x. item_object (Demand_toJsonObject x)) (demands b))]"

definition Bid_fromJsonObject :: "Bid reader" where
  "Bid_fromJsonObject ob =
     read_bind (read_uint32 ''auctionId'' ob) (\<lambda>a.
     read_bind (read_uint32 ''round'' ob) (\<lambda>r.
     (case json_object_get_array ob (Some ''bids'') of
        None \<Rightarrow> Inr None
      | Some ar \<Rightarrow>
          read_check (\<not> (items ar = [] \<and> a \<noteq> 0))
         (read_bind (read_items (read_object_item Demand_fromJsonObject) (items ar)) (\<lambda>ds.
            Inr (Some \<lparr>auctionId = a, bid_round = r, demands = ds\<rparr>))))))"

section \<open>The static state\<close>

definition StaticAuctionState_toJsonObject :: "StaticAuctionState \<Rightarrow> writer" where
  "StaticAuctionState_toJsonObject s = write_all
     [put_opened ''owner'' (Principal_toJsonObject (owner s)),
      put_string ''name'' (auction_name s),
      put_array ''territories'' (fill_each (\<lambda>t. item_object (Territory_toJsonObject t)) (territories s)),
      put_array ''bidders'' (fill_each (\<lambda>b. item_object (Bidder_toJsonObject b)) (bidders s)),
      put_array ''initialEligibilities'' (fill_each (\<lambda>e. item_object (Eligibility_toJsonObject e)) (initialEligibilities s)),
      put_int ''activityRequirementPercentage'' (int (activityRequirementPercentage s)),
      put_int ''clockPriceIncrementPercentage'' (int (clockPriceIncrementPercentage s))]"

text \<open>A percentage is converted before it is checked.\<close>

definition read_percentage :: "string \<Rightarrow> (double \<Rightarrow> bool) \<Rightarrow> nat reader" where
  "read_percentage key ok ob =
     read_check (json_object_has_value_of_type ob (Some key) JSONNumber_t)
       (let d = json_object_get_number ob (Some key) in
        run_bind (uint32_of_double d) (\<lambda>n. read_check (ok d) (Inr (Some n))))"

text \<open>\<open>fromJsonObject\<close> extends the vectors of the state it is called on and leaves its owner.\<close>

definition StaticAuctionState_fromJsonObject :: "StaticAuctionState \<Rightarrow> StaticAuctionState reader" where
  "StaticAuctionState_fromJsonObject s ob =
     read_check (ob \<noteq> None)
    (read_bind (read_string ''name'' ob) (\<lambda>n.
     read_bind (read_array ''territories'' (read_object_item Territory_fromJsonObject) ob) (\<lambda>ts.
     read_bind (read_array ''bidders'' (read_object_item Bidder_fromJsonObject) ob) (\<lambda>bs.
     read_bind (read_array ''initialEligibilities'' (read_object_item Eligibility_fromJsonObject) ob) (\<lambda>es.
     read_bind (read_percentage ''activityRequirementPercentage''
       (\<lambda>d. \<not> (dless d dzero \<or> dless (double_of_int 100) d)) ob) (\<lambda>a.
     read_bind (read_percentage ''clockPriceIncrementPercentage'' (\<lambda>d. \<not> dless d dzero) ob) (\<lambda>c.
       Inr (Some (s\<lparr>auction_name := n, territories := territories s @ ts, bidders := bidders s @ bs,
         initialEligibilities := initialEligibilities s @ es, activityRequirementPercentage := a,
         clockPriceIncrementPercentage := c\<rparr>)))))))))"

definition fromExtendedJsonObject :: "StaticAuctionState \<Rightarrow> StaticAuctionState reader" where
  "fromExtendedJsonObject s ob =
     read_check (ob \<noteq> None)
      (let v = json_object_get_value ob (Some ''owner'') in
     read_check (v \<noteq> None)
    (read_bind (Principal_fromJsonObject (json_value_get_object v)) (\<lambda>p.
       StaticAuctionState_fromJsonObject (s\<lparr>owner := p\<rparr>) ob)))"

section \<open>The dynamic state\<close>

fun AUCTION_STATE_STRINGS :: "auction_state_e \<Rightarrow> string" where
  "AUCTION_STATE_STRINGS STATE_UNDEFINED = ''undefined''"
| "AUCTION_STATE_STRINGS CLOCK_PHASE = ''clock''"
| "AUCTION_STATE_STRINGS ASSIGNMENT_PHASE = ''assign''"
| "AUCTION_STATE_STRINGS FSR_FAILED = ''failed_fsr''"
| "AUCTION_STATE_STRINGS CLOSED = ''done''"

definition stateMap :: "(string \<times> auction_state_e) list" where
  "stateMap = map (\<lambda>st. (AUCTION_STATE_STRINGS st, st)) [STATE_UNDEFINED, CLOCK_PHASE, ASSIGNMENT_PHASE, FSR_FAILED, CLOSED]"

definition DynamicAuctionState_toJsonObject :: "DynamicAuctionState \<Rightarrow> writer" where
  "DynamicAuctionState_toJsonObject d = write_all
     [put_string ''state'' (AUCTION_STATE_STRINGS (auctionState d)),
      put_int ''clockRound'' (int (clockRound d)),
      put_boolean ''roundActive'' (roundActive d),
      put_matrix ''postedPrice'' id (postedPrice d),
      put_matrix ''clockPrice'' id (clockPrice d),
      put_matrix ''eligibility'' (\<lambda>n. double_of_int (int n)) (eligibility d),
      put_array ''clockBids''
        (fill_each (\<lambda>row. item_array (fill_each (\<lambda>b. item_object (Bid_toJsonObject b)) row)) (clockBids d)),
      put_array ''processedLicenses''
        (fill_each (\<lambda>rows. item_array (fill_each (\<lambda>row.
           item_array (fill_each (\<lambda>n. item_number (double_of_int (int n))) row)) rows)) (processedLicenses d)),
      put_matrix ''excessDemand'' double_of_int (excessDemand d),
      put_matrix ''winAssign'' double_of_int (winAssign d),
      put_matrix ''assignCost'' id (assignCost d),
      put_matrix ''channelPrice'' id (channelPrice d)]"

text \<open>The test after reading \<open>roundActive\<close> compares the member, a \<open>bool\<close>, with \<open>-1\<close> and never fails; a
  missing flag reads as \<open>true\<close>.\<close>

definition DynamicAuctionState_fromJsonObject :: "DynamicAuctionState \<Rightarrow> DynamicAuctionState reader" where
  "DynamicAuctionState_fromJsonObject d ob =
     read_check (json_object_has_value_of_type ob (Some ''state'') JSONString_t)
    (read_bind (read_string ''state'' ob) (\<lambda>str.
     (case map_of stateMap str of
        None \<Rightarrow> Inr None
      | Some st \<Rightarrow>
     read_check (st \<noteq> STATE_UNDEFINED)
    (read_bind (read_uint32 ''clockRound'' ob) (\<lambda>r.
     read_check (r \<noteq> 0)
      (let b = json_object_get_boolean ob (Some ''roundActive'') in
     read_bind (read_matrix ''postedPrice'' Inr ob) (\<lambda>pp.
     read_bind (read_matrix ''clockPrice'' Inr ob) (\<lambda>cp.
     read_bind (read_matrix ''eligibility'' uint32_of_double ob) (\<lambda>el.
     read_bind (read_array ''clockBids'' (read_array_item (read_object_item Bid_fromJsonObject)) ob) (\<lambda>cb.
     read_bind (read_array ''processedLicenses'' (read_array_item (read_array_item (number_item uint32_of_double))) ob) (\<lambda>pl.
     read_bind (read_matrix ''excessDemand'' int_of_double ob) (\<lambda>ed.
     read_bind (read_matrix ''winAssign'' int_of_double ob) (\<lambda>wa.
     read_bind (read_matrix ''assignCost'' Inr ob) (\<lambda>ac.
     read_bind (read_matrix ''channelPrice'' Inr ob) (\<lambda>ch.
       Inr (Some (d\<lparr>auctionState := st, clockRound := r, roundActive := (b \<noteq> 0),
         postedPrice := postedPrice d @ pp, clockPrice := clockPrice d @ cp, eligibility := eligibility d @ el,
         clockBids := clockBids d @ cb, processedLicenses := processedLicenses d @ pl,
         excessDemand := excessDemand d @ ed, winAssign := winAssign d @ wa, assignCost := assignCost d @ ac,
         channelPrice := channelPrice d @ ch\<rparr>)))))))))))))))))"

section \<open>States just constructed\<close>

text \<open>A state as its constructor leaves it: empty vectors; the numbers are set when it is read.\<close>

definition new_static :: StaticAuctionState where
  "new_static = \<lparr>owner = \<lparr>mspId = [], dn = []\<rparr>, auction_name = [], territories = [], bidders = [], initialEligibilities = [],
     activityRequirementPercentage = 0, clockPriceIncrementPercentage = 0\<rparr>"

definition new_dynamic :: "Principal \<Rightarrow> error_codes_e \<Rightarrow> DynamicAuctionState" where
  "new_dynamic p e = \<lparr>auctionState = STATE_UNDEFINED, clockRound = 0, roundActive = False, submitterPrincipal = p,
     postedPrice = [], clockPrice = [], eligibility = [], clockBids = [], excessDemand = [], processedLicenses = [],
     winAssign = [], assignCost = [], channelPrice = [], er = e\<rparr>"

end
