(* ===== verification/Sgx.thy ===== *)
theory Sgx
  imports Cpp_Base
begin

text \<open>
  The functions of the SGX SDK that the enclaves call, as a parameter: the record \<open>sgx\<close>. Keys,
  hashes, tags and signatures are byte strings; a status of 0 is \<open>SGX_SUCCESS\<close>. A streaming
  interface (\<open>init\<close>, \<open>update\<close>, \<open>final\<close>) is one function of the concatenated input. A report is the pair of
  its 64 bytes of user data and everything else in it. The random
  number generator is a function of the number of calls made so far.
\<close>

definition SGX_SUCCESS :: int where "SGX_SUCCESS = 0"

definition SGX_ERROR_UNEXPECTED :: int where "SGX_ERROR_UNEXPECTED = 1"

definition SGX_ERROR_INVALID_PARAMETER :: int where "SGX_ERROR_INVALID_PARAMETER = 2"

definition SGX_AESGCM_IV_SIZE :: nat where "SGX_AESGCM_IV_SIZE = 12"

definition SGX_AESGCM_MAC_SIZE :: nat where "SGX_AESGCM_MAC_SIZE = 16"

lemmas sgx_constants [simp] = SGX_SUCCESS_def SGX_ERROR_UNEXPECTED_def SGX_ERROR_INVALID_PARAMETER_def
  SGX_AESGCM_IV_SIZE_def SGX_AESGCM_MAC_SIZE_def

record sgx =
  sgx_sha256 :: "string \<Rightarrow> string"
  sgx_cmac128 :: "string \<Rightarrow> string \<Rightarrow> string"
  sgx_read_rand :: "nat \<Rightarrow> nat \<Rightarrow> string"
  sgx_rijndael128GCM_encrypt :: "string \<Rightarrow> string \<Rightarrow> string \<Rightarrow> int \<times> string \<times> string"
  sgx_rijndael128GCM_decrypt :: "string \<Rightarrow> string \<Rightarrow> string \<Rightarrow> string \<Rightarrow> int \<times> string"
  sgx_ecdsa_sign :: "string \<Rightarrow> string \<Rightarrow> int \<times> string"
  sgx_ecc256_compute_shared_dhkey :: "string \<Rightarrow> string \<Rightarrow> int \<times> string"
  sgx_create_report :: "string \<Rightarrow> string \<Rightarrow> int \<times> (string \<times> string)"
  sgx_verify_report :: "string \<times> string \<Rightarrow> int"

text \<open>The session key both enclaves have compiled in.\<close>

definition session_key_bytes :: string where
  "session_key_bytes = map char_of [0x3F, 0xE2, 0x59, 0xDF, 0x62, 0x7F, 0xEF, 0x99, 0x5B, 0x4B, 0x00, 0xDE, 0x44, 0xC1, 0x26, 0x33 :: nat]"

end
