(* ===== verification/Shim.thy ===== *)
theory Shim
  imports Ecc_Json Sgx
begin

text \<open>
  The chaincode side: \<^verbatim>\<open>ecc_enclave/enclave/crypto.cpp\<close> (state encryption and the check of the
  ledger's tags) and \<^verbatim>\<open>shim.cpp\<close> (the state interface a chaincode programs against). The untrusted
  peer is the record \<open>peer\<close> of the calls that leave the enclave, over an arbitrary state \<open>'w\<close>: the
  buffer it fills, the length it claims and the tag it returns are its own choice. The context
  \<open>shim_ctx\<close> has the read and write sets, the arguments, the heap, the number of calls made to the
  random generator, and the keys whose tag did not match, which the code only logs.

  A buffer handed to the peer comes back completely overwritten, with zeros where the peer wrote
  nothing (\<open>fill\<close>). A buffer of the enclave is a list; a store past its end is a failure.
\<close>

record 'w peer =
  ocall_get_state :: "'w \<Rightarrow> string \<Rightarrow> nat \<Rightarrow> string \<times> nat \<times> string \<times> 'w"
  ocall_put_state :: "'w \<Rightarrow> string \<Rightarrow> string \<Rightarrow> 'w"
  ocall_get_state_by_partial_composite_key :: "'w \<Rightarrow> string \<Rightarrow> nat \<Rightarrow> string \<times> nat \<times> string \<times> 'w"
  ocall_get_creator_name :: "'w \<Rightarrow> nat \<Rightarrow> nat \<Rightarrow> string \<times> string \<times> 'w"

record 'w shim_ctx =
  u_shim_ctx :: 'w
  read_set :: "string list"
  write_set :: "(string, string) std_map"
  encoded_args :: string
  json_args :: string
  heap_mem :: heap
  rand_calls :: nat
  cmac_mismatches :: "string list"

definition fill :: "nat \<Rightarrow> string \<Rightarrow> string" where
  "fill n bytes = take n (bytes @ replicate n NUL)"

definition ecc_session_key :: string where
  "ecc_session_key = session_key_bytes"

definition state_encryption_key :: string where
  "state_encryption_key = map char_of [0x6A, 0xB0, 0x46, 0xB3, 0x8D, 0x14, 0x2D, 0x17, 0x3F, 0x52, 0xF3, 0x9F, 0xDA, 0x1D, 0x63, 0x4A :: nat]"

section \<open>State cryptography\<close>

definition check_cmac :: "sgx \<Rightarrow> string \<Rightarrow> string \<Rightarrow> string \<Rightarrow> string \<Rightarrow> int" where
  "check_cmac sgx key state_hash cmac_key cmac =
     (let tmp_cmac = sgx_cmac128 sgx cmac_key (cstr key @ state_hash)
      in if tmp_cmac \<noteq> cmac then -1 else 0)"

text \<open>\<open>encrypt_state\<close>: the status and the buffer of \<open>length plain + 28\<close> bytes, initialisation vector,
  tag and ciphertext; \<open>n\<close> is the number of calls made to the random generator before.\<close>

definition encrypt_state :: "sgx \<Rightarrow> string \<Rightarrow> string \<Rightarrow> nat \<Rightarrow> nat \<Rightarrow> (int \<times> string) run" where
  "encrypt_state sgx key plain cipher_len n =
     run_bind (check AssertFailed (length plain + SGX_AESGCM_IV_SIZE + SGX_AESGCM_MAC_SIZE \<le> cipher_len)) (\<lambda>_.
       let iv = fill SGX_AESGCM_IV_SIZE (sgx_read_rand sgx n SGX_AESGCM_IV_SIZE);
           (ret, ct, tag) = sgx_rijndael128GCM_encrypt sgx key plain iv
       in Inr (ret, iv @ fill SGX_AESGCM_MAC_SIZE tag @ fill (length plain) ct))"

definition decrypt_state :: "sgx \<Rightarrow> string \<Rightarrow> string \<Rightarrow> nat \<Rightarrow> (int \<times> string) run" where
  "decrypt_state sgx key cipher plain_len =
     run_bind (check OutOfBounds (SGX_AESGCM_IV_SIZE + SGX_AESGCM_MAC_SIZE \<le> length cipher)) (\<lambda>_.
     run_bind (check AssertFailed (length cipher - SGX_AESGCM_IV_SIZE - SGX_AESGCM_MAC_SIZE \<le> plain_len)) (\<lambda>_.
       Inr (sgx_rijndael128GCM_decrypt sgx key (drop (SGX_AESGCM_IV_SIZE + SGX_AESGCM_MAC_SIZE) cipher)
              (take SGX_AESGCM_IV_SIZE cipher) (take SGX_AESGCM_MAC_SIZE (drop SGX_AESGCM_IV_SIZE cipher)))))"

section \<open>Reading and writing the state\<close>

definition note_cmac :: "int \<Rightarrow> string \<Rightarrow> 'w shim_ctx \<Rightarrow> 'w shim_ctx" where
  "note_cmac ret key ctx = (if ret \<noteq> 0 then ctx\<lparr>cmac_mismatches := cmac_mismatches ctx @ [cstr key]\<rparr> else ctx)"

definition get_creator_name :: "'w peer \<Rightarrow> nat \<Rightarrow> nat \<Rightarrow> 'w shim_ctx \<Rightarrow> string \<times> string \<times> 'w shim_ctx" where
  "get_creator_name pr max_msp_id_len max_dn_len ctx =
     (case ocall_get_creator_name pr (u_shim_ctx ctx) max_msp_id_len max_dn_len of
        (msp_id, dn, w) \<Rightarrow> (fill max_msp_id_len msp_id, fill max_dn_len dn, ctx\<lparr>u_shim_ctx := w\<rparr>))"

text \<open>\<open>get_public_state\<close>: the caller's buffer and \<open>*val_len\<close>. The condition before hashing compares
  the pointer \<open>val_len\<close> and not the length, so it always holds.\<close>

definition get_public_state :: "sgx \<Rightarrow> 'w peer \<Rightarrow> string \<Rightarrow> nat \<Rightarrow> 'w shim_ctx \<Rightarrow> (string \<times> nat \<times> 'w shim_ctx) run" where
  "get_public_state sgx pr key max_val_len ctx =
     (let ctx1 = ctx\<lparr>read_set := set_insert (cstr key) (read_set ctx)\<rparr>;
          (bytes, val_len, cmac, w) = ocall_get_state pr (u_shim_ctx ctx1) (cstr key) max_val_len;
          val = fill max_val_len bytes;
          ctx2 = ctx1\<lparr>u_shim_ctx := w\<rparr>
      in if max_val_len < val_len then Inl (Thrown ''Enclave: val_len greater than max_val_len'')
         else let state_hash = sgx_sha256 sgx (take val_len val)
              in Inr (val, val_len, note_cmac (check_cmac sgx key state_hash ecc_session_key cmac) key ctx2))"

text \<open>\<open>get_state\<close> with the caller's buffer \<open>val\<close>.\<close>

definition get_state :: "sgx \<Rightarrow> 'w peer \<Rightarrow> string \<Rightarrow> string \<Rightarrow> nat \<Rightarrow> 'w shim_ctx \<Rightarrow> (string \<times> nat \<times> 'w shim_ctx) run" where
  "get_state sgx pr key val max_val_len ctx =
     (let size = (max_val_len + SGX_AESGCM_IV_SIZE + SGX_AESGCM_MAC_SIZE + 2) div 3 * 4 in
      run_bind (get_public_state sgx pr key size ctx) (\<lambda>(encoded_cipher, encoded_cipher_len, ctx1).
        if encoded_cipher_len = 0 then Inr (val, 0, ctx1)
        else if size < encoded_cipher_len then Inl (Thrown ''Enclave: encoded_cipher_len greater than buffer length'')
        else let encoded_cipher_s = take encoded_cipher_len encoded_cipher in
             if encoded_cipher_len \<noteq> length encoded_cipher_s then Inl (Thrown ''Unexpected string length'')
             else let cipher = base64_decode encoded_cipher_s in
                  if length cipher < SGX_AESGCM_IV_SIZE + SGX_AESGCM_MAC_SIZE
                  then Inl (Thrown ''Enclave: base64 decoding failed/produced too short a value'')
                  else let val_len = length cipher - SGX_AESGCM_IV_SIZE - SGX_AESGCM_MAC_SIZE in
                       run_bind (decrypt_state sgx state_encryption_key cipher val_len) (\<lambda>(ret, plain).
                       run_bind (check OutOfBounds (val_len \<le> length val)) (\<lambda>_.
                         if ret \<noteq> SGX_SUCCESS then Inl (Thrown ''Enclave: Error decrypting state'')
                         else Inr (fill val_len plain @ drop val_len val, val_len, ctx1)))))"

definition put_public_state :: "'w peer \<Rightarrow> string \<Rightarrow> string \<Rightarrow> 'w shim_ctx \<Rightarrow> 'w shim_ctx" where
  "put_public_state pr key val ctx =
     ctx\<lparr>write_set := map_insert (cstr key) val (write_set ctx),
         u_shim_ctx := ocall_put_state pr (u_shim_ctx ctx) (cstr key) val\<rparr>"

definition put_state :: "sgx \<Rightarrow> 'w peer \<Rightarrow> string \<Rightarrow> string \<Rightarrow> 'w shim_ctx \<Rightarrow> 'w shim_ctx run" where
  "put_state sgx pr key val ctx =
     (let cipher_len = length val + SGX_AESGCM_IV_SIZE + SGX_AESGCM_MAC_SIZE in
      run_bind (encrypt_state sgx state_encryption_key val cipher_len (rand_calls ctx)) (\<lambda>(_, cipher).
        Inr (put_public_state pr key (base64_encode cipher) (ctx\<lparr>rand_calls := Suc (rand_calls ctx)\<rparr>))))"

section \<open>Range queries\<close>

fun unmarshal_values_loop :: "json_value list \<Rightarrow> (string, string) std_map \<Rightarrow> (string, string) std_map run" where
  "unmarshal_values_loop [] values = Inr values"
| "unmarshal_values_loop (x # xs) values =
     (let pair = json_value_get_object (Some x) in
      run_bind (deref (json_object_get_string pair (Some ''key''))) (\<lambda>key.
      run_bind (deref (json_object_get_string pair (Some ''value''))) (\<lambda>val.
        unmarshal_values_loop xs (map_insert key val values))))"

definition unmarshal_values ::
  "(string, string) std_map \<Rightarrow> string \<Rightarrow> heap \<Rightarrow> (int \<times> (string, string) std_map \<times> heap) run" where
  "unmarshal_values values json_bytes h =
     run_bind (parse_json json_bytes h) (\<lambda>(root, h1).
       case json_value_get_array root of
         None \<Rightarrow> Inr (-1, values, h1)
       | Some prs \<Rightarrow>
           run_bind (unmarshal_values_loop (items prs) values) (\<lambda>values1. Inr (1, values1, free_value_ptr root h1)))"

definition get_public_state_by_partial_composite_key ::
  "sgx \<Rightarrow> 'w peer \<Rightarrow> string \<Rightarrow> (string, string) std_map \<Rightarrow> 'w shim_ctx \<Rightarrow> ((string, string) std_map \<times> 'w shim_ctx) run" where
  "get_public_state_by_partial_composite_key sgx pr comp_key values ctx =
     (let (bytes, len, cmac, w) = ocall_get_state_by_partial_composite_key pr (u_shim_ctx ctx) (cstr comp_key) 262144;
          json = fill 262144 bytes;
          ctx1 = ctx\<lparr>u_shim_ctx := w\<rparr>
      in if 262144 < len then Inl (Thrown ''Enclave: len greater than json buffer size'')
         else run_bind (unmarshal_values values (cstr json) (heap_mem ctx1)) (\<lambda>(_, values1, h1).
           let state_hash = sgx_sha256 sgx (concat (map (\<lambda>(k, v). k @ v) values1));
               ctx2 = ctx1\<lparr>read_set := fold (\<lambda>(k, v). set_insert k) values1 (read_set ctx1), heap_mem := h1\<rparr>
           in Inr (values1, note_cmac (check_cmac sgx comp_key state_hash ecc_session_key cmac) comp_key ctx2)))"

fun decrypt_values :: "sgx \<Rightarrow> (string, string) std_map \<Rightarrow> (string, string) std_map run" where
  "decrypt_values sgx [] = Inr []"
| "decrypt_values sgx ((k, v) # values) =
     (let cipher = base64_decode (cstr v);
          plain_len = length cipher - SGX_AESGCM_IV_SIZE - SGX_AESGCM_MAC_SIZE in
      run_bind (decrypt_state sgx state_encryption_key cipher plain_len) (\<lambda>(ret, plain).
        if ret \<noteq> SGX_SUCCESS then Inl (Thrown ''Enclave: Error decrypting state'')
        else run_bind (decrypt_values sgx values) (\<lambda>rest. Inr ((k, fill plain_len plain) # rest))))"

definition get_state_by_partial_composite_key ::
  "sgx \<Rightarrow> 'w peer \<Rightarrow> string \<Rightarrow> (string, string) std_map \<Rightarrow> 'w shim_ctx \<Rightarrow> ((string, string) std_map \<times> 'w shim_ctx) run" where
  "get_state_by_partial_composite_key sgx pr comp_key values ctx =
     run_bind (get_public_state_by_partial_composite_key sgx pr comp_key values ctx) (\<lambda>(values1, ctx1).
     run_bind (decrypt_values sgx values1) (\<lambda>values2. Inr (values2, ctx1)))"

section \<open>Arguments\<close>

fun string_items :: "json_value list \<Rightarrow> string list run" where
  "string_items [] = Inr []"
| "string_items (x # xs) =
     run_bind (deref (json_value_get_string (Some x))) (\<lambda>s. run_bind (string_items xs) (\<lambda>ss. Inr (s # ss)))"

definition get_string_args :: "string list \<Rightarrow> 'w shim_ctx \<Rightarrow> (int \<times> string list \<times> 'w shim_ctx) run" where
  "get_string_args argss ctx =
     run_bind (parse_json (json_args ctx) (heap_mem ctx)) (\<lambda>(root, h1).
       case json_value_get_array root of
         None \<Rightarrow> Inr (-1, argss, ctx\<lparr>heap_mem := h1\<rparr>)
       | Some args \<Rightarrow>
           run_bind (string_items (items args)) (\<lambda>ss.
             Inr (1, argss @ ss, ctx\<lparr>heap_mem := free_value_ptr root h1\<rparr>)))"

definition get_func_and_params ::
  "string \<Rightarrow> string list \<Rightarrow> 'w shim_ctx \<Rightarrow> (int \<times> string \<times> string list \<times> 'w shim_ctx) run" where
  "get_func_and_params func_name params ctx =
     run_bind (parse_json (json_args ctx) (heap_mem ctx)) (\<lambda>(root, h1).
       case json_value_get_array root of
         None \<Rightarrow> Inr (-1, func_name, params, ctx\<lparr>heap_mem := h1\<rparr>)
       | Some args \<Rightarrow>
           (case items args of
              [] \<Rightarrow> Inr (-1, func_name, params, ctx\<lparr>heap_mem := h1\<rparr>)
            | x # xs \<Rightarrow>
                run_bind (deref (json_value_get_string (Some x))) (\<lambda>f.
                run_bind (string_items xs) (\<lambda>ss.
                  Inr (1, f, params @ ss, ctx\<lparr>heap_mem := free_value_ptr root h1\<rparr>)))))"

section \<open>Lemmas\<close>

lemma length_fill [simp]: "length (fill n s) = n"
  by (simp add: fill_def)

lemma fill_exact: "length s = n \<Longrightarrow> fill n s = s"
  by (simp add: fill_def)

lemma fill_prefix: "take (length s) (fill n s) = s" if "length s \<le> n"
  using that by (simp add: fill_def)

lemma note_cmac_simps [simp]: "write_set (note_cmac r k ctx) = write_set ctx" "u_shim_ctx (note_cmac r k ctx) = u_shim_ctx ctx"
  "heap_mem (note_cmac r k ctx) = heap_mem ctx" "read_set (note_cmac r k ctx) = read_set ctx"
  by (simp_all add: note_cmac_def)

lemma get_public_state_Inr:
  "get_public_state sgx pr key n ctx = Inr (val, len, ctx') \<longleftrightarrow>
     (\<exists>bytes cmac w. ocall_get_state pr (u_shim_ctx ctx) (cstr key) n = (bytes, len, cmac, w) \<and> len \<le> n \<and> val = fill n bytes \<and>
        ctx' = note_cmac (check_cmac sgx key (sgx_sha256 sgx (take len val)) ecc_session_key cmac) key
                 (ctx\<lparr>read_set := set_insert (cstr key) (read_set ctx), u_shim_ctx := w\<rparr>))"
  by (auto simp: get_public_state_def Let_def split: prod.splits if_splits)

text \<open>\<open>get_state\<close> on what \<open>get_public_state\<close> delivered.\<close>

lemma get_state_after:
  assumes "get_public_state sgx pr key ((max_val_len + 30) div 3 * 4) ctx = Inr (enc, len, ctx1)"
  shows "get_state sgx pr key val max_val_len ctx =
    (let cipher = base64_decode (take len enc); n = length cipher - 28 in
     if len = 0 then Inr (val, 0, ctx1)
     else if length cipher < 28 then Inl (Thrown ''Enclave: base64 decoding failed/produced too short a value'')
     else run_bind (decrypt_state sgx state_encryption_key cipher n) (\<lambda>(ret, plain).
          run_bind (check OutOfBounds (n \<le> length val)) (\<lambda>_.
            if ret \<noteq> 0 then Inl (Thrown ''Enclave: Error decrypting state'')
            else Inr (fill n plain @ drop n val, n, ctx1))))"
proof -
  have size: "max_val_len + SGX_AESGCM_IV_SIZE + SGX_AESGCM_MAC_SIZE + 2 = max_val_len + 30" by simp
  have n: "x - SGX_AESGCM_IV_SIZE - SGX_AESGCM_MAC_SIZE = x - 28" for x by simp
  have l: "len \<le> (max_val_len + 30) div 3 * 4" "length (take len enc) = len"
    using assms by (auto simp: get_public_state_Inr)
  show ?thesis
    unfolding get_state_def size n Let_def assms run_bind_simps prod.case SGX_SUCCESS_def using l by simp
qed

text \<open>The size of the encoded buffer leaves room for up to two bytes more than the caller's.\<close>

lemma get_state_plain_bound:
  assumes "length enc = len" "len \<le> (max_val_len + 30) div 3 * 4"
  shows "length (base64_decode enc) - 28 \<le> max_val_len + 2"
    and "(max_val_len + 28) mod 3 = 0 \<Longrightarrow> length (base64_decode enc) - 28 \<le> max_val_len"
proof -
  have "length (base64_decode enc) \<le> (max_val_len + 30) div 3 * 3"
    using base64_decode_length [of enc] assms by linarith
  moreover have "(max_val_len + 30) div 3 * 3 \<le> max_val_len + 30" by simp
  moreover have "(max_val_len + 30) div 3 * 3 = max_val_len + 28" if "(max_val_len + 28) mod 3 = 0"
    using that by presburger
  ultimately show "length (base64_decode enc) - 28 \<le> max_val_len + 2"
    "(max_val_len + 28) mod 3 = 0 \<Longrightarrow> length (base64_decode enc) - 28 \<le> max_val_len"
    by linarith+
qed

text \<open>Encryption as the SGX SDK documents it: it succeeds, keeps the length, has a 16-byte tag, and
  decryption with the same key, vector and tag inverts it.\<close>

definition gcm_correct :: "sgx \<Rightarrow> bool" where
  "gcm_correct sgx = (\<forall>key plain iv. \<exists>ct tag. sgx_rijndael128GCM_encrypt sgx key plain iv = (SGX_SUCCESS, ct, tag) \<and>
     length ct = length plain \<and> length tag = SGX_AESGCM_MAC_SIZE \<and>
     sgx_rijndael128GCM_decrypt sgx key ct iv tag = (SGX_SUCCESS, plain))"

lemma encrypt_decrypt_state:
  assumes "gcm_correct sgx"
  obtains cipher where "encrypt_state sgx key plain (length plain + 28) n = Inr (0, cipher)" "length cipher = length plain + 28"
    "decrypt_state sgx key cipher (length plain) = Inr (0, plain)"
proof -
  let ?iv = "fill SGX_AESGCM_IV_SIZE (sgx_read_rand sgx n SGX_AESGCM_IV_SIZE)"
  obtain ct tag where g: "sgx_rijndael128GCM_encrypt sgx key plain ?iv = (SGX_SUCCESS, ct, tag)"
    "length ct = length plain" "length tag = SGX_AESGCM_MAC_SIZE" "sgx_rijndael128GCM_decrypt sgx key ct ?iv tag = (SGX_SUCCESS, plain)"
    using assms unfolding gcm_correct_def by blast
  show thesis
  proof (rule that [of "?iv @ tag @ ct"])
    show "encrypt_state sgx key plain (length plain + 28) n = Inr (0, ?iv @ tag @ ct)"
      using g by (simp add: encrypt_state_def fill_exact)
    show "decrypt_state sgx key (?iv @ tag @ ct) (length plain) = Inr (0, plain)"
      using g by (simp add: decrypt_state_def)
  qed (use g in simp)
qed

section \<open>A sample instance\<close>

text \<open>A library that encrypts by the identity and a peer that keeps what it is given: the witnesses
  run on them.\<close>

definition sample_sgx :: sgx where
  "sample_sgx = \<lparr>sgx_sha256 = (\<lambda>s. fill 32 s), sgx_cmac128 = (\<lambda>k m. m), sgx_read_rand = (\<lambda>n k. replicate k CHR ''r''),
     sgx_rijndael128GCM_encrypt = (\<lambda>k p iv. (0, p, replicate 16 CHR ''t'')),
     sgx_rijndael128GCM_decrypt = (\<lambda>k c iv t. if t = replicate 16 CHR ''t'' then (0, c) else (1, c)),
     sgx_ecdsa_sign = (\<lambda>k m. (0, replicate 64 CHR ''s'')), sgx_ecc256_compute_shared_dhkey = (\<lambda>k p. (0, take 32 p)),
     sgx_create_report = (\<lambda>t d. (0, d, t)), sgx_verify_report = (\<lambda>r. 0)\<rparr>"

definition sample_peer :: "((string, string) std_map) peer" where
  "sample_peer = \<lparr>ocall_get_state = (\<lambda>w k n. case map_of w k of None \<Rightarrow> ([], 0, [], w) | Some v \<Rightarrow> (v, length v, [], w)),
     ocall_put_state = (\<lambda>w k v. map_assign k v w),
     ocall_get_state_by_partial_composite_key = (\<lambda>w k n. (''[]'', 2, [], w)),
     ocall_get_creator_name = (\<lambda>w n m. (''msp'', ''dn'', w))\<rparr>"

definition sample_ctx :: "(string, string) std_map \<Rightarrow> string \<Rightarrow> ((string, string) std_map) shim_ctx" where
  "sample_ctx w args = \<lparr>u_shim_ctx = w, read_set = [], write_set = [], encoded_args = args, json_args = args,
     heap_mem = \<lparr>answers = [], live = 0\<rparr>, rand_calls = 0, cmac_mismatches = []\<rparr>"

lemma sample_gcm: "gcm_correct sample_sgx"
  by (simp add: gcm_correct_def sample_sgx_def)

section \<open>Properties\<close>

text \<open>C11. State round trip: what \<open>put_state\<close> puts into the write set of a transaction, read back from
  the peer by a later \<open>get_state\<close> whose buffer is large enough, is the value that was put,
  whatever tag the peer returns with it.\<close>

theorem put_state_get_state:
  assumes "gcm_correct sgx"
    and "put_state sgx pr key val ctx = Inr ctx1" "map_wf (write_set ctx)" "map_of (write_set ctx) (cstr key) = None"
    and "map_of (write_set ctx1) (cstr key) = Some s"
    and "ocall_get_state pr2 (u_shim_ctx ctx2) (cstr key) ((max_val_len + 30) div 3 * 4) = (s, length s, cmac, w)"
    and "length val \<le> max_val_len" "max_val_len \<le> length buf"
  shows "\<exists>ctx3. get_state sgx pr2 key buf max_val_len ctx2 = Inr (val @ drop (length val) buf, length val, ctx3)"
proof -
  obtain cipher where c: "encrypt_state sgx state_encryption_key val (length val + 28) (rand_calls ctx) = Inr (0, cipher)"
    "length cipher = length val + 28" "decrypt_state sgx state_encryption_key cipher (length val) = Inr (0, val)"
    using encrypt_decrypt_state [OF assms(1)] .
  have "map_of (write_set ctx1) (cstr key) = Some (base64_encode cipher)"
    using assms(2-4) c(1) by (auto simp: put_state_def put_public_state_def map_of_map_insert add.commute add.left_commute)
  then have s: "s = base64_encode cipher" using assms(5) by simp
  have len: "length s = (length val + 30) div 3 * 4" by (simp add: s c(2))
  then have fits: "length s \<le> (max_val_len + 30) div 3 * 4" "length s \<noteq> 0"
    using assms(7) by (auto intro: mult_le_mono1 div_le_mono)
  let ?n = "(max_val_len + 30) div 3 * 4"
  obtain ctx3 where g: "get_public_state sgx pr2 key ?n ctx2 = Inr (fill ?n s, length s, ctx3)"
    using get_public_state_Inr [of sgx pr2 key ?n ctx2 "fill ?n s" "length s"] assms(6) fits(1) by blast
  have "base64_decode (take (length s) (fill ?n s)) = cipher" using fill_prefix [OF fits(1)] by (simp add: s)
  then show ?thesis
    unfolding get_state_after [OF g] using fits(2) assms(7,8) c by (simp add: Let_def fill_exact)
qed

theorem put_state_get_state_witness:
  "\<exists>ctx1 s ctx3. put_state sample_sgx sample_peer ''k'' ''hello'' (sample_ctx [] []) = Inr ctx1 \<and>
     map_of (write_set ctx1) ''k'' = Some s \<and>
     get_state sample_sgx sample_peer ''k'' ''........'' 8 (sample_ctx [(''k'', s)] []) = Inr (''hello...'', 5, ctx3)"
proof -
  let ?c = "replicate 12 CHR ''r'' @ replicate 16 CHR ''t'' @ ''hello''"
  let ?ctx = "sample_ctx [] []" and ?s = "base64_encode ?c"
  have put: "put_state sample_sgx sample_peer ''k'' ''hello'' ?ctx =
      Inr (put_public_state sample_peer ''k'' ?s (?ctx\<lparr>rand_calls := 1\<rparr>))"
    by (simp add: put_state_def encrypt_state_def sample_sgx_def fill_def sample_ctx_def)
  have ws: "map_of (write_set (put_public_state sample_peer ''k'' ?s (?ctx\<lparr>rand_calls := 1\<rparr>))) ''k'' = Some ?s"
    by (simp add: put_public_state_def sample_ctx_def)
  have "\<exists>ctx3. get_state sample_sgx sample_peer ''k'' ''........'' 8 (sample_ctx [(''k'', ?s)] []) =
      Inr (''hello'' @ drop (length ''hello'') ''........'', length ''hello'', ctx3)"
    by (rule put_state_get_state [OF sample_gcm put, where s = ?s and w = "[(''k'', ?s)]" and cmac = "[]"])
      (simp_all add: put_public_state_def sample_ctx_def sample_peer_def del: replicate.simps length_base64_encode)
  then show ?thesis using put ws by (auto simp: numeral_eq_Suc simp del: replicate.simps)
qed

text \<open>C34. \<open>get_state\<close> writes inside the caller's buffer whenever \<open>max_val_len + 28\<close> is a multiple of
  three, and at most two bytes past it otherwise, because the encoded buffer is rounded up to
  whole base64 groups.\<close>

theorem get_state_in_bounds:
  assumes "max_val_len \<le> length buf" "(max_val_len + 28) mod 3 = 0 \<or> max_val_len + 2 \<le> length buf"
  shows "get_state sgx pr key buf max_val_len ctx \<noteq> Inl OutOfBounds"
proof
  assume oob: "get_state sgx pr key buf max_val_len ctx = Inl OutOfBounds"
  let ?n = "(max_val_len + 30) div 3 * 4"
  show False
  proof (cases "get_public_state sgx pr key ?n ctx")
    case (Inl f)
    then have "f \<noteq> OutOfBounds" by (auto simp: get_public_state_def Let_def split: prod.splits if_splits)
    moreover have "max_val_len + SGX_AESGCM_IV_SIZE + SGX_AESGCM_MAC_SIZE + 2 = max_val_len + 30" by simp
    ultimately show False using oob Inl unfolding get_state_def Let_def by (simp only: run_bind_simps) simp
  next
    case (Inr r)
    then obtain enc len ctx1 where g: "get_public_state sgx pr key ?n ctx = Inr (enc, len, ctx1)" by (cases r) simp
    then have l: "len \<le> ?n" "length (take len enc) = len" by (auto simp: get_public_state_Inr)
    have "length (base64_decode (take len enc)) - 28 \<le> length buf"
      using get_state_plain_bound [OF l(2,1)] assms by linarith
    then show False
      using oob unfolding get_state_after [OF g] by (auto simp: Let_def decrypt_state_def split: if_splits prod.splits)
  qed
qed

theorem get_state_in_bounds_witness:
  "get_state sample_sgx sample_peer ''k'' ''........'' 8 (sample_ctx [] []) \<noteq> Inl OutOfBounds"
  by (rule get_state_in_bounds) simp_all

text \<open>The bound is sharp: for every other buffer size the peer has an answer, the encoding of a
  ciphertext one byte too long, on which \<open>get_state\<close> makes the decryption write past the end of
  the caller's buffer.\<close>

theorem get_state_overflows:
  assumes "length buf = max_val_len" "(max_val_len + 28) mod 3 \<noteq> 0" "length cipher = max_val_len + 29"
    and "ocall_get_state pr (u_shim_ctx ctx) (cstr key) ((max_val_len + 30) div 3 * 4) =
      (base64_encode cipher, length (base64_encode cipher), cmac, w)"
  shows "get_state sgx pr key buf max_val_len ctx = Inl OutOfBounds"
proof -
  let ?n = "(max_val_len + 30) div 3 * 4" and ?s = "base64_encode cipher"
  have "(max_val_len + 31) div 3 = (max_val_len + 30) div 3" using assms(2) by presburger
  then have len: "length ?s = ?n" using assms(3) by simp
  obtain ctx3 where g: "get_public_state sgx pr key ?n ctx = Inr (fill ?n ?s, ?n, ctx3)"
    using get_public_state_Inr [of sgx pr key ?n ctx "fill ?n ?s" ?n] assms(4) len by auto
  have "base64_decode (take ?n (fill ?n ?s)) = cipher" using fill_prefix [of ?s ?n] len by simp
  moreover have "0 < ?n" by simp
  ultimately show ?thesis
    unfolding get_state_after [OF g] using assms(1,3) by (auto simp: decrypt_state_def Let_def split: prod.split)
qed

theorem get_state_overflows_witness:
  "get_state sample_sgx sample_peer ''initialized'' ''?'' 1 (sample_ctx [(''initialized'', base64_encode (replicate 30 CHR ''x''))] []) = Inl OutOfBounds"
  by (rule get_state_overflows [where cipher = "replicate 30 CHR ''x''" and cmac = "[]"
        and w = "[(''initialized'', base64_encode (replicate 30 CHR ''x''))]"])
    (simp_all add: sample_ctx_def sample_peer_def del: replicate.simps)

text \<open>A key written twice in one transaction: the enclave's write set keeps the first value while
  the peer is given the second, so the write set that is hashed and signed is not the one that
  reaches the ledger.\<close>

theorem put_public_state_twice:
  assumes "map_wf (write_set ctx)" "map_of (write_set ctx) (cstr key) = None"
  shows "map_of (write_set (put_public_state pr key v2 (put_public_state pr key v1 ctx))) (cstr key) = Some v1 \<and>
    u_shim_ctx (put_public_state pr key v2 (put_public_state pr key v1 ctx)) =
      ocall_put_state pr (ocall_put_state pr (u_shim_ctx ctx) (cstr key) v1) (cstr key) v2"
  using assms by (simp add: put_public_state_def map_of_map_insert map_wf_insert)

theorem put_public_state_twice_witness:
  "map_of (write_set (put_public_state sample_peer ''k'' ''b'' (put_public_state sample_peer ''k'' ''a'' (sample_ctx [] [])))) ''k'' = Some ''a'' \<and>
   map_of (u_shim_ctx (put_public_state sample_peer ''k'' ''b'' (put_public_state sample_peer ''k'' ''a'' (sample_ctx [] [])))) ''k'' = Some ''b''"
  using put_public_state_twice [of "sample_ctx [] []" "''k''" sample_peer "''b''" "''a''"]
  by (simp add: sample_ctx_def sample_peer_def)

text \<open>The arguments: \<open>get_func_and_params\<close> gives back the blocks of the parsed arguments when it
  delivers them, and keeps all of them, whatever the arguments were, when it reports an error.\<close>

theorem get_func_and_params_blocks:
  assumes "get_func_and_params f ps ctx = Inr (ret, f', ps', ctx')"
  shows "\<exists>root h1. json_parse_string (Some (json_args ctx)) (heap_mem ctx) = Some (root, h1) \<and>
    (if ret = 1 then live (heap_mem ctx') = live (heap_mem ctx)
     else ret = -1 \<and> f' = f \<and> ps' = ps \<and>
       live (heap_mem ctx') = live (heap_mem ctx) + (case root of None \<Rightarrow> 0 | Some v \<Rightarrow> blocks v))"
proof -
  obtain rt h1 where p: "parse_json (json_args ctx) (heap_mem ctx) = Inr (rt, h1)"
    and l: "live h1 = live (heap_mem ctx) + (case rt of None \<Rightarrow> 0 | Some v \<Rightarrow> blocks v)"
    using parse_json_returns .
  have "json_parse_string (Some (json_args ctx)) (heap_mem ctx) = Some (rt, h1)"
    using p by (simp add: parse_json_def split: option.splits)
  then show ?thesis
    using assms l by (auto simp: get_func_and_params_def p run_simps split: option.splits list.splits)
qed

theorem get_func_and_params_blocks_witness:
  "\<exists>f' ps' ctx'. get_func_and_params [] [] (sample_ctx [] ''{}'') = Inr (-1, f', ps', ctx') \<and> live (heap_mem ctx') = 2"
proof -
  have run: "get_func_and_params [] [] (sample_ctx [] ''{}'') =
      Inr (-1, [], [], (sample_ctx [] ''{}'')\<lparr>heap_mem := \<lparr>answers = [], live = 2\<rparr>\<rparr>)"
    by code_simp
  from get_func_and_params_blocks [OF run] run show ?thesis by auto
qed

end
