(* ===== verification/Spectrum_Chaincode.thy ===== *)
theory Spectrum_Chaincode
  imports Spectrum_Json Shim
begin

text \<open>
  The chaincode of the spectrum auction around its rounds, \<^verbatim>\<open>demo/chaincode/fpc\<close>: \<^verbatim>\<open>storage.cpp\<close> (strings
  on the ledger through the shim), the loading and storing of auctions and the transactions of
  \<^verbatim>\<open>spectrum-auction.cpp\<close>, the answers of \<^verbatim>\<open>spectrum-auction-message.cpp\<close> and of the round and assignment
  results of \<^verbatim>\<open>auction-state.cpp\<close>, \<^verbatim>\<open>dispatcher.cpp\<close> and \<^verbatim>\<open>entry.cpp\<close>.

  A transaction returns an error code or the text of its answer, with the context of the shim. \<open>junk\<close>
  are the bytes of local buffers before they are written. \<open>site\<close> is the text with file and line that
  \<open>DEFAULT_ERROR_REPORT\<close> puts into an error.
\<close>

section \<open>storage.cpp\<close>

definition MAX_LENGTH_STRING_SIZE :: nat where
  "MAX_LENGTH_STRING_SIZE = 10"

text \<open>\<open>std::stoul\<close> with base 10: blanks, a sign, digits; it throws without a digit and beyond 64 bits.\<close>

definition stoul :: "string \<Rightarrow> nat run" where
  "stoul str =
     (let s = dropWhile isspace (cstr str);
          (neg, t) = (case s of c # cs \<Rightarrow> if c = CHR ''-'' then (True, cs) else if c = CHR ''+'' then (False, cs) else (False, s)
                      | [] \<Rightarrow> (False, s));
          ds = takeWhile isdigit t; v = dec_val ds
      in if ds = [] \<or> 2 ^ 64 \<le> v then Inl (Thrown ''stoul'')
         else Inr (if neg then nat (- int v mod 2 ^ 64) else v))"

text \<open>The binary operations forward to the shim; the length of the key is not used.\<close>

definition ledgerPublicPutBinary :: "'w peer \<Rightarrow> string \<Rightarrow> string \<Rightarrow> 'w shim_ctx \<Rightarrow> 'w shim_ctx" where
  "ledgerPublicPutBinary pr key val ctx = put_public_state pr key val ctx"

definition ledgerPrivatePutBinary :: "sgx \<Rightarrow> 'w peer \<Rightarrow> string \<Rightarrow> string \<Rightarrow> 'w shim_ctx \<Rightarrow> 'w shim_ctx run" where
  "ledgerPrivatePutBinary sgx pr key val ctx = put_state sgx pr key val ctx"

definition ledgerPrivateGetBinary ::
  "sgx \<Rightarrow> 'w peer \<Rightarrow> string \<Rightarrow> string \<Rightarrow> nat \<Rightarrow> 'w shim_ctx \<Rightarrow> (string \<times> nat \<times> 'w shim_ctx) run" where
  "ledgerPrivateGetBinary sgx pr key val valueLength ctx = get_state sgx pr key val valueLength ctx"

definition ledgerPrivatePutString :: "sgx \<Rightarrow> 'w peer \<Rightarrow> string \<Rightarrow> string \<Rightarrow> 'w shim_ctx \<Rightarrow> 'w shim_ctx run" where
  "ledgerPrivatePutString sgx pr key val ctx =
     (let valueLength = u32 (int (length val) + 1); valueLengthString = nat_digits valueLength in
      if length valueLengthString = 0 \<or> MAX_LENGTH_STRING_SIZE < length valueLengthString then Inr ctx
      else run_bind (ledgerPrivatePutBinary sgx pr (key @ ''L'') (valueLengthString @ [NUL]) ctx) (\<lambda>ctx1.
           ledgerPrivatePutBinary sgx pr (key @ ''K'') (take valueLength (val @ [NUL])) ctx1))"

text \<open>The string that was read, or nothing when the argument is left alone.\<close>

definition ledgerPrivateGetString :: "sgx \<Rightarrow> 'w peer \<Rightarrow> string \<Rightarrow> string \<Rightarrow> 'w shim_ctx \<Rightarrow> (string option \<times> 'w shim_ctx) run" where
  "ledgerPrivateGetString sgx pr junk key ctx =
     run_bind (ledgerPrivateGetBinary sgx pr (key @ ''L'') (fill (MAX_LENGTH_STRING_SIZE + 1) junk) (MAX_LENGTH_STRING_SIZE + 1) ctx)
      (\<lambda>(valueLengthArray, actualValueLengthLength, ctx1).
        if actualValueLengthLength = 0 then Inr (None, ctx1)
        else if MAX_LENGTH_STRING_SIZE < actualValueLengthLength then Inr (None, ctx1)
        else if valueLengthArray ! (actualValueLengthLength - 1) \<noteq> NUL then Inr (None, ctx1)
        else run_bind (stoul valueLengthArray) (\<lambda>l.
          let storedValueLength = l mod 2 ^ 32 in
          run_bind (ledgerPrivateGetBinary sgx pr (key @ ''K'') (fill storedValueLength junk) storedValueLength ctx1)
           (\<lambda>(valueBinary, actualValueLength, ctx2).
             if actualValueLength \<noteq> storedValueLength then Inr (None, ctx2)
             else if storedValueLength = 0 then Inl OutOfBounds
             else if valueBinary ! (storedValueLength - 1) \<noteq> NUL then Inr (None, ctx2)
             else Inr (Some (cstr valueBinary), ctx2))))"

definition ledgerPublicPutString :: "'w peer \<Rightarrow> string \<Rightarrow> string \<Rightarrow> 'w shim_ctx \<Rightarrow> 'w shim_ctx" where
  "ledgerPublicPutString pr key val ctx =
     (let valueLength = u32 (int (length val) + 1); valueLengthString = nat_digits valueLength in
      if length valueLengthString = 0 \<or> MAX_LENGTH_STRING_SIZE < length valueLengthString then ctx
      else ledgerPublicPutBinary pr (key @ ''K'') (take valueLength (val @ [NUL]))
             (ledgerPublicPutBinary pr (key @ ''L'') (valueLengthString @ [NUL]) ctx))"

section \<open>Loading and storing\<close>

definition AUCTION_ID_COUNTER_STRING :: string where
  "AUCTION_ID_COUNTER_STRING = ''AuctionIdCounter''"

definition AUCTION_ID_FIRST_COUNTER_VALUE :: nat where
  "AUCTION_ID_FIRST_COUNTER_VALUE = 1"

definition u32_bytes :: "nat \<Rightarrow> string" where
  "u32_bytes n = map (\<lambda>i. char_of (n div 256 ^ i mod 256)) [0..<4]"

definition InitializeAuctionIdCounter :: "sgx \<Rightarrow> 'w peer \<Rightarrow> string \<Rightarrow> 'w shim_ctx \<Rightarrow> (nat \<times> 'w shim_ctx) run" where
  "InitializeAuctionIdCounter sgx pr junk ctx =
     run_bind (ledgerPrivateGetBinary sgx pr AUCTION_ID_COUNTER_STRING (fill 4 junk) 4 ctx) (\<lambda>(val, bytesRead, ctx1).
       Inr (if bytesRead = 0 then AUCTION_ID_FIRST_COUNTER_VALUE else bytes_u32 val, ctx1))"

definition IncrementAndStoreAuctionIdCounter :: "sgx \<Rightarrow> 'w peer \<Rightarrow> nat \<Rightarrow> 'w shim_ctx \<Rightarrow> 'w shim_ctx run" where
  "IncrementAndStoreAuctionIdCounter sgx pr auctionIdCounter ctx =
     ledgerPrivatePutBinary sgx pr AUCTION_ID_COUNTER_STRING (u32_bytes (u32 (int auctionIdCounter + 1))) ctx"

definition state_key :: "nat \<Rightarrow> string \<Rightarrow> string" where
  "state_key a suffix = ''Auction.'' @ nat_digits a @ suffix"

text \<open>A new object, written and closed into a string; the string stays as it was when there is no object.\<close>

definition assign_document :: "string \<Rightarrow> writer \<Rightarrow> heap \<Rightarrow> (string \<times> heap) run" where
  "assign_document old w h =
     run_bind (openJsonObject None h) (\<lambda>(root_object, h1).
     run_bind (w root_object h1) (\<lambda>(root_object1, h2).
     run_bind (closeJsonObject root_object1 True h2) (\<lambda>(str, h3).
       Inr (case str of None \<Rightarrow> old | Some s \<Rightarrow> s, h3))))"

definition to_document :: "writer \<Rightarrow> heap \<Rightarrow> (string \<times> heap) run" where
  "to_document w = assign_document [] w"

definition toStaticAuctionStateJson :: "StaticAuctionState \<Rightarrow> heap \<Rightarrow> (string \<times> heap) run" where
  "toStaticAuctionStateJson s = to_document (StaticAuctionState_toJsonObject s)"

definition toDynamicAuctionStateJson :: "DynamicAuctionState \<Rightarrow> heap \<Rightarrow> (string \<times> heap) run" where
  "toDynamicAuctionStateJson d = to_document (DynamicAuctionState_toJsonObject d)"

definition storeAuctionState :: "sgx \<Rightarrow> 'w peer \<Rightarrow> nat \<Rightarrow> StaticAuctionState \<Rightarrow> DynamicAuctionState \<Rightarrow> 'w shim_ctx \<Rightarrow> 'w shim_ctx run" where
  "storeAuctionState sgx pr a s d ctx =
     run_bind (toStaticAuctionStateJson s (heap_mem ctx)) (\<lambda>(t, h1).
     run_bind (ledgerPrivatePutString sgx pr (state_key a ''.staticAuctionState'') t (ctx\<lparr>heap_mem := h1\<rparr>)) (\<lambda>ctx1.
     run_bind (toDynamicAuctionStateJson d (heap_mem ctx1)) (\<lambda>(t', h2).
       ledgerPrivatePutString sgx pr (state_key a ''.dynamicAuctionState'') t' (ctx1\<lparr>heap_mem := h2\<rparr>))))"

text \<open>One half of \<open>loadAuctionState\<close>: a string, parsed and read. The object of a text that is refused is
  not released.\<close>

definition load_document :: "sgx \<Rightarrow> 'w peer \<Rightarrow> string \<Rightarrow> string \<Rightarrow> 'a reader \<Rightarrow> 'w shim_ctx \<Rightarrow> ('a option \<times> 'w shim_ctx) run" where
  "load_document sgx pr junk key of_json ctx =
     run_bind (ledgerPrivateGetString sgx pr junk key ctx) (\<lambda>(stateValue, ctx1).
     (case stateValue of
        None \<Rightarrow> Inr (None, ctx1)
      | Some text \<Rightarrow>
          if length text = 0 then Inr (None, ctx1)
          else run_bind (openJsonObject (Some text) (heap_mem ctx1)) (\<lambda>(root_object, h1).
               run_bind (of_json root_object) (\<lambda>r.
               (case r of
                  None \<Rightarrow> Inr (None, ctx1\<lparr>heap_mem := h1\<rparr>)
                | Some x \<Rightarrow>
                    run_bind (closeJsonObject root_object False h1) (\<lambda>(_, h2).
                      Inr (Some x, ctx1\<lparr>heap_mem := h2\<rparr>)))))))"

text \<open>\<open>loadAuctionState\<close> into a new static state and the dynamic state \<open>d\<close> of this invocation.\<close>

definition loadAuctionState :: "sgx \<Rightarrow> 'w peer \<Rightarrow> string \<Rightarrow> nat \<Rightarrow> StaticAuctionState \<Rightarrow> DynamicAuctionState \<Rightarrow> 'w shim_ctx \<Rightarrow>
    ((StaticAuctionState \<times> DynamicAuctionState) option \<times> 'w shim_ctx) run" where
  "loadAuctionState sgx pr junk a s d ctx =
     run_bind (load_document sgx pr junk (state_key a ''.staticAuctionState'') (fromExtendedJsonObject s) ctx) (\<lambda>(r, ctx1).
     (case r of
        None \<Rightarrow> Inr (None, ctx1)
      | Some s1 \<Rightarrow>
          run_bind (load_document sgx pr junk (state_key a ''.dynamicAuctionState'') (DynamicAuctionState_fromJsonObject d) ctx1) (\<lambda>(r', ctx2).
            Inr (map_option (\<lambda>d1. (s1, d1)) r', ctx2))))"

section \<open>Results\<close>

definition toRoundInfoJsonObject :: "DynamicAuctionState \<Rightarrow> StaticAuctionState \<Rightarrow> nat \<Rightarrow> writer" where
  "toRoundInfoJsonObject d s rnd = write_all
     [put_array ''prices'' (fill_each (\<lambda>(i, terId).
        item_object (\<lambda>b h.
          run_bind (index2 (postedPrice d) (u32 (int rnd - 1)) i) (\<lambda>low.
          run_bind (index2 (clockPrice d) rnd i) (\<lambda>high.
            write_all [put_int ''terId'' (int terId), put_number ''minPrice'' low, put_number ''clockPrice'' high] b h))))
        (enumerate 0 (getTerritoryIds s))),
      put_boolean ''active'' (if rnd = clockRound d then roundActive d else False)]"

text \<open>The licenses a bidder holds in a territory after a round.\<close>

definition licenses_of :: "DynamicAuctionState \<Rightarrow> nat \<Rightarrow> nat \<Rightarrow> nat \<Rightarrow> nat run" where
  "licenses_of d rnd i j = run_bind (index (processedLicenses d) rnd) (\<lambda>rows. index2 rows i j)"

definition toBidderRoundResultsJsonObject :: "DynamicAuctionState \<Rightarrow> StaticAuctionState \<Rightarrow> nat \<Rightarrow> writer" where
  "toBidderRoundResultsJsonObject d s rnd =
     (let bidderIndex = u32 (fromBidderIdToBidderIndex s (fromPrincipalToBidderId s (submitterPrincipal d))) in write_all
     [put_array ''result'' (fill_each (\<lambda>(i, terId) ar h.
        run_bind (licenses_of d rnd bidderIndex i) (\<lambda>n.
          if n = 0 then Inr (ar, h)
          else item_object (\<lambda>b h.
            run_bind (index2 (postedPrice d) rnd i) (\<lambda>p.
            run_bind (index2 (excessDemand d) rnd i) (\<lambda>e.
              write_all [put_int ''terId'' (int terId), put_number ''postedPrice'' p, put_int ''excessDemand'' e,
                put_int ''processedLicenses'' (int n)] b h))) ar h))
        (enumerate 0 (getTerritoryIds s))),
      \<lambda>b h. if isLastClockRound d rnd then Inr (b, h)
        else run_bind (index2 (eligibility d) (u32 (int rnd + 1)) bidderIndex) (\<lambda>elig.
             write_all [put_int ''futureEligibility'' (int elig),
               put_int ''requiredFutureEligibility''
                 (int (u32 (int elig * int (activityRequirementPercentage s)) div 100))] b h)])"

fun count_active :: "DynamicAuctionState \<Rightarrow> nat \<Rightarrow> nat \<Rightarrow> nat list \<Rightarrow> nat run" where
  "count_active d rnd i [] = Inr 0"
| "count_active d rnd i (j # js) =
     run_bind (licenses_of d rnd j i) (\<lambda>n.
     run_bind (count_active d rnd i js) (\<lambda>k. Inr ((if 0 < n then 1 else 0) + k)))"

definition toOwnerRoundResultsJsonObject :: "DynamicAuctionState \<Rightarrow> StaticAuctionState \<Rightarrow> nat \<Rightarrow> writer" where
  "toOwnerRoundResultsJsonObject d s rnd = write_all
     [put_array ''result'' (fill_each (\<lambda>(i, terId) ar h.
        run_bind (count_active d rnd i [0..<getBiddersN s]) (\<lambda>activeBidders.
          item_object (\<lambda>b h.
            run_bind (index2 (postedPrice d) rnd i) (\<lambda>p.
            run_bind (index2 (excessDemand d) rnd i) (\<lambda>e.
              write_all [put_int ''terId'' (int terId), put_number ''postedPrice'' p, put_int ''excessDemand'' e,
                put_int ''activeBidders'' (int activeBidders)] b h))) ar h))
        (enumerate 0 (getTerritoryIds s)))]"

definition getChannelIds :: "Territory \<Rightarrow> nat list" where
  "getChannelIds t = map chan_id (channels t)"

text \<open>The channels of territory \<open>j\<close> that bidder \<open>i\<close> won; the comparison is one of unsigned numbers.\<close>

definition won_channels :: "DynamicAuctionState \<Rightarrow> nat \<Rightarrow> nat \<Rightarrow> Territory \<Rightarrow> filler" where
  "won_channels d i j t = fill_each (\<lambda>(k, channelId) ar h.
     run_bind (index2 (winAssign d) j k) (\<lambda>winner.
       if u32 winner \<noteq> i then Inr (ar, h)
       else item_object (\<lambda>b h.
         run_bind (index2 (channelPrice d) j k) (\<lambda>p.
           write_all [put_int ''channelId'' (int channelId), put_number ''price'' p] b h)) ar h))
     (enumerate 0 (getChannelIds t))"

definition territory_assignment :: "DynamicAuctionState \<Rightarrow> StaticAuctionState \<Rightarrow> nat \<Rightarrow> nat \<times> nat \<Rightarrow> filler" where
  "territory_assignment d s i = (\<lambda>(j, terId) ar h.
     run_bind (licenses_of d (clockRound d) i j) (\<lambda>n.
       if n = 0 then Inr (ar, h)
       else item_object (\<lambda>b h.
         run_bind (index2 (assignCost d) j i) (\<lambda>cost.
           write_all [put_int ''territoryId'' (int terId), put_number ''assignCost'' cost,
             put_array ''channels'' (\<lambda>ar' h'. run_bind (deref (getTerritory s terId)) (\<lambda>t. won_channels d i j t ar' h'))] b h)) ar h))"

definition toAssignmentResultsJsonObject :: "DynamicAuctionState \<Rightarrow> StaticAuctionState \<Rightarrow> writer" where
  "toAssignmentResultsJsonObject d s = write_all
     [put_array ''result'' (fill_each (\<lambda>i.
        item_object (\<lambda>b h.
          run_bind (fromBidderIndexToBidderId s i) (\<lambda>bidderId.
            write_all [put_int ''bidderId'' (int bidderId),
              put_array ''assignment'' (fill_each (territory_assignment d s i) (enumerate 0 (getTerritoryIds s)))] b h)))
        [0..<getBiddersN s])]"

section \<open>Messages\<close>

definition toStatusJsonObject :: "int \<Rightarrow> string \<Rightarrow> writer" where
  "toStatusJsonObject rc message = write_all [put_int ''rc'' rc, put_string ''message'' message]"

definition toWrappedStatusJsonObject :: "int \<Rightarrow> string \<Rightarrow> writer" where
  "toWrappedStatusJsonObject rc message = put_opened ''status'' (toStatusJsonObject rc message)"

text \<open>A message that carries the status only, and one that carries a response.\<close>

definition status_message :: "int \<Rightarrow> string \<Rightarrow> heap \<Rightarrow> (string \<times> heap) run" where
  "status_message rc message = to_document (toWrappedStatusJsonObject rc message)"

definition response_message :: "int \<Rightarrow> string \<Rightarrow> writer \<Rightarrow> heap \<Rightarrow> (string \<times> heap) run" where
  "response_message rc message w = to_document (write_all [toWrappedStatusJsonObject rc message, put_opened ''response'' w])"

definition toStatusJsonString :: "int \<Rightarrow> string \<Rightarrow> string \<Rightarrow> heap \<Rightarrow> (string \<times> heap) run" where
  "toStatusJsonString rc message jsonString = assign_document jsonString (toStatusJsonObject rc message)"

definition toCreateAuctionJson :: "int \<Rightarrow> string \<Rightarrow> nat \<Rightarrow> heap \<Rightarrow> (string \<times> heap) run" where
  "toCreateAuctionJson rc message a = response_message rc message (put_int ''auctionId'' (int a))"

definition toGetAuctionDetailsJson :: "int \<Rightarrow> string \<Rightarrow> StaticAuctionState \<Rightarrow> heap \<Rightarrow> (string \<times> heap) run" where
  "toGetAuctionDetailsJson rc message s = response_message rc message (StaticAuctionState_toJsonObject s)"

definition toGetAuctionStatusJson :: "int \<Rightarrow> string \<Rightarrow> DynamicAuctionState \<Rightarrow> heap \<Rightarrow> (string \<times> heap) run" where
  "toGetAuctionStatusJson rc message d = response_message rc message (DynamicAuctionState_toJsonObject d)"

definition toStartNextRoundJson :: "int \<Rightarrow> string \<Rightarrow> heap \<Rightarrow> (string \<times> heap) run" where
  "toStartNextRoundJson rc message = status_message rc message"

definition toEndRoundJson :: "int \<Rightarrow> string \<Rightarrow> heap \<Rightarrow> (string \<times> heap) run" where
  "toEndRoundJson rc message = status_message rc message"

definition toSubmitClockBidJson :: "int \<Rightarrow> string \<Rightarrow> heap \<Rightarrow> (string \<times> heap) run" where
  "toSubmitClockBidJson rc message = status_message rc message"

definition toGetRoundInfoJson ::
  "int \<Rightarrow> string \<Rightarrow> StaticAuctionState \<Rightarrow> DynamicAuctionState \<Rightarrow> nat \<Rightarrow> heap \<Rightarrow> (string \<times> heap) run" where
  "toGetRoundInfoJson rc message s d requestedRound = response_message rc message (toRoundInfoJsonObject d s requestedRound)"

definition toGetBidderRoundResultsJson ::
  "int \<Rightarrow> string \<Rightarrow> StaticAuctionState \<Rightarrow> DynamicAuctionState \<Rightarrow> nat \<Rightarrow> heap \<Rightarrow> (string \<times> heap) run" where
  "toGetBidderRoundResultsJson rc message s d requestedRound = response_message rc message (toBidderRoundResultsJsonObject d s requestedRound)"

definition toGetOwnerRoundResultsJson ::
  "int \<Rightarrow> string \<Rightarrow> StaticAuctionState \<Rightarrow> DynamicAuctionState \<Rightarrow> nat \<Rightarrow> heap \<Rightarrow> (string \<times> heap) run" where
  "toGetOwnerRoundResultsJson rc message s d requestedRound = response_message rc message (toOwnerRoundResultsJsonObject d s requestedRound)"

definition toGetAssignmentResultsJson :: "int \<Rightarrow> string \<Rightarrow> StaticAuctionState \<Rightarrow> DynamicAuctionState \<Rightarrow> heap \<Rightarrow> (string \<times> heap) run" where
  "toGetAssignmentResultsJson rc message s d = response_message rc message (toAssignmentResultsJsonObject d s)"

definition toPublishAssignmentResultsJson :: "int \<Rightarrow> string \<Rightarrow> heap \<Rightarrow> (string \<times> heap) run" where
  "toPublishAssignmentResultsJson rc message = status_message rc message"

text \<open>The identifier of the auction, and for some messages the round.\<close>

definition from_auctionId :: "string \<Rightarrow> heap \<Rightarrow> (nat option \<times> heap) run" where
  "from_auctionId inputString h =
     run_bind (openJsonObject (Some (cstr inputString)) h) (\<lambda>(root_object, h1).
     run_bind (uint32_of_double (json_object_get_number root_object (Some ''auctionId''))) (\<lambda>a.
     run_bind (closeJsonObject root_object False h1) (\<lambda>(_, h2).
       Inr (if a \<noteq> 0 then Some a else None, h2))))"

definition from_auctionId_round :: "string \<Rightarrow> heap \<Rightarrow> ((nat \<times> nat) option \<times> heap) run" where
  "from_auctionId_round inputString h =
     run_bind (openJsonObject (Some (cstr inputString)) h) (\<lambda>(root_object, h1).
     run_bind (uint32_of_double (json_object_get_number root_object (Some ''auctionId''))) (\<lambda>a.
     run_bind (uint32_of_double (json_object_get_number root_object (Some ''round''))) (\<lambda>r.
     run_bind (closeJsonObject root_object False h1) (\<lambda>(_, h2).
       Inr (if a \<noteq> 0 \<and> r \<noteq> 0 then Some (a, r) else None, h2)))))"

definition fromGetAuctionDetailsJson :: "string \<Rightarrow> heap \<Rightarrow> (nat option \<times> heap) run" where
  "fromGetAuctionDetailsJson = from_auctionId"

definition fromGetAuctionStatusJson :: "string \<Rightarrow> heap \<Rightarrow> (nat option \<times> heap) run" where
  "fromGetAuctionStatusJson = from_auctionId"

definition fromStartNextRoundJson :: "string \<Rightarrow> heap \<Rightarrow> (nat option \<times> heap) run" where
  "fromStartNextRoundJson = from_auctionId"

definition fromEndRoundJson :: "string \<Rightarrow> heap \<Rightarrow> (nat option \<times> heap) run" where
  "fromEndRoundJson = from_auctionId"

definition fromGetAssignmentResultsJson :: "string \<Rightarrow> heap \<Rightarrow> (nat option \<times> heap) run" where
  "fromGetAssignmentResultsJson = from_auctionId"

definition fromPublishAssignmentResultsJson :: "string \<Rightarrow> heap \<Rightarrow> (nat option \<times> heap) run" where
  "fromPublishAssignmentResultsJson = from_auctionId"

definition fromGetRoundInfoJson :: "string \<Rightarrow> heap \<Rightarrow> ((nat \<times> nat) option \<times> heap) run" where
  "fromGetRoundInfoJson = from_auctionId_round"

definition fromGetBidderRoundResultsJson :: "string \<Rightarrow> heap \<Rightarrow> ((nat \<times> nat) option \<times> heap) run" where
  "fromGetBidderRoundResultsJson = from_auctionId_round"

definition fromGetOwnerRoundResultsJson :: "string \<Rightarrow> heap \<Rightarrow> ((nat \<times> nat) option \<times> heap) run" where
  "fromGetOwnerRoundResultsJson = from_auctionId_round"

definition fromCreateAuctionJson :: "StaticAuctionState \<Rightarrow> string \<Rightarrow> heap \<Rightarrow> (StaticAuctionState option \<times> heap) run" where
  "fromCreateAuctionJson s inputString h =
     run_bind (openJsonObject (Some (cstr inputString)) h) (\<lambda>(root_object, h1).
     run_bind (StaticAuctionState_fromJsonObject s root_object) (\<lambda>r.
     run_bind (closeJsonObject root_object False h1) (\<lambda>(_, h2). Inr (r, h2))))"

text \<open>The object of a bid that is refused is not released.\<close>

definition fromSubmitClockBidJson :: "string \<Rightarrow> heap \<Rightarrow> (Bid option \<times> heap) run" where
  "fromSubmitClockBidJson inputString h =
     run_bind (openJsonObject (Some (cstr inputString)) h) (\<lambda>(root_object, h1).
     run_bind (Bid_fromJsonObject root_object) (\<lambda>r.
     (case r of
        None \<Rightarrow> Inr (None, h1)
      | Some b \<Rightarrow> run_bind (closeJsonObject root_object False h1) (\<lambda>(_, h2). Inr (Some b, h2)))))"

definition fromStaticAuctionStateJson :: "StaticAuctionState \<Rightarrow> string \<Rightarrow> heap \<Rightarrow> (StaticAuctionState option \<times> heap) run" where
  "fromStaticAuctionStateJson s jsonString h =
     run_bind (openJsonObject (Some (cstr jsonString)) h) (\<lambda>(root_object, h1).
     run_bind (StaticAuctionState_fromJsonObject s root_object) (\<lambda>r.
     run_bind (closeJsonObject root_object False h1) (\<lambda>(_, h2). Inr (r, h2))))"

definition fromDynamicAuctionStateJson :: "DynamicAuctionState \<Rightarrow> string \<Rightarrow> heap \<Rightarrow> (DynamicAuctionState option \<times> heap) run" where
  "fromDynamicAuctionStateJson d jsonString h =
     run_bind (openJsonObject (Some (cstr jsonString)) h) (\<lambda>(root_object, h1).
     run_bind (DynamicAuctionState_fromJsonObject d root_object) (\<lambda>r.
     run_bind (closeJsonObject root_object False h1) (\<lambda>(_, h2). Inr (r, h2))))"

section \<open>Transactions\<close>

text \<open>The outcome of a transaction: the error code or the text of the answer.\<close>

type_synonym 'w answer = "((error_codes_e + string) \<times> 'w shim_ctx) run"

text \<open>The two buffers of \<open>identifySubmitter\<close> are read up to a zero.\<close>

definition identifySubmitter :: "'w peer \<Rightarrow> 'w shim_ctx \<Rightarrow> (Principal \<times> 'w shim_ctx) run" where
  "identifySubmitter pr ctx =
     (case get_creator_name pr 4096 4096 ctx of (msp, name, ctx1) \<Rightarrow>
      run_bind (check OutOfBounds (NUL \<in> set msp \<and> NUL \<in> set name)) (\<lambda>_.
        Inr (\<lparr>mspId = cstr msp, dn = cstr name\<rparr>, ctx1)))"

definition answer_with :: "(heap \<Rightarrow> (string \<times> heap) run) \<Rightarrow> 'w shim_ctx \<Rightarrow> 'w answer" where
  "answer_with msg ctx = run_bind (msg (heap_mem ctx)) (\<lambda>(t, h1). Inr (Inr t, ctx\<lparr>heap_mem := h1\<rparr>))"

text \<open>The common beginnings: the identifier of the auction (and the round) of the input, then its state.\<close>

definition with_state :: "sgx \<Rightarrow> 'w peer \<Rightarrow> string \<Rightarrow> nat \<Rightarrow> DynamicAuctionState \<Rightarrow>
    (StaticAuctionState \<Rightarrow> DynamicAuctionState \<Rightarrow> 'w shim_ctx \<Rightarrow> 'w answer) \<Rightarrow> 'w shim_ctx \<Rightarrow> 'w answer" where
  "with_state sgx pr junk a d k ctx =
     run_bind (loadAuctionState sgx pr junk a new_static d ctx) (\<lambda>(r, ctx1).
     (case r of None \<Rightarrow> Inr (Inl EC_INVALID_INPUT, ctx1) | Some (s, d1) \<Rightarrow> k s d1 ctx1))"

definition with_auction :: "sgx \<Rightarrow> 'w peer \<Rightarrow> string \<Rightarrow> (string \<Rightarrow> heap \<Rightarrow> (nat option \<times> heap) run) \<Rightarrow> string \<Rightarrow> DynamicAuctionState \<Rightarrow>
    (nat \<Rightarrow> StaticAuctionState \<Rightarrow> DynamicAuctionState \<Rightarrow> 'w shim_ctx \<Rightarrow> 'w answer) \<Rightarrow> 'w shim_ctx \<Rightarrow> 'w answer" where
  "with_auction sgx pr junk from_json inputString d k ctx =
     run_bind (from_json inputString (heap_mem ctx)) (\<lambda>(r, h1).
     (case r of
        None \<Rightarrow> Inr (Inl EC_INVALID_INPUT, ctx\<lparr>heap_mem := h1\<rparr>)
      | Some a \<Rightarrow> with_state sgx pr junk a d (k a) (ctx\<lparr>heap_mem := h1\<rparr>)))"

definition with_round :: "sgx \<Rightarrow> 'w peer \<Rightarrow> string \<Rightarrow> (string \<Rightarrow> heap \<Rightarrow> ((nat \<times> nat) option \<times> heap) run) \<Rightarrow> string \<Rightarrow> DynamicAuctionState \<Rightarrow>
    (nat \<Rightarrow> StaticAuctionState \<Rightarrow> DynamicAuctionState \<Rightarrow> 'w shim_ctx \<Rightarrow> 'w answer) \<Rightarrow> 'w shim_ctx \<Rightarrow> 'w answer" where
  "with_round sgx pr junk from_json inputString d k ctx =
     run_bind (from_json inputString (heap_mem ctx)) (\<lambda>(r, h1).
     (case r of
        None \<Rightarrow> Inr (Inl EC_INVALID_INPUT, ctx\<lparr>heap_mem := h1\<rparr>)
      | Some (a, rnd) \<Rightarrow> with_state sgx pr junk a d (k rnd) (ctx\<lparr>heap_mem := h1\<rparr>)))"

text \<open>The common end of the transactions that change the state: nothing is stored after an error.\<close>

definition commit :: "sgx \<Rightarrow> 'w peer \<Rightarrow> nat \<Rightarrow> (heap \<Rightarrow> (string \<times> heap) run) \<Rightarrow> StaticAuctionState \<Rightarrow> outcome \<Rightarrow> 'w shim_ctx \<Rightarrow> 'w answer" where
  "commit sgx pr a msg s out ctx =
     run_bind out (\<lambda>r.
     (case r of
        Inl code \<Rightarrow> Inr (Inl code, ctx)
      | Inr d \<Rightarrow> run_bind (storeAuctionState sgx pr a s d ctx) (answer_with msg)))"

definition SpectrumAuction_createAuction ::
  "sgx \<Rightarrow> 'w peer \<Rightarrow> string \<Rightarrow> DynamicAuctionState \<Rightarrow> string \<Rightarrow> 'w shim_ctx \<Rightarrow> 'w answer" where
  "SpectrumAuction_createAuction sgx pr junk d inputString ctx =
     run_bind (fromCreateAuctionJson new_static inputString (heap_mem ctx)) (\<lambda>(r, h1).
     (case r of
        None \<Rightarrow> Inr (Inl EC_INVALID_INPUT, ctx\<lparr>heap_mem := h1\<rparr>)
      | Some s \<Rightarrow>
          if \<not> checkValidity s then Inr (Inl EC_INVALID_INPUT, ctx\<lparr>heap_mem := h1\<rparr>)
          else run_bind (InitializeAuctionIdCounter sgx pr junk (ctx\<lparr>heap_mem := h1\<rparr>)) (\<lambda>(a, ctx1).
               run_bind (IncrementAndStoreAuctionIdCounter sgx pr a ctx1) (\<lambda>ctx2.
               run_bind (initialize CLOCK_PHASE 1 False s d) (\<lambda>(s1, d1).
               run_bind (storeAuctionState sgx pr a s1 d1 ctx2) (\<lambda>ctx3.
                 answer_with (toCreateAuctionJson 0 ''Auction created'' a) ctx3))))))"

definition SpectrumAuction_getAuctionDetails ::
  "sgx \<Rightarrow> 'w peer \<Rightarrow> string \<Rightarrow> DynamicAuctionState \<Rightarrow> string \<Rightarrow> 'w shim_ctx \<Rightarrow> 'w answer" where
  "SpectrumAuction_getAuctionDetails sgx pr junk d inputString =
     with_auction sgx pr junk fromGetAuctionDetailsJson inputString d (\<lambda>a s d1.
       answer_with (toGetAuctionDetailsJson 0 ''Auction details'' s))"

definition SpectrumAuction_getAuctionStatus ::
  "sgx \<Rightarrow> 'w peer \<Rightarrow> string \<Rightarrow> DynamicAuctionState \<Rightarrow> string \<Rightarrow> 'w shim_ctx \<Rightarrow> 'w answer" where
  "SpectrumAuction_getAuctionStatus sgx pr junk d inputString =
     with_auction sgx pr junk fromGetAuctionStatusJson inputString d (\<lambda>a s d1.
       answer_with (toGetAuctionStatusJson 0 ''Auction status'' d1))"

definition SpectrumAuction_startNextRound ::
  "sgx \<Rightarrow> 'w peer \<Rightarrow> string \<Rightarrow> DynamicAuctionState \<Rightarrow> string \<Rightarrow> 'w shim_ctx \<Rightarrow> 'w answer" where
  "SpectrumAuction_startNextRound sgx pr junk d inputString =
     with_auction sgx pr junk fromStartNextRoundJson inputString d (\<lambda>a s d1. commit sgx pr a (toStartNextRoundJson 0 ''Start next round'') s (startNextRound_tx s d1))"

definition SpectrumAuction_endRound ::
  "sgx \<Rightarrow> 'w peer \<Rightarrow> evaluation \<Rightarrow> string \<Rightarrow> DynamicAuctionState \<Rightarrow> string \<Rightarrow> 'w shim_ctx \<Rightarrow> 'w answer" where
  "SpectrumAuction_endRound sgx pr env junk d inputString =
     with_auction sgx pr junk fromEndRoundJson inputString d (\<lambda>a s d1. commit sgx pr a (toEndRoundJson 0 ''End round'') s (endRound_tx env s a d1))"

definition SpectrumAuction_submitClockBid ::
  "sgx \<Rightarrow> 'w peer \<Rightarrow> string \<Rightarrow> DynamicAuctionState \<Rightarrow> string \<Rightarrow> 'w shim_ctx \<Rightarrow> 'w answer" where
  "SpectrumAuction_submitClockBid sgx pr junk d inputString ctx =
     run_bind (fromSubmitClockBidJson inputString (heap_mem ctx)) (\<lambda>(r, h1).
     (case r of
        None \<Rightarrow> Inr (Inl EC_INVALID_INPUT, ctx\<lparr>heap_mem := h1\<rparr>)
      | Some b \<Rightarrow>
          with_state sgx pr junk (auctionId b) d (\<lambda>s d1.
            commit sgx pr (auctionId b) (toSubmitClockBidJson 0 ''Submit clock bid'') s (submitClockBid_tx s b d1)) (ctx\<lparr>heap_mem := h1\<rparr>)))"

definition past_start :: "DynamicAuctionState \<Rightarrow> bool" where
  "past_start d = (isStateClockPhase d \<or> isStateAssignmentPhase d \<or> isStateClosedPhase d)"

definition SpectrumAuction_getRoundInfo ::
  "sgx \<Rightarrow> 'w peer \<Rightarrow> string \<Rightarrow> DynamicAuctionState \<Rightarrow> string \<Rightarrow> 'w shim_ctx \<Rightarrow> 'w answer" where
  "SpectrumAuction_getRoundInfo sgx pr junk d inputString =
     with_round sgx pr junk fromGetRoundInfoJson inputString d (\<lambda>requestedRound s d1 ctx.
       if \<not> past_start d1 then Inr (Inl EC_INVALID_INPUT, ctx)
       else if clockRound d1 < requestedRound then Inr (Inl EC_INVALID_INPUT, ctx)
       else answer_with (toGetRoundInfoJson 0 ''Get round info'' s d1 requestedRound) ctx)"

definition SpectrumAuction_getBidderRoundResults ::
  "sgx \<Rightarrow> 'w peer \<Rightarrow> string \<Rightarrow> DynamicAuctionState \<Rightarrow> string \<Rightarrow> 'w shim_ctx \<Rightarrow> 'w answer" where
  "SpectrumAuction_getBidderRoundResults sgx pr junk d inputString =
     with_round sgx pr junk fromGetBidderRoundResultsJson inputString d (\<lambda>requestedRound s d1 ctx.
       if \<not> past_start d1 then Inr (Inl EC_INVALID_INPUT, ctx)
       else if isStateClockPhase d1 \<and> clockRound d1 \<le> requestedRound then Inr (Inl EC_INVALID_INPUT, ctx)
       else if \<not> isValidBidder s d1 then Inr (Inl EC_UNRECOGNIZED_SUBMITTER, ctx)
       else answer_with (toGetBidderRoundResultsJson 0 ''Get bidder round results'' s d1 requestedRound) ctx)"

definition SpectrumAuction_getOwnerRoundResults ::
  "sgx \<Rightarrow> 'w peer \<Rightarrow> string \<Rightarrow> DynamicAuctionState \<Rightarrow> string \<Rightarrow> 'w shim_ctx \<Rightarrow> 'w answer" where
  "SpectrumAuction_getOwnerRoundResults sgx pr junk d inputString =
     with_round sgx pr junk fromGetOwnerRoundResultsJson inputString d (\<lambda>requestedRound s d1 ctx.
       if \<not> isValidOwner s d1 then Inr (Inl EC_UNRECOGNIZED_SUBMITTER, ctx)
       else if \<not> past_start d1 then Inr (Inl EC_INVALID_INPUT, ctx)
       else if isStateClockPhase d1 \<and> clockRound d1 \<le> requestedRound then Inr (Inl EC_INVALID_INPUT, ctx)
       else answer_with (toGetOwnerRoundResultsJson 0 ''Get owner round results'' s d1 requestedRound) ctx)"

definition SpectrumAuction_submitAssignmentBid :: "'w shim_ctx \<Rightarrow> 'w answer" where
  "SpectrumAuction_submitAssignmentBid ctx = Inr (Inl EC_UNIMPLEMENTED_API, ctx)"

definition SpectrumAuction_getAssignmentResults ::
  "sgx \<Rightarrow> 'w peer \<Rightarrow> string \<Rightarrow> DynamicAuctionState \<Rightarrow> string \<Rightarrow> 'w shim_ctx \<Rightarrow> 'w answer" where
  "SpectrumAuction_getAssignmentResults sgx pr junk d inputString =
     with_auction sgx pr junk fromGetAssignmentResultsJson inputString d (\<lambda>a s d1 ctx.
       if \<not> isStateClosedPhase d1 then Inr (Inl EC_INVALID_INPUT, ctx)
       else answer_with (toGetAssignmentResultsJson 0 ''Get assignment results'' s d1) ctx)"

definition SpectrumAuction_publishAssignmentResults ::
  "sgx \<Rightarrow> 'w peer \<Rightarrow> string \<Rightarrow> DynamicAuctionState \<Rightarrow> string \<Rightarrow> 'w shim_ctx \<Rightarrow> 'w answer" where
  "SpectrumAuction_publishAssignmentResults sgx pr junk d inputString =
     with_auction sgx pr junk fromPublishAssignmentResultsJson inputString d (\<lambda>a s d1 ctx.
       if \<not> isStateClosedPhase d1 then Inr (Inl EC_INVALID_INPUT, ctx)
       else run_bind (to_document (toAssignmentResultsJsonObject d1 s) (heap_mem ctx)) (\<lambda>(publicResultsString, h1).
            answer_with (toPublishAssignmentResultsJson 0 ''Publish assignment results'')
              (ledgerPublicPutString pr (state_key a ''.publicResults'') publicResultsString (ctx\<lparr>heap_mem := h1\<rparr>))))"

section \<open>dispatcher.cpp and entry.cpp\<close>

text \<open>The error codes in the order of their numbers.\<close>

definition error_codes :: "(error_codes_e \<times> string) list" where
  "error_codes =
    [(EC_UNDEFINED, ''EC_UNDEFINED''), (EC_SUCCESS, ''EC_SUCCESS''), (EC_ERROR, ''EC_ERROR''), (EC_HIDDEN, ''EC_HIDDEN''),
     (EC_BAD_FUNCTION_NAME, ''EC_BAD_FUNCTION_NAME''), (EC_INVALID_INPUT, ''EC_INVALID_INPUT''), (EC_MEMORY_ERROR, ''EC_MEMORY_ERROR''),
     (EC_SHORT_RESPONSE_BUFFER, ''EC_SHORT_RESPONSE_BUFFER''), (EC_BAD_PARAMETERS, ''EC_BAD_PARAMETERS''),
     (EC_AUCTION_RELATED_CODES, ''EC_AUCTION_RELATED_CODES''), (EC_ROUND_ACTIVE, ''EC_ROUND_ACTIVE''),
     (EC_RESTRICTED_AUCTION_STATE, ''EC_RESTRICTED_AUCTION_STATE''), (EC_NOT_IN_CLOCK_PHASE, ''EC_NOT_IN_CLOCK_PHASE''),
     (EC_NOT_IN_ASSIGNMENT_PHASE, ''EC_NOT_IN_ASSIGNMENT_PHASE''), (EC_ROUND_NOT_CURRENT, ''EC_ROUND_NOT_CURRENT''),
     (EC_UNRECOGNIZED_TERRITORY, ''EC_UNRECOGNIZED_TERRITORY''), (EC_UNAVAILABLE_QUANTITY, ''EC_UNAVAILABLE_QUANTITY''),
     (EC_DUPLICATE_TERRITORIES, ''EC_DUPLICATE_TERRITORIES''), (EC_PRICE_OUT_OF_RANGE, ''EC_PRICE_OUT_OF_RANGE''),
     (EC_ROUND_NOT_ACTIVE, ''EC_ROUND_NOT_ACTIVE''), (EC_NOT_ENOUGH_ELIGIBILITY, ''EC_NOT_ENOUGH_ELIGIBILITY''),
     (EC_TOO_MUCH_DEMAND, ''EC_TOO_MUCH_DEMAND''), (EC_UNRECOGNIZED_SUBMITTER, ''EC_UNRECOGNIZED_SUBMITTER''),
     (EC_BELOW_POSTED_PRICE, ''EC_BELOW_POSTED_PRICE''), (EC_ABOVE_CLOCK_PRICE, ''EC_ABOVE_CLOCK_PRICE''),
     (EC_EVALUATION_ERROR, ''EC_EVALUATION_ERROR''), (EC_UNIMPLEMENTED_API, ''EC_UNIMPLEMENTED_API'')]"

definition ec_number :: "error_codes_e \<Rightarrow> int" where
  "ec_number c = first_index (\<lambda>p. fst p = c) 0 error_codes"

definition ec_name :: "error_codes_e \<Rightarrow> string" where
  "ec_name c = (case map_of error_codes c of None \<Rightarrow> [] | Some n \<Rightarrow> n)"

record ErrorReport =
  ec :: error_codes_e
  errorString :: string

definition error_report :: "error_codes_e \<Rightarrow> string \<Rightarrow> ErrorReport" where
  "error_report code message = \<lparr>ec = code, errorString = ec_name code @ '':'' @ message\<rparr>"

definition isSuccess :: "ErrorReport \<Rightarrow> bool" where
  "isSuccess e = (ec e = EC_SUCCESS)"

definition ErrorReport_toStatusJsonString :: "ErrorReport \<Rightarrow> string \<Rightarrow> heap \<Rightarrow> (string \<times> heap) run" where
  "ErrorReport_toStatusJsonString e jsonString = toStatusJsonString (ec_number (ec e)) (errorString e) jsonString"

definition toWrappedStatusJsonString :: "ErrorReport \<Rightarrow> string \<Rightarrow> heap \<Rightarrow> (string \<times> heap) run" where
  "toWrappedStatusJsonString e jsonString h =
     assign_document jsonString (toWrappedStatusJsonObject (ec_number (ec e)) (errorString e)) h"

definition fMap :: "sgx \<Rightarrow> 'w peer \<Rightarrow> evaluation \<Rightarrow> string \<Rightarrow> DynamicAuctionState \<Rightarrow>
    (string \<times> (string \<Rightarrow> 'w shim_ctx \<Rightarrow> 'w answer)) list" where
  "fMap sgx pr env junk d =
    [(''createAuction'', SpectrumAuction_createAuction sgx pr junk d),
     (''getAuctionDetails'', SpectrumAuction_getAuctionDetails sgx pr junk d),
     (''getAuctionStatus'', SpectrumAuction_getAuctionStatus sgx pr junk d),
     (''startNextRound'', SpectrumAuction_startNextRound sgx pr junk d),
     (''endRound'', SpectrumAuction_endRound sgx pr env junk d),
     (''submitClockBid'', SpectrumAuction_submitClockBid sgx pr junk d),
     (''getRoundInfo'', SpectrumAuction_getRoundInfo sgx pr junk d),
     (''getBidderRoundResults'', SpectrumAuction_getBidderRoundResults sgx pr junk d),
     (''getOwnerRoundResults'', SpectrumAuction_getOwnerRoundResults sgx pr junk d),
     (''submitAssignmentBid'', (\<lambda>inputString. SpectrumAuction_submitAssignmentBid)),
     (''getAssignmentResults'', SpectrumAuction_getAssignmentResults sgx pr junk d),
     (''publishAssignmentResults'', SpectrumAuction_publishAssignmentResults sgx pr junk d)]"

text \<open>The call of the function: the error report and the response string.\<close>

definition call_api :: "sgx \<Rightarrow> 'w peer \<Rightarrow> evaluation \<Rightarrow> string \<Rightarrow> string \<Rightarrow> DynamicAuctionState \<Rightarrow> string \<Rightarrow> string list \<Rightarrow>
    'w shim_ctx \<Rightarrow> (ErrorReport \<times> string \<times> 'w shim_ctx) run" where
  "call_api sgx pr env junk site d functionName functionParameters ctx =
     (case map_of (fMap sgx pr env junk d) functionName of
        None \<Rightarrow> Inr (error_report EC_BAD_FUNCTION_NAME ''Auction API not found'', [], ctx)
      | Some f \<Rightarrow>
          run_bind (index functionParameters 0) (\<lambda>inputString.
          run_bind (f inputString ctx) (\<lambda>(r, ctx1).
          (case r of
             Inl code \<Rightarrow> Inr (error_report code site, [], ctx1)
           | Inr t \<Rightarrow> Inr (\<lparr>ec = EC_SUCCESS, errorString = []\<rparr>, t, ctx1)))))"

text \<open>The response: the text of the answer or of the error, if the buffer has room for one of them.\<close>

definition prepare_response :: "ErrorReport \<Rightarrow> string \<Rightarrow> nat \<Rightarrow> heap \<Rightarrow> (ErrorReport \<times> string \<times> heap) run" where
  "prepare_response e responseString max_response_len h =
     run_bind (if length responseString = 0 \<or> \<not> isSuccess e then toWrappedStatusJsonString e responseString h
               else Inr (responseString, h)) (\<lambda>(s1, h1).
     if max_response_len < length s1
     then let e2 = error_report EC_SHORT_RESPONSE_BUFFER ''Response string too long to be output''
          in run_bind (toWrappedStatusJsonString e2 s1 h1) (\<lambda>(s2, h2).
             Inr (e2, if max_response_len < length s2 then [] else s2, h2))
     else Inr (e, s1, h1))"

definition Dispatcher :: "sgx \<Rightarrow> 'w peer \<Rightarrow> evaluation \<Rightarrow> string \<Rightarrow> string \<Rightarrow> error_codes_e \<Rightarrow> string \<Rightarrow> string list \<Rightarrow> nat \<Rightarrow>
    'w shim_ctx \<Rightarrow> (ErrorReport \<times> string \<times> 'w shim_ctx) run" where
  "Dispatcher sgx pr env junk site junk_er functionName functionParameters max_response_len ctx =
     run_bind (identifySubmitter pr ctx) (\<lambda>(p, ctx1).
     run_bind (call_api sgx pr env junk site (new_dynamic p junk_er) functionName functionParameters ctx1) (\<lambda>(e, t, ctx2).
     run_bind (prepare_response e t max_response_len (heap_mem ctx2)) (\<lambda>(e1, response, h).
       Inr (e1, response, ctx2\<lparr>heap_mem := h\<rparr>))))"

text \<open>\<open>invoke\<close>: the return value, the bytes of the response and the context.\<close>

definition clock_auction_invoke :: "sgx \<Rightarrow> 'w peer \<Rightarrow> evaluation \<Rightarrow> string \<Rightarrow> string \<Rightarrow> error_codes_e \<Rightarrow> nat \<Rightarrow>
    'w shim_ctx \<Rightarrow> (int \<times> string \<times> 'w shim_ctx) run" where
  "clock_auction_invoke sgx pr env junk site junk_er max_response_len ctx =
     run_bind (get_func_and_params [] [] ctx) (\<lambda>(_, functionName, functionParameters, ctx1).
     run_bind (Dispatcher sgx pr env junk site junk_er functionName functionParameters max_response_len ctx1) (\<lambda>(e, response, ctx2).
       Inr (if \<not> isSuccess e \<or> length response = 0 then - 1 else 0, response, ctx2)))"

lemmas storage_simps [simp] = ledgerPublicPutBinary_def ledgerPrivatePutBinary_def ledgerPrivateGetBinary_def

end
