(* ===== verification/Parson_Client.thy ===== *)
theory Parson_Client
  imports Ecc_Json Cpp_Double
begin

text \<open>
  What the chaincodes that keep their state as JSON share: parson with memory to spare (a name added to
  an object, scalars created), the absence of NUL in the text of a value, and what the contents of a
  value (its tree without the capacities) determine: its text, its depth, whether its numbers survive
  printing, and every lookup.
\<close>

section \<open>Memory to spare\<close>

lemma plenty_frees [simp]: "plenty (free_value_ptr v h) = plenty h" "plenty (free_ptr b h) = plenty h"
  by (simp_all add: plenty_def)

lemma nul_free_strip [simp]: "nul_free s \<Longrightarrow> nul_free (strip_zeros s)"
  by (auto simp: nul_free_def strip_zeros_def dest: set_dropWhileD)

lemma nul_free_fraction [simp]: "nul_free s \<Longrightarrow> nul_free (fraction_part s)"
  by (simp add: fraction_part_def)

lemma nul_free_digits [simp]: "nul_free (nat_digits n)"
  using nat_digits_props [of n] by (auto simp: nul_free_def list_all_iff isdigit_def)

lemma nul_free_format [simp]: "nul_free (format_g17 D x)"
  by (simp add: format_g17_def Let_def nul_free_def [of "replicate n c" for n c])

lemma nul_free_sprintf [simp]: "nul_free (sprintf_g17 d)"
  by (cases d rule: sprintf_g17.cases) (simp_all add: split_beta Let_def)

lemma nul_free_quoted [simp]: "nul_free s \<Longrightarrow> nul_free (quoted s)"
proof -
  have "nul_free s \<Longrightarrow> nul_free (concat (map escape_char s))"
    by (induction s) (simp_all add: escape_char_nul_free)
  then show "nul_free s \<Longrightarrow> ?thesis" by (simp add: quoted_def)
qed

lemma nul_free_opt [simp]: "nul_free t \<Longrightarrow> nul_free (opt_text b t)"
  by (simp add: opt_text_def)

lemma nul_free_indent [simp]: "nul_free (indent l)"
  by (induction l) (simp_all add: indent_def)

lemma nul_free_json_text:
  "wf_json v \<Longrightarrow> nul_free (json_text p l v)"
  "list_all wf_json xs \<Longrightarrow> nul_free (items_text p l xs)"
  "list_all (\<lambda>f. nul_free (fst f) \<and> wf_json (snd f)) fs \<Longrightarrow> nul_free (members_text p l fs)"
proof (induction p l v and p l xs and p l fs rule: json_text_items_text_members_text.induct)
qed simp_all

text \<open>Adding a new name to an object, with memory to spare.\<close>

lemma set_value_plenty:
  assumes "plenty h" "wf_object ob" "nul_free k" "k \<notin> fst ` set (pairs ob)" "wf_json v"
  obtains ob' h' where "json_object_set_value (Some ob) (Some k) (Detached v) h = (JSONSuccess, Some ob', h')"
    "pairs ob' = pairs ob @ [(k, v)]" "plenty h'" "wf_object ob'"
proof -
  obtain ob' h' where a: "json_object_add (Some ob) (Some k) (Some v) h = (JSONSuccess, Some ob', h')"
    "pairs ob' = pairs ob @ [(k, v)]" "plenty h'"
    using object_add_plenty [OF assms(1) wf_names_ok [OF assms(2)] assms(3,4)] .
  have "json_object_get_value (Some ob) (Some k) = None"
    using getn_loop_map_of [OF wf_names_ok [OF assms(2)], of "strlen k" k] assms(3,4)
    by (simp add: json_object_get_value_def json_object_getn_value_def map_of_eq_None_iff)
  then have "json_object_set_value (Some ob) (Some k) (Detached v) h = (JSONSuccess, Some ob', h')"
    using a(1) by (simp add: json_object_set_value_def)
  moreover have "wf_object ob'"
    using set_value_effect [OF assms(2,5), of h k] calculation by (simp add: object_effect_def)
  ultimately show thesis using that a by blast
qed

lemma init_string_plenty:
  "plenty h \<Longrightarrow> utf8_arg s \<Longrightarrow>
     json_value_init_string (Some (cstr s)) h = (Some (JSONString (cstr s)), h\<lparr>live := live h + 2\<rparr>)"
  by (simp add: json_value_init_string_def parson_strndup_def json_value_init_string_no_copy_def Let_def)

lemma init_boolean_plenty:
  "plenty h \<Longrightarrow> json_value_init_boolean (if b then 1 else 0) h = (Some (JSONBoolean b), h\<lparr>live := live h + 1\<rparr>)"
  by (cases b) (simp_all add: json_value_init_boolean_def)

lemma canonical_reads_back: "reads_back d \<Longrightarrow> canonical d \<and> \<not> times_zero_nonzero d"
  by (cases d) simp_all

lemma contents_object:
  assumes "contents v = JSONObject fs c"
  obtains fs' c' where "v = JSONObject fs' c'" "map (\<lambda>f. (fst f, contents (snd f))) fs' = fs"
  using assms by (cases v) auto

lemma contents_scalar [simp]: "contents v = JSONString s \<longleftrightarrow> v = JSONString s" "contents v = JSONNumber d \<longleftrightarrow> v = JSONNumber d"
  "contents v = JSONBoolean b \<longleftrightarrow> v = JSONBoolean b"
  by (cases v; auto)+

lemma get_value_names:
  assumes "names_ok fs" "nul_free k"
  shows "json_object_get_value (Some \<lparr>pairs = fs, obj_capacity = c\<rparr>) (Some k) = map_of fs k"
  using getn_loop_map_of [OF assms(1), of "strlen k" k] assms(2)
  by (simp add: json_object_get_value_def json_object_getn_value_def)

section \<open>The length of a text\<close>

lemma length_quoted: "length (quoted s) \<le> 6 * length s + 2"
proof -
  have "length (escape_char c) \<le> 6" for c by (simp add: escape_char_def)
  then have "length (concat (map escape_char s)) \<le> 6 * length s"
    by (induction s) (simp_all add: add_mono)
  then show ?thesis by (simp add: quoted_def)
qed

text \<open>A bound that can be read off the value.\<close>

fun text_bound :: "json_value \<Rightarrow> nat" where
  "text_bound (JSONArray xs c) = 2 + sum_list (map (\<lambda>x. text_bound x + 1) xs)"
| "text_bound (JSONObject fs c) = 2 + sum_list (map (\<lambda>f. 6 * length (fst f) + 4 + text_bound (snd f)) fs)"
| "text_bound (JSONString s) = 6 * length s + 2"
| "text_bound (JSONNumber d) = 24"
| "text_bound (JSONBoolean b) = 5"
| "text_bound JSONNull = 4"

lemma length_json_text:
  "numbers_ok v \<Longrightarrow> \<not> p \<Longrightarrow> length (json_text p l v) \<le> text_bound v"
  "list_all numbers_ok xs \<Longrightarrow> \<not> p \<Longrightarrow> length (items_text p l xs) \<le> sum_list (map (\<lambda>x. text_bound x + 1) xs)"
  "list_all (\<lambda>f. numbers_ok (snd f)) fs \<Longrightarrow> \<not> p \<Longrightarrow>
     length (members_text p l fs) \<le> sum_list (map (\<lambda>f. 6 * length (fst f) + 4 + text_bound (snd f)) fs)"
proof (induction p l v and p l xs and p l fs rule: json_text_items_text_members_text.induct)
  case (5 p l d)
  then show ?case using length_sprintf_g17 [of d] canonical_reads_back [of d] by simp
next
  case (10 p l k x fs)
  then show ?case using length_quoted [of k] by (simp add: opt_text_def)
qed (use length_quoted in \<open>simp_all add: opt_text_def\<close>)

end
