(* ===== verification/Spectrum_Codec.thy ===== *)
theory Spectrum_Codec
  imports Spectrum_Json Parson_Client
begin

text \<open>
  Writing and reading the JSON of the spectrum auction with memory to spare. \<open>writes w fs\<close> says that a
  writer adds the fields \<open>fs\<close> to an object, \<open>fills f vs\<close> that a loop appends the values \<open>vs\<close> to an array;
  fields and values are given by their contents. The locale \<open>json_codec\<close> is the contract of a class with
  \<open>toJsonObject\<close> and \<open>fromJsonObject\<close>: what is written is what is read. Its lemmas carry a codec to arrays,
  to nested objects and to the text of a document; every class of the auction interprets it.
\<close>

named_theorems json_write \<open>rules for writers\<close>
named_theorems json_read \<open>rules for readers\<close>

section \<open>What the contents of a value determine\<close>

definition fields_of :: "(string \<times> json_value) list \<Rightarrow> (string \<times> json_value) list" where
  "fields_of fs = map (\<lambda>f. (fst f, contents (snd f))) fs"

lemma fields_of_simps [simp]:
  "fields_of [] = []" "fields_of (f # fs) = (fst f, contents (snd f)) # fields_of fs" "fields_of (fs @ gs) = fields_of fs @ fields_of gs"
  "map fst (fields_of fs) = map fst fs" "fst ` set (fields_of fs) = fst ` set fs" "length (fields_of fs) = length fs"
  by (auto simp: fields_of_def image_image)

lemma map_of_fields: "map_of (fields_of fs) k = map_option contents (map_of fs k)"
  by (induction fs) auto

lemma contents_contents [simp]: "contents (contents v) = contents v"
  by (induction v) (auto simp: snds.simps)

lemma numbers_ok_contents [simp]: "numbers_ok (contents v) = numbers_ok v"
proof (induction v)
  case (JSONObject fs c)
  then show ?case by (induction fs) (auto simp: snds.simps)
next
  case (JSONArray xs c)
  then show ?case by (induction xs) auto
qed simp_all

lemma levels_contents [simp]: "levels (contents v) = levels v"
proof (induction v)
  case (JSONObject fs c)
  then have "map (\<lambda>f. levels (snd f)) (map (\<lambda>f. (fst f, contents (snd f))) fs) = map (\<lambda>f. levels (snd f)) fs"
    by (auto simp: snds.simps)
  then show ?case by (simp only: contents.simps levels.simps)
next
  case (JSONArray xs c)
  then have "map levels (map contents xs) = map levels xs" by auto
  then show ?case by (simp only: contents.simps levels.simps)
qed simp_all

section \<open>Writers\<close>

definition writes :: "writer \<Rightarrow> (string \<times> json_value) list \<Rightarrow> bool" where
  "writes w fs = (\<forall>ob h. wf_object ob \<longrightarrow> plenty h \<longrightarrow> distinct (map fst (pairs ob) @ map fst fs) \<longrightarrow>
     (\<exists>ob' h'. w (Some ob) h = Inr (Some ob', h') \<and> wf_object ob' \<and> plenty h' \<and>
        fields_of (pairs ob') = fields_of (pairs ob) @ fs))"

definition fills :: "filler \<Rightarrow> json_value list \<Rightarrow> bool" where
  "fills f vs = (\<forall>ar h. wf_array ar \<longrightarrow> plenty h \<longrightarrow>
     (\<exists>ar' h'. f (Some ar) h = Inr (Some ar', h') \<and> wf_array ar' \<and> plenty h' \<and>
        map contents (items ar') = map contents (items ar) @ vs))"

lemma writesD:
  assumes "writes w fs" "wf_object ob" "plenty h" "distinct (map fst (pairs ob) @ map fst fs)"
  obtains ob' h' where "w (Some ob) h = Inr (Some ob', h')" "wf_object ob'" "plenty h'"
    "fields_of (pairs ob') = fields_of (pairs ob) @ fs"
  using assms unfolding writes_def by blast

lemma fillsD:
  assumes "fills f vs" "wf_array ar" "plenty h"
  obtains ar' h' where "f (Some ar) h = Inr (Some ar', h')" "wf_array ar'" "plenty h'"
    "map contents (items ar') = map contents (items ar) @ vs"
  using assms unfolding fills_def by blast

lemma write_all_Nil [json_write]: "writes (write_all []) []"
  by (simp add: writes_def write_all_def)

lemma write_all_Cons [json_write]:
  assumes "writes w fs" "writes (write_all ws) gs"
  shows "writes (write_all (w # ws)) (fs @ gs)"
  unfolding writes_def
proof (intro allI impI)
  fix ob h assume ob: "wf_object ob" "plenty h" "distinct (map fst (pairs ob) @ map fst (fs @ gs))"
  have "distinct (map fst (pairs ob) @ map fst fs)" using ob(3) by auto
  from writesD [OF assms(1) ob(1,2) this] obtain ob1 h1 where 1: "w (Some ob) h = Inr (Some ob1, h1)" "wf_object ob1" "plenty h1"
    "fields_of (pairs ob1) = fields_of (pairs ob) @ fs" .
  have "map fst (pairs ob1) = map fst (pairs ob) @ map fst fs"
    using 1(4) by (metis fields_of_simps(4) map_append)
  then have "distinct (map fst (pairs ob1) @ map fst gs)" using ob(3) by simp
  from writesD [OF assms(2) 1(2,3) this] obtain ob2 h2 where "write_all ws (Some ob1) h1 = Inr (Some ob2, h2)"
    "wf_object ob2" "plenty h2" "fields_of (pairs ob2) = fields_of (pairs ob1) @ gs" .
  then show "\<exists>ob' h'. write_all (w # ws) (Some ob) h = Inr (Some ob', h') \<and> wf_object ob' \<and> plenty h' \<and>
      fields_of (pairs ob') = fields_of (pairs ob) @ fs @ gs"
    using 1 by (auto simp: write_all_def)
qed

text \<open>Storing a value under a new name.\<close>

lemma put_value_new:
  assumes "wf_object ob" "plenty h" "nul_free k" "k \<notin> fst ` set (pairs ob)" "wf_json v"
  obtains ob' h' where "put_value k (Some v) (Some ob) h = Inr (Some ob', h')" "wf_object ob'" "plenty h'"
    "pairs ob' = pairs ob @ [(k, v)]"
proof -
  obtain ob' h' where "json_object_set_value (Some ob) (Some k) (Detached v) h = (JSONSuccess, Some ob', h')"
    "pairs ob' = pairs ob @ [(k, v)]" "plenty h'" "wf_object ob'"
    using set_value_plenty [OF assms(2,1,3,4,5)] .
  then show thesis by (intro that) (auto simp: put_value_def fresh_ref_def)
qed

lemma put_scalar:
  assumes "nul_free k" "wf_json v" "contents v = v"
    and "\<And>ob h. plenty h \<Longrightarrow> \<exists>h1. plenty h1 \<and> w (Some ob) h = put_value k (Some v) (Some ob) h1"
  shows "writes w [(k, v)]"
  unfolding writes_def
proof (intro allI impI)
  fix ob h assume ob: "wf_object ob" "plenty h" "distinct (map fst (pairs ob) @ map fst [(k, v)])"
  obtain h1 where h1: "plenty h1" "w (Some ob) h = put_value k (Some v) (Some ob) h1" using assms(4) [OF ob(2)] by blast
  have "k \<notin> fst ` set (pairs ob)" using ob(3) by simp
  from put_value_new [OF ob(1) h1(1) assms(1) this assms(2)] obtain ob' h' where
    "put_value k (Some v) (Some ob) h1 = Inr (Some ob', h')" "wf_object ob'" "plenty h'" "pairs ob' = pairs ob @ [(k, v)]" .
  then show "\<exists>ob' h'. w (Some ob) h = Inr (Some ob', h') \<and> wf_object ob' \<and> plenty h' \<and>
      fields_of (pairs ob') = fields_of (pairs ob) @ [(k, v)]"
    using h1(2) assms(3) by auto
qed

lemma put_number_writes [json_write]:
  "nul_free k \<Longrightarrow> canonical d \<Longrightarrow> \<not> times_zero_nonzero d \<Longrightarrow> writes (put_number k d) [(k, JSONNumber d)]"
  by (rule put_scalar) (auto simp: put_number_def put_value_def json_object_set_number_def json_value_init_number_def
      intro!: exI [where x = "h\<lparr>live := live h + 1\<rparr>" for h])

lemma put_string_writes [json_write]:
  "nul_free k \<Longrightarrow> utf8_arg s \<Longrightarrow> writes (put_string k s) [(k, JSONString (cstr s))]"
  by (rule put_scalar) (auto simp: put_string_def put_value_def json_object_set_string_def init_string_plenty
      intro!: exI [where x = "h\<lparr>live := live h + 2\<rparr>" for h])

lemma put_boolean_writes [json_write]: "nul_free k \<Longrightarrow> writes (put_boolean k b) [(k, JSONBoolean b)]"
  by (rule put_scalar) (auto simp: put_boolean_def put_value_def json_object_set_boolean_def init_boolean_plenty
      intro!: exI [where x = "h\<lparr>live := live h + 1\<rparr>" for h])

text \<open>A nested object or array is written first and stored afterwards, or stored first and filled in
  place.\<close>

lemma new_object:
  assumes "writes w fs" "distinct (map fst fs)" "plenty h"
  obtains ob h1 where "w (Some \<lparr>pairs = [], obj_capacity = 0\<rparr>) h = Inr (Some ob, h1)" "wf_object ob" "plenty h1"
    "fields_of (pairs ob) = fs"
  by (rule writesD [OF assms(1), of "\<lparr>pairs = [], obj_capacity = 0\<rparr>" h])
    (use assms(2,3) that in \<open>simp_all add: JSONObject_of.simps\<close>)

lemma contents_object_of: "contents (JSONObject_of ob) = JSONObject (fields_of (pairs ob)) 0"
  by (simp add: JSONObject_of.simps fields_of_def)

lemma put_object_writes [json_write]:
  assumes "nul_free k" "writes w fs" "distinct (map fst fs)"
  shows "writes (put_object k w) [(k, JSONObject fs 0)]" "writes (put_opened k w) [(k, JSONObject fs 0)]"
proof -
  have "\<exists>ob' h'. put_object k w (Some ob) h = Inr (Some ob', h') \<and> put_opened k w (Some ob) h = Inr (Some ob', h') \<and>
      wf_object ob' \<and> plenty h' \<and> fields_of (pairs ob') = fields_of (pairs ob) @ [(k, JSONObject fs 0)]"
    if ob: "wf_object ob" "plenty h" "distinct (map fst (pairs ob) @ map fst [(k, JSONObject fs 0)])" for ob h
  proof -
    have "plenty (h\<lparr>live := live h + 2\<rparr>)" using ob(2) by simp
    from new_object [OF assms(2,3) this] obtain b h1 where
      b: "w (Some \<lparr>pairs = [], obj_capacity = 0\<rparr>) (h\<lparr>live := live h + 2\<rparr>) = Inr (Some b, h1)" "wf_object b" "plenty h1"
        "fields_of (pairs b) = fs" .
    have "k \<notin> fst ` set (pairs ob)" using ob(3) by simp
    from put_value_new [OF ob(1) b(3) assms(1) this b(2)] obtain ob' h' where
      "put_value k (Some (JSONObject_of b)) (Some ob) h1 = Inr (Some ob', h')" "wf_object ob'" "plenty h'"
      "pairs ob' = pairs ob @ [(k, JSONObject_of b)]" .
    then show ?thesis
      using b ob(2) by (simp add: put_object_def put_opened_def openJsonObject_def json_object_get_wrapping_value_def
          init_plenty contents_object_of)
  qed
  then show "writes (put_object k w) [(k, JSONObject fs 0)]" "writes (put_opened k w) [(k, JSONObject fs 0)]"
    unfolding writes_def by blast+
qed

lemma setn_loop_last:
  assumes "names_ok fs" "nul_free k" "k \<notin> fst ` set fs"
  shows "setn_loop (fs @ [(k, v)]) k (strlen k) w = fs @ [(k, w)]"
  using assms
proof (induction fs)
  case Nil
  then show ?case by (simp add: strneq_def)
next
  case (Cons f fs)
  obtain n u where f: "f = (n, u)" by fastforce
  have "n \<noteq> k" "nul_free n" using Cons.prems f by auto
  then have "\<not> (strlen n = strlen k \<and> strneq n k (strlen k))" using Cons.prems(2) by (auto simp: strneq_def)
  then show ?case using Cons f by auto
qed

lemma contents_array_of: "contents (JSONArray_of ar) = JSONArray (map contents (items ar)) 0"
  by (simp add: JSONArray_of.simps)

lemma put_array_writes [json_write]:
  assumes "nul_free k" "fills f vs"
  shows "writes (put_array k f) [(k, JSONArray vs 0)]"
  unfolding writes_def
proof (intro allI impI)
  fix ob h assume ob: "wf_object ob" "plenty h" "distinct (map fst (pairs ob) @ map fst [(k, JSONArray vs 0)])"
  let ?h = "h\<lparr>live := live h + 2\<rparr>" and ?a = "\<lparr>items = [], arr_capacity = 0\<rparr>"
  have k: "k \<notin> fst ` set (pairs ob)" using ob(3) by simp
  have h: "plenty ?h" using ob(2) by simp
  obtain ob1 h1 where 1: "put_value k (Some (JSONArray [] 0)) (Some ob) ?h = Inr (Some ob1, h1)" "wf_object ob1" "plenty h1"
    "pairs ob1 = pairs ob @ [(k, JSONArray [] 0)]"
    by (rule put_value_new [OF ob(1) h assms(1) k, of "JSONArray [] 0"]) auto
  have "obj_map ob1 k = Some (JSONArray [] 0)"
    using 1(4) map_of_eq_None_iff [of "pairs ob" k] k by (simp add: obj_map_def map_add_def)
  then have "json_object_get_array (Some ob1) (Some k) = Some ?a"
    using get_value_map(1) [OF 1(2), of k] assms(1) by (simp add: json_object_get_array_def)
  moreover obtain ar h2 where ar: "f (Some ?a) h1 = Inr (Some ar, h2)" "wf_array ar" "plenty h2" "map contents (items ar) = vs"
    by (rule fillsD [OF assms(2) _ 1(3), of ?a]) (auto simp: JSONArray_of.simps)
  moreover have "setn_loop (pairs ob1) k (strlen k) (JSONArray_of ar) = pairs ob @ [(k, JSONArray_of ar)]"
    unfolding 1(4) by (rule setn_loop_last [OF wf_names_ok [OF ob(1)] assms(1) k])
  moreover have "wf_object (ob1\<lparr>pairs := pairs ob @ [(k, JSONArray_of ar)]\<rparr>)"
    using 1(2,4) ar(2) by (simp add: JSONObject_of.simps)
  ultimately show "\<exists>ob' h'. put_array k f (Some ob) h = Inr (Some ob', h') \<and> wf_object ob' \<and> plenty h' \<and>
      fields_of (pairs ob') = fields_of (pairs ob) @ [(k, JSONArray vs 0)]"
    using 1(1) ob(2) by (simp add: put_array_def init_plenty update_array_def contents_array_of)
qed

section \<open>Fillers\<close>

lemma fill_each_fills [json_write]:
  assumes "\<And>x. x \<in> set xs \<Longrightarrow> fills (f x) [g x]"
  shows "fills (fill_each f xs) (map g xs)"
  unfolding fills_def
proof (intro allI impI)
  fix ar h assume "wf_array ar" "plenty h"
  then show "\<exists>ar' h'. fill_each f xs (Some ar) h = Inr (Some ar', h') \<and> wf_array ar' \<and> plenty h' \<and>
      map contents (items ar') = map contents (items ar) @ map g xs"
    using assms
  proof (induction xs arbitrary: ar h)
    case (Cons x xs)
    have "fills (f x) [g x]" using Cons.prems(3) by simp
    from fillsD [OF this Cons.prems(1,2)] obtain ar1 h1 where 1: "f x (Some ar) h = Inr (Some ar1, h1)" "wf_array ar1" "plenty h1"
      "map contents (items ar1) = map contents (items ar) @ [g x]" .
    from Cons.IH [OF 1(2,3)] Cons.prems(3) show ?case using 1 by (auto simp: fill_each_def)
  qed (simp add: fill_each_def)
qed

text \<open>Appending a value, with memory to spare.\<close>

lemma append_plenty:
  assumes "wf_array ar" "plenty h" "wf_json v"
  obtains ar' h' where "json_array_append_value (Some ar) (Detached v) h = (JSONSuccess, Some ar', h')"
    "wf_array ar'" "plenty h'" "items ar' = items ar @ [v]"
proof -
  obtain ar' h' where a: "json_array_add ar v h = (JSONSuccess, ar', h')" "items ar' = items ar @ [v]" "plenty h'"
    using array_add_plenty [OF assms(2)] .
  then have "json_array_append_value (Some ar) (Detached v) h = (JSONSuccess, Some ar', h')"
    by (simp add: json_array_append_value_def)
  moreover have "wf_array ar'"
    using append_value_effect [OF assms(1,3), of h] calculation by (simp add: array_effect_def)
  ultimately show thesis using that a by blast
qed

lemma item_number_fills [json_write]:
  assumes "canonical d" "\<not> times_zero_nonzero d"
  shows "fills (item_number d) [JSONNumber d]"
  unfolding fills_def
proof (intro allI impI)
  fix ar h assume ar: "wf_array ar" "plenty h"
  let ?h = "h\<lparr>live := live h + 1\<rparr>"
  have "plenty ?h" "wf_json (JSONNumber d)" using ar(2) assms by simp_all
  from append_plenty [OF ar(1) this] obtain ar' h' where
    "json_array_append_value (Some ar) (Detached (JSONNumber d)) ?h = (JSONSuccess, Some ar', h')" "wf_array ar'" "plenty h'"
    "items ar' = items ar @ [JSONNumber d]" .
  then show "\<exists>ar' h'. item_number d (Some ar) h = Inr (Some ar', h') \<and> wf_array ar' \<and> plenty h' \<and>
      map contents (items ar') = map contents (items ar) @ [JSONNumber d]"
    using assms ar(2) by (simp add: item_number_def json_array_append_number_def array_fresh_def json_value_init_number_def)
qed

lemma item_object_fills [json_write]:
  assumes "writes w fs" "distinct (map fst fs)"
  shows "fills (item_object w) [JSONObject fs 0]"
  unfolding fills_def
proof (intro allI impI)
  fix ar h assume ar: "wf_array ar" "plenty h"
  have "plenty (h\<lparr>live := live h + 2\<rparr>)" using ar(2) by simp
  from new_object [OF assms this] obtain b h1 where
    b: "w (Some \<lparr>pairs = [], obj_capacity = 0\<rparr>) (h\<lparr>live := live h + 2\<rparr>) = Inr (Some b, h1)" "wf_object b" "plenty h1"
      "fields_of (pairs b) = fs" .
  from append_plenty [OF ar(1) b(3,2)] obtain ar' h' where
    "json_array_append_value (Some ar) (Detached (JSONObject_of b)) h1 = (JSONSuccess, Some ar', h')" "wf_array ar'" "plenty h'"
    "items ar' = items ar @ [JSONObject_of b]" .
  then show "\<exists>ar' h'. item_object w (Some ar) h = Inr (Some ar', h') \<and> wf_array ar' \<and> plenty h' \<and>
      map contents (items ar') = map contents (items ar) @ [JSONObject fs 0]"
    using b ar(2) by (simp add: item_object_def init_plenty fresh_ref_def contents_object_of)
qed

lemma item_array_fills [json_write]:
  assumes "fills f vs"
  shows "fills (item_array f) [JSONArray vs 0]"
  unfolding fills_def
proof (intro allI impI)
  fix ar h assume ar: "wf_array ar" "plenty h"
  let ?a = "\<lparr>items = [], arr_capacity = 0\<rparr>"
  obtain a h1 where a: "f (Some ?a) (h\<lparr>live := live h + 2\<rparr>) = Inr (Some a, h1)" "wf_array a" "plenty h1" "map contents (items a) = vs"
    by (rule fillsD [OF assms, of ?a "h\<lparr>live := live h + 2\<rparr>"]) (use ar(2) in \<open>auto simp: JSONArray_of.simps\<close>)
  from append_plenty [OF ar(1) a(3,2)] obtain ar' h' where
    "json_array_append_value (Some ar) (Detached (JSONArray_of a)) h1 = (JSONSuccess, Some ar', h')" "wf_array ar'" "plenty h'"
    "items ar' = items ar @ [JSONArray_of a]" .
  then show "\<exists>ar' h'. item_array f (Some ar) h = Inr (Some ar', h') \<and> wf_array ar' \<and> plenty h' \<and>
      map contents (items ar') = map contents (items ar) @ [JSONArray vs 0]"
    using a ar(2) by (simp add: item_array_def init_plenty fresh_ref_def contents_array_of)
qed

section \<open>Readers\<close>

text \<open>Every \<open>uint32_t\<close> survives the trip through a \<open>double\<close> and its text.\<close>

lemma uint32_exact:
  assumes "n < 2 ^ 32"
  shows "reads_back (double_of_int (int n))" "uint32_of_double (double_of_int (int n)) = Inr n"
proof (atomize (full), cases "n = 0")
  case True
  then show "reads_back (double_of_int (int n)) \<and> uint32_of_double (double_of_int (int n)) = Inr n"
    by (simp add: double_of_int_def round_to_double_def)
next
  case False
  then have n: "0 < n" "n < 2 ^ 52" using assms by simp_all
  note d = double_of_int_pos [OF n]
  have v: "double_of_int (int n) = Finite False (n * 2 ^ (52 - ilog 2 n)) (int (ilog 2 n) - 52)"
    using d(1) [of False] by (simp add: double_of_int_def)
  have "nat (52 - int (ilog 2 n)) = 52 - ilog 2 n" by simp
  then show "reads_back (double_of_int (int n)) \<and> uint32_of_double (double_of_int (int n)) = Inr n"
    using d(2-4) assms unfolding v by (simp add: Let_def del: power_numeral)
qed

lemma deq_refl: "\<not> times_zero_nonzero d \<Longrightarrow> deq d d"
  by (cases d) (simp_all add: split_beta)

lemma isInteger_int: "int_range i \<Longrightarrow> isInteger (double_of_int i) = Inr True"
  using double_of_int_exact [of i] canonical_reads_back deq_refl by (simp add: isInteger_def)

text \<open>An object with given fields, as it was written or as it was parsed.\<close>

definition has_fields :: "json_object option \<Rightarrow> (string \<times> json_value) list \<Rightarrow> bool" where
  "has_fields ob fs = (\<exists>b. ob = Some b \<and> fields_of (pairs b) = fs \<and> names_ok fs)"

lemma get_field:
  assumes "has_fields ob fs" "nul_free k"
  shows "map_option contents (json_object_get_value ob (Some k)) = map_of fs k"
proof -
  obtain b where b: "ob = Some b" "fields_of (pairs b) = fs" "names_ok fs" using assms(1) by (auto simp: has_fields_def)
  have "names_ok (pairs b)" using b(2,3) by (force simp: fields_of_def list_all_iff)
  then have "json_object_get_value (Some b) (Some k) = map_of (pairs b) k"
    using get_value_names [of "pairs b" k "obj_capacity b"] assms(2) by (cases b) simp
  then show ?thesis using b(1,2) map_of_fields [of "pairs b" k] by simp
qed

lemma contents_kinds:
  "contents v = JSONNumber d \<longleftrightarrow> v = JSONNumber d" "contents v = JSONString s \<longleftrightarrow> v = JSONString s"
  "contents v = JSONBoolean b \<longleftrightarrow> v = JSONBoolean b"
  by (cases v; auto)+

lemma get_scalar_field:
  assumes "has_fields ob fs" "nul_free k" "map_of fs k = Some v" "\<not> container v"
  shows "json_object_get_value ob (Some k) = Some v"
proof -
  obtain w where w: "json_object_get_value ob (Some k) = Some w" "contents w = v"
    using get_field [OF assms(1,2)] assms(3) by (cases "json_object_get_value ob (Some k)") auto
  then have "w = v" using assms(4) by (cases w) auto
  then show ?thesis using w(1) by simp
qed

text \<open>The numbers that \<open>isInteger\<close> accepts and that fit a \<open>uint32_t\<close>.\<close>

definition small_uint :: "nat \<Rightarrow> bool" where
  "small_uint n = (n < 2 ^ 31)"

lemma small_int: "small_uint n \<Longrightarrow> int_range (int n)" "small_uint n \<Longrightarrow> n < 2 ^ 32" "small_uint n \<Longrightarrow> reads_back (double_of_int (int n))"
  using double_of_int_exact(1) [of "int n"] by (auto simp: small_uint_def int_range_def)

lemma read_uint32_field [json_read]:
  assumes "has_fields ob fs" "nul_free k" "map_of fs k = Some (JSONNumber (double_of_int (int n)))" "small_uint n"
  shows "read_uint32 k ob = Inr (Some n)"
proof -
  have n: "n < 2 ^ 32" "int_range (int n)" using small_int [OF assms(4)] by blast+
  have "json_object_get_value ob (Some k) = Some (JSONNumber (double_of_int (int n)))"
    by (rule get_scalar_field [OF assms(1-3)]) simp
  then show ?thesis
    using isInteger_int [OF n(2)] uint32_exact(2) [OF n(1)]
    by (simp add: read_uint32_def read_check_def json_object_has_value_of_type_def json_object_get_number_def)
qed

lemma read_string_field [json_read]:
  assumes "has_fields ob fs" "nul_free k" "map_of fs k = Some (JSONString s)" "nul_free s"
  shows "read_string k ob = Inr (Some s)"
  using get_scalar_field [OF assms(1-3)] assms(4) by (simp add: read_string_def json_object_get_string_def)

lemma get_number_field [json_read]:
  assumes "has_fields ob fs" "nul_free k" "map_of fs k = Some (JSONNumber d)"
  shows "json_object_get_number ob (Some k) = d" "json_object_has_value_of_type ob (Some k) JSONNumber_t"
  using get_scalar_field [OF assms] by (simp_all add: json_object_get_number_def json_object_has_value_of_type_def)

lemma has_string_field [json_read]:
  assumes "has_fields ob fs" "nul_free k" "map_of fs k = Some (JSONString s)"
  shows "json_object_has_value_of_type ob (Some k) JSONString_t"
  using get_scalar_field [OF assms] by (simp add: json_object_has_value_of_type_def)

lemma get_boolean_field [json_read]:
  assumes "has_fields ob fs" "nul_free k" "map_of fs k = Some (JSONBoolean b)"
  shows "json_object_get_boolean ob (Some k) = (if b then 1 else 0)"
  using get_scalar_field [OF assms] by (simp add: json_object_get_boolean_def)

lemma get_object_field [json_read]:
  assumes "has_fields ob fs" "nul_free k" "map_of fs k = Some (JSONObject gs 0)" "names_ok gs"
  shows "json_object_get_value ob (Some k) \<noteq> None"
    "has_fields (json_value_get_object (json_object_get_value ob (Some k))) gs"
proof -
  obtain w where w: "json_object_get_value ob (Some k) = Some w" "contents w = JSONObject gs 0"
    using get_field [OF assms(1,2)] assms(3) by (cases "json_object_get_value ob (Some k)") auto
  from contents_object [OF w(2)] obtain fs' c' where "w = JSONObject fs' c'" "fields_of fs' = gs"
    unfolding fields_of_def .
  then show "json_object_get_value ob (Some k) \<noteq> None"
    "has_fields (json_value_get_object (json_object_get_value ob (Some k))) gs"
    using w(1) assms(4) by (auto simp: has_fields_def)
qed

lemma get_array_field [json_read]:
  assumes "has_fields ob fs" "nul_free k" "map_of fs k = Some (JSONArray vs 0)"
  obtains ar where "json_object_get_array ob (Some k) = Some ar" "map contents (items ar) = vs"
proof -
  obtain w where w: "json_object_get_value ob (Some k) = Some w" "contents w = JSONArray vs 0"
    using get_field [OF assms(1,2)] assms(3) by (cases "json_object_get_value ob (Some k)") auto
  then obtain xs c where "w = JSONArray xs c" "map contents xs = vs" by (cases w) auto
  then show thesis using w(1) by (intro that [of "\<lparr>items = xs, arr_capacity = c\<rparr>"]) (simp_all add: json_object_get_array_def)
qed

text \<open>\<open>reads f g x\<close> would be one item; here for all items of an array.\<close>

lemma read_items_all:
  assumes "map contents vs = map g xs" "\<And>x v. x \<in> set xs \<Longrightarrow> contents v = g x \<Longrightarrow> f v = Inr (Some x)"
  shows "read_items f vs = Inr (Some xs)"
  using assms
proof (induction xs arbitrary: vs)
  case (Cons x xs)
  then obtain v vs' where vs: "vs = v # vs'" "contents v = g x" "map contents vs' = map g xs" by auto
  have "read_items f vs' = Inr (Some xs)" using Cons.IH vs(3) Cons.prems(2) by simp
  moreover have "f v = Inr (Some x)" using Cons.prems(2) [of x v] vs(2) by simp
  ultimately show ?case by (simp add: vs(1) read_bind_def)
qed simp

lemma read_array_field [json_read]:
  assumes "has_fields ob fs" "nul_free k" "map_of fs k = Some (JSONArray (map g xs) 0)"
    and "\<And>x v. x \<in> set xs \<Longrightarrow> contents v = g x \<Longrightarrow> f v = Inr (Some x)"
  shows "read_array k f ob = Inr (Some xs)"
proof -
  obtain ar where "json_object_get_array ob (Some k) = Some ar" "map contents (items ar) = map g xs"
    using get_array_field [OF assms(1-3)] .
  then show ?thesis using read_items_all [of "items ar" g xs f] assms(4) by (simp add: read_array_def)
qed

lemma read_array_item_all:
  assumes "contents v = JSONArray (map g xs) 0" "\<And>x w. x \<in> set xs \<Longrightarrow> contents w = g x \<Longrightarrow> f w = Inr (Some x)"
  shows "read_array_item f v = Inr (Some xs)"
proof -
  obtain ys c where v: "v = JSONArray ys c" "map contents ys = map g xs" using assms(1) by (cases v) auto
  then show ?thesis using read_items_all [OF v(2) assms(2)] by (simp add: read_array_item_def)
qed

lemma number_item_read: "contents v = JSONNumber d \<Longrightarrow> f d = Inr x \<Longrightarrow> number_item f v = Inr (Some x)"
  by (simp add: contents_kinds number_item_def)

lemma read_matrix_field [json_read]:
  assumes "has_fields ob fs" "nul_free k"
    and "map_of fs k = Some (JSONArray (map (\<lambda>row. JSONArray (map (\<lambda>x. JSONNumber (g x)) row) 0) rows) 0)"
    and "\<And>row x. row \<in> set rows \<Longrightarrow> x \<in> set row \<Longrightarrow> f (g x) = Inr x"
  shows "read_matrix k f ob = Inr (Some rows)"
  unfolding read_matrix_def
proof (rule read_array_field [OF assms(1-3)])
  fix row v assume row: "row \<in> set rows" "contents v = JSONArray (map (\<lambda>x. JSONNumber (g x)) row) 0"
  show "read_array_item (number_item f) v = Inr (Some row)"
  proof (rule read_array_item_all [OF row(2)])
    fix x w assume "x \<in> set row" "contents w = JSONNumber (g x)"
    then show "number_item f w = Inr (Some x)" using number_item_read assms(4) [OF row(1)] by metis
  qed
qed

section \<open>The contract of a class\<close>

lemma json_text_contents:
  "json_text p l (contents v) = json_text p l v"
  "items_text p l (map contents xs) = items_text p l xs"
  "members_text p l (fields_of fs) = members_text p l fs"
proof (induction p l v and p l xs and p l fs rule: json_text_items_text_members_text.induct)
  case (2 p l fs c)
  moreover have "fields_of fs = [] \<longleftrightarrow> fs = []" by (cases fs) auto
  ultimately show ?case by (simp flip: fields_of_def)
next
  case (10 p l k x fs)
  moreover have "fields_of fs = [] \<longleftrightarrow> fs = []" by (cases fs) auto
  ultimately show ?case by simp
qed simp_all

lemma list_levels: "list_all (\<lambda>v. levels v \<le> n) vs \<Longrightarrow> levels (JSONArray vs c) \<le> Suc n"
  using foldr_max_le [of "map levels vs" n] by (auto simp: list_all_iff)

text \<open>The document that a writer makes: a new object, written, serialized and released.\<close>

lemma writes_document:
  assumes "writes w fs" "distinct (map fst fs)" "plenty h"
  shows "\<exists>h'. run_bind (openJsonObject None h) (\<lambda>(r, h1). run_bind (w r h1) (\<lambda>(r1, h2). closeJsonObject r1 True h2))
    = Inr (Some (json_text False 0 (JSONObject fs 0)), h') \<and> plenty h'"
proof -
  let ?h = "h\<lparr>live := live h + 2\<rparr>"
  have "plenty ?h" using assms(3) by simp
  from new_object [OF assms(1,2) this] obtain ob h1 where
    ob: "w (Some \<lparr>pairs = [], obj_capacity = 0\<rparr>) ?h = Inr (Some ob, h1)" "wf_object ob" "plenty h1"
      "fields_of (pairs ob) = fs" .
  have t: "json_text False 0 (JSONObject_of ob) = json_text False 0 (JSONObject fs 0)"
    using json_text_contents(1) [of False 0 "JSONObject_of ob"] ob(4) by (simp add: contents_object_of)
  have "nul_free (json_text False 0 (JSONObject_of ob))" using nul_free_json_text(1) [OF ob(2)] .
  then show ?thesis
    using ob(1,3) assms(3) serialize_string_plenty [OF ob(2,3)] t
    by (simp add: openJsonObject_def init_plenty closeJsonObject_def json_object_get_wrapping_value_def
        json_free_serialized_string_def plenty_def)
qed

text \<open>The document is parsed into an object with the same fields.\<close>

lemma writes_parsed:
  assumes "writes w fs" "distinct (map fst fs)" "names_ok fs" "numbers_ok (JSONObject fs 0)" "levels (JSONObject fs 0) \<le> 2049" "plenty h"
  shows "\<exists>ob h'. openJsonObject (Some (json_text False 0 (JSONObject fs 0))) h = Inr (Some ob, h') \<and> plenty h' \<and> has_fields (Some ob) fs"
proof -
  have "plenty \<lparr>answers = [], live = 0\<rparr>" by (simp add: plenty_def)
  from new_object [OF assms(1,2) this] obtain b where b: "wf_object b" "fields_of (pairs b) = fs" by metis
  have c: "contents (JSONObject_of b) = JSONObject fs 0" using b(2) by (simp add: contents_object_of)
  have t: "json_text False 0 (JSONObject_of b) = json_text False 0 (JSONObject fs 0)"
    using json_text_contents(1) [of False 0 "JSONObject_of b"] c by simp
  have n: "numbers_ok (JSONObject_of b)" "levels (JSONObject_of b) \<le> 2049"
    using assms(4,5) c by (metis numbers_ok_contents, metis levels_contents)
  have "container (JSONObject_of b)" by (simp add: JSONObject_of.simps)
  from parse_json_text [OF b(1) n assms(6), of "[]" False] this obtain v h' where
    v: "parse_json (json_text False 0 (JSONObject fs 0)) h = Inr (Some v, h')" "contents v = JSONObject fs 0" "plenty h'"
    by (auto simp: t c)
  obtain fs' c' where f: "v = JSONObject fs' c'" "fields_of fs' = fs"
    using contents_object [OF v(2)] unfolding fields_of_def .
  then have "has_fields (json_value_get_object (Some v)) fs" using assms(3) by (auto simp: has_fields_def)
  moreover have "json_value_get_object (Some v) = Some \<lparr>pairs = fs', obj_capacity = c'\<rparr>" using f(1) by simp
  ultimately show ?thesis using v(1,3) by (simp add: openJsonObject_def)
qed

text \<open>A class with its two functions, the fields it is written as, and the values for which this works.\<close>

definition image_of :: "('a \<Rightarrow> (string \<times> json_value) list) \<Rightarrow> 'a \<Rightarrow> json_value" where
  "image_of flds x = JSONObject (flds x) 0"

locale json_codec =
  fixes to_json :: "'a \<Rightarrow> writer" and of_json :: "'a reader"
    and flds :: "'a \<Rightarrow> (string \<times> json_value) list" and ok :: "'a \<Rightarrow> bool" and depth :: nat
  assumes written: "ok x \<Longrightarrow> writes (to_json x) (flds x)"
    and names: "ok x \<Longrightarrow> distinct (map fst (flds x)) \<and> names_ok (flds x)"
    and printable: "ok x \<Longrightarrow> numbers_ok (JSONObject (flds x) 0) \<and> levels (JSONObject (flds x) 0) \<le> depth"
    and read_back: "ok x \<Longrightarrow> has_fields ob (flds x) \<Longrightarrow> of_json ob = Inr (Some x)"
begin

lemma items_filled: "list_all ok xs \<Longrightarrow> fills (fill_each (\<lambda>x. item_object (to_json x)) xs) (map (image_of flds) xs)"
  unfolding image_of_def using written names by (intro json_write) (auto simp: list_all_iff)

lemma item_read: "ok x \<Longrightarrow> contents v = image_of flds x \<Longrightarrow> read_object_item of_json v = Inr (Some x)"
proof -
  assume ok: "ok x" and v: "contents v = image_of flds x"
  obtain fs' c' where "v = JSONObject fs' c'" "fields_of fs' = flds x"
    using contents_object [OF v [unfolded image_of_def]] unfolding fields_of_def .
  then have "has_fields (json_value_get_object (Some v)) (flds x)" using names [OF ok] by (auto simp: has_fields_def)
  then show ?thesis using read_back [OF ok] by (simp add: read_object_item_def)
qed

lemma nested_written:
  assumes "ok x" "nul_free k"
  shows "writes (put_object k (to_json x)) [(k, image_of flds x)]" "writes (put_opened k (to_json x)) [(k, image_of flds x)]"
  unfolding image_of_def using put_object_writes [OF assms(2) written [OF assms(1)]] names [OF assms(1)] by auto

lemma images_printable: "list_all ok xs \<Longrightarrow> list_all numbers_ok (map (image_of flds) xs)" "ok x \<Longrightarrow> levels (image_of flds x) \<le> depth" "ok x \<Longrightarrow> numbers_ok (image_of flds x)"
  using printable by (auto simp: image_of_def list_all_iff)

lemma items_levels: "list_all ok xs \<Longrightarrow> levels (JSONArray (map (image_of flds) xs) 0) \<le> Suc depth"
  using images_printable(2) by (intro list_levels) (auto simp: list_all_iff)

text \<open>The object itself, and the text of the document it becomes.\<close>

lemma object_exists:
  assumes "ok x"
  obtains ob where "wf_object ob" "fields_of (pairs ob) = flds x"
  using new_object [OF written [OF assms], of "\<lparr>answers = [], live = 0\<rparr>"] names [OF assms] that by (auto simp: plenty_def)

lemma document_written:
  assumes "ok x" "plenty h"
  shows "\<exists>h'. run_bind (openJsonObject None h) (\<lambda>(r, h1). run_bind (to_json x r h1) (\<lambda>(r1, h2). closeJsonObject r1 True h2))
    = Inr (Some (json_text False 0 (image_of flds x)), h') \<and> plenty h'"
  unfolding image_of_def using writes_document [OF written [OF assms(1)] _ assms(2)] names [OF assms(1)] by blast

lemma document_read:
  assumes "ok x" "plenty h" "depth \<le> 2049"
  shows "\<exists>ob h'. openJsonObject (Some (json_text False 0 (image_of flds x))) h = Inr (Some ob, h') \<and> plenty h' \<and>
    has_fields (Some ob) (flds x) \<and> of_json (Some ob) = Inr (Some x)"
proof -
  have "numbers_ok (JSONObject (flds x) 0)" "levels (JSONObject (flds x) 0) \<le> 2049" using printable [OF assms(1)] assms(3) by linarith+
  from writes_parsed [OF written [OF assms(1)] _ _ this assms(2)] names [OF assms(1)] read_back [OF assms(1)]
  show ?thesis unfolding image_of_def by blast
qed

end

end
