(* ===== verification/Spectrum_Codecs.thy ===== *)
theory Spectrum_Codecs
  imports Spectrum_Codec
begin

text \<open>
  The classes of the spectrum auction interpret the contract \<open>json_codec\<close>: principals, channels, territories,
  bidders, eligibilities, demands, bids and the two halves of the state of an auction. The predicates \<open>_ok\<close>
  say which values survive: texts that parson keeps, integers that a \<open>double\<close> and the code's conversions keep,
  prices of demands that are whole numbers.
\<close>

section \<open>The classes as codecs\<close>

lemma one_field [json_write]:
  "writes w [(k, v)] \<Longrightarrow> writes (write_all ws) fs \<Longrightarrow> writes (write_all (w # ws)) ((k, v) # fs)"
  using write_all_Cons [of w "[(k, v)]" ws fs] by simp

lemma put_int_writes [json_write]:
  "nul_free k \<Longrightarrow> int_range i \<or> 0 \<le> i \<and> i < 2 ^ 32 \<Longrightarrow> writes (put_int k i) [(k, JSONNumber (double_of_int i))]"
  unfolding put_int_def using canonical_reads_back double_of_int_exact(1) uint32_exact(1) [of "nat i"]
  by (intro put_number_writes) (auto simp: nat_less_iff)

lemma put_price_writes [json_write]: "nul_free k \<Longrightarrow> reads_back d \<Longrightarrow> writes (put_number k d) [(k, JSONNumber d)]"
  using canonical_reads_back [of d] by (intro put_number_writes) auto

lemma put_text_writes [json_write]: "nul_free k \<Longrightarrow> nul_free s \<Longrightarrow> utf8_arg s \<Longrightarrow> writes (put_string k s) [(k, JSONString s)]"
  using put_string_writes [of k s] by simp

text \<open>Strings and numbers that survive, and the values that are written for them.\<close>

definition text_ok :: "string \<Rightarrow> bool" where
  "text_ok s = (nul_free s \<and> utf8_arg s)"

abbreviation uint_json :: "nat \<Rightarrow> json_value" where
  "uint_json n \<equiv> JSONNumber (double_of_int (int n))"

lemmas codec_simps = read_bind_def read_check_def list_all_iff small_int text_ok_def

definition principal_ok :: "Principal \<Rightarrow> bool" where
  "principal_ok p = (text_ok (mspId p) \<and> text_ok (dn p))"

definition principal_fields :: "Principal \<Rightarrow> (string \<times> json_value) list" where
  "principal_fields p = [(''mspId'', JSONString (mspId p)), (''dn'', JSONString (dn p))]"

interpretation principal: json_codec Principal_toJsonObject Principal_fromJsonObject principal_fields principal_ok 2
proof
  fix x :: Principal and ob assume ok: "principal_ok x"
  show "writes (Principal_toJsonObject x) (principal_fields x)"
    unfolding Principal_toJsonObject_def principal_fields_def using ok
    by (intro json_write) (auto simp: principal_ok_def text_ok_def)
  assume "has_fields ob (principal_fields x)"
  note f = read_string_field [OF this]
  show "Principal_fromJsonObject ob = Inr (Some x)"
    using ok by (simp add: Principal_fromJsonObject_def f principal_fields_def principal_ok_def codec_simps)
qed (auto simp: principal_fields_def)

definition channel_ok :: "Channel \<Rightarrow> bool" where
  "channel_ok c = (small_uint (chan_id c) \<and> text_ok (chan_name c) \<and> small_uint (impairment c))"

definition channel_fields :: "Channel \<Rightarrow> (string \<times> json_value) list" where
  "channel_fields c = [(''id'', uint_json (chan_id c)), (''name'', JSONString (chan_name c)), (''impairment'', uint_json (impairment c))]"

interpretation channel: json_codec Channel_toJsonObject Channel_fromJsonObject channel_fields channel_ok 2
proof
  fix x :: Channel and ob assume ok: "channel_ok x"
  show "writes (Channel_toJsonObject x) (channel_fields x)"
    unfolding Channel_toJsonObject_def channel_fields_def using ok
    by (intro json_write) (auto simp: channel_ok_def text_ok_def small_int)
  show "numbers_ok (JSONObject (channel_fields x) 0) \<and> levels (JSONObject (channel_fields x) 0) \<le> 2"
    using ok by (simp add: channel_fields_def channel_ok_def small_int)
  assume "has_fields ob (channel_fields x)"
  note f = read_string_field [OF this] read_uint32_field [OF this, of "''id''" "chan_id x"] read_uint32_field [OF this, of "''impairment''" "impairment x"]
  show "Channel_fromJsonObject ob = Inr (Some x)"
    using ok by (simp add: Channel_fromJsonObject_def f channel_fields_def channel_ok_def codec_simps)
qed (auto simp: channel_fields_def)

definition territory_ok :: "Territory \<Rightarrow> bool" where
  "territory_ok t = (small_uint (ter_id t) \<and> text_ok (ter_name t) \<and> reads_back (minPrice t) \<and> \<not> dless (minPrice t) dzero \<and>
     list_all channel_ok (channels t))"

definition territory_fields :: "Territory \<Rightarrow> (string \<times> json_value) list" where
  "territory_fields t = [(''id'', uint_json (ter_id t)), (''name'', JSONString (ter_name t)), (''isHighDemand'', JSONBoolean (isHighDemand t)),
     (''minPrice'', JSONNumber (minPrice t)), (''channels'', JSONArray (map (image_of channel_fields) (channels t)) 0)]"

interpretation territory: json_codec Territory_toJsonObject Territory_fromJsonObject territory_fields territory_ok 4
proof
  fix x :: Territory and ob assume ok: "territory_ok x"
  then have ch: "list_all channel_ok (channels x)" by (simp add: territory_ok_def)
  show "writes (Territory_toJsonObject x) (territory_fields x)"
    unfolding Territory_toJsonObject_def territory_fields_def using ok
    by (intro json_write channel.items_filled) (auto simp: territory_ok_def text_ok_def small_int)
  have "levels (JSONArray (map (image_of channel_fields) (channels x)) 0) \<le> 3"
    using channel.items_levels [OF ch] by simp
  then show "numbers_ok (JSONObject (territory_fields x) 0) \<and> levels (JSONObject (territory_fields x) 0) \<le> 4"
    using ok channel.images_printable(1) [OF ch]
    by (simp add: territory_fields_def territory_ok_def small_int list.pred_map)
  assume h: "has_fields ob (territory_fields x)"
  have "read_array ''channels'' (read_object_item Channel_fromJsonObject) ob = Inr (Some (channels x))"
    using ch by (intro read_array_field [OF h, where g = "image_of channel_fields"] channel.item_read)
      (auto simp: territory_fields_def list_all_iff)
  then show "Territory_fromJsonObject ob = Inr (Some x)"
    using ok read_string_field [OF h, of "''name''"] read_uint32_field [OF h, of "''id''" "ter_id x"] get_boolean_field [OF h, of "''isHighDemand''"]
      get_number_field [OF h, of "''minPrice''"]
    by (simp add: Territory_fromJsonObject_def territory_fields_def territory_ok_def read_bind_def read_check_def small_int text_ok_def)
qed (auto simp: territory_fields_def)

definition bidder_data_ok :: "Bidder \<Rightarrow> bool" where
  "bidder_data_ok b = (small_uint (bidder_id b) \<and> text_ok (displayName b) \<and> principal_ok (bidder_principal b))"

definition bidder_fields :: "Bidder \<Rightarrow> (string \<times> json_value) list" where
  "bidder_fields b = [(''id'', uint_json (bidder_id b)), (''displayName'', JSONString (displayName b)),
     (''principal'', image_of principal_fields (bidder_principal b))]"

lemma principal_fields_names: "names_ok (principal_fields p)"
  by (simp add: principal_fields_def)

interpretation bidder: json_codec Bidder_toJsonObject Bidder_fromJsonObject bidder_fields bidder_data_ok 3
proof
  fix x :: Bidder and ob assume ok: "bidder_data_ok x"
  then have p: "principal_ok (bidder_principal x)" by (simp add: bidder_data_ok_def)
  show "writes (Bidder_toJsonObject x) (bidder_fields x)"
    unfolding Bidder_toJsonObject_def bidder_fields_def using ok
    by (intro json_write principal.nested_written) (auto simp: bidder_data_ok_def text_ok_def small_int)
  show "numbers_ok (JSONObject (bidder_fields x) 0) \<and> levels (JSONObject (bidder_fields x) 0) \<le> 3"
    using ok principal.images_printable(2,3) [OF p] by (simp add: bidder_fields_def bidder_data_ok_def small_int)
  assume h: "has_fields ob (bidder_fields x)"
  have "json_object_get_value ob (Some ''principal'') \<noteq> None"
    "Principal_fromJsonObject (json_value_get_object (json_object_get_value ob (Some ''principal''))) = Inr (Some (bidder_principal x))"
    using get_object_field [OF h _ _ principal_fields_names, of "''principal''" "bidder_principal x"] principal.read_back [OF p]
    by (simp_all add: bidder_fields_def image_of_def)
  then show "Bidder_fromJsonObject ob = Inr (Some x)"
    using ok read_string_field [OF h, of "''displayName''"] read_uint32_field [OF h, of "''id''" "bidder_id x"]
    by (simp add: Bidder_fromJsonObject_def bidder_fields_def bidder_data_ok_def codec_simps)
qed (auto simp: bidder_fields_def)

definition eligibility_ok :: "Eligibility \<Rightarrow> bool" where
  "eligibility_ok e = (small_uint (elig_bidderId e) \<and> small_uint (elig_number e))"

definition eligibility_fields :: "Eligibility \<Rightarrow> (string \<times> json_value) list" where
  "eligibility_fields e = [(''bidderId'', uint_json (elig_bidderId e)), (''number'', uint_json (elig_number e))]"

interpretation eligibility_codec: json_codec Eligibility_toJsonObject Eligibility_fromJsonObject eligibility_fields eligibility_ok 2
proof
  fix x :: Eligibility and ob assume ok: "eligibility_ok x"
  show "writes (Eligibility_toJsonObject x) (eligibility_fields x)"
    unfolding Eligibility_toJsonObject_def eligibility_fields_def using ok
    by (intro json_write) (auto simp: eligibility_ok_def small_int)
  show "numbers_ok (JSONObject (eligibility_fields x) 0) \<and> levels (JSONObject (eligibility_fields x) 0) \<le> 2"
    using ok by (simp add: eligibility_fields_def eligibility_ok_def small_int)
  assume h: "has_fields ob (eligibility_fields x)"
  show "Eligibility_fromJsonObject ob = Inr (Some x)"
    using ok read_uint32_field [OF h, of "''bidderId''" "elig_bidderId x"] read_uint32_field [OF h, of "''number''" "elig_number x"]
    by (simp add: Eligibility_fromJsonObject_def eligibility_fields_def eligibility_ok_def codec_simps)
qed (auto simp: eligibility_fields_def)

text \<open>A price that \<open>Demand::fromJsonObject\<close> reads: a whole number.\<close>

definition whole :: "double \<Rightarrow> bool" where
  "whole d = (case uint32_of_double d of Inr n \<Rightarrow> small_uint n \<and> d = double_of_int (int n) | Inl _ \<Rightarrow> False)"

lemma whole_iff: "whole d \<longleftrightarrow> (\<exists>n. small_uint n \<and> d = double_of_int (int n))"
  using uint32_exact(2) small_int(2) by (fastforce simp: whole_def split: sum.splits)

definition demand_writable :: "Demand \<Rightarrow> bool" where
  "demand_writable x = (small_uint (territoryId x) \<and> small_uint (quantity x) \<and> reads_back (price x))"

definition demand_data_ok :: "Demand \<Rightarrow> bool" where
  "demand_data_ok x = (demand_writable x \<and> whole (price x))"

definition demand_fields :: "Demand \<Rightarrow> (string \<times> json_value) list" where
  "demand_fields x = [(''terId'', uint_json (territoryId x)), (''qty'', uint_json (quantity x)), (''price'', JSONNumber (price x))]"

lemma demand_written:
  assumes "demand_writable x"
  shows "writes (Demand_toJsonObject x) (demand_fields x)" "numbers_ok (image_of demand_fields x)" "levels (image_of demand_fields x) \<le> 2"
    "distinct (map fst (demand_fields x))" "names_ok (demand_fields x)"
proof -
  show "writes (Demand_toJsonObject x) (demand_fields x)"
    unfolding Demand_toJsonObject_def demand_fields_def using assms
    by (intro json_write) (auto simp: demand_writable_def small_int)
qed (use assms in \<open>auto simp: demand_fields_def demand_writable_def small_int image_of_def\<close>)

interpretation demand_codec: json_codec Demand_toJsonObject Demand_fromJsonObject demand_fields demand_data_ok 2
proof
  fix x :: Demand and ob assume ok: "demand_data_ok x"
  then have w: "demand_writable x" by (simp add: demand_data_ok_def)
  show "writes (Demand_toJsonObject x) (demand_fields x)" by (rule demand_written(1) [OF w])
  show "distinct (map fst (demand_fields x)) \<and> names_ok (demand_fields x)" using demand_written(4,5) [OF w] by simp
  show "numbers_ok (JSONObject (demand_fields x) 0) \<and> levels (JSONObject (demand_fields x) 0) \<le> 2"
    using demand_written(2,3) [OF w] by (simp add: image_of_def)
  obtain n where n: "small_uint n" "price x = double_of_int (int n)" using ok by (auto simp: demand_data_ok_def whole_iff)
  assume h: "has_fields ob (demand_fields x)"
  show "Demand_fromJsonObject ob = Inr (Some x)"
    using w n read_uint32_field [OF h, of "''terId''" "territoryId x"] read_uint32_field [OF h, of "''qty''" "quantity x"]
      read_uint32_field [OF h, of "''price''" n]
    by (cases x) (simp add: Demand_fromJsonObject_def demand_fields_def demand_writable_def codec_simps)
qed

definition bid_writable :: "Bid \<Rightarrow> bool" where
  "bid_writable b = (small_uint (auctionId b) \<and> small_uint (bid_round b) \<and> list_all demand_writable (demands b))"

definition bid_data_ok :: "Bid \<Rightarrow> bool" where
  "bid_data_ok b = (small_uint (auctionId b) \<and> small_uint (bid_round b) \<and> (demands b = [] \<longrightarrow> auctionId b = 0) \<and> list_all demand_data_ok (demands b))"

lemma bid_data_writable: "bid_data_ok b \<Longrightarrow> bid_writable b"
  by (auto simp: bid_data_ok_def bid_writable_def demand_data_ok_def list_all_iff)

definition bid_fields :: "Bid \<Rightarrow> (string \<times> json_value) list" where
  "bid_fields b = [(''auctionId'', uint_json (auctionId b)), (''round'', uint_json (bid_round b)),
     (''bids'', JSONArray (map (image_of demand_fields) (demands b)) 0)]"

lemma bid_written:
  assumes "bid_writable b"
  shows "writes (Bid_toJsonObject b) (bid_fields b)" "numbers_ok (image_of bid_fields b)" "levels (image_of bid_fields b) \<le> 4"
    "distinct (map fst (bid_fields b))" "names_ok (bid_fields b)"
proof -
  have d: "demand_writable x" if "x \<in> set (demands b)" for x using assms that by (simp add: bid_writable_def list_all_iff)
  have "fills (fill_each (\<lambda>x. item_object (Demand_toJsonObject x)) (demands b)) (map (image_of demand_fields) (demands b))"
    unfolding image_of_def using d demand_written by (intro json_write) auto
  then show "writes (Bid_toJsonObject b) (bid_fields b)"
    unfolding Bid_toJsonObject_def bid_fields_def using assms
    by (intro one_field write_all_Nil put_int_writes put_array_writes) (auto simp: bid_writable_def small_int)
  have "levels (JSONArray (map (image_of demand_fields) (demands b)) 0) \<le> Suc 2"
    using d demand_written(3) by (intro list_levels) (auto simp: list_all_iff)
  moreover have "list_all numbers_ok (map (image_of demand_fields) (demands b))" using d demand_written(2) by (auto simp: list_all_iff)
  ultimately show "numbers_ok (image_of bid_fields b)" "levels (image_of bid_fields b) \<le> 4"
    using assms by (simp_all add: bid_fields_def bid_writable_def small_int image_of_def)
qed (simp_all add: bid_fields_def)

interpretation bid_codec: json_codec Bid_toJsonObject Bid_fromJsonObject bid_fields bid_data_ok 4
proof
  fix x :: Bid and ob assume ok: "bid_data_ok x"
  then have d: "list_all demand_data_ok (demands x)" by (simp add: bid_data_ok_def)
  note w = bid_written [OF bid_data_writable [OF ok]]
  show "writes (Bid_toJsonObject x) (bid_fields x)" by (rule w(1))
  show "distinct (map fst (bid_fields x)) \<and> names_ok (bid_fields x)" using w(4,5) by simp
  show "numbers_ok (JSONObject (bid_fields x) 0) \<and> levels (JSONObject (bid_fields x) 0) \<le> 4" using w(2,3) by (simp add: image_of_def)
  assume h: "has_fields ob (bid_fields x)"
  obtain ar where ar: "json_object_get_array ob (Some ''bids'') = Some ar" "map contents (items ar) = map (image_of demand_fields) (demands x)"
    by (rule get_array_field [OF h, of "''bids''"]) (auto simp: bid_fields_def)
  have "read_items (read_object_item Demand_fromJsonObject) (items ar) = Inr (Some (demands x))"
    by (rule read_items_all [OF ar(2)]) (use d demand_codec.item_read in \<open>auto simp: list_all_iff\<close>)
  moreover have "items ar = [] \<longleftrightarrow> demands x = []" using ar(2) by (metis map_is_Nil_conv)
  ultimately show "Bid_fromJsonObject ob = Inr (Some x)"
    using ok ar(1) read_uint32_field [OF h, of "''auctionId''" "auctionId x"] read_uint32_field [OF h, of "''round''" "bid_round x"]
    by (simp add: Bid_fromJsonObject_def bid_fields_def bid_data_ok_def codec_simps)
qed

section \<open>The states as codecs\<close>

lemma dless_ints: "x < 2 ^ 52 \<Longrightarrow> y < 2 ^ 52 \<Longrightarrow> dless (double_of_int (int x)) (double_of_int (int y)) \<longleftrightarrow> x < y"
proof -
  assume xy: "x < 2 ^ 52" "y < 2 ^ 52"
  obtain m e n d where a: "double_of_int (int x) = Finite False m e" "mag m e = (n, d)" "0 < d" "real n / real d = real x"
    using double_of_int_mag [OF xy(1)] by metis
  obtain m' e' n' d' where b: "double_of_int (int y) = Finite False m' e'" "mag m' e' = (n', d')" "0 < d'" "real n' / real d' = real y"
    using double_of_int_mag [OF xy(2)] by metis
  have "real n = real (x * d)" "real n' = real (y * d')" using a(3,4) b(3,4) by (auto simp: field_simps)
  then have "n = x * d" "n' = y * d'" using of_nat_eq_iff by blast+
  then have "n * d' < n' * d \<longleftrightarrow> x * (d * d') < y * (d * d')" by (simp add: ac_simps)
  also have "\<dots> \<longleftrightarrow> x < y" using a(3) b(3) by simp
  finally show ?thesis
    using a(1,2) b(1,2) by (simp add: with_sign_def flip: of_nat_mult)
qed

lemma dzero_int: "dzero = double_of_int 0"
  by (simp add: double_of_int_def round_to_double_def dzero_def)

lemma read_percentage_field:
  assumes h: "has_fields ob fs" and "nul_free k" "map_of fs k = Some (uint_json n)" "n < 2 ^ 32" "ok (double_of_int (int n))"
  shows "read_percentage k ok ob = Inr (Some n)"
  using get_number_field [OF h assms(2,3)] uint32_exact(2) [OF assms(4)] assms(5) by (simp add: read_percentage_def read_check_def)

definition static_ok :: "StaticAuctionState \<Rightarrow> bool" where
  "static_ok s = (principal_ok (owner s) \<and> text_ok (auction_name s) \<and> list_all territory_ok (territories s) \<and>
     list_all bidder_data_ok (bidders s) \<and> list_all eligibility_ok (initialEligibilities s) \<and>
     activityRequirementPercentage s \<le> 100 \<and> clockPriceIncrementPercentage s \<le> 100)"

definition static_fields :: "StaticAuctionState \<Rightarrow> (string \<times> json_value) list" where
  "static_fields s =
     [(''owner'', image_of principal_fields (owner s)), (''name'', JSONString (auction_name s)),
      (''territories'', JSONArray (map (image_of territory_fields) (territories s)) 0),
      (''bidders'', JSONArray (map (image_of bidder_fields) (bidders s)) 0),
      (''initialEligibilities'', JSONArray (map (image_of eligibility_fields) (initialEligibilities s)) 0),
      (''activityRequirementPercentage'', uint_json (activityRequirementPercentage s)),
      (''clockPriceIncrementPercentage'', uint_json (clockPriceIncrementPercentage s))]"

text \<open>The part that clients send, without the owner.\<close>

lemma static_from_fields:
  assumes ok: "static_ok x" and h: "has_fields ob (static_fields x)"
  shows "StaticAuctionState_fromJsonObject (new_static\<lparr>owner := p\<rparr>) ob = Inr (Some (x\<lparr>owner := p\<rparr>))"
proof -
  have pct: "n < 2 ^ 32" "\<not> dless (double_of_int (int n)) dzero" "\<not> dless (double_of_int 100) (double_of_int (int n))"
    if "n \<le> 100" for n
    using that dless_ints [of n 0] dless_ints [of 100 n] by (simp_all add: dzero_int)
  note arr = read_array_field [OF h, where g = "image_of territory_fields" and k = "''territories''" and xs = "territories x"]
    read_array_field [OF h, where g = "image_of bidder_fields" and k = "''bidders''" and xs = "bidders x"]
    read_array_field [OF h, where g = "image_of eligibility_fields" and k = "''initialEligibilities''" and xs = "initialEligibilities x"]
  have "read_array ''territories'' (read_object_item Territory_fromJsonObject) ob = Inr (Some (territories x))"
    "read_array ''bidders'' (read_object_item Bidder_fromJsonObject) ob = Inr (Some (bidders x))"
    "read_array ''initialEligibilities'' (read_object_item Eligibility_fromJsonObject) ob = Inr (Some (initialEligibilities x))"
    using ok by (intro arr territory.item_read bidder.item_read eligibility_codec.item_read; auto simp: static_fields_def static_ok_def list_all_iff)+
  moreover have "read_percentage ''activityRequirementPercentage'' (\<lambda>d. \<not> (dless d dzero \<or> dless (double_of_int 100) d)) ob
      = Inr (Some (activityRequirementPercentage x))"
    "read_percentage ''clockPriceIncrementPercentage'' (\<lambda>d. \<not> dless d dzero) ob = Inr (Some (clockPriceIncrementPercentage x))"
    using ok pct by (intro read_percentage_field [OF h]; auto simp: static_fields_def static_ok_def)+
  moreover have "read_string ''name'' ob = Inr (Some (auction_name x))"
    using ok by (intro read_string_field [OF h]) (auto simp: static_fields_def static_ok_def text_ok_def)
  moreover have "ob \<noteq> None" using h by (auto simp: has_fields_def)
  ultimately show ?thesis
    by (cases x) (simp add: StaticAuctionState_fromJsonObject_def read_check_def read_bind_def new_static_def)
qed

interpretation static_codec: json_codec StaticAuctionState_toJsonObject "fromExtendedJsonObject new_static" static_fields static_ok 6
proof
  fix x :: StaticAuctionState and ob assume ok: "static_ok x"
  then have p: "principal_ok (owner x)" and l: "list_all territory_ok (territories x)" "list_all bidder_data_ok (bidders x)"
    "list_all eligibility_ok (initialEligibilities x)"
    by (simp_all add: static_ok_def)
  show "writes (StaticAuctionState_toJsonObject x) (static_fields x)"
    unfolding StaticAuctionState_toJsonObject_def static_fields_def using ok
    by (intro json_write principal.nested_written territory.items_filled bidder.items_filled eligibility_codec.items_filled)
      (auto simp: static_ok_def text_ok_def)
  show "numbers_ok (JSONObject (static_fields x) 0) \<and> levels (JSONObject (static_fields x) 0) \<le> 6"
    using ok principal.images_printable(2,3) [OF p] territory.images_printable(1) [OF l(1)] territory.items_levels [OF l(1)]
      bidder.images_printable(1) [OF l(2)] bidder.items_levels [OF l(2)]
      eligibility_codec.images_printable(1) [OF l(3)] eligibility_codec.items_levels [OF l(3)] uint32_exact(1)
    by (simp add: static_fields_def static_ok_def list.pred_map)
  assume h: "has_fields ob (static_fields x)"
  have "json_object_get_value ob (Some ''owner'') \<noteq> None"
    "Principal_fromJsonObject (json_value_get_object (json_object_get_value ob (Some ''owner''))) = Inr (Some (owner x))"
    using get_object_field [OF h _ _ principal_fields_names, of "''owner''" "owner x"] principal.read_back [OF p]
    by (simp_all add: static_fields_def image_of_def)
  moreover have "ob \<noteq> None" using h by (auto simp: has_fields_def)
  ultimately show "fromExtendedJsonObject new_static ob = Inr (Some x)"
    using static_from_fields [OF ok h, of "owner x"] by (simp add: fromExtendedJsonObject_def read_check_def read_bind_def)
qed (auto simp: static_fields_def)

definition all_entries :: "('a \<Rightarrow> bool) \<Rightarrow> 'a list list \<Rightarrow> bool" where
  "all_entries P rows = list_all (list_all P) rows"

definition dynamic_writable :: "DynamicAuctionState \<Rightarrow> bool" where
  "dynamic_writable d = (small_uint (clockRound d) \<and>
     all_entries reads_back (postedPrice d) \<and> all_entries reads_back (clockPrice d) \<and>
     all_entries (\<lambda>n. n < 2 ^ 32) (eligibility d) \<and> all_entries bid_writable (clockBids d) \<and>
     list_all (all_entries (\<lambda>n. n < 2 ^ 32)) (processedLicenses d) \<and> all_entries int_range (excessDemand d) \<and>
     all_entries int_range (winAssign d) \<and> all_entries reads_back (assignCost d) \<and> all_entries reads_back (channelPrice d))"

definition dynamic_ok :: "DynamicAuctionState \<Rightarrow> bool" where
  "dynamic_ok d = (dynamic_writable d \<and> auctionState d \<noteq> STATE_UNDEFINED \<and> clockRound d \<noteq> 0 \<and> all_entries bid_data_ok (clockBids d))"

definition matrix_json :: "('a \<Rightarrow> json_value) \<Rightarrow> 'a list list \<Rightarrow> json_value" where
  "matrix_json f rows = JSONArray (map (\<lambda>row. JSONArray (map f row) 0) rows) 0"

definition dynamic_fields :: "DynamicAuctionState \<Rightarrow> (string \<times> json_value) list" where
  "dynamic_fields d =
     [(''state'', JSONString (AUCTION_STATE_STRINGS (auctionState d))), (''clockRound'', uint_json (clockRound d)),
      (''roundActive'', JSONBoolean (roundActive d)),
      (''postedPrice'', matrix_json JSONNumber (postedPrice d)), (''clockPrice'', matrix_json JSONNumber (clockPrice d)),
      (''eligibility'', matrix_json uint_json (eligibility d)), (''clockBids'', matrix_json (image_of bid_fields) (clockBids d)),
      (''processedLicenses'', JSONArray (map (matrix_json uint_json) (processedLicenses d)) 0),
      (''excessDemand'', matrix_json (\<lambda>i. JSONNumber (double_of_int i)) (excessDemand d)),
      (''winAssign'', matrix_json (\<lambda>i. JSONNumber (double_of_int i)) (winAssign d)),
      (''assignCost'', matrix_json JSONNumber (assignCost d)), (''channelPrice'', matrix_json JSONNumber (channelPrice d))]"

lemma matrix_filled:
  assumes "\<And>row x. row \<in> set rows \<Longrightarrow> x \<in> set row \<Longrightarrow> fills (f x) [g x]"
  shows "fills (fill_each (\<lambda>row. item_array (fill_each f row)) rows) (map (\<lambda>row. JSONArray (map g row) 0) rows)"
  using assms by (intro json_write) auto

lemma put_matrix_writes [json_write]:
  assumes "nul_free k" "all_entries (\<lambda>x. reads_back (f x)) rows"
  shows "writes (put_matrix k f rows) [(k, matrix_json (\<lambda>x. JSONNumber (f x)) rows)]"
  unfolding put_matrix_def matrix_json_def using assms canonical_reads_back
  by (intro put_array_writes matrix_filled json_write) (auto simp: all_entries_def list_all_iff)

lemma matrix_numbers [simp]: "numbers_ok (matrix_json f rows) \<longleftrightarrow> all_entries (\<lambda>x. numbers_ok (f x)) rows"
  by (auto simp: matrix_json_def all_entries_def list_all_iff)

lemma matrix_levels: "all_entries (\<lambda>x. levels (f x) \<le> n) rows \<Longrightarrow> levels (matrix_json f rows) \<le> Suc (Suc n)"
proof -
  assume "all_entries (\<lambda>x. levels (f x) \<le> n) rows"
  then have "levels (JSONArray (map f row) 0) \<le> Suc n" if "row \<in> set rows" for row
    using that by (intro list_levels) (auto simp: all_entries_def list_all_iff)
  then show ?thesis unfolding matrix_json_def by (intro list_levels) (simp add: list_all_iff)
qed

lemma matrix_field:
  assumes "has_fields ob fs" "nul_free k" "map_of fs k = Some (matrix_json (\<lambda>x. JSONNumber (g x)) rows)"
    and "all_entries (\<lambda>x. f (g x) = Inr x) rows"
  shows "read_matrix k f ob = Inr (Some rows)"
  using assms by (intro read_matrix_field [OF assms(1,2)]) (auto simp: matrix_json_def all_entries_def list_all_iff)

lemma text_ok_ascii: "list_all (\<lambda>c. c \<noteq> NUL \<and> byte c < 128) s \<Longrightarrow> text_ok s"
proof -
  assume a: "list_all (\<lambda>c. c \<noteq> NUL \<and> byte c < 128) s"
  then have "nul_free s" by (auto simp: nul_free_def list_all_iff)
  moreover have "is_valid_utf8 s (length s)" using a by (intro ascii_valid_utf8) (auto simp: list_all_iff)
  ultimately show ?thesis by (simp add: text_ok_def)
qed

lemma state_found [simp]: "map_of stateMap (AUCTION_STATE_STRINGS st) = Some st" "text_ok (AUCTION_STATE_STRINGS st)"
  by (cases st; simp add: stateMap_def) (cases st; intro text_ok_ascii; simp)

lemma all_entries_True [simp]: "all_entries (\<lambda>x. True) rows"
  by (simp add: all_entries_def list_all_iff)

lemma all_entries_mono: "all_entries P rows \<Longrightarrow> (\<And>x. P x \<Longrightarrow> Q x) \<Longrightarrow> all_entries Q rows"
  by (auto simp: all_entries_def list_all_iff)

lemma dynamic_writes:
  assumes ok: "dynamic_writable d"
  shows "writes (DynamicAuctionState_toJsonObject d) (dynamic_fields d)"
proof -
  have u: "all_entries (\<lambda>n. reads_back (double_of_int (int n))) rows" if "all_entries (\<lambda>n. n < 2 ^ 32) rows" for rows
    using that uint32_exact(1) by (rule all_entries_mono)
  have i: "all_entries (\<lambda>i. reads_back (double_of_int i)) rows" if "all_entries int_range rows" for rows
    using that double_of_int_exact(1) by (rule all_entries_mono)
  have bids: "writes (put_array ''clockBids'' (fill_each (\<lambda>row. item_array (fill_each (\<lambda>b. item_object (Bid_toJsonObject b)) row)) (clockBids d)))
      [(''clockBids'', matrix_json (image_of bid_fields) (clockBids d))]"
    unfolding matrix_json_def image_of_def using ok bid_written
    by (intro put_array_writes fill_each_fills item_array_fills item_object_fills) (auto simp: dynamic_writable_def all_entries_def list_all_iff)
  have lics: "writes (put_array ''processedLicenses'' (fill_each (\<lambda>rows. item_array (fill_each (\<lambda>row.
        item_array (fill_each (\<lambda>n. item_number (double_of_int (int n))) row)) rows)) (processedLicenses d)))
      [(''processedLicenses'', JSONArray (map (matrix_json uint_json) (processedLicenses d)) 0)]"
    unfolding matrix_json_def
  proof (intro put_array_writes fill_each_fills item_array_fills item_number_fills)
    fix rows row n assume "rows \<in> set (processedLicenses d)" "row \<in> set rows" "n \<in> set row"
    then have "n < 2 ^ 32" using ok by (auto simp: dynamic_writable_def all_entries_def list_all_iff)
    then show "canonical (double_of_int (int n))" "\<not> times_zero_nonzero (double_of_int (int n))"
      using uint32_exact(1) canonical_reads_back by blast+
  qed simp
  note m = put_matrix_writes [of _ id, unfolded id_def] put_matrix_writes [of _ "\<lambda>n. double_of_int (int n)", OF _ u]
    put_matrix_writes [of _ double_of_int, OF _ i]
  show ?thesis
    unfolding DynamicAuctionState_toJsonObject_def dynamic_fields_def id_def using ok state_found(2) [of "auctionState d"]
    by (intro one_field write_all_Nil put_text_writes put_int_writes put_boolean_writes m bids lics)
      (auto simp: dynamic_writable_def small_int text_ok_def)
qed

lemma dynamic_printable:
  assumes ok: "dynamic_writable d"
  shows "numbers_ok (JSONObject (dynamic_fields d) 0) \<and> levels (JSONObject (dynamic_fields d) 0) \<le> 8"
proof -
  have b: "all_entries (\<lambda>b. numbers_ok (image_of bid_fields b)) (clockBids d)" "all_entries (\<lambda>b. levels (image_of bid_fields b) \<le> 4) (clockBids d)"
    using ok bid_written(2,3) by (auto simp: dynamic_writable_def all_entries_def list_all_iff)
  have n: "levels (matrix_json (\<lambda>x. JSONNumber (f x)) rows) \<le> 3" for f :: "'a \<Rightarrow> double" and rows
    using matrix_levels [of "\<lambda>x. JSONNumber (f x)" 1 rows] by (simp add: all_entries_def list_all_iff)
  have p: "levels (matrix_json JSONNumber rows) \<le> 3" for rows using n [of "\<lambda>x. x" rows] by simp
  have l: "levels (JSONArray (map (matrix_json uint_json) (processedLicenses d)) 0) \<le> Suc 3"
    by (intro list_levels) (simp add: list_all_iff n)
  have bl: "levels (matrix_json (image_of bid_fields) (clockBids d)) \<le> 6" using matrix_levels [OF b(2)] by simp
  have u: "all_entries (\<lambda>n. numbers_ok (uint_json n)) rows" if "all_entries (\<lambda>n. n < 2 ^ 32) rows" for rows
    using that by (rule all_entries_mono) (simp add: uint32_exact(1))
  have i: "all_entries (\<lambda>i. numbers_ok (JSONNumber (double_of_int i))) rows" if "all_entries int_range rows" for rows
    using that by (rule all_entries_mono) (simp add: double_of_int_exact(1))
  have d: "all_entries (\<lambda>x. numbers_ok (JSONNumber x)) rows" if "all_entries reads_back rows" for rows
    using that by (rule all_entries_mono) simp
  have li: "list_all numbers_ok (map (matrix_json uint_json) (processedLicenses d))"
    using ok u by (auto simp: dynamic_writable_def list_all_iff)
  have max: "levels (JSONObject fs 0) \<le> Suc 7" if "list_all (\<lambda>f. levels (snd f) \<le> 7) fs" for fs
    using that foldr_max_le [of "map (\<lambda>f. levels (snd f)) fs" 7] by (auto simp: list_all_iff)
  have "levels (JSONObject (dynamic_fields d) 0) \<le> Suc 7"
    by (rule max) (use l bl in \<open>simp add: dynamic_fields_def order_trans [OF n] order_trans [OF p]\<close>)
  moreover have "numbers_ok (JSONObject (dynamic_fields d) 0)"
    using ok b(1) u i d li double_of_int_exact(1) [OF small_int(1)] by (simp add: dynamic_fields_def dynamic_writable_def)
  ultimately show ?thesis by simp
qed

lemma dynamic_from_fields:
  assumes ok: "dynamic_ok x" and h: "has_fields ob (dynamic_fields x)"
  shows "DynamicAuctionState_fromJsonObject (new_dynamic p e) ob = Inr (Some (x\<lparr>submitterPrincipal := p, er := e\<rparr>))"
proof -
  have u: "all_entries (\<lambda>n. uint32_of_double (double_of_int (int n)) = Inr n) rows" if "all_entries (\<lambda>n. n < 2 ^ 32) rows" for rows
    using that uint32_exact(2) by (rule all_entries_mono)
  have i: "all_entries (\<lambda>i. int_of_double (double_of_int i) = Inr i) rows" if "all_entries int_range rows" for rows
    using that double_of_int_exact(2) by (rule all_entries_mono)
  note oks = ok [unfolded dynamic_ok_def dynamic_writable_def]
  have prices: "read_matrix ''postedPrice'' Inr ob = Inr (Some (postedPrice x))" "read_matrix ''clockPrice'' Inr ob = Inr (Some (clockPrice x))"
    "read_matrix ''assignCost'' Inr ob = Inr (Some (assignCost x))" "read_matrix ''channelPrice'' Inr ob = Inr (Some (channelPrice x))"
    by (rule matrix_field [OF h, where g = "\<lambda>x. x"]; simp add: dynamic_fields_def)+
  have counts: "read_matrix ''eligibility'' uint32_of_double ob = Inr (Some (eligibility x))"
    using oks u by (intro matrix_field [OF h, where g = "\<lambda>n. double_of_int (int n)"]) (auto simp: dynamic_fields_def)
  have ints: "read_matrix ''excessDemand'' int_of_double ob = Inr (Some (excessDemand x))" "read_matrix ''winAssign'' int_of_double ob = Inr (Some (winAssign x))"
    using oks i by (intro matrix_field [OF h, where g = double_of_int]; auto simp: dynamic_fields_def)+
  have bids: "read_array ''clockBids'' (read_array_item (read_object_item Bid_fromJsonObject)) ob = Inr (Some (clockBids x))"
    using oks by (intro read_array_field [OF h, where g = "\<lambda>row. JSONArray (map (image_of bid_fields) row) 0"] read_array_item_all bid_codec.item_read)
      (auto simp: dynamic_fields_def matrix_json_def all_entries_def list_all_iff)
  have "read_array ''processedLicenses'' (read_array_item (read_array_item (number_item uint32_of_double))) ob = Inr (Some (processedLicenses x))"
  proof (rule read_array_field [OF h, where g = "matrix_json uint_json"])
    fix rows v assume rows: "rows \<in> set (processedLicenses x)" "contents v = matrix_json uint_json rows"
    have "all_entries (\<lambda>n. n < 2 ^ 32) rows" using oks rows(1) by (auto simp: list_all_iff)
    then have e: "uint32_of_double (double_of_int (int n)) = Inr n" if "row \<in> set rows" "n \<in> set row" for row n
      using u that by (auto simp: all_entries_def list_all_iff)
    show "read_array_item (read_array_item (number_item uint32_of_double)) v = Inr (Some rows)"
    proof (rule read_array_item_all [OF rows(2) [unfolded matrix_json_def]], rule read_array_item_all, assumption)
      fix row w n w' assume "row \<in> set rows" "n \<in> set row" "contents w' = uint_json n"
      then show "number_item uint32_of_double w' = Inr (Some n)" using number_item_read e by metis
    qed
  qed (simp_all add: dynamic_fields_def)
  moreover have "read_uint32 ''clockRound'' ob = Inr (Some (clockRound x))"
    using oks by (intro read_uint32_field [OF h]) (auto simp: dynamic_fields_def)
  moreover have "read_string ''state'' ob = Inr (Some (AUCTION_STATE_STRINGS (auctionState x)))"
    using state_found(2) [of "auctionState x"] by (intro read_string_field [OF h]) (auto simp: dynamic_fields_def text_ok_def)
  moreover have "json_object_has_value_of_type ob (Some ''state'') JSONString_t"
    by (rule has_string_field [OF h]) (auto simp: dynamic_fields_def)
  moreover have "json_object_get_boolean ob (Some ''roundActive'') = (if roundActive x then 1 else 0)"
    by (rule get_boolean_field [OF h]) (auto simp: dynamic_fields_def)
  ultimately show ?thesis
    using prices counts ints bids oks
    by (cases x) (simp add: DynamicAuctionState_fromJsonObject_def read_check_def read_bind_def new_dynamic_def Let_def)
qed

interpretation dynamic_codec: json_codec DynamicAuctionState_toJsonObject "DynamicAuctionState_fromJsonObject (new_dynamic p e)"
    dynamic_fields "\<lambda>d. dynamic_ok d \<and> submitterPrincipal d = p \<and> er d = e" 8 for p e
proof
  fix x :: DynamicAuctionState and ob assume ok: "dynamic_ok x \<and> submitterPrincipal x = p \<and> er x = e"
  show "writes (DynamicAuctionState_toJsonObject x) (dynamic_fields x)" using dynamic_writes ok by (simp add: dynamic_ok_def)
  show "numbers_ok (JSONObject (dynamic_fields x) 0) \<and> levels (JSONObject (dynamic_fields x) 0) \<le> 8"
    using dynamic_printable ok by (simp add: dynamic_ok_def)
  assume "has_fields ob (dynamic_fields x)"
  then show "DynamicAuctionState_fromJsonObject (new_dynamic p e) ob = Inr (Some x)"
    using dynamic_from_fields [of x ob p e] ok by (cases x) simp
qed (simp add: dynamic_fields_def)

end
