(* ===== verification/Shim_Store.thy ===== *)
theory Shim_Store
  imports Shim
begin

text \<open>
  Private state on a peer that keeps what it is given: an entry \<open>put_state\<close> wrote decrypts to the value,
  and \<open>get_state\<close> finds it. The clients of the shim are verified against these lemmas.
\<close>

section \<open>Sealed values\<close>

text \<open>A stored text that decrypts to a value.\<close>

definition sealed :: "sgx \<Rightarrow> string \<Rightarrow> string \<Rightarrow> bool" where
  "sealed sgx s val = (\<exists>cipher. s = base64_encode cipher \<and> length cipher = length val + 28 \<and>
     decrypt_state sgx state_encryption_key cipher (length val) = Inr (SGX_SUCCESS, val))"

lemma put_state_sealed:
  assumes "gcm_correct sgx"
  obtains s where "put_state sgx pr key val ctx = Inr (put_public_state pr key s (ctx\<lparr>rand_calls := Suc (rand_calls ctx)\<rparr>))"
    "sealed sgx s val"
proof -
  obtain cipher where c: "encrypt_state sgx state_encryption_key val (length val + 28) (rand_calls ctx) = Inr (0, cipher)"
    "length cipher = length val + 28" "decrypt_state sgx state_encryption_key cipher (length val) = Inr (0, val)"
    using encrypt_decrypt_state [OF assms] .
  show thesis
    by (rule that [of "base64_encode cipher"]) (use c in \<open>auto simp: put_state_def sealed_def add.commute add.left_commute\<close>)
qed

lemma get_state_sealed:
  assumes "sealed sgx s val" "length val \<le> max_val_len" "max_val_len \<le> length buf"
    and "ocall_get_state pr (u_shim_ctx ctx) (cstr key) ((max_val_len + 30) div 3 * 4) = (s, length s, cmac, w)"
  shows "\<exists>ctx1. get_state sgx pr key buf max_val_len ctx = Inr (val @ drop (length val) buf, length val, ctx1) \<and>
    u_shim_ctx ctx1 = w \<and> heap_mem ctx1 = heap_mem ctx"
proof -
  obtain cipher where c: "s = base64_encode cipher" "length cipher = length val + 28"
    "decrypt_state sgx state_encryption_key cipher (length val) = Inr (0, val)"
    using assms(1) by (auto simp: sealed_def)
  let ?n = "(max_val_len + 30) div 3 * 4"
  have len: "length s = (length val + 30) div 3 * 4" by (simp add: c)
  then have fits: "length s \<le> ?n" "length s \<noteq> 0" using assms(2) by (auto intro: mult_le_mono1 div_le_mono)
  obtain ctx1 where g: "get_public_state sgx pr key ?n ctx = Inr (fill ?n s, length s, ctx1)"
    "u_shim_ctx ctx1 = w" "heap_mem ctx1 = heap_mem ctx"
    using get_public_state_Inr [of sgx pr key ?n ctx "fill ?n s" "length s"] assms(4) fits(1) by fastforce
  have "base64_decode (take (length s) (fill ?n s)) = cipher" using fill_prefix [OF fits(1)] by (simp add: c(1))
  then show ?thesis
    unfolding get_state_after [OF g(1)] using fits(2) assms(2,3) c g by (simp add: Let_def fill_exact)
qed

lemma get_state_absent:
  assumes "ocall_get_state pr (u_shim_ctx ctx) (cstr key) ((max_val_len + 30) div 3 * 4) = ([], 0, cmac, w)"
  shows "\<exists>ctx1. get_state sgx pr key buf max_val_len ctx = Inr (buf, 0, ctx1) \<and> u_shim_ctx ctx1 = w \<and> heap_mem ctx1 = heap_mem ctx"
proof -
  let ?n = "(max_val_len + 30) div 3 * 4"
  obtain ctx1 where g: "get_public_state sgx pr key ?n ctx = Inr (fill ?n [], 0, ctx1)"
    "u_shim_ctx ctx1 = w" "heap_mem ctx1 = heap_mem ctx"
    using get_public_state_Inr [of sgx pr key ?n ctx "fill ?n []" 0] assms by fastforce
  then show ?thesis unfolding get_state_after [OF g(1)] by simp
qed

section \<open>A peer that keeps its entries\<close>

text \<open>A read returns the entry of the store, a write replaces it.\<close>

definition keeps_entries :: "'w peer \<Rightarrow> ('w \<Rightarrow> (string, string) std_map) \<Rightarrow> bool" where
  "keeps_entries pr store =
     ((\<forall>w k n. \<exists>cmac w'. ocall_get_state pr w k n =
          (case map_of (store w) k of None \<Rightarrow> ([], 0, cmac, w') | Some s \<Rightarrow> (s, length s, cmac, w')) \<and> store w' = store w) \<and>
      (\<forall>w k v. store (ocall_put_state pr w k v) = map_assign k v (store w)))"

lemma keeps_entries_get:
  assumes "keeps_entries pr store"
  obtains cmac w' where "ocall_get_state pr w k n =
      (case map_of (store w) k of None \<Rightarrow> ([], 0, cmac, w') | Some s \<Rightarrow> (s, length s, cmac, w'))" "store w' = store w"
  using assms unfolding keeps_entries_def by blast

lemma store_put_public:
  assumes "keeps_entries pr store"
  shows "store (u_shim_ctx (put_public_state pr key t ctx)) = map_assign (cstr key) t (store (u_shim_ctx ctx))"
    "heap_mem (put_public_state pr key t ctx) = heap_mem ctx"
  using assms by (simp_all add: keeps_entries_def put_public_state_def)

lemma put_sealed_store:
  assumes "gcm_correct sgx" "keeps_entries pr store" "nul_free key"
  obtains t ctx1 where "put_state sgx pr key val ctx = Inr ctx1" "sealed sgx t val"
    "store (u_shim_ctx ctx1) = map_assign key t (store (u_shim_ctx ctx))" "heap_mem ctx1 = heap_mem ctx"
proof -
  obtain t where "put_state sgx pr key val ctx = Inr (put_public_state pr key t (ctx\<lparr>rand_calls := Suc (rand_calls ctx)\<rparr>))"
    "sealed sgx t val"
    using put_state_sealed [OF assms(1)] .
  then show thesis using that store_put_public [OF assms(2)] assms(3) by simp
qed

lemma get_sealed_store:
  assumes "keeps_entries pr store" "nul_free key" "map_of (store (u_shim_ctx ctx)) key = Some t" "sealed sgx t val"
    and "length val \<le> max_val_len" "max_val_len \<le> length buf"
  obtains ctx1 where "get_state sgx pr key buf max_val_len ctx = Inr (val @ drop (length val) buf, length val, ctx1)"
    "store (u_shim_ctx ctx1) = store (u_shim_ctx ctx)" "heap_mem ctx1 = heap_mem ctx"
proof -
  obtain cmac w where "ocall_get_state pr (u_shim_ctx ctx) key ((max_val_len + 30) div 3 * 4) = (t, length t, cmac, w)"
    "store w = store (u_shim_ctx ctx)"
    using keeps_entries_get [OF assms(1), of "u_shim_ctx ctx" key "(max_val_len + 30) div 3 * 4"] assms(3) by auto
  then show thesis using get_state_sealed [OF assms(4-6), of pr ctx key cmac w] assms(2) that by auto
qed

text \<open>The sample peer is such a peer.\<close>

definition sample_store :: "(string, string) std_map \<Rightarrow> (string, string) std_map" where
  "sample_store m = m"

lemma sample_keeps: "keeps_entries sample_peer sample_store"
  by (auto simp: keeps_entries_def sample_peer_def sample_store_def split: option.splits)

end
