(* ===== verification/Spectrum_Store.thy ===== *)
theory Spectrum_Store
  imports Spectrum_Chaincode Spectrum_Codecs Shim_Store
begin

text \<open>
  The auctions of the spectrum chaincode on a peer that keeps its entries: strings under their two keys,
  the two documents of an auction, and \<open>holds_auctions\<close>, which relates the encrypted entries of the store
  to a map from identifiers to auctions. Storing and loading are shown to act on that map.
\<close>

section \<open>Strings\<close>

text \<open>The lengths that \<open>ledgerPrivateGetString\<close> accepts have at most nine digits.\<close>

definition storable :: "string \<Rightarrow> bool" where
  "storable t = (nul_free t \<and> length t + 1 < 10 ^ 9)"

definition holds_text :: "sgx \<Rightarrow> (string, string) std_map \<Rightarrow> string \<Rightarrow> string \<Rightarrow> bool" where
  "holds_text sgx m key t = (\<exists>sl sk.
     map_of m (key @ ''L'') = Some sl \<and> sealed sgx sl (nat_digits (length t + 1) @ [NUL]) \<and>
     map_of m (key @ ''K'') = Some sk \<and> sealed sgx sk (t @ [NUL]))"

lemma length_nat_digits_bound: "n < 10 ^ Suc k \<Longrightarrow> length (nat_digits n) \<le> Suc k"
proof (induction k arbitrary: n)
  case 0
  then show ?case by (simp add: nat_digits.simps)
next
  case (Suc k)
  then have "n div 10 < 10 ^ Suc k" by (simp add: less_mult_imp_div_less)
  from Suc.IH [OF this] show ?case by (subst nat_digits.simps) simp
qed

lemma storable_digits: "storable t \<Longrightarrow> length (nat_digits (length t + 1)) \<le> 9"
  using length_nat_digits_bound [of "length t + 1" 8] by (simp add: storable_def)

lemma stoul_digits:
  assumes "n < 2 ^ 64"
  shows "stoul (nat_digits n @ NUL # r) = Inr n"
proof -
  have d: "digits (nat_digits n)" "dec_val (nat_digits n) = n" "nat_digits n \<noteq> []" using nat_digits_props [of n] by auto
  obtain c cs where c: "nat_digits n = c # cs" using d(3) by (cases "nat_digits n") auto
  have "isdigit c" using d(1) c by simp
  then have s: "\<not> isspace c" "c \<noteq> CHR ''-''" "c \<noteq> CHR ''+''" by (auto simp: isdigit_def isspace_def)
  have t: "takeWhile isdigit cs = cs" using d(1) c by (simp add: takeWhile_eq_all_conv list_all_iff)
  have r: "cstr (nat_digits n @ NUL # r) = c # cs" using cstr_append_NUL(1) [OF nul_free_digits, of n r] by (simp only: c)
  show ?thesis unfolding stoul_def r using s d(2) c assms \<open>isdigit c\<close> by (simp add: t Let_def del: power_numeral)
qed

lemma put_string_holds:
  assumes "gcm_correct sgx" "keeps_entries pr store" "nul_free key" "storable t"
  obtains sl sk ctx1 where "ledgerPrivatePutString sgx pr key t ctx = Inr ctx1" "heap_mem ctx1 = heap_mem ctx"
    "store (u_shim_ctx ctx1) = map_assign (key @ ''K'') sk (map_assign (key @ ''L'') sl (store (u_shim_ctx ctx)))"
    "sealed sgx sl (nat_digits (length t + 1) @ [NUL])" "sealed sgx sk (t @ [NUL])"
proof -
  let ?n = "length t + 1"
  have n: "u32 (int (length t) + 1) = ?n" using assms(4) by (simp add: u32_def storable_def nat_add_distrib)
  have len: "length (nat_digits ?n) \<noteq> 0" "length (nat_digits ?n) \<le> 10"
    using nat_digits_props [of ?n] storable_digits [OF assms(4)] by auto
  obtain sl ctx1 where 1: "put_state sgx pr (key @ ''L'') (nat_digits ?n @ [NUL]) ctx = Inr ctx1" "sealed sgx sl (nat_digits ?n @ [NUL])"
    "store (u_shim_ctx ctx1) = map_assign (key @ ''L'') sl (store (u_shim_ctx ctx))" "heap_mem ctx1 = heap_mem ctx"
    by (rule put_sealed_store [OF assms(1,2), of "key @ ''L''"]) (use assms(3) in simp)
  obtain sk ctx2 where 2: "put_state sgx pr (key @ ''K'') (t @ [NUL]) ctx1 = Inr ctx2" "sealed sgx sk (t @ [NUL])"
    "store (u_shim_ctx ctx2) = map_assign (key @ ''K'') sk (store (u_shim_ctx ctx1))" "heap_mem ctx2 = heap_mem ctx1"
    by (rule put_sealed_store [OF assms(1,2), of "key @ ''K''"]) (use assms(3) in simp)
  have "ledgerPrivatePutString sgx pr key t ctx = Inr ctx2"
    using 1(1) 2(1) len by (simp add: ledgerPrivatePutString_def n Let_def MAX_LENGTH_STRING_SIZE_def)
  then show thesis using 1 2 by (intro that) simp_all
qed

lemma get_string_holds:
  assumes "keeps_entries pr store" "nul_free key" "storable t" "holds_text sgx (store (u_shim_ctx ctx)) key t"
  obtains ctx1 where "ledgerPrivateGetString sgx pr junk key ctx = Inr (Some t, ctx1)"
    "store (u_shim_ctx ctx1) = store (u_shim_ctx ctx)" "heap_mem ctx1 = heap_mem ctx"
proof -
  let ?n = "length t + 1" and ?ds = "nat_digits (length t + 1)"
  obtain sl sk where m: "map_of (store (u_shim_ctx ctx)) (key @ ''L'') = Some sl" "sealed sgx sl (?ds @ [NUL])"
    "map_of (store (u_shim_ctx ctx)) (key @ ''K'') = Some sk" "sealed sgx sk (t @ [NUL])"
    using assms(4) by (auto simp: holds_text_def)
  have n: "?n < 2 ^ 32" "nul_free t" using assms(3) by (simp_all add: storable_def)
  obtain ctx1 where 1: "get_state sgx pr (key @ ''L'') (fill 11 junk) 11 ctx =
      Inr ((?ds @ [NUL]) @ drop (length (?ds @ [NUL])) (fill 11 junk), length (?ds @ [NUL]), ctx1)"
    "store (u_shim_ctx ctx1) = store (u_shim_ctx ctx)" "heap_mem ctx1 = heap_mem ctx"
    by (rule get_sealed_store [OF assms(1) _ m(1,2), of 11 "fill 11 junk"]) (use assms(2) storable_digits [OF assms(3)] in simp_all)
  obtain ctx2 where 2: "get_state sgx pr (key @ ''K'') (fill ?n junk) ?n ctx1 =
      Inr ((t @ [NUL]) @ drop (length (t @ [NUL])) (fill ?n junk), length (t @ [NUL]), ctx2)"
    "store (u_shim_ctx ctx2) = store (u_shim_ctx ctx1)" "heap_mem ctx2 = heap_mem ctx1"
    by (rule get_sealed_store [OF assms(1), of "key @ ''K''" ctx1 sk sgx "t @ [NUL]" ?n "fill ?n junk"]) (use assms(2) m(3,4) 1(2) in simp_all)
  have s: "stoul (?ds @ NUL # r) = Inr ?n" for r by (rule stoul_digits) (use n in simp)
  have "ledgerPrivateGetString sgx pr junk key ctx = Inr (Some t, ctx2)"
    using 1(1) 2(1) s n storable_digits [OF assms(3)]
    by (simp add: ledgerPrivateGetString_def MAX_LENGTH_STRING_SIZE_def Let_def nth_append cstr_append_NUL del: power_numeral)
  then show thesis using 1 2 that by simp
qed

section \<open>Documents\<close>

definition static_text :: "StaticAuctionState \<Rightarrow> string" where
  "static_text s = json_text False 0 (image_of static_fields s)"

definition dynamic_text :: "DynamicAuctionState \<Rightarrow> string" where
  "dynamic_text d = json_text False 0 (image_of dynamic_fields d)"

text \<open>States that can be written to the ledger, and those that survive the trip.\<close>

definition state_writable :: "StaticAuctionState \<Rightarrow> DynamicAuctionState \<Rightarrow> bool" where
  "state_writable s d = (static_ok s \<and> dynamic_writable d \<and> length (static_text s) + 1 < 10 ^ 9 \<and> length (dynamic_text d) + 1 < 10 ^ 9)"

definition state_ok :: "StaticAuctionState \<Rightarrow> DynamicAuctionState \<Rightarrow> bool" where
  "state_ok s d = (state_writable s d \<and> dynamic_ok d)"

lemma state_ok_writable: "state_ok s d \<Longrightarrow> state_writable s d"
  by (simp add: state_ok_def)

lemma writes_assigned:
  assumes "writes w fs" "distinct (map fst fs)" "plenty h"
  obtains h' where "assign_document old w h = Inr (json_text False 0 (JSONObject fs 0), h')" "plenty h'"
  using writes_document [OF assms] that by (auto simp: assign_document_def run_bind_eq_Inr split: prod.splits)

lemma writes_nul_free: "writes w fs \<Longrightarrow> distinct (map fst fs) \<Longrightarrow> nul_free (json_text False 0 (JSONObject fs 0))"
proof -
  assume w: "writes w fs" "distinct (map fst fs)"
  have "plenty \<lparr>answers = [], live = 0\<rparr>" by (simp add: plenty_def)
  from new_object [OF w this] obtain b where b: "wf_object b" "fields_of (pairs b) = fs" by metis
  then have "contents (JSONObject_of b) = JSONObject fs 0" by (simp add: contents_object_of)
  then show ?thesis using nul_free_json_text(1) [OF b(1)] json_text_contents(1) [of False 0 "JSONObject_of b"] by simp
qed

context json_codec begin

lemma image_text_nul_free: "ok x \<Longrightarrow> nul_free (json_text False 0 (image_of flds x))"
  unfolding image_of_def using writes_nul_free [OF written] names by blast

lemma image_text_nonempty: "json_text False 0 (image_of flds x) \<noteq> []"
  by (simp add: image_of_def)

lemma document_assigned:
  assumes "ok x" "plenty h"
  obtains h' where "assign_document old (to_json x) h = Inr (json_text False 0 (image_of flds x), h')" "plenty h'"
  unfolding image_of_def using writes_assigned [OF written [OF assms(1)] _ assms(2)] names [OF assms(1)] by blast

text \<open>A document that the store holds is loaded.\<close>

lemma document_loaded:
  assumes "ok x" "depth \<le> 2049" "keeps_entries pr store" "nul_free key" "plenty (heap_mem ctx)"
    and "length (json_text False 0 (image_of flds x)) + 1 < 10 ^ 9"
    and "holds_text sgx (store (u_shim_ctx ctx)) key (json_text False 0 (image_of flds x))"
  obtains ctx1 where "load_document sgx pr junk key of_json ctx = Inr (Some x, ctx1)"
    "store (u_shim_ctx ctx1) = store (u_shim_ctx ctx)" "plenty (heap_mem ctx1)"
proof -
  let ?t = "json_text False 0 (image_of flds x)"
  have "storable ?t" using image_text_nul_free [OF assms(1)] assms(6) by (simp add: storable_def)
  from get_string_holds [OF assms(3,4) this assms(7)] obtain ctx1 where 1: "ledgerPrivateGetString sgx pr junk key ctx = Inr (Some ?t, ctx1)"
    "store (u_shim_ctx ctx1) = store (u_shim_ctx ctx)" "heap_mem ctx1 = heap_mem ctx" by metis
  have "plenty (heap_mem ctx1)" using 1(3) assms(5) by simp
  from document_read [OF assms(1) this assms(2)] obtain ob h' where 2: "openJsonObject (Some ?t) (heap_mem ctx1) = Inr (Some ob, h')"
    "plenty h'" "of_json (Some ob) = Inr (Some x)" by blast
  show thesis
    by (rule that [of "ctx1\<lparr>heap_mem := json_value_free (JSONObject_of ob) h'\<rparr>"])
      (use 1 2 image_text_nonempty [of x] in \<open>simp_all add: load_document_def closeJsonObject_def json_object_get_wrapping_value_def plenty_def\<close>)
qed

end

lemma nul_free_state_key [simp]: "nul_free suffix \<Longrightarrow> nul_free (state_key a suffix)"
  by (simp add: state_key_def)

text \<open>The four entries of an auction.\<close>

definition static_key :: "nat \<Rightarrow> string" where
  "static_key a = state_key a ''.staticAuctionState''"

definition dynamic_key :: "nat \<Rightarrow> string" where
  "dynamic_key a = state_key a ''.dynamicAuctionState''"

definition holds_state :: "sgx \<Rightarrow> (string, string) std_map \<Rightarrow> nat \<Rightarrow> StaticAuctionState \<Rightarrow> DynamicAuctionState \<Rightarrow> bool" where
  "holds_state sgx m a s d = (holds_text sgx m (static_key a) (static_text s) \<and> holds_text sgx m (dynamic_key a) (dynamic_text d))"

text \<open>The entries of auctions do not meet.\<close>

lemma digits_dot: "nat_digits a @ CHR ''.'' # r = nat_digits b @ CHR ''.'' # r' \<longleftrightarrow> a = b \<and> r = r'"
proof
  have t: "takeWhile isdigit (nat_digits n @ CHR ''.'' # q) = nat_digits n" for n q
    using nat_digits_props [of n] by (simp add: takeWhile_append2 list_all_iff isdigit_def)
  assume eq: "nat_digits a @ CHR ''.'' # r = nat_digits b @ CHR ''.'' # r'"
  then have "nat_digits a = nat_digits b" using t by metis
  then have "a = b" using nat_digits_props by metis
  then show "a = b \<and> r = r'" using eq by simp
qed simp

lemma state_keys [simp]:
  "static_key a @ x = static_key b @ y \<longleftrightarrow> a = b \<and> x = y" "dynamic_key a @ x = dynamic_key b @ y \<longleftrightarrow> a = b \<and> x = y"
  "static_key a @ x \<noteq> dynamic_key b @ y" "dynamic_key b @ y \<noteq> static_key a @ x"
  "static_key a @ x \<noteq> AUCTION_ID_COUNTER_STRING" "dynamic_key a @ x \<noteq> AUCTION_ID_COUNTER_STRING"
  "nul_free (static_key a)" "nul_free (dynamic_key a)"
  using digits_dot [of a "''staticAuctionState'' @ x" b "''dynamicAuctionState'' @ y"]
  by (auto simp: static_key_def dynamic_key_def state_key_def digits_dot AUCTION_ID_COUNTER_STRING_def)

lemma state_keys_apart [simp]:
  "static_key a = static_key b \<longleftrightarrow> a = b" "dynamic_key a = dynamic_key b \<longleftrightarrow> a = b" "static_key a \<noteq> dynamic_key b" "dynamic_key b \<noteq> static_key a"
  using state_keys(1-4) [of a "[]" b "[]"] state_keys(3,4) [of b "[]" a "[]"] by auto

lemma counter_key_apart [simp]: "AUCTION_ID_COUNTER_STRING \<noteq> static_key a @ x" "AUCTION_ID_COUNTER_STRING \<noteq> dynamic_key a @ x"
  using state_keys(5,6) by metis+

definition entries_of :: "nat \<Rightarrow> string set" where
  "entries_of a = {static_key a @ ''L'', static_key a @ ''K'', dynamic_key a @ ''L'', dynamic_key a @ ''K''}"

lemma holds_text_cong:
  "map_of m' (key @ ''L'') = map_of m (key @ ''L'') \<Longrightarrow> map_of m' (key @ ''K'') = map_of m (key @ ''K'') \<Longrightarrow>
     holds_text sgx m' key t = holds_text sgx m key t"
  by (simp add: holds_text_def)

lemma holds_state_cong:
  assumes "\<And>k. k \<in> entries_of a \<Longrightarrow> map_of m' k = map_of m k"
  shows "holds_state sgx m' a s d = holds_state sgx m a s d"
  using assms by (simp add: holds_state_def entries_of_def holds_text_def)

lemma entries_of_apart: "a \<noteq> b \<Longrightarrow> k \<in> entries_of a \<Longrightarrow> k \<notin> entries_of b" "AUCTION_ID_COUNTER_STRING \<notin> entries_of a"
  by (auto simp: entries_of_def)

section \<open>The map of auctions\<close>

type_synonym auctions = "nat \<rightharpoonup> StaticAuctionState \<times> DynamicAuctionState"

definition holds_auctions :: "sgx \<Rightarrow> (string, string) std_map \<Rightarrow> auctions \<Rightarrow> bool" where
  "holds_auctions sgx m A = (map_wf m \<and> (\<forall>a s d. A a = Some (s, d) \<longrightarrow> state_ok s d \<and> holds_state sgx m a s d))"

lemma dynamic_fields_names: "distinct (map fst (dynamic_fields d))" "names_ok (dynamic_fields d)"
  by (simp_all add: dynamic_fields_def)

lemma storeAuctionState_holds:
  assumes "gcm_correct sgx" "keeps_entries pr store" "plenty (heap_mem ctx)" "state_writable s d" "map_wf (store (u_shim_ctx ctx))"
  obtains ctx1 where "storeAuctionState sgx pr a s d ctx = Inr ctx1" "plenty (heap_mem ctx1)" "map_wf (store (u_shim_ctx ctx1))"
    "holds_state sgx (store (u_shim_ctx ctx1)) a s d"
    "\<And>k. k \<notin> entries_of a \<Longrightarrow> map_of (store (u_shim_ctx ctx1)) k = map_of (store (u_shim_ctx ctx)) k"
proof -
  have ok: "static_ok s" "dynamic_writable d" using assms(4) by (auto simp: state_writable_def)
  note dw = dynamic_writes [OF ok(2)] dynamic_fields_names(1) [of d]
  have st: "storable (static_text s)" "storable (dynamic_text d)"
    using static_codec.image_text_nul_free [OF ok(1)] writes_nul_free [OF dw] assms(4)
    by (auto simp: state_writable_def storable_def static_text_def dynamic_text_def image_of_def)
  obtain h1 where 1: "toStaticAuctionStateJson s (heap_mem ctx) = Inr (static_text s, h1)" "plenty h1"
    using static_codec.document_assigned [OF ok(1) assms(3)] unfolding toStaticAuctionStateJson_def to_document_def static_text_def by metis
  obtain sl sk ctx1 where 2: "ledgerPrivatePutString sgx pr (static_key a) (static_text s) (ctx\<lparr>heap_mem := h1\<rparr>) = Inr ctx1"
    "heap_mem ctx1 = h1" "store (u_shim_ctx ctx1) = map_assign (static_key a @ ''K'') sk (map_assign (static_key a @ ''L'') sl (store (u_shim_ctx ctx)))"
    "sealed sgx sl (nat_digits (length (static_text s) + 1) @ [NUL])" "sealed sgx sk (static_text s @ [NUL])"
    by (rule put_string_holds [OF assms(1,2) state_keys(7) st(1), of a "ctx\<lparr>heap_mem := h1\<rparr>"]) simp
  have h: "plenty (heap_mem ctx1)" using 1(2) 2(2) by simp
  obtain h2 where 3: "toDynamicAuctionStateJson d (heap_mem ctx1) = Inr (dynamic_text d, h2)" "plenty h2"
    using writes_assigned [OF dw h] unfolding toDynamicAuctionStateJson_def to_document_def dynamic_text_def image_of_def by metis
  obtain dl dk ctx2 where 4: "ledgerPrivatePutString sgx pr (dynamic_key a) (dynamic_text d) (ctx1\<lparr>heap_mem := h2\<rparr>) = Inr ctx2"
    "heap_mem ctx2 = h2" "store (u_shim_ctx ctx2) = map_assign (dynamic_key a @ ''K'') dk (map_assign (dynamic_key a @ ''L'') dl (store (u_shim_ctx ctx1)))"
    "sealed sgx dl (nat_digits (length (dynamic_text d) + 1) @ [NUL])" "sealed sgx dk (dynamic_text d @ [NUL])"
    by (rule put_string_holds [OF assms(1,2) state_keys(8) st(2), of a "ctx1\<lparr>heap_mem := h2\<rparr>"]) simp
  have wf: "map_wf (store (u_shim_ctx ctx1))" "map_wf (store (u_shim_ctx ctx2))" using assms(5) 2(3) 4(3) by (simp_all add: map_wf_assign)
  have m1: "map_of (store (u_shim_ctx ctx1)) = (map_of (store (u_shim_ctx ctx)))(static_key a @ ''L'' \<mapsto> sl, static_key a @ ''K'' \<mapsto> sk)"
    using assms(5) 2(3) by (simp add: map_of_map_assign map_wf_assign)
  have m2: "map_of (store (u_shim_ctx ctx2)) = (map_of (store (u_shim_ctx ctx1)))(dynamic_key a @ ''L'' \<mapsto> dl, dynamic_key a @ ''K'' \<mapsto> dk)"
    using wf(1) 4(3) by (simp add: map_of_map_assign map_wf_assign)
  show thesis
  proof (rule that [of ctx2])
    show "storeAuctionState sgx pr a s d ctx = Inr ctx2"
      using 1(1) 2(1) 3(1) 4(1) by (simp add: storeAuctionState_def static_key_def dynamic_key_def)
    show "holds_state sgx (store (u_shim_ctx ctx2)) a s d"
      using 2(4,5) 4(4,5) by (simp add: holds_state_def holds_text_def m2 m1)
  qed (use 3(2) 4(2) wf in \<open>auto simp: m2 m1 entries_of_def\<close>)
qed

lemma loadAuctionState_holds:
  assumes "keeps_entries pr store" "plenty (heap_mem ctx)" "state_ok s d" "holds_state sgx (store (u_shim_ctx ctx)) a s d"
  obtains ctx1 where "loadAuctionState sgx pr junk a new_static (new_dynamic p e) ctx = Inr (Some (s, d\<lparr>submitterPrincipal := p, er := e\<rparr>), ctx1)"
    "store (u_shim_ctx ctx1) = store (u_shim_ctx ctx)" "plenty (heap_mem ctx1)"
proof -
  let ?d = "d\<lparr>submitterPrincipal := p, er := e\<rparr>"
  have f: "dynamic_fields ?d = dynamic_fields d" by (simp add: dynamic_fields_def)
  have ok: "static_ok s" "dynamic_ok ?d \<and> submitterPrincipal ?d = p \<and> er ?d = e" using assms(3) by (auto simp: state_ok_def state_writable_def dynamic_ok_def dynamic_writable_def)
  have t: "json_text False 0 (image_of dynamic_fields ?d) = dynamic_text d" by (simp add: dynamic_text_def image_of_def f)
  have l: "length (json_text False 0 (image_of static_fields s)) + 1 < 10 ^ 9" "length (json_text False 0 (image_of dynamic_fields ?d)) + 1 < 10 ^ 9"
    using assms(3) by (simp_all add: state_ok_def state_writable_def static_text_def t)
  have hs: "holds_text sgx (store (u_shim_ctx ctx)) (static_key a) (json_text False 0 (image_of static_fields s))"
    and hd: "holds_text sgx (store (u_shim_ctx ctx)) (dynamic_key a) (json_text False 0 (image_of dynamic_fields ?d))"
    using assms(4) t by (simp_all add: holds_state_def static_text_def)
  obtain ctx1 where 1: "load_document sgx pr junk (static_key a) (fromExtendedJsonObject new_static) ctx = Inr (Some s, ctx1)"
    "store (u_shim_ctx ctx1) = store (u_shim_ctx ctx)" "plenty (heap_mem ctx1)"
    by (rule static_codec.document_loaded [OF ok(1) _ assms(1) state_keys(7) assms(2) l(1) hs]) simp
  have hd1: "holds_text sgx (store (u_shim_ctx ctx1)) (dynamic_key a) (json_text False 0 (image_of dynamic_fields ?d))" using hd 1(2) by simp
  obtain ctx2 where 2: "load_document sgx pr junk (dynamic_key a) (DynamicAuctionState_fromJsonObject (new_dynamic p e)) ctx1 = Inr (Some ?d, ctx2)"
    "store (u_shim_ctx ctx2) = store (u_shim_ctx ctx1)" "plenty (heap_mem ctx2)"
    by (rule dynamic_codec.document_loaded [OF ok(2) _ assms(1) state_keys(8) 1(3) l(2) hd1]) simp
  show thesis
    by (rule that [of ctx2]) (use 1 2 in \<open>simp_all add: loadAuctionState_def flip: static_key_def dynamic_key_def\<close>)
qed

lemma holds_auctions_update:
  assumes "holds_auctions sgx m A" "map_wf m'" "state_ok s d" "holds_state sgx m' a s d"
    and "\<And>k. k \<notin> entries_of a \<Longrightarrow> map_of m' k = map_of m k"
  shows "holds_auctions sgx m' (A(a \<mapsto> (s, d)))"
  unfolding holds_auctions_def
proof (intro conjI allI impI)
  fix b s' d' assume b: "(A(a \<mapsto> (s, d))) b = Some (s', d')"
  show "state_ok s' d'" using b assms(1,3) by (auto simp: holds_auctions_def split: if_splits)
  show "holds_state sgx m' b s' d'"
  proof (cases "b = a")
    case False
    then have "holds_state sgx m b s' d'" using b assms(1) by (simp add: holds_auctions_def)
    moreover have "map_of m' k = map_of m k" if "k \<in> entries_of b" for k using assms(5) entries_of_apart(1) [OF False that] by simp
    ultimately show ?thesis using holds_state_cong [of b m' m] by simp
  qed (use b assms(4) in auto)
qed (rule assms(2))

end
