(* ===== verification/Spectrum_Api.thy ===== *)
theory Spectrum_Api
  imports Spectrum_Store
begin

text \<open>
  The transactions of the spectrum chaincode on a peer that keeps its entries: a request that names an
  auction of the ledger runs the transaction of the model on the state of that auction, with the
  submitter of the request. After an error the ledger is as before; after success it holds the
  new state and every other auction as before.
\<close>

section \<open>Requests and answers\<close>

definition request_fields :: "nat \<Rightarrow> (string \<times> json_value) list" where
  "request_fields a = [(''auctionId'', uint_json a)]"

definition request_text :: "nat \<Rightarrow> string" where
  "request_text a = json_text False 0 (image_of request_fields a)"

interpretation request: json_codec "\<lambda>a. put_int ''auctionId'' (int a)" "read_uint32 ''auctionId''" request_fields small_uint 2
proof
  fix a ob assume ok: "small_uint a"
  show "writes (put_int ''auctionId'' (int a)) (request_fields a)"
    unfolding request_fields_def using ok by (intro json_write) (auto simp: small_int)
  show "numbers_ok (JSONObject (request_fields a) 0) \<and> levels (JSONObject (request_fields a) 0) \<le> 2"
    using ok by (simp add: request_fields_def small_int)
  assume "has_fields ob (request_fields a)"
  then show "read_uint32 ''auctionId'' ob = Inr (Some a)"
    using ok by (intro read_uint32_field) (auto simp: request_fields_def)
qed (simp add: request_fields_def)

lemma from_auctionId_request:
  assumes "small_uint a" "plenty h"
  obtains h' where "from_auctionId (request_text a) h = Inr (if a = 0 then None else Some a, h')" "plenty h'"
proof -
  obtain ob h' where ob: "openJsonObject (Some (request_text a)) h = Inr (Some ob, h')" "plenty h'" "has_fields (Some ob) (request_fields a)"
    using request.document_read [OF assms] unfolding request_text_def by auto
  have "cstr (request_text a) = request_text a"
    using request.image_text_nul_free [OF assms(1)] by (simp add: request_text_def)
  moreover have "json_object_get_number (Some ob) (Some ''auctionId'') = double_of_int (int a)"
    by (rule get_number_field [OF ob(3)]) (simp_all add: request_fields_def)
  moreover have "uint32_of_double (double_of_int (int a)) = Inr a" using uint32_exact(2) small_int(2) [OF assms(1)] by blast
  ultimately show thesis
    using ob(1,2) by (intro that [of "json_value_free (JSONObject_of ob) h'"])
      (simp_all add: from_auctionId_def closeJsonObject_def json_object_get_wrapping_value_def plenty_def)
qed

lemma fromSubmitClockBid_request:
  assumes "bid_data_ok b" "plenty h"
  obtains h' where "fromSubmitClockBidJson (json_text False 0 (image_of bid_fields b)) h = Inr (Some b, h')" "plenty h'"
proof -
  let ?t = "json_text False 0 (image_of bid_fields b)"
  obtain ob h' where ob: "openJsonObject (Some ?t) h = Inr (Some ob, h')" "plenty h'" "Bid_fromJsonObject (Some ob) = Inr (Some b)"
    using bid_codec.document_read [OF assms] by auto
  have "cstr ?t = ?t" using bid_codec.image_text_nul_free [OF assms(1)] by simp
  then show thesis
    using ob by (intro that [of "json_value_free (JSONObject_of ob) h'"])
      (simp_all add: fromSubmitClockBidJson_def closeJsonObject_def json_object_get_wrapping_value_def plenty_def)
qed

lemma fromCreateAuction_request:
  assumes "static_ok s" "plenty h"
  obtains h' where "fromCreateAuctionJson new_static (static_text s) h = Inr (Some (s\<lparr>owner := \<lparr>mspId = [], dn = []\<rparr>\<rparr>), h')" "plenty h'"
proof -
  obtain ob h' where ob: "openJsonObject (Some (static_text s)) h = Inr (Some ob, h')" "plenty h'" "has_fields (Some ob) (static_fields s)"
    using static_codec.document_read [OF assms] unfolding static_text_def by auto
  have "new_static\<lparr>owner := \<lparr>mspId = [], dn = []\<rparr>\<rparr> = new_static" by (simp add: new_static_def)
  then have r: "StaticAuctionState_fromJsonObject new_static (Some ob) = Inr (Some (s\<lparr>owner := \<lparr>mspId = [], dn = []\<rparr>\<rparr>))"
    using static_from_fields [OF assms(1) ob(3), of "\<lparr>mspId = [], dn = []\<rparr>"] by simp
  have "cstr (static_text s) = static_text s"
    using static_codec.image_text_nul_free [OF assms(1)] by (simp add: static_text_def)
  then show thesis
    using ob(1,2) r by (intro that [of "json_value_free (JSONObject_of ob) h'"])
      (simp_all add: fromCreateAuctionJson_def closeJsonObject_def json_object_get_wrapping_value_def plenty_def)
qed

definition status_fields :: "int \<Rightarrow> string \<Rightarrow> (string \<times> json_value) list" where
  "status_fields rc message = [(''status'', JSONObject [(''rc'', JSONNumber (double_of_int rc)), (''message'', JSONString message)] 0)]"

lemma status_writes:
  assumes "int_range rc" "text_ok message"
  shows "writes (toWrappedStatusJsonObject rc message) (status_fields rc message)"
  unfolding toWrappedStatusJsonObject_def toStatusJsonObject_def status_fields_def using assms
  by (intro json_write) (auto simp: text_ok_def)

definition answer_text :: "string \<Rightarrow> string" where
  "answer_text message = json_text False 0 (JSONObject (status_fields 0 message) 0)"

lemma answer_status:
  assumes "text_ok message" "plenty (heap_mem ctx)"
  obtains h where "answer_with (status_message 0 message) ctx = Inr (Inr (answer_text message), ctx\<lparr>heap_mem := h\<rparr>)" "plenty h"
proof -
  have w: "writes (toWrappedStatusJsonObject 0 message) (status_fields 0 message)"
    using assms(1) by (intro status_writes) (simp add: int_range_def)
  obtain h where "assign_document [] (toWrappedStatusJsonObject 0 message) (heap_mem ctx) = Inr (answer_text message, h)" "plenty h"
    using writes_assigned [OF w _ assms(2), of "[]"] unfolding answer_text_def by (auto simp: status_fields_def)
  then show thesis using that by (simp add: answer_with_def status_message_def to_document_def)
qed

definition created_text :: "nat \<Rightarrow> string" where
  "created_text a = json_text False 0 (JSONObject (status_fields 0 ''Auction created'' @ [(''response'', image_of request_fields a)]) 0)"

lemma answer_created:
  assumes "small_uint a" "plenty (heap_mem ctx)"
  obtains h where "answer_with (toCreateAuctionJson 0 ''Auction created'' a) ctx =
    Inr (Inr (created_text a), ctx\<lparr>heap_mem := h\<rparr>)" "plenty h"
proof -
  let ?w = "write_all [toWrappedStatusJsonObject 0 ''Auction created'', put_opened ''response'' (put_int ''auctionId'' (int a))]"
  let ?fs = "status_fields 0 ''Auction created'' @ [(''response'', image_of request_fields a)]"
  have "text_ok ''Auction created''" by (rule text_ok_ascii) simp
  then have st: "writes (toWrappedStatusJsonObject 0 ''Auction created'') (status_fields 0 ''Auction created'')"
    by (intro status_writes) (simp_all add: int_range_def)
  have "writes (write_all [put_opened ''response'' (put_int ''auctionId'' (int a))]) [(''response'', image_of request_fields a)]"
    using request.nested_written(2) [OF assms(1), of "''response''"] by (intro one_field write_all_Nil) simp_all
  from writes_assigned [OF write_all_Cons [OF st this] _ assms(2), of "[]"] obtain h where
    "assign_document [] ?w (heap_mem ctx) = Inr (created_text a, h)" "plenty h" unfolding created_text_def by (auto simp: status_fields_def)
  then show thesis using that by (simp add: answer_with_def toCreateAuctionJson_def response_message_def to_document_def)
qed

section \<open>The ledger as a map of auctions\<close>

text \<open>The counter of identifiers.\<close>

definition counter_is :: "sgx \<Rightarrow> (string, string) std_map \<Rightarrow> nat \<Rightarrow> bool" where
  "counter_is sgx m c = (case map_of m AUCTION_ID_COUNTER_STRING of None \<Rightarrow> c = 1 | Some t \<Rightarrow> sealed sgx t (u32_bytes c))"

type_synonym ledger = "auctions \<times> nat"

definition ledger_ok :: "sgx \<Rightarrow> (string, string) std_map \<Rightarrow> ledger \<Rightarrow> bool" where
  "ledger_ok sgx m L = (holds_auctions sgx m (fst L) \<and> counter_is sgx m (snd L) \<and> 0 < snd L \<and> snd L < 2 ^ 31 \<and>
     (\<forall>a. fst L a \<noteq> None \<longrightarrow> 0 < a \<and> a < snd L) \<and> (\<forall>a. fst L a = None \<longrightarrow> map_of m (static_key a @ ''L'') = None))"

lemma ledger_outside: "ledger_ok sgx m L \<Longrightarrow> a = 0 \<or> snd L \<le> a \<Longrightarrow> fst L a = None"
  by (cases "fst L a") (fastforce simp: ledger_ok_def)+

lemma length_u32_bytes [simp]: "length (u32_bytes n) = 4"
  by (simp add: u32_bytes_def)

lemma bytes_u32_bytes: "n < 2 ^ 32 \<Longrightarrow> bytes_u32 (u32_bytes n @ r) = n"
proof -
  assume n: "n < 2 ^ 32"
  have "n div 65536 = n div 256 div 256" "n div 16777216 = n div 256 div 256 div 256" by (simp_all flip: div_mult2_eq)
  moreover have "n div 256 div 256 div 256 mod 256 = n div 256 div 256 div 256" using n by (intro mod_less) (simp add: div_less_iff_less_mult)
  moreover have "x mod 256 + 256 * (x div 256) = x" for x :: nat by simp
  ultimately have "n mod 256 + 256 * (n div 256 mod 256 + 256 * (n div 65536 mod 256 + 256 * (n div 16777216 mod 256))) = n"
    "n div 16777216 mod 256 = n div 16777216"
    by simp_all
  then show ?thesis by (simp add: bytes_u32_def u32_bytes_def upt_rec)
qed

lemma counter_read:
  assumes "keeps_entries pr store" "counter_is sgx (store (u_shim_ctx ctx)) c" "c < 2 ^ 32"
  obtains ctx1 where "InitializeAuctionIdCounter sgx pr junk ctx = Inr (c, ctx1)"
    "store (u_shim_ctx ctx1) = store (u_shim_ctx ctx)" "heap_mem ctx1 = heap_mem ctx"
proof (cases "map_of (store (u_shim_ctx ctx)) AUCTION_ID_COUNTER_STRING")
  case None
  have k: "cstr AUCTION_ID_COUNTER_STRING = AUCTION_ID_COUNTER_STRING" by (simp add: AUCTION_ID_COUNTER_STRING_def)
  obtain cmac w where "ocall_get_state pr (u_shim_ctx ctx) (cstr AUCTION_ID_COUNTER_STRING) ((4 + 30) div 3 * 4) = ([], 0, cmac, w)"
    "store w = store (u_shim_ctx ctx)"
    using keeps_entries_get [OF assms(1), of "u_shim_ctx ctx" AUCTION_ID_COUNTER_STRING "(4 + 30) div 3 * 4"] None k by auto
  from get_state_absent [OF this(1), of sgx "fill 4 junk"] this(2) obtain ctx1 where
    "get_state sgx pr AUCTION_ID_COUNTER_STRING (fill 4 junk) 4 ctx = Inr (fill 4 junk, 0, ctx1)"
    "store (u_shim_ctx ctx1) = store (u_shim_ctx ctx)" "heap_mem ctx1 = heap_mem ctx" by auto
  then show thesis using that None assms(2)
    by (simp add: InitializeAuctionIdCounter_def counter_is_def AUCTION_ID_FIRST_COUNTER_VALUE_def)
next
  case (Some t)
  have s: "sealed sgx t (u32_bytes c)" using assms(2) Some by (simp add: counter_is_def)
  obtain ctx1 where "get_state sgx pr AUCTION_ID_COUNTER_STRING (fill 4 junk) 4 ctx =
      Inr (u32_bytes c @ drop (length (u32_bytes c)) (fill 4 junk), length (u32_bytes c), ctx1)"
    "store (u_shim_ctx ctx1) = store (u_shim_ctx ctx)" "heap_mem ctx1 = heap_mem ctx"
    by (rule get_sealed_store [OF assms(1) _ Some s, of 4 "fill 4 junk"]) (simp_all add: AUCTION_ID_COUNTER_STRING_def)
  then show thesis using that bytes_u32_bytes [OF assms(3), of "[]"] by (simp add: InitializeAuctionIdCounter_def)
qed

text \<open>A new state of an auction, on a store that is otherwise unchanged.\<close>

lemma ledger_update:
  assumes "ledger_ok sgx m (A, c)" "map_wf m'" "state_ok s d" "holds_state sgx m' a s d"
    and "\<And>k. k \<notin> entries_of a \<Longrightarrow> k \<noteq> AUCTION_ID_COUNTER_STRING \<Longrightarrow> map_of m' k = map_of m k"
    and "counter_is sgx m' c'" "c \<le> c'" "c' < 2 ^ 31" "0 < a" "a < c'"
  shows "ledger_ok sgx m' (A(a \<mapsto> (s, d)), c')"
proof -
  have b: "map_of m' k = map_of m k" if "k \<in> entries_of b" "b \<noteq> a" for b k
    using assms(5) [of k] entries_of_apart(1) [OF that(2,1)] entries_of_apart(2) [of b] that(1) by metis
  have "holds_state sgx m' b s' d' \<and> state_ok s' d'" if "(A(a \<mapsto> (s, d))) b = Some (s', d')" for b s' d'
    using that assms(1,3,4) b [of _ b] holds_state_cong [of b m' m] by (auto simp: ledger_ok_def holds_auctions_def split: if_splits)
  moreover have "map_of m' (static_key b @ ''L'') = None" if "A b = None" "b \<noteq> a" for b
    using that assms(1) b [of "static_key b @ ''L''" b] by (simp add: ledger_ok_def entries_of_def)
  ultimately show ?thesis
    using assms(1,2,6-10) by (auto simp: ledger_ok_def holds_auctions_def) fastforce
qed

section \<open>The specification of the transactions\<close>

text \<open>The transactions that change the ledger, and what they do to the map of auctions for submitter \<open>p\<close>. The value is
  \<open>None\<close> when the transaction fails or leaves a state that the ledger cannot hold.\<close>

datatype spectrum_op = Create_auction StaticAuctionState | Start_round nat | End_round nat | Clock_bid Bid

definition spec_tx :: "string \<Rightarrow> nat \<Rightarrow> (StaticAuctionState \<Rightarrow> DynamicAuctionState \<Rightarrow> outcome) \<Rightarrow> Principal \<Rightarrow> error_codes_e \<Rightarrow> ledger \<Rightarrow>
    ((error_codes_e + string) \<times> ledger) option" where
  "spec_tx message a tx p e L =
     (case fst L a of
        None \<Rightarrow> Some (Inl EC_INVALID_INPUT, L)
      | Some (s, d) \<Rightarrow>
          (case tx s (d\<lparr>submitterPrincipal := p, er := e\<rparr>) of
             Inl f \<Rightarrow> None
           | Inr (Inl code) \<Rightarrow> Some (Inl code, L)
           | Inr (Inr d1) \<Rightarrow> if state_ok s d1 then Some (Inr (answer_text message), (fst L)(a \<mapsto> (s, d1)), snd L) else None))"

fun spec_op :: "Principal \<Rightarrow> error_codes_e \<Rightarrow> evaluation \<Rightarrow> spectrum_op \<Rightarrow> ledger \<Rightarrow> ((error_codes_e + string) \<times> ledger) option" where
  "spec_op p e env (Create_auction s) L =
     (case createAuction_tx s (new_dynamic p e) of
        Inl f \<Rightarrow> None
      | Inr (Inl code) \<Rightarrow> Some (Inl code, L)
      | Inr (Inr (s1, d1)) \<Rightarrow>
          if state_ok s1 d1 \<and> snd L + 1 < 2 ^ 31 then Some (Inr (created_text (snd L)), (fst L)(snd L \<mapsto> (s1, d1)), snd L + 1) else None)"
| "spec_op p e env (Start_round a) L = spec_tx ''Start next round'' a startNextRound_tx p e L"
| "spec_op p e env (End_round a) L = spec_tx ''End round'' a (\<lambda>s. endRound_tx env s a) p e L"
| "spec_op p e env (Clock_bid b) L = spec_tx ''Submit clock bid'' (auctionId b) (\<lambda>s. submitClockBid_tx s b) p e L"

text \<open>The calls that clients make: the function and its parameter.\<close>

fun op_call :: "spectrum_op \<Rightarrow> string \<times> string" where
  "op_call (Create_auction s) = (''createAuction'', static_text s)"
| "op_call (Start_round a) = (''startNextRound'', request_text a)"
| "op_call (End_round a) = (''endRound'', request_text a)"
| "op_call (Clock_bid b) = (''submitClockBid'', json_text False 0 (image_of bid_fields b))"

fun call_ok :: "spectrum_op \<Rightarrow> bool" where
  "call_ok (Create_auction s) = static_ok s"
| "call_ok (Start_round a) = small_uint a"
| "call_ok (End_round a) = small_uint a"
| "call_ok (Clock_bid b) = bid_data_ok b"

definition reported :: "string \<Rightarrow> error_codes_e + string \<Rightarrow> ErrorReport \<times> string" where
  "reported site r = (case r of Inl code \<Rightarrow> (error_report code site, []) | Inr t \<Rightarrow> (\<lparr>ec = EC_SUCCESS, errorString = []\<rparr>, t))"

section \<open>The chaincode follows the specification\<close>

definition follows :: "sgx \<Rightarrow> ('w \<Rightarrow> (string, string) std_map) \<Rightarrow> (error_codes_e + string) \<times> ledger \<Rightarrow> 'w answer \<Rightarrow> bool" where
  "follows sgx store rL out = (\<exists>ctx'. out = Inr (fst rL, ctx') \<and> plenty (heap_mem ctx') \<and> ledger_ok sgx (store (u_shim_ctx ctx')) (snd rL))"

lemma missing_refused:
  assumes "keeps_entries pr store" "plenty (heap_mem ctx)" "ledger_ok sgx (store (u_shim_ctx ctx)) L" "fst L a = None"
  shows "follows sgx store (Inl EC_INVALID_INPUT, L) (with_state sgx pr junk a d0 k ctx)"
proof -
  have k: "cstr (static_key a @ ''L'') = static_key a @ ''L''" by simp
  have m: "map_of (store (u_shim_ctx ctx)) (static_key a @ ''L'') = None" using assms(3,4) by (simp add: ledger_ok_def)
  obtain cmac w where "ocall_get_state pr (u_shim_ctx ctx) (cstr (static_key a @ ''L'')) ((11 + 30) div 3 * 4) = ([], 0, cmac, w)"
    "store w = store (u_shim_ctx ctx)"
    using keeps_entries_get [OF assms(1), of "u_shim_ctx ctx" "static_key a @ ''L''" "(11 + 30) div 3 * 4"] m k by auto
  from get_state_absent [OF this(1), of sgx "fill 11 junk"] this(2) obtain ctx1 where
    "get_state sgx pr (static_key a @ ''L'') (fill 11 junk) 11 ctx = Inr (fill 11 junk, 0, ctx1)"
    "store (u_shim_ctx ctx1) = store (u_shim_ctx ctx)" "heap_mem ctx1 = heap_mem ctx" by auto
  then show ?thesis using assms(2,3)
    by (simp add: follows_def with_state_def loadAuctionState_def load_document_def ledgerPrivateGetString_def MAX_LENGTH_STRING_SIZE_def
        flip: static_key_def)
qed

lemma tx_follows:
  assumes "gcm_correct sgx" "keeps_entries pr store" "plenty (heap_mem ctx)" "ledger_ok sgx (store (u_shim_ctx ctx)) L"
    and "text_ok message" "spec_tx message a tx p e L = Some rL"
  shows "follows sgx store rL (with_state sgx pr junk a (new_dynamic p e) (\<lambda>s d. commit sgx pr a (status_message 0 message) s (tx s d)) ctx)"
proof (cases "fst L a")
  case None
  then show ?thesis using missing_refused [OF assms(2-4) None] assms(6) by (simp add: spec_tx_def)
next
  case (Some sd)
  obtain s d A c where sd: "sd = (s, d)" "L = (A, c)" by (cases sd; cases L)
  let ?d = "d\<lparr>submitterPrincipal := p, er := e\<rparr>"
  have ok: "state_ok s d" "holds_state sgx (store (u_shim_ctx ctx)) a s d" "map_wf (store (u_shim_ctx ctx))" "0 < a" "a < c"
    using assms(4) Some by (auto simp: ledger_ok_def holds_auctions_def sd)
  obtain ctx1 where 1: "loadAuctionState sgx pr junk a new_static (new_dynamic p e) ctx = Inr (Some (s, ?d), ctx1)"
    "store (u_shim_ctx ctx1) = store (u_shim_ctx ctx)" "plenty (heap_mem ctx1)"
    using loadAuctionState_holds [OF assms(2,3) ok(1,2), of junk p e] by metis
  have w: "with_state sgx pr junk a (new_dynamic p e) (\<lambda>s d. commit sgx pr a (status_message 0 message) s (tx s d)) ctx = commit sgx pr a (status_message 0 message) s (tx s ?d) ctx1"
    using 1(1) by (simp add: with_state_def)
  from assms(6) Some consider (refused) code where "tx s ?d = Inr (Inl code)" "rL = (Inl code, L)"
    | (stored) d1 where "tx s ?d = Inr (Inr d1)" "state_ok s d1" "rL = (Inr (answer_text message), A(a \<mapsto> (s, d1)), c)"
    by (auto simp: spec_tx_def sd split: sum.splits if_splits)
  then show ?thesis
  proof cases
    case refused
    then show ?thesis using 1(2,3) assms(4) by (simp add: w follows_def commit_def)
  next
    case stored
    obtain ctx2 where 2: "storeAuctionState sgx pr a s d1 ctx1 = Inr ctx2" "plenty (heap_mem ctx2)" "map_wf (store (u_shim_ctx ctx2))"
      "holds_state sgx (store (u_shim_ctx ctx2)) a s d1"
      and frame: "\<And>k. k \<notin> entries_of a \<Longrightarrow> map_of (store (u_shim_ctx ctx2)) k = map_of (store (u_shim_ctx ctx1)) k"
      using storeAuctionState_holds [OF assms(1,2) 1(3) state_ok_writable [OF stored(2)], of a] ok(3) 1(2) by metis
    obtain h where 3: "answer_with (status_message 0 message) ctx2 = Inr (Inr (answer_text message), ctx2\<lparr>heap_mem := h\<rparr>)" "plenty h"
      using answer_status [OF assms(5) 2(2)] .
    have "counter_is sgx (store (u_shim_ctx ctx2)) c"
      using frame [OF entries_of_apart(2)] assms(4) 1(2) by (simp add: ledger_ok_def counter_is_def sd)
    then have "ledger_ok sgx (store (u_shim_ctx ctx2)) (A(a \<mapsto> (s, d1)), c)"
      using assms(4) frame 1(2) ok(4,5) 2(3,4) stored(2) by (intro ledger_update [of sgx "store (u_shim_ctx ctx)" A c]) (auto simp: sd ledger_ok_def)
    then show ?thesis using 2(1) 3 stored by (simp add: w follows_def commit_def)
  qed
qed

lemma request_follows:
  assumes "gcm_correct sgx" "keeps_entries pr store" "plenty (heap_mem ctx)" "ledger_ok sgx (store (u_shim_ctx ctx)) L"
    and "text_ok message" "spec_tx message a (tx a) p e L = Some rL" "small_uint a"
  shows "follows sgx store rL (with_auction sgx pr junk from_auctionId (request_text a) (new_dynamic p e) (\<lambda>a s d. commit sgx pr a (status_message 0 message) s (tx a s d)) ctx)"
proof -
  obtain h where h: "from_auctionId (request_text a) (heap_mem ctx) = Inr (if a = 0 then None else Some a, h)" "plenty h"
    using from_auctionId_request [OF assms(7,3)] .
  let ?ctx = "ctx\<lparr>heap_mem := h\<rparr>"
  have c: "plenty (heap_mem ?ctx)" "ledger_ok sgx (store (u_shim_ctx ?ctx)) L" using h(2) assms(4) by simp_all
  show ?thesis
  proof (cases "a = 0")
    case True
    then have "fst L a = None" using ledger_outside [OF assms(4)] by simp
    then have "rL = (Inl EC_INVALID_INPUT, L)" using assms(6) by (simp add: spec_tx_def)
    then show ?thesis using h c True by (simp add: follows_def with_auction_def)
  next
    case False
    then show ?thesis using h(1) tx_follows [OF assms(1,2) c assms(5,6)] by (simp add: with_auction_def)
  qed
qed

lemma createAuction_tx_owner: "createAuction_tx (s\<lparr>owner := x\<rparr>) d = createAuction_tx s d"
  by (simp add: createAuction_tx_def checkValidity_def initialize_def getInitialPrices_def getInitialEligibilities_def priceFactor_def)

lemma create_follows:
  assumes "gcm_correct sgx" "keeps_entries pr store" "plenty (heap_mem ctx)" "ledger_ok sgx (store (u_shim_ctx ctx)) L"
    and "static_ok s" "spec_op p e env (Create_auction s) L = Some rL"
  shows "follows sgx store rL (SpectrumAuction_createAuction sgx pr junk (new_dynamic p e) (static_text s) ctx)"
proof -
  define s0 where "s0 = s\<lparr>owner := \<lparr>mspId = [], dn = []\<rparr>\<rparr>"
  obtain h where h: "fromCreateAuctionJson new_static (static_text s) (heap_mem ctx) = Inr (Some s0, h)" "plenty h"
    using fromCreateAuction_request [OF assms(5,3)] unfolding s0_def .
  obtain A c where L: "L = (A, c)" by (cases L)
  have tx: "createAuction_tx s (new_dynamic p e) = createAuction_tx s0 (new_dynamic p e)" unfolding s0_def createAuction_tx_owner ..
  show ?thesis
  proof (cases "checkValidity s0")
    case False
    then have "rL = (Inl EC_INVALID_INPUT, L)" using assms(6) tx by (simp add: createAuction_tx_def)
    then show ?thesis using False h assms(4) by (simp add: follows_def SpectrumAuction_createAuction_def)
  next
    case True
    then obtain s1 d1 where i: "initialize CLOCK_PHASE 1 False s0 (new_dynamic p e) = Inr (s1, d1)" "state_ok s1 d1" "c + 1 < 2 ^ 31"
      "rL = (Inr (created_text c), A(c \<mapsto> (s1, d1)), c + 1)"
      using assms(6) tx by (auto simp: createAuction_tx_def L run_simps split: sum.splits if_splits)
    have c: "counter_is sgx (store (u_shim_ctx ctx)) c" "0 < c" "c < 2 ^ 31" "map_wf (store (u_shim_ctx ctx))"
      using assms(4) by (auto simp: ledger_ok_def L holds_auctions_def)
    obtain ctx1 where 1: "InitializeAuctionIdCounter sgx pr junk (ctx\<lparr>heap_mem := h\<rparr>) = Inr (c, ctx1)"
      "store (u_shim_ctx ctx1) = store (u_shim_ctx ctx)" "heap_mem ctx1 = h"
      by (rule counter_read [OF assms(2), of sgx "ctx\<lparr>heap_mem := h\<rparr>" c junk]) (use c in simp_all)
    obtain t ctx2 where 2: "IncrementAndStoreAuctionIdCounter sgx pr c ctx1 = Inr ctx2" "sealed sgx t (u32_bytes (u32 (int c + 1)))"
      "store (u_shim_ctx ctx2) = map_assign AUCTION_ID_COUNTER_STRING t (store (u_shim_ctx ctx1))" "heap_mem ctx2 = heap_mem ctx1"
      unfolding IncrementAndStoreAuctionIdCounter_def ledgerPrivatePutBinary_def
      by (rule put_sealed_store [OF assms(1,2), of AUCTION_ID_COUNTER_STRING]) (simp add: AUCTION_ID_COUNTER_STRING_def)
    have u: "u32 (int c + 1) = c + 1" using c(3) by (simp add: u32_def nat_add_distrib)
    have wf: "map_wf (store (u_shim_ctx ctx2))" "plenty (heap_mem ctx2)" using c(4) h(2) 1 2 by (simp_all add: map_wf_assign)
    obtain ctx3 where 3: "storeAuctionState sgx pr c s1 d1 ctx2 = Inr ctx3" "plenty (heap_mem ctx3)" "map_wf (store (u_shim_ctx ctx3))"
      "holds_state sgx (store (u_shim_ctx ctx3)) c s1 d1"
      and frame: "\<And>k. k \<notin> entries_of c \<Longrightarrow> map_of (store (u_shim_ctx ctx3)) k = map_of (store (u_shim_ctx ctx2)) k"
      using storeAuctionState_holds [OF assms(1,2) wf(2) state_ok_writable [OF i(2)] wf(1), of c] by metis
    obtain h' where 4: "answer_with (toCreateAuctionJson 0 ''Auction created'' c) ctx3 =
        Inr (Inr (created_text c), ctx3\<lparr>heap_mem := h'\<rparr>)" "plenty h'"
      using answer_created [OF _ 3(2), of c] c(3) by (auto simp: small_uint_def)
    have m: "map_of (store (u_shim_ctx ctx2)) = (map_of (store (u_shim_ctx ctx)))(AUCTION_ID_COUNTER_STRING \<mapsto> t)"
      using 1(2) 2(3) c(4) by (simp add: map_of_map_assign)
    then have "counter_is sgx (store (u_shim_ctx ctx3)) (c + 1)"
      using frame [OF entries_of_apart(2)] 2(2) u by (simp add: counter_is_def)
    then have "ledger_ok sgx (store (u_shim_ctx ctx3)) (A(c \<mapsto> (s1, d1)), c + 1)"
      using assms(4) frame m c i(2,3) 3(3,4) by (intro ledger_update [of sgx "store (u_shim_ctx ctx)" A c]) (auto simp: L)
    then show ?thesis using True h(1) 1(1) 2(1) i 3(1) 4 by (simp add: follows_def SpectrumAuction_createAuction_def)
  qed
qed

lemma call_reported:
  assumes "follows sgx store rL (f x ctx)" "map_of (fMap sgx pr env junk d) g = Some f"
  obtains ctx' where "call_api sgx pr env junk site d g [x] ctx = Inr (fst (reported site (fst rL)), snd (reported site (fst rL)), ctx')"
    "plenty (heap_mem ctx')" "ledger_ok sgx (store (u_shim_ctx ctx')) (snd rL)"
  using assms that unfolding follows_def by (cases "fst rL") (auto simp: call_api_def reported_def index_def)

lemma op_simulated:
  assumes "gcm_correct sgx" "keeps_entries pr store" "plenty (heap_mem ctx)" "ledger_ok sgx (store (u_shim_ctx ctx)) L"
    and "call_ok op" "spec_op p e env op L = Some (r, L')"
  obtains ctx' where "call_api sgx pr env junk site (new_dynamic p e) (fst (op_call op)) [snd (op_call op)] ctx =
      Inr (fst (reported site r), snd (reported site r), ctx')" "plenty (heap_mem ctx')" "ledger_ok sgx (store (u_shim_ctx ctx')) L'"
proof -
  note a = assms(1-4)
  have msg: "text_ok ''Start next round''" "text_ok ''End round''" "text_ok ''Submit clock bid''" by (rule text_ok_ascii, simp)+
  obtain f where f: "map_of (fMap sgx pr env junk (new_dynamic p e)) (fst (op_call op)) = Some f" "follows sgx store (r, L') (f (snd (op_call op)) ctx)"
  proof (cases op)
    case (Create_auction s)
    then show thesis using create_follows [OF a, of s p e env "(r, L')" junk] assms(5,6) by (intro that) (simp_all add: fMap_def)
  next
    case (Start_round b)
    then show thesis using request_follows [OF a msg(1), of b "\<lambda>a. startNextRound_tx" p e "(r, L')" junk] assms(5,6)
      by (intro that [of "SpectrumAuction_startNextRound sgx pr junk (new_dynamic p e)"]) (simp_all add: fMap_def SpectrumAuction_startNextRound_def fromStartNextRoundJson_def toStartNextRoundJson_def)
  next
    case (End_round b)
    then show thesis using request_follows [OF a msg(2), of b "\<lambda>a s. endRound_tx env s a" p e "(r, L')" junk] assms(5,6)
      by (intro that [of "SpectrumAuction_endRound sgx pr env junk (new_dynamic p e)"]) (simp_all add: fMap_def SpectrumAuction_endRound_def fromEndRoundJson_def toEndRoundJson_def)
  next
    case (Clock_bid b)
    obtain h where h: "fromSubmitClockBidJson (json_text False 0 (image_of bid_fields b)) (heap_mem ctx) = Inr (Some b, h)" "plenty h"
      using fromSubmitClockBid_request [OF _ assms(3)] assms(5) Clock_bid by auto
    have c: "plenty (heap_mem (ctx\<lparr>heap_mem := h\<rparr>))" "ledger_ok sgx (store (u_shim_ctx (ctx\<lparr>heap_mem := h\<rparr>))) L" using h(2) assms(4) by simp_all
    show thesis using tx_follows [OF a(1,2) c msg(3), of "auctionId b" "\<lambda>s. submitClockBid_tx s b" p e "(r, L')" junk] assms(6) Clock_bid h(1)
      by (intro that [of "SpectrumAuction_submitClockBid sgx pr junk (new_dynamic p e)"]) (simp_all add: fMap_def SpectrumAuction_submitClockBid_def toSubmitClockBidJson_def)
  qed
  from call_reported [OF f(2,1), of site] that show thesis by auto
qed

end
