(* ===== verification/Spectrum_Ledger_Props.thy ===== *)
theory Spectrum_Ledger_Props
  imports Spectrum_Api Spectrum_Props
begin

text \<open>
  The properties of the spectrum chaincode on the ledger: stored auctions load, sequences of calls follow the
  specification, refused calls and queries write nothing, a price that is no whole number makes an
  auction unreadable, and the response fits its buffer.
\<close>

section \<open>A sample ledger\<close>

lemma dzero_whole: "whole dzero" "reads_back dzero" "\<not> dless dzero dzero"
proof -
  show "whole dzero" by (auto simp: whole_iff dzero_int small_uint_def intro!: exI [of _ 0])
  show "reads_back dzero" using small_int(3) [of 0] by (simp add: dzero_int small_uint_def)
  show "\<not> dless dzero dzero" using dless_ints [of 0 0] by (simp add: dzero_int)
qed

lemma spectrum_principal_ok: "list_all (\<lambda>c. c \<noteq> NUL \<and> byte c < 128) n \<Longrightarrow> principal_ok (spectrum_principal n)"
  by (auto simp: principal_ok_def spectrum_principal_def intro!: text_ok_ascii)

lemma spectrum_bid_data_ok: "q \<le> 2 \<Longrightarrow> r \<le> 2 \<Longrightarrow> bid_data_ok (spectrum_bid r q)"
  using dzero_whole by (simp add: bid_data_ok_def spectrum_bid_def demand_data_ok_def demand_writable_def small_uint_def)

lemma spectrum_static_ok: "static_ok spectrum_static"
proof -
  have "list_all territory_ok (territories spectrum_static)"
    using dzero_whole by (auto simp: spectrum_static_def territory_ok_def channel_ok_def small_uint_def intro!: text_ok_ascii)
  moreover have "list_all bidder_data_ok (bidders spectrum_static)"
    by (auto simp: spectrum_static_def bidder_data_ok_def small_uint_def intro!: text_ok_ascii spectrum_principal_ok)
  moreover have "text_ok (auction_name spectrum_static)" "principal_ok (owner spectrum_static)"
    by (auto simp: spectrum_static_def intro!: text_ok_ascii spectrum_principal_ok)
  ultimately show ?thesis by (simp add: static_ok_def spectrum_static_def eligibility_ok_def small_uint_def)
qed

lemma spectrum_dynamic_ok: "dynamic_ok spectrum_dynamic"
  using dzero_whole(2) spectrum_bid_data_ok bid_data_writable
  by (simp add: dynamic_ok_def dynamic_writable_def spectrum_dynamic_def all_entries_def small_uint_def int_range_def)

lemma spectrum_state_ok: "state_ok spectrum_static spectrum_dynamic"
proof -
  have n: "numbers_ok (image_of static_fields spectrum_static)" "numbers_ok (image_of dynamic_fields spectrum_dynamic)"
    using static_codec.images_printable(3) [OF spectrum_static_ok] dynamic_printable [of spectrum_dynamic] spectrum_dynamic_ok
    by (auto simp: image_of_def dynamic_ok_def)
  have "text_bound (image_of static_fields spectrum_static) < 10000"
    by (simp add: image_of_def static_fields_def spectrum_static_def territory_fields_def channel_fields_def bidder_fields_def
        principal_fields_def eligibility_fields_def spectrum_principal_def)
  moreover have "text_bound (image_of dynamic_fields spectrum_dynamic) < 10000"
    by (simp add: image_of_def dynamic_fields_def spectrum_dynamic_def matrix_json_def bid_fields_def demand_fields_def spectrum_bid_def)
  ultimately have "length (static_text spectrum_static) < 10000" "length (dynamic_text spectrum_dynamic) < 10000"
    using length_json_text(1) [OF n(1), of False 0] length_json_text(1) [OF n(2), of False 0] by (simp_all add: static_text_def dynamic_text_def)
  then show ?thesis using spectrum_static_ok spectrum_dynamic_ok by (simp add: state_ok_def state_writable_def dynamic_ok_def)
qed

lemma state_ok_submitter [simp]: "state_ok s (d\<lparr>submitterPrincipal := p, er := e\<rparr>) = state_ok s d"
  by (simp add: state_ok_def state_writable_def dynamic_ok_def dynamic_writable_def dynamic_text_def image_of_def dynamic_fields_def)

definition sample_auctions :: auctions where
  "sample_auctions = [1 \<mapsto> (spectrum_static, spectrum_dynamic)]"

lemma sample_ledger:
  obtains ctx :: "(string, string) std_map shim_ctx" where "plenty (heap_mem ctx)" "ledger_ok sample_sgx (u_shim_ctx ctx) (sample_auctions, 2)"
proof -
  let ?c = "sample_ctx [] []"
  have nf: "nul_free AUCTION_ID_COUNTER_STRING" by (simp add: AUCTION_ID_COUNTER_STRING_def)
  obtain t ctx1 where 1: "put_state sample_sgx sample_peer AUCTION_ID_COUNTER_STRING (u32_bytes 2) ?c = Inr ctx1" "sealed sample_sgx t (u32_bytes 2)"
    "sample_store (u_shim_ctx ctx1) = map_assign AUCTION_ID_COUNTER_STRING t (sample_store (u_shim_ctx ?c))" "heap_mem ctx1 = heap_mem ?c"
    using put_sealed_store [OF sample_gcm sample_keeps nf, of "u32_bytes 2" ?c] .
  then have m: "plenty (heap_mem ctx1)" "u_shim_ctx ctx1 = [(AUCTION_ID_COUNTER_STRING, t)]"
    by (simp_all add: sample_ctx_def plenty_def sample_store_def)
  have wf: "map_wf (sample_store (u_shim_ctx ctx1))" by (simp add: m sample_store_def)
  obtain ctx2 where s: "storeAuctionState sample_sgx sample_peer 1 spectrum_static spectrum_dynamic ctx1 = Inr ctx2"
    and 2: "plenty (heap_mem ctx2)" "map_wf (sample_store (u_shim_ctx ctx2))" "holds_state sample_sgx (sample_store (u_shim_ctx ctx2)) 1 spectrum_static spectrum_dynamic"
    and frame: "\<And>k. k \<notin> entries_of 1 \<Longrightarrow> map_of (sample_store (u_shim_ctx ctx2)) k = map_of (sample_store (u_shim_ctx ctx1)) k"
    using storeAuctionState_holds [OF sample_gcm sample_keeps m(1) state_ok_writable [OF spectrum_state_ok] wf, of 1] by metis
  have "static_key b @ ''L'' \<notin> entries_of 1" if "b \<noteq> 1" for b using that by (auto simp: entries_of_def)
  then have "map_of (u_shim_ctx ctx2) (static_key b @ ''L'') = None" if "b \<noteq> 1" for b using frame that m(2) by (simp add: sample_store_def)
  moreover have "counter_is sample_sgx (u_shim_ctx ctx2) 2" using frame [OF entries_of_apart(2)] 1(2) m(2) by (simp add: counter_is_def sample_store_def)
  ultimately have "ledger_ok sample_sgx (u_shim_ctx ctx2) (sample_auctions, 2)"
    using 2 spectrum_state_ok by (auto simp: ledger_ok_def holds_auctions_def sample_auctions_def sample_store_def split: if_splits)
  then show thesis using that 2(1) by blast
qed

section \<open>Stored auctions load\<close>

text \<open>C18. Storing and loading: an auction whose numbers and texts survive JSON and whose documents are shorter than a
  gigabyte is stored without an error, and whatever invocation loads it from the same entries gets both halves
  back, with its own submitter; the entries of every other auction stay as they were.\<close>

theorem stored_auction_loads:
  assumes "gcm_correct sgx" "keeps_entries pr store" "map_wf (store (u_shim_ctx ctx))" "plenty (heap_mem ctx)" "state_ok s d"
    and "plenty (heap_mem ctx2)"
  shows "\<exists>ctx1. storeAuctionState sgx pr a s d ctx = Inr ctx1 \<and> plenty (heap_mem ctx1) \<and>
    (store (u_shim_ctx ctx2) = store (u_shim_ctx ctx1) \<longrightarrow>
       (\<exists>ctx3. loadAuctionState sgx pr junk a new_static (new_dynamic p e) ctx2 = Inr (Some (s, d\<lparr>submitterPrincipal := p, er := e\<rparr>), ctx3))) \<and>
    (\<forall>b k. b \<noteq> a \<longrightarrow> k \<in> entries_of b \<longrightarrow> map_of (store (u_shim_ctx ctx1)) k = map_of (store (u_shim_ctx ctx)) k)"
proof -
  obtain ctx1 where 1: "storeAuctionState sgx pr a s d ctx = Inr ctx1" "plenty (heap_mem ctx1)" "holds_state sgx (store (u_shim_ctx ctx1)) a s d"
    and frame: "\<And>k. k \<notin> entries_of a \<Longrightarrow> map_of (store (u_shim_ctx ctx1)) k = map_of (store (u_shim_ctx ctx)) k"
    using storeAuctionState_holds [OF assms(1,2,4) state_ok_writable [OF assms(5)] assms(3), of a] by metis
  have "\<exists>ctx3. loadAuctionState sgx pr junk a new_static (new_dynamic p e) ctx2 = Inr (Some (s, d\<lparr>submitterPrincipal := p, er := e\<rparr>), ctx3)"
    if "store (u_shim_ctx ctx2) = store (u_shim_ctx ctx1)"
    using loadAuctionState_holds [OF assms(2,6,5), of sgx a junk p e] 1(3) that by metis
  then show ?thesis using 1 frame entries_of_apart(1) by blast
qed

theorem stored_auction_loads_witness:
  "\<exists>ctx1 ctx3. storeAuctionState sample_sgx sample_peer 1 spectrum_static spectrum_dynamic (sample_ctx [] []) = Inr ctx1 \<and>
     loadAuctionState sample_sgx sample_peer [] 1 new_static (new_dynamic (spectrum_principal ''b1'') EC_ERROR) ctx1 =
       Inr (Some (spectrum_static, spectrum_dynamic\<lparr>submitterPrincipal := spectrum_principal ''b1'', er := EC_ERROR\<rparr>), ctx3)"
proof -
  have p: "plenty (heap_mem (sample_ctx [] []))" "map_wf (sample_store (u_shim_ctx (sample_ctx [] [])))" by (simp_all add: sample_ctx_def plenty_def sample_store_def)
  obtain ctx1 where 1: "storeAuctionState sample_sgx sample_peer 1 spectrum_static spectrum_dynamic (sample_ctx [] []) = Inr ctx1" "plenty (heap_mem ctx1)"
    using stored_auction_loads [OF sample_gcm sample_keeps p(2,1) spectrum_state_ok p(1), of 1] by blast
  then show ?thesis
    using stored_auction_loads [OF sample_gcm sample_keeps p(2,1) spectrum_state_ok 1(2), of 1 "[]" "spectrum_principal ''b1''" EC_ERROR] by auto
qed

section \<open>Sequences of calls\<close>

text \<open>A call: the submitter, the initial value of the error report, the random source, and the operation.\<close>

type_synonym spectrum_call = "Principal \<times> error_codes_e \<times> evaluation \<times> spectrum_op"

fun spec_calls :: "spectrum_call list \<Rightarrow> ledger \<Rightarrow> ((error_codes_e + string) list \<times> ledger) option" where
  "spec_calls [] L = Some ([], L)"
| "spec_calls ((p, e, env, op) # cs) L =
     (case spec_op p e env op L of
        None \<Rightarrow> None
      | Some (r, L1) \<Rightarrow> (case spec_calls cs L1 of None \<Rightarrow> None | Some (rs, L2) \<Rightarrow> Some (r # rs, L2)))"

text \<open>Every call is a transaction of its own, with empty read and write sets.\<close>

fun run_calls :: "sgx \<Rightarrow> 'w peer \<Rightarrow> string \<Rightarrow> string \<Rightarrow> spectrum_call list \<Rightarrow> 'w shim_ctx \<Rightarrow> ((ErrorReport \<times> string) list \<times> 'w shim_ctx) run" where
  "run_calls sgx pr junk site [] ctx = Inr ([], ctx)"
| "run_calls sgx pr junk site ((p, e, env, op) # cs) ctx =
     run_bind (call_api sgx pr env junk site (new_dynamic p e) (fst (op_call op)) [snd (op_call op)] (ctx\<lparr>read_set := [], write_set := []\<rparr>))
      (\<lambda>(er, t, ctx1).
     run_bind (run_calls sgx pr junk site cs ctx1) (\<lambda>(rs, ctx2). Inr ((er, t) # rs, ctx2)))"

text \<open>C7. The chaincode implements the specification of the auctions: any sequence of creations, starts and ends of
  rounds and bids, by any submitters, on any auctions, is answered as the specification answers, and leaves the encrypted
  entries of the map of auctions that the specification reaches. An identifier that names no
  auction is refused, new auctions get fresh identifiers, and a call on one auction does not touch
  another.\<close>

theorem spectrum_calls_follow_spec:
  assumes "gcm_correct sgx" "keeps_entries pr store" "plenty (heap_mem ctx)" "ledger_ok sgx (store (u_shim_ctx ctx)) L"
    and "list_all (\<lambda>(p, e, env, op). call_ok op) cs" "spec_calls cs L = Some (rs, L')"
  shows "\<exists>ctx'. run_calls sgx pr junk site cs ctx = Inr (map (reported site) rs, ctx') \<and> plenty (heap_mem ctx') \<and>
    ledger_ok sgx (store (u_shim_ctx ctx')) L'"
  using assms(3-6)
proof (induction cs arbitrary: ctx L rs)
  case (Cons c cs)
  obtain p e env op where c: "c = (p, e, env, op)" by (cases c)
  from Cons.prems(4) obtain r L1 rs1 where s: "spec_op p e env op L = Some (r, L1)" "spec_calls cs L1 = Some (rs1, L')" "rs = r # rs1"
    by (auto simp: c split: option.splits prod.splits)
  let ?ctx = "ctx\<lparr>read_set := [], write_set := []\<rparr>"
  have i: "plenty (heap_mem ?ctx)" "ledger_ok sgx (store (u_shim_ctx ?ctx)) L" "call_ok op" using Cons.prems by (simp_all add: c)
  obtain ctx1 where 1: "call_api sgx pr env junk site (new_dynamic p e) (fst (op_call op)) [snd (op_call op)] ?ctx =
      Inr (fst (reported site r), snd (reported site r), ctx1)" "plenty (heap_mem ctx1)" "ledger_ok sgx (store (u_shim_ctx ctx1)) L1"
    using op_simulated [OF assms(1,2) i s(1), of junk site] by metis
  have "list_all (\<lambda>(p, e, env, op). call_ok op) cs" using Cons.prems(3) by simp
  from Cons.IH [OF 1(2,3) this s(2)] show ?case using 1(1) by (auto simp: c s(3))
qed simp

lemma sample_bid_accepted:
  "submitClockBid_tx spectrum_static (spectrum_bid 2 1) (spectrum_dynamic\<lparr>submitterPrincipal := spectrum_principal ''b1'', er := e\<rparr>) =
     Inr (Inr (spectrum_dynamic\<lparr>submitterPrincipal := spectrum_principal ''b1'', er := e\<rparr>))"
  using dzero_whole(3)
  by (simp add: submitClockBid_tx_def isStateClockPhase_def isValidBidder_def fromPrincipalToBidderId_def isValidBid_def storeBid_def
      spectrum_static_def spectrum_dynamic_def spectrum_bid_def spectrum_principal_def matchPrincipal_def principal_eq_def getTerritory_def
      getTerritoryIndex_def numberOfChannels_def u32_def index_def index_i_def index_set_def index_set_i_def fromBidderIdToBidderIndex_def Let_def)

theorem spectrum_calls_follow_spec_witness:
  "\<exists>ctx ctx' L'. run_calls sample_sgx sample_peer [] ''site''
      [(spectrum_principal ''b1'', EC_ERROR, spectrum_env 0, Clock_bid (spectrum_bid 2 1)),
       (spectrum_principal ''owner'', EC_ERROR, spectrum_env 0, Start_round 1),
       (spectrum_principal ''owner'', EC_ERROR, spectrum_env 0, End_round 7)] ctx =
     Inr ([(\<lparr>ec = EC_SUCCESS, errorString = []\<rparr>, answer_text ''Submit clock bid''),
           (error_report EC_ROUND_ACTIVE ''site'', []), (error_report EC_INVALID_INPUT ''site'', [])], ctx') \<and>
     ledger_ok sample_sgx (u_shim_ctx ctx') L'"
proof -
  obtain ctx :: "(string, string) std_map shim_ctx" where ctx: "plenty (heap_mem ctx)" "ledger_ok sample_sgx (u_shim_ctx ctx) (sample_auctions, 2)" using sample_ledger .
  then have l: "ledger_ok sample_sgx (sample_store (u_shim_ctx ctx)) (sample_auctions, 2)" by (simp add: sample_store_def)
  let ?cs = "[(spectrum_principal ''b1'', EC_ERROR, spectrum_env 0, Clock_bid (spectrum_bid 2 1)),
       (spectrum_principal ''owner'', EC_ERROR, spectrum_env 0, Start_round 1),
       (spectrum_principal ''owner'', EC_ERROR, spectrum_env 0, End_round 7)]"
  define d1 where "d1 = spectrum_dynamic\<lparr>submitterPrincipal := spectrum_principal ''b1'', er := EC_ERROR\<rparr>"
  have "auctionId (spectrum_bid 2 1) = 1" by (simp add: spectrum_bid_def)
  then have a: "spec_op (spectrum_principal ''b1'') EC_ERROR (spectrum_env 0) (Clock_bid (spectrum_bid 2 1)) (sample_auctions, 2) =
      Some (Inr (answer_text ''Submit clock bid''), sample_auctions(1 \<mapsto> (spectrum_static, d1)), 2)"
    using sample_bid_accepted spectrum_state_ok by (simp add: spec_tx_def sample_auctions_def d1_def)
  have "roundActive d1" using spectrum_states(1) by (simp add: d1_def)
  then have b: "spec_calls ?cs (sample_auctions, 2) = Some ([Inr (answer_text ''Submit clock bid''), Inl EC_ROUND_ACTIVE, Inl EC_INVALID_INPUT],
      (sample_auctions(1 \<mapsto> (spectrum_static, d1)), 2))"
    using a by (simp add: spec_tx_def startNextRound_tx_def sample_auctions_def)
  have ok: "list_all (\<lambda>(p, e, env, op). call_ok op) ?cs" using spectrum_bid_data_ok [of 1 2] by (simp add: small_uint_def)
  from spectrum_calls_follow_spec [OF sample_gcm sample_keeps ctx(1) l ok b, of "[]" "''site''"] show ?thesis
    by (auto simp: reported_def sample_store_def)
qed

section \<open>A price that is no whole number\<close>

lemma read_items_each: "read_items f vs = Inr (Some xs) \<Longrightarrow> v \<in> set vs \<Longrightarrow> \<exists>x. f v = Inr (Some x)"
  by (induction vs arbitrary: xs) (auto simp: read_bind_def run_simps split: option.splits)

lemma read_bind_Some: "read_bind m f = Inr (Some y) \<longleftrightarrow> (\<exists>x. m = Inr (Some x) \<and> f x = Inr (Some y))"
  by (cases m) (auto simp: read_bind_def split: option.splits)

lemma read_check_Some: "read_check ok m = Inr (Some y) \<longleftrightarrow> ok \<and> m = Inr (Some y)"
  by (simp add: read_check_def)

lemma image_has_fields:
  assumes "contents v = image_of flds x" "names_ok (flds x)"
  shows "has_fields (json_value_get_object (Some v)) (flds x)"
proof -
  obtain fs' c' where "v = JSONObject fs' c'" "fields_of fs' = flds x"
    using contents_object [OF assms(1) [unfolded image_of_def]] unfolding fields_of_def .
  then show ?thesis using assms(2) by (auto simp: has_fields_def)
qed

lemma fractional_demand:
  assumes "has_fields ob (demand_fields x)" "int_of_double (price x) = Inr i" "\<not> deq (price x) (double_of_int i)"
  shows "Demand_fromJsonObject ob \<noteq> Inr (Some y)"
proof
  assume "Demand_fromJsonObject ob = Inr (Some y)"
  then obtain p where "read_uint32 ''price'' ob = Inr (Some p)" by (auto simp: Demand_fromJsonObject_def read_bind_Some)
  moreover have "json_object_get_number ob (Some ''price'') = price x"
    by (rule get_number_field [OF assms(1)]) (simp_all add: demand_fields_def)
  ultimately show False using assms(2,3) by (simp add: read_uint32_def read_check_Some isInteger_def Let_def split: if_splits)
qed

lemma fractional_bid:
  assumes "has_fields ob (bid_fields b)" "x \<in> set (demands b)" "int_of_double (price x) = Inr i" "\<not> deq (price x) (double_of_int i)"
  shows "Bid_fromJsonObject ob \<noteq> Inr (Some y)"
proof
  assume r: "Bid_fromJsonObject ob = Inr (Some y)"
  obtain ar where ar: "json_object_get_array ob (Some ''bids'') = Some ar" "map contents (items ar) = map (image_of demand_fields) (demands b)"
    by (rule get_array_field [OF assms(1), of "''bids''"]) (auto simp: bid_fields_def)
  have "image_of demand_fields x \<in> set (map contents (items ar))" using assms(2) by (simp add: ar(2))
  then obtain v where v: "v \<in> set (items ar)" "contents v = image_of demand_fields x" by auto
  from r obtain ds where "read_items (read_object_item Demand_fromJsonObject) (items ar) = Inr (Some ds)"
    by (auto simp: Bid_fromJsonObject_def read_bind_Some read_check_Some ar(1))
  from read_items_each [OF this v(1)] obtain z where "Demand_fromJsonObject (json_value_get_object (Some v)) = Inr (Some z)"
    by (auto simp: read_object_item_def)
  moreover have "has_fields (json_value_get_object (Some v)) (demand_fields x)"
    by (rule image_has_fields [OF v(2)]) (simp add: demand_fields_def)
  ultimately show False using fractional_demand assms(3,4) by blast
qed

lemma fractional_dynamic:
  assumes "row \<in> set (clockBids d)" "b \<in> set row" "x \<in> set (demands b)"
    and "int_of_double (price x) = Inr i" "\<not> deq (price x) (double_of_int i)" "has_fields ob (dynamic_fields d)"
  shows "DynamicAuctionState_fromJsonObject d0 ob \<noteq> Inr (Some d')"
proof
  assume r: "DynamicAuctionState_fromJsonObject d0 ob = Inr (Some d')"
  obtain ar where ar: "json_object_get_array ob (Some ''clockBids'') = Some ar"
    "map contents (items ar) = map (\<lambda>row. JSONArray (map (image_of bid_fields) row) 0) (clockBids d)"
    by (rule get_array_field [OF assms(6), of "''clockBids''"]) (auto simp: dynamic_fields_def matrix_json_def)
  have "JSONArray (map (image_of bid_fields) row) 0 \<in> set (map contents (items ar))" using assms(1) by (simp add: ar(2))
  then obtain v where v: "v \<in> set (items ar)" "contents v = JSONArray (map (image_of bid_fields) row) 0" by auto
  obtain ys c where ys: "v = JSONArray ys c" "map contents ys = map (image_of bid_fields) row" using v(2) by (cases v) auto
  have "image_of bid_fields b \<in> set (map contents ys)" using assms(2) by (simp add: ys(2))
  then obtain w where w: "w \<in> set ys" "contents w = image_of bid_fields b" by auto
  from r obtain cb where "read_items (read_array_item (read_object_item Bid_fromJsonObject)) (items ar) = Inr (Some cb)"
    by (auto simp: DynamicAuctionState_fromJsonObject_def read_bind_Some read_check_Some Let_def read_array_def ar(1) split: option.splits)
  from read_items_each [OF this v(1)] obtain bs where "read_items (read_object_item Bid_fromJsonObject) ys = Inr (Some bs)"
    by (auto simp: read_array_item_def ys(1))
  from read_items_each [OF this w(1)] obtain z where "Bid_fromJsonObject (json_value_get_object (Some w)) = Inr (Some z)"
    by (auto simp: read_object_item_def)
  moreover have "has_fields (json_value_get_object (Some w)) (bid_fields b)"
    by (rule image_has_fields [OF w(2)]) (simp add: bid_fields_def)
  ultimately show False using fractional_bid assms(3-5) by blast
qed

lemma fractional_document:
  assumes "keeps_entries pr store" "plenty (heap_mem ctx)" "state_writable s d" "holds_state sgx (store (u_shim_ctx ctx)) a s d"
    and "row \<in> set (clockBids d)" "b \<in> set row" "x \<in> set (demands b)"
    and "int_of_double (price x) = Inr i" "\<not> deq (price x) (double_of_int i)"
  shows "load_document sgx pr junk (dynamic_key a) (DynamicAuctionState_fromJsonObject d0) ctx \<noteq> Inr (Some d', ctx')"
proof -
  have dw: "dynamic_writable d" "length (dynamic_text d) + 1 < 10 ^ 9" using assms(3) by (auto simp: state_writable_def)
  have "storable (dynamic_text d)"
    using writes_nul_free [OF dynamic_writes [OF dw(1)] dynamic_fields_names(1)] dw(2) by (simp add: storable_def dynamic_text_def image_of_def)
  then obtain ctx1 where 1: "ledgerPrivateGetString sgx pr junk (dynamic_key a) ctx = Inr (Some (dynamic_text d), ctx1)" "heap_mem ctx1 = heap_mem ctx"
    using get_string_holds [OF assms(1) state_keys(8)] assms(4) unfolding holds_state_def by metis
  have h: "plenty (heap_mem ctx1)" using 1(2) assms(2) by simp
  have "numbers_ok (JSONObject (dynamic_fields d) 0)" "levels (JSONObject (dynamic_fields d) 0) \<le> 2049" using dynamic_printable [OF dw(1)] by simp_all
  from writes_parsed [OF dynamic_writes [OF dw(1)] dynamic_fields_names this h]
  obtain ob h' where ob: "openJsonObject (Some (dynamic_text d)) (heap_mem ctx1) = Inr (Some ob, h')" "has_fields (Some ob) (dynamic_fields d)"
    unfolding dynamic_text_def image_of_def by blast
  have "DynamicAuctionState_fromJsonObject d0 (Some ob) \<noteq> Inr (Some y)" for y using fractional_dynamic [OF assms(5-9) ob(2)] .
  then show ?thesis using 1(1) ob(1) by (auto simp: load_document_def run_simps split: option.splits if_splits)
qed

text \<open>C38. Prices are numbers, but the price of a demand is read as an integer. The processing of a round completes bids at
  the posted prices, which need not be whole. A state that has such a price in a bid is stored without an error;
  afterwards the auction cannot be loaded, by any submitter, and every transaction on it fails.\<close>

theorem fractional_price_loses_auction:
  assumes "gcm_correct sgx" "keeps_entries pr store" "map_wf (store (u_shim_ctx ctx))" "plenty (heap_mem ctx)" "state_writable s d"
    and "row \<in> set (clockBids d)" "b \<in> set row" "x \<in> set (demands b)"
    and "int_of_double (price x) = Inr i" "\<not> deq (price x) (double_of_int i)"
    and "plenty (heap_mem ctx2)"
  shows "\<exists>ctx1. storeAuctionState sgx pr a s d ctx = Inr ctx1 \<and>
    (store (u_shim_ctx ctx2) = store (u_shim_ctx ctx1) \<longrightarrow>
       (\<forall>sd ctx3. loadAuctionState sgx pr junk a new_static (new_dynamic p e) ctx2 \<noteq> Inr (Some sd, ctx3)))"
proof -
  obtain ctx1 where 1: "storeAuctionState sgx pr a s d ctx = Inr ctx1" "holds_state sgx (store (u_shim_ctx ctx1)) a s d"
    using storeAuctionState_holds [OF assms(1,2,4,5,3), of a] by metis
  have "loadAuctionState sgx pr junk a new_static (new_dynamic p e) ctx2 \<noteq> Inr (Some sd, ctx3)" if st: "store (u_shim_ctx ctx2) = store (u_shim_ctx ctx1)" for sd ctx3
  proof -
    have sok: "static_ok s" "length (json_text False 0 (image_of static_fields s)) + 1 < 10 ^ 9"
      and hs: "holds_text sgx (store (u_shim_ctx ctx2)) (static_key a) (json_text False 0 (image_of static_fields s))"
      using assms(5) 1(2) st by (auto simp: state_writable_def static_text_def holds_state_def)
    obtain c where c: "load_document sgx pr junk (static_key a) (fromExtendedJsonObject new_static) ctx2 = Inr (Some s, c)"
      "store (u_shim_ctx c) = store (u_shim_ctx ctx2)" "plenty (heap_mem c)"
      by (rule static_codec.document_loaded [OF sok(1) _ assms(2) state_keys(7) assms(11) sok(2) hs]) simp
    have "holds_state sgx (store (u_shim_ctx c)) a s d" using c(2) st 1(2) by simp
    from fractional_document [OF assms(2) c(3) assms(5) this assms(6-10)] show ?thesis
      using c(1) by (auto simp: loadAuctionState_def run_simps simp flip: static_key_def dynamic_key_def split: option.splits)
  qed
  then show ?thesis using 1(1) by blast
qed

definition half_dynamic :: DynamicAuctionState where
  "half_dynamic = spectrum_dynamic\<lparr>clockBids := [[spectrum_bid 2 1\<lparr>demands := [\<lparr>territoryId = 1, quantity = 1, price = Finite False (2 ^ 52) (- 53)\<rparr>]\<rparr>]]\<rparr>"

lemma half_price: "int_of_double (Finite False (2 ^ 52) (- 53)) = Inr 0" "\<not> deq (Finite False (2 ^ 52) (- 53)) (double_of_int 0)"
  "reads_back (Finite False (2 ^ 52) (- 53))"
  by (simp_all add: double_of_int_def round_to_double_def int_range_def mag_def with_sign_def scale_def)

lemma half_writable: "state_writable spectrum_static half_dynamic"
proof -
  have s: "static_ok spectrum_static" "length (static_text spectrum_static) + 1 < 10 ^ 9"
    using spectrum_state_ok by (simp_all add: state_ok_def state_writable_def)
  have "dynamic_writable spectrum_dynamic" using spectrum_dynamic_ok by (simp add: dynamic_ok_def)
  then have d: "dynamic_writable half_dynamic"
    using half_price(3) unfolding half_dynamic_def
    by (simp add: dynamic_writable_def all_entries_def bid_writable_def demand_writable_def spectrum_bid_def small_uint_def)
  then have "numbers_ok (image_of dynamic_fields half_dynamic)" using dynamic_printable by (simp add: image_of_def)
  moreover have "text_bound (image_of dynamic_fields half_dynamic) < 10000"
    by (simp add: image_of_def dynamic_fields_def half_dynamic_def spectrum_dynamic_def matrix_json_def bid_fields_def demand_fields_def spectrum_bid_def)
  ultimately have "length (dynamic_text half_dynamic) < 10000" using length_json_text(1) [of "image_of dynamic_fields half_dynamic" False 0] by (simp add: dynamic_text_def)
  then show ?thesis using s d by (simp add: state_writable_def)
qed

theorem fractional_price_loses_auction_witness:
  "\<exists>ctx1. storeAuctionState sample_sgx sample_peer 1 spectrum_static half_dynamic (sample_ctx [] []) = Inr ctx1 \<and>
     (\<forall>sd ctx3. loadAuctionState sample_sgx sample_peer [] 1 new_static (new_dynamic (spectrum_principal ''b1'') EC_ERROR)
        (sample_ctx (u_shim_ctx ctx1) []) \<noteq> Inr (Some sd, ctx3))"
proof -
  have p: "plenty (heap_mem (sample_ctx m []))" "map_wf (sample_store (u_shim_ctx (sample_ctx [] [])))" for m
    by (simp_all add: sample_ctx_def plenty_def sample_store_def)
  let ?x = "\<lparr>territoryId = 1, quantity = 1, price = Finite False (2 ^ 52) (- 53)\<rparr>" and ?b = "spectrum_bid 2 1"
  have m: "[?b\<lparr>demands := [?x]\<rparr>] \<in> set (clockBids half_dynamic)" "?b\<lparr>demands := [?x]\<rparr> \<in> set [?b\<lparr>demands := [?x]\<rparr>]" "?x \<in> set (demands (?b\<lparr>demands := [?x]\<rparr>))"
    by (simp_all add: half_dynamic_def)
  have q: "int_of_double (price ?x) = Inr 0" "\<not> deq (price ?x) (double_of_int 0)" using half_price(1,2) by simp_all
  note th = fractional_price_loses_auction [OF sample_gcm sample_keeps p(2) p(1) half_writable m q p(1), of 1 _ "[]" "spectrum_principal ''b1''" EC_ERROR]
  obtain ctx1 where 1: "storeAuctionState sample_sgx sample_peer 1 spectrum_static half_dynamic (sample_ctx [] []) = Inr ctx1" using th by blast
  then show ?thesis using th [of "u_shim_ctx ctx1"] by (auto simp: sample_store_def sample_ctx_def)
qed

section \<open>Refusals and queries\<close>

lemma get_state_writes: "get_state sgx pr key buf n ctx = Inr (v, l, ctx') \<Longrightarrow> write_set ctx' = write_set ctx"
  by (auto simp: get_state_def get_public_state_def Let_def run_simps split: prod.split_asm if_split_asm)

lemma get_string_writes: "ledgerPrivateGetString sgx pr junk key ctx = Inr (r, ctx') \<Longrightarrow> write_set ctx' = write_set ctx"
  by (auto simp: ledgerPrivateGetString_def Let_def run_simps dest!: get_state_writes split: prod.split_asm if_split_asm)

lemma load_document_writes:
  assumes "load_document sgx pr junk key f ctx = Inr (r, ctx')"
  shows "write_set ctx' = write_set ctx"
proof -
  obtain v ctx1 where g: "ledgerPrivateGetString sgx pr junk key ctx = Inr (v, ctx1)"
    using assms by (cases "ledgerPrivateGetString sgx pr junk key ctx") (auto simp: load_document_def)
  note w = get_string_writes [OF g]
  show ?thesis
  proof (cases "v = None \<or> v = Some []")
    case True
    then show ?thesis using assms g w by (auto simp: load_document_def)
  next
    case False
    then obtain s where s: "v = Some s" "s \<noteq> []" by auto
    then obtain ob h where ob: "openJsonObject (Some s) (heap_mem ctx1) = Inr (ob, h)"
      using assms g by (cases "openJsonObject (Some s) (heap_mem ctx1)") (auto simp: load_document_def)
    then obtain y where y: "f ob = Inr y" using assms g s by (cases "f ob") (auto simp: load_document_def)
    show ?thesis using assms g s ob y w by (cases y; cases "closeJsonObject ob False h") (auto simp: load_document_def)
  qed
qed

lemma load_writes: "loadAuctionState sgx pr junk a s d ctx = Inr (r, ctx') \<Longrightarrow> write_set ctx' = write_set ctx"
  by (auto simp: loadAuctionState_def run_simps dest!: load_document_writes split: prod.split_asm option.split_asm)

lemma answer_writes: "answer_with w ctx = Inr (r, ctx') \<Longrightarrow> write_set ctx' = write_set ctx \<and> (\<exists>t. r = Inr t)"
  by (auto simp: answer_with_def run_simps split: prod.split_asm)

text \<open>What is refused writes nothing; a query writes nothing at all.\<close>

definition quiet :: "bool \<Rightarrow> ('w shim_ctx \<Rightarrow> 'w answer) \<Rightarrow> bool" where
  "quiet query f = (\<forall>ctx r ctx'. f ctx = Inr (r, ctx') \<longrightarrow> query \<or> (\<exists>code. r = Inl code) \<longrightarrow> write_set ctx' = write_set ctx)"

lemma quiet_answer: "quiet q (answer_with w)"
  by (auto simp: quiet_def dest: answer_writes)

lemma quiet_refused: "quiet q (\<lambda>ctx. Inr (Inl code, ctx))"
  by (simp add: quiet_def)

lemma quiet_if: "quiet q f \<Longrightarrow> quiet q g \<Longrightarrow> quiet q (\<lambda>ctx. if b then f ctx else g ctx)"
  by (auto simp: quiet_def)

lemma quiet_state:
  assumes "\<And>s d. quiet q (k s d)"
  shows "quiet q (with_state sgx pr junk a d0 k)"
  unfolding quiet_def
proof (intro allI impI)
  fix ctx r ctx' assume r: "with_state sgx pr junk a d0 k ctx = Inr (r, ctx')" "q \<or> (\<exists>code. r = Inl code)"
  then obtain y ctx1 where y: "loadAuctionState sgx pr junk a new_static d0 ctx = Inr (y, ctx1)"
    by (cases "loadAuctionState sgx pr junk a new_static d0 ctx") (auto simp: with_state_def)
  show "write_set ctx' = write_set ctx"
  proof (cases y)
    case (Some sd)
    then have "k (fst sd) (snd sd) ctx1 = Inr (r, ctx')" using r(1) y by (cases sd) (simp add: with_state_def)
    then show ?thesis using assms r(2) load_writes [OF y] unfolding quiet_def by metis
  qed (use r(1) y load_writes [OF y] in \<open>simp add: with_state_def\<close>)
qed

lemma quiet_heap:
  assumes "\<And>x. quiet q (k x)"
  shows "quiet q (\<lambda>ctx. run_bind (m (heap_mem ctx)) (\<lambda>(r, h1). (case r of
    None \<Rightarrow> Inr (Inl EC_INVALID_INPUT, ctx\<lparr>heap_mem := h1\<rparr>) | Some x \<Rightarrow> k x (ctx\<lparr>heap_mem := h1\<rparr>))))"
  unfolding quiet_def
proof (intro allI impI)
  fix ctx r ctx'
  assume r: "run_bind (m (heap_mem ctx)) (\<lambda>(r, h1). (case r of
    None \<Rightarrow> Inr (Inl EC_INVALID_INPUT, ctx\<lparr>heap_mem := h1\<rparr>) | Some x \<Rightarrow> k x (ctx\<lparr>heap_mem := h1\<rparr>))) = Inr (r, ctx')" "q \<or> (\<exists>code. r = Inl code)"
  then obtain y h where y: "m (heap_mem ctx) = Inr (y, h)" by (auto simp: run_simps)
  then show "write_set ctx' = write_set ctx"
  proof (cases y)
    case (Some x)
    then have "k x (ctx\<lparr>heap_mem := h\<rparr>) = Inr (r, ctx')" using r(1) y by simp
    then have "write_set ctx' = write_set (ctx\<lparr>heap_mem := h\<rparr>)" using assms r(2) unfolding quiet_def by blast
    then show ?thesis by simp
  qed (use r(1) in auto)
qed

lemma quiet_auction: "(\<And>a s d. quiet q (k a s d)) \<Longrightarrow> quiet q (with_auction sgx pr junk from_json x d0 k)"
  using quiet_heap [where q = q and k = "\<lambda>a. with_state sgx pr junk a d0 (k a)" and m = "from_json x"] quiet_state [of q "k a" for a]
  by (simp add: with_auction_def [abs_def])

lemma quiet_round: "(\<And>a s d. quiet q (k a s d)) \<Longrightarrow> quiet q (with_round sgx pr junk from_json x d0 k)"
  using quiet_heap [where q = q and k = "\<lambda>p. with_state sgx pr junk (fst p) d0 (k (snd p))" and m = "from_json x"] quiet_state [of q "k r" for r]
  by (simp add: with_round_def [abs_def] case_prod_unfold cong: option.case_cong)

lemma quiet_commit: "quiet False (commit sgx pr a msg s out)"
  unfolding quiet_def
proof (intro allI impI)
  fix ctx r ctx' assume r: "commit sgx pr a msg s out ctx = Inr (r, ctx')" "False \<or> (\<exists>code. r = Inl code)"
  then obtain o' where o: "out = Inr o'" by (cases out) (auto simp: commit_def)
  show "write_set ctx' = write_set ctx"
  proof (cases o')
    case (Inr d)
    then obtain ctx1 where "answer_with msg ctx1 = Inr (r, ctx')" using r(1) by (auto simp: commit_def o run_simps)
    then show ?thesis using answer_writes r(2) by blast
  qed (use r(1) in \<open>simp add: commit_def o\<close>)
qed

definition query_names :: "string list" where
  "query_names = [''getAuctionDetails'', ''getAuctionStatus'', ''getRoundInfo'', ''getBidderRoundResults'', ''getOwnerRoundResults'',
     ''submitAssignmentBid'', ''getAssignmentResults'']"

lemmas quiet_intros = quiet_answer quiet_refused quiet_if quiet_auction quiet_round quiet_state

lemma quiet_queries:
  "quiet q (SpectrumAuction_getAuctionDetails sgx pr junk d x)" "quiet q (SpectrumAuction_getAuctionStatus sgx pr junk d x)"
  "quiet q (SpectrumAuction_getRoundInfo sgx pr junk d x)" "quiet q (SpectrumAuction_getBidderRoundResults sgx pr junk d x)"
  "quiet q (SpectrumAuction_getOwnerRoundResults sgx pr junk d x)" "quiet q SpectrumAuction_submitAssignmentBid"
  "quiet q (SpectrumAuction_getAssignmentResults sgx pr junk d x)"
  unfolding SpectrumAuction_getAuctionDetails_def SpectrumAuction_getAuctionStatus_def SpectrumAuction_getRoundInfo_def
    SpectrumAuction_getBidderRoundResults_def SpectrumAuction_getOwnerRoundResults_def SpectrumAuction_submitAssignmentBid_def
    SpectrumAuction_getAssignmentResults_def
  by (intro quiet_intros)+

lemma quiet_updates:
  "quiet False (SpectrumAuction_startNextRound sgx pr junk d x)" "quiet False (SpectrumAuction_endRound sgx pr env junk d x)"
  "quiet False (SpectrumAuction_publishAssignmentResults sgx pr junk d x)"
proof -
  show "quiet False (SpectrumAuction_startNextRound sgx pr junk d x)" "quiet False (SpectrumAuction_endRound sgx pr env junk d x)"
    unfolding SpectrumAuction_startNextRound_def SpectrumAuction_endRound_def by (intro quiet_auction quiet_commit)+
  show "quiet False (SpectrumAuction_publishAssignmentResults sgx pr junk d x)"
    unfolding SpectrumAuction_publishAssignmentResults_def
    by (intro quiet_auction quiet_if quiet_refused) (auto simp: quiet_def run_simps dest: answer_writes split: prod.split_asm)
qed

lemma quiet_submit: "quiet False (SpectrumAuction_submitClockBid sgx pr junk d x)"
  unfolding SpectrumAuction_submitClockBid_def [abs_def] by (rule quiet_heap, rule quiet_state, rule quiet_commit)

lemma quiet_create: "quiet False (SpectrumAuction_createAuction sgx pr junk d x)"
proof -
  have "quiet False (\<lambda>ctx. if \<not> checkValidity s then Inr (Inl EC_INVALID_INPUT, ctx)
      else run_bind (InitializeAuctionIdCounter sgx pr junk ctx) (\<lambda>(a, ctx1).
               run_bind (IncrementAndStoreAuctionIdCounter sgx pr a ctx1) (\<lambda>ctx2.
               run_bind (initialize CLOCK_PHASE 1 False s d) (\<lambda>(s1, d1).
               run_bind (storeAuctionState sgx pr a s1 d1 ctx2) (\<lambda>ctx3.
                 answer_with (toCreateAuctionJson 0 ''Auction created'' a) ctx3)))))" for s
    by (rule quiet_if) (auto simp: quiet_def run_simps dest: answer_writes split: prod.split_asm)
  from quiet_heap [where m = "fromCreateAuctionJson new_static x", OF this] show ?thesis
    by (simp add: SpectrumAuction_createAuction_def [abs_def])
qed

lemma quiet_functions: "map_of (fMap sgx pr env junk d) f = Some g \<Longrightarrow> quiet (f \<in> set query_names) (g x)"
  using quiet_queries quiet_updates quiet_submit quiet_create
  by (auto simp: fMap_def query_names_def split: if_splits)

text \<open>C20. A call that reports an error, and a query in any case, leave the write set as it was, whatever the peer answers
  and whatever the parameter is.\<close>

theorem refused_call_writes_nothing:
  assumes "call_api sgx pr env junk site d f ps ctx = Inr (e, t, ctx')" "\<not> isSuccess e \<or> f \<in> set query_names"
  shows "write_set ctx' = write_set ctx"
proof (cases "map_of (fMap sgx pr env junk d) f")
  case None
  then show ?thesis using assms(1) by (simp add: call_api_def)
next
  case (Some g)
  then obtain x where x: "index ps 0 = Inr x" using assms(1) by (cases "index ps 0") (auto simp: call_api_def)
  then obtain r ctx1 where r: "g x ctx = Inr (r, ctx1)" using assms(1) Some by (cases "g x ctx") (auto simp: call_api_def)
  have "ctx1 = ctx' \<and> (f \<in> set query_names \<or> (\<exists>code. r = Inl code))"
    using assms x r Some by (cases r) (auto simp: call_api_def isSuccess_def)
  then show ?thesis using quiet_functions [OF Some, of x] r unfolding quiet_def by blast
qed

theorem refused_call_writes_nothing_witness:
  "\<exists>e t ctx'. call_api sample_sgx sample_peer (spectrum_env 0) [] ''site'' spectrum_fresh ''submitAssignmentBid'' [[]]
     ((sample_ctx [] [])\<lparr>write_set := [(''k'', ''v'')]\<rparr>) = Inr (e, t, ctx') \<and> ec e = EC_UNIMPLEMENTED_API \<and> write_set ctx' = [(''k'', ''v'')]"
proof -
  let ?ctx = "(sample_ctx [] [])\<lparr>write_set := [(''k'', ''v'')]\<rparr>"
  have run: "call_api sample_sgx sample_peer (spectrum_env 0) [] ''site'' spectrum_fresh ''submitAssignmentBid'' [[]] ?ctx =
      Inr (error_report EC_UNIMPLEMENTED_API ''site'', [], ?ctx)"
    by (simp add: call_api_def fMap_def SpectrumAuction_submitAssignmentBid_def index_def)
  have "write_set ?ctx = write_set ?ctx"
    by (rule refused_call_writes_nothing [OF run]) (simp add: query_names_def)
  then show ?thesis using run by (simp add: error_report_def)
qed

section \<open>The response\<close>

definition wrapped_status :: "ErrorReport \<Rightarrow> string" where
  "wrapped_status e = json_text False 0 (JSONObject (status_fields (ec_number (ec e)) (errorString e)) 0)"

lemma first_index_bound: "- 1 \<le> first_index P i xs \<and> first_index P i xs \<le> int (i + length xs)"
proof (induction xs arbitrary: i)
  case (Cons x xs)
  then show ?case using Cons.IH [of "Suc i"] by simp
qed simp

lemma ec_number_range: "int_range (ec_number c)"
proof -
  have "length error_codes = 27" by (simp add: error_codes_def)
  then show ?thesis using first_index_bound [of "\<lambda>p. fst p = c" 0 error_codes] by (simp add: ec_number_def int_range_def)
qed

lemma wrapped_status_written:
  assumes "text_ok (errorString e)" "plenty h"
  obtains h' where "toWrappedStatusJsonString e old h = Inr (wrapped_status e, h')" "plenty h'"
proof -
  let ?fs = "status_fields (ec_number (ec e)) (errorString e)"
  have "distinct (map fst ?fs)" by (simp add: status_fields_def)
  from writes_assigned [OF status_writes [OF ec_number_range assms(1)] this assms(2), of old] show thesis
    using that unfolding toWrappedStatusJsonString_def wrapped_status_def by metis
qed

definition short_report :: ErrorReport where
  "short_report = error_report EC_SHORT_RESPONSE_BUFFER ''Response string too long to be output''"

lemma short_report_ok: "text_ok (errorString short_report)"
  by (auto simp: short_report_def error_report_def ec_name_def error_codes_def intro!: text_ok_ascii)



end
