(* ===== verification/Spectrum_Queries.thy ===== *)
theory Spectrum_Queries
  imports Spectrum_Ledger_Props
begin

text \<open>
  The query \<open>getOwnerRoundResults\<close> of the spectrum chaincode on a ledger that holds the auction: who is refused, what the
  owner is answered, and for which rounds the results are read outside their vectors.
\<close>

section \<open>Requests with a round\<close>

definition round_fields :: "nat \<times> nat \<Rightarrow> (string \<times> json_value) list" where
  "round_fields ar = [(''auctionId'', uint_json (fst ar)), (''round'', uint_json (snd ar))]"

definition round_text :: "nat \<times> nat \<Rightarrow> string" where
  "round_text ar = json_text False 0 (image_of round_fields ar)"

interpretation round_request: json_codec
  "\<lambda>ar. write_all [put_int ''auctionId'' (int (fst ar)), put_int ''round'' (int (snd ar))]"
  "\<lambda>ob. read_bind (read_uint32 ''auctionId'' ob) (\<lambda>a. read_bind (read_uint32 ''round'' ob) (\<lambda>r. Inr (Some (a, r))))"
  round_fields "\<lambda>ar. small_uint (fst ar) \<and> small_uint (snd ar)" 2
proof
  fix ar ob assume ok: "small_uint (fst ar) \<and> small_uint (snd ar)"
  show "writes (write_all [put_int ''auctionId'' (int (fst ar)), put_int ''round'' (int (snd ar))]) (round_fields ar)"
    unfolding round_fields_def using ok by (intro one_field write_all_Nil put_int_writes) (auto simp: small_int)
  show "numbers_ok (JSONObject (round_fields ar) 0) \<and> levels (JSONObject (round_fields ar) 0) \<le> 2"
    using ok by (simp add: round_fields_def small_int)
  assume f: "has_fields ob (round_fields ar)"
  have "read_uint32 ''auctionId'' ob = Inr (Some (fst ar))" "read_uint32 ''round'' ob = Inr (Some (snd ar))"
    using ok by (auto intro!: read_uint32_field [OF f] simp: round_fields_def)
  then show "read_bind (read_uint32 ''auctionId'' ob) (\<lambda>a. read_bind (read_uint32 ''round'' ob) (\<lambda>r. Inr (Some (a, r)))) = Inr (Some ar)"
    by (simp add: read_bind_def)
qed (simp add: round_fields_def)

lemma from_auctionId_round_request:
  assumes "small_uint a" "small_uint r" "plenty h"
  obtains h' where "from_auctionId_round (round_text (a, r)) h = Inr (if a \<noteq> 0 \<and> r \<noteq> 0 then Some (a, r) else None, h')" "plenty h'"
proof -
  have ok: "small_uint (fst (a, r)) \<and> small_uint (snd (a, r))" using assms by simp
  obtain ob h' where ob: "openJsonObject (Some (round_text (a, r))) h = Inr (Some ob, h')" "plenty h'" "has_fields (Some ob) (round_fields (a, r))"
    using round_request.document_read [OF ok assms(3)] unfolding round_text_def by auto
  have "cstr (round_text (a, r)) = round_text (a, r)"
    using round_request.image_text_nul_free [OF ok] by (simp add: round_text_def)
  moreover have "json_object_get_number (Some ob) (Some ''auctionId'') = double_of_int (int a)"
    "json_object_get_number (Some ob) (Some ''round'') = double_of_int (int r)"
    by (rule get_number_field [OF ob(3)]; simp add: round_fields_def)+
  moreover have "uint32_of_double (double_of_int (int n)) = Inr n" if "small_uint n" for n
    using uint32_exact(2) small_int(2) [OF that] by blast
  ultimately show thesis
    using ob(1,2) assms(1,2) by (intro that [of "json_value_free (JSONObject_of ob) h'"])
      (simp_all add: from_auctionId_round_def closeJsonObject_def json_object_get_wrapping_value_def plenty_def)
qed

section \<open>The results of a round\<close>

text \<open>A round whose results are in the vectors: one entry per territory, and a row of licenses per bidder.\<close>

definition round_recorded :: "StaticAuctionState \<Rightarrow> DynamicAuctionState \<Rightarrow> nat \<Rightarrow> bool" where
  "round_recorded s d r = (r < length (processedLicenses d) \<and> r < length (postedPrice d) \<and> r < length (excessDemand d) \<and>
     grid (getBiddersN s) (getTerritoryN s) (processedLicenses d ! r) \<and>
     length (postedPrice d ! r) = getTerritoryN s \<and> length (excessDemand d ! r) = getTerritoryN s \<and> small_uint (getBiddersN s))"

definition active_bidders :: "StaticAuctionState \<Rightarrow> DynamicAuctionState \<Rightarrow> nat \<Rightarrow> nat \<Rightarrow> nat" where
  "active_bidders s d r i = length (filter (\<lambda>row. 0 < row ! i) (processedLicenses d ! r))"

definition owner_row :: "StaticAuctionState \<Rightarrow> DynamicAuctionState \<Rightarrow> nat \<Rightarrow> nat \<times> nat \<Rightarrow> (string \<times> json_value) list" where
  "owner_row s d r it = (case it of (i, t) \<Rightarrow>
     [(''terId'', uint_json t), (''postedPrice'', JSONNumber (postedPrice d ! r ! i)),
      (''excessDemand'', JSONNumber (double_of_int (excessDemand d ! r ! i))), (''activeBidders'', uint_json (active_bidders s d r i))])"

definition owner_fields :: "StaticAuctionState \<Rightarrow> DynamicAuctionState \<Rightarrow> nat \<Rightarrow> (string \<times> json_value) list" where
  "owner_fields s d r = [(''result'', JSONArray (map (image_of (owner_row s d r)) (enumerate 0 (getTerritoryIds s))) 0)]"

definition owner_text :: "StaticAuctionState \<Rightarrow> DynamicAuctionState \<Rightarrow> nat \<Rightarrow> string" where
  "owner_text s d r = json_text False 0 (JSONObject (status_fields 0 ''Get owner round results'' @
     [(''response'', JSONObject (owner_fields s d r) 0)]) 0)"

lemma count_active_rows:
  assumes "r < length (processedLicenses d)" "\<forall>j \<in> set js. j < length (processedLicenses d ! r) \<and> i < length (processedLicenses d ! r ! j)"
  shows "count_active d r i js = Inr (length (filter (\<lambda>j. 0 < processedLicenses d ! r ! j ! i) js))"
  using assms by (induction js) (auto simp: licenses_of_def index2_def index_def)

lemma filter_upt_rows: "length (filter (\<lambda>j. P (xs ! j)) [0..<length xs]) = length (filter P xs)"
proof -
  have "filter P xs = filter P (map ((!) xs) [0..<length xs])" by (simp add: map_nth)
  also have "length \<dots> = length (filter (\<lambda>j. P (xs ! j)) [0..<length xs])" by (simp add: filter_map o_def)
  finally show ?thesis by simp
qed

lemma count_active_bidders:
  assumes "round_recorded s d r" "i < getTerritoryN s"
  shows "count_active d r i [0..<getBiddersN s] = Inr (active_bidders s d r i)"
proof -
  have g: "length (processedLicenses d ! r) = getBiddersN s" "\<And>j. j < getBiddersN s \<Longrightarrow> length (processedLicenses d ! r ! j) = getTerritoryN s"
    using assms(1) grid_length unfolding round_recorded_def by blast+
  have "count_active d r i [0..<getBiddersN s] = Inr (length (filter (\<lambda>j. 0 < processedLicenses d ! r ! j ! i) [0..<getBiddersN s]))"
    using assms g by (intro count_active_rows) (auto simp: round_recorded_def)
  then show ?thesis using filter_upt_rows [of "\<lambda>row. 0 < row ! i" "processedLicenses d ! r"] g(1) by (simp add: active_bidders_def)
qed

lemma active_bidders_small: "round_recorded s d r \<Longrightarrow> small_uint (active_bidders s d r i)"
  using length_filter_le [of "\<lambda>row. 0 < row ! i" "processedLicenses d ! r"]
  by (auto simp: round_recorded_def grid_def active_bidders_def small_uint_def)

lemma all_entries_nth: "all_entries P rows \<Longrightarrow> r < length rows \<Longrightarrow> i < length (rows ! r) \<Longrightarrow> P (rows ! r ! i)"
  by (simp add: all_entries_def list_all_length)

lemma owner_results_written:
  assumes "round_recorded s d r" "state_ok s d"
  shows "writes (toOwnerRoundResultsJsonObject d s r) (owner_fields s d r)"
proof -
  let ?row = "\<lambda>(i, terId) ar h. run_bind (count_active d r i [0..<getBiddersN s]) (\<lambda>activeBidders.
      item_object (\<lambda>b h. run_bind (index2 (postedPrice d) r i) (\<lambda>p. run_bind (index2 (excessDemand d) r i) (\<lambda>e.
        write_all [put_int ''terId'' (int terId), put_number ''postedPrice'' p, put_int ''excessDemand'' e,
          put_int ''activeBidders'' (int activeBidders)] b h))) ar h)"
  have row: "fills (?row it) [image_of (owner_row s d r) it]" if "it \<in> set (enumerate 0 (getTerritoryIds s))" for it
  proof -
    obtain i t where it: "it = (i, t)" by (cases it)
    then have i: "i < getTerritoryN s" and t: "small_uint t"
      using that assms(2) by (auto simp: in_set_enumerate_eq getTerritoryIds_def getTerritoryN_def state_ok_def state_writable_def
          static_ok_def territory_ok_def list_all_length)
    have "reads_back (postedPrice d ! r ! i)" "int_range (excessDemand d ! r ! i)"
      using all_entries_nth [of reads_back "postedPrice d" r i] all_entries_nth [of int_range "excessDemand d" r i] assms i
      by (simp_all add: round_recorded_def state_ok_def state_writable_def dynamic_writable_def)
    then have w: "writes (write_all [put_int ''terId'' (int t), put_number ''postedPrice'' (postedPrice d ! r ! i),
        put_int ''excessDemand'' (excessDemand d ! r ! i), put_int ''activeBidders'' (int (active_bidders s d r i))]) (owner_row s d r it)"
      unfolding it owner_row_def prod.case
      by (intro one_field write_all_Nil put_int_writes put_price_writes) (use t active_bidders_small [OF assms(1)] in \<open>simp_all add: small_int\<close>)
    have "fills (item_object (write_all [put_int ''terId'' (int t), put_number ''postedPrice'' (postedPrice d ! r ! i),
        put_int ''excessDemand'' (excessDemand d ! r ! i), put_int ''activeBidders'' (int (active_bidders s d r i))])) [image_of (owner_row s d r) it]"
      unfolding image_of_def by (rule item_object_fills [OF w]) (simp add: it owner_row_def)
    then show ?thesis
      using i assms(1) by (simp add: it count_active_bidders [OF assms(1) i] index2_def index_def round_recorded_def)
  qed
  have "fills (fill_each ?row (enumerate 0 (getTerritoryIds s))) (map (image_of (owner_row s d r)) (enumerate 0 (getTerritoryIds s)))"
    by (rule fill_each_fills) (rule row)
  then show ?thesis
    unfolding toOwnerRoundResultsJsonObject_def owner_fields_def by (intro one_field write_all_Nil put_array_writes) simp_all
qed

text \<open>Without the round the first territory is read outside the vector of licenses.\<close>

lemma owner_results_outside:
  assumes "length (processedLicenses d) \<le> r" "territories s \<noteq> []" "bidders s \<noteq> []"
  shows "toOwnerRoundResultsJsonObject d s r ob h = Inl OutOfBounds"
proof -
  obtain t ts where t: "territories s = t # ts" using assms(2) by (cases "territories s") auto
  have "[0..<getBiddersN s] = 0 # [1..<getBiddersN s]" using assms(3) upt_conv_Cons [of 0 "getBiddersN s"] by (simp add: getBiddersN_def)
  then have "count_active d r i [0..<getBiddersN s] = Inl OutOfBounds" for i
    using assms(1) by (simp add: licenses_of_def index_def)
  then show ?thesis
    by (simp add: toOwnerRoundResultsJsonObject_def write_all_def put_array_def put_value_def fill_each_def getTerritoryIds_def t split_beta)
qed

section \<open>The query\<close>

lemma status_ok: "text_ok ''Get owner round results''"
  by (rule text_ok_ascii) simp

lemma owner_answer:
  assumes "round_recorded s d r" "state_ok s d" "plenty (heap_mem ctx)"
  shows "\<exists>ctx'. answer_with (toGetOwnerRoundResultsJson 0 ''Get owner round results'' s d r) ctx = Inr (Inr (owner_text s d r), ctx')"
proof -
  let ?m = "''Get owner round results''"
  let ?w = "write_all [toWrappedStatusJsonObject 0 ?m, put_opened ''response'' (toOwnerRoundResultsJsonObject d s r)]"
  have st: "writes (toWrappedStatusJsonObject 0 ?m) (status_fields 0 ?m)"
    using status_ok by (intro status_writes) (simp_all add: int_range_def)
  have "writes (write_all [put_opened ''response'' (toOwnerRoundResultsJsonObject d s r)]) [(''response'', JSONObject (owner_fields s d r) 0)]"
    using put_object_writes(2) [OF _ owner_results_written [OF assms(1,2)]] by (intro one_field write_all_Nil) (simp_all add: owner_fields_def)
  from writes_assigned [OF write_all_Cons [OF st this] _ assms(3), of "[]"] obtain h where
    "assign_document [] ?w (heap_mem ctx) = Inr (owner_text s d r, h)" unfolding owner_text_def by (auto simp: status_fields_def)
  then show ?thesis by (simp add: answer_with_def toGetOwnerRoundResultsJson_def response_message_def to_document_def)
qed

lemma owner_answer_outside:
  assumes "length (processedLicenses d) \<le> r" "territories s \<noteq> []" "bidders s \<noteq> []" "plenty (heap_mem ctx)"
  shows "answer_with (toGetOwnerRoundResultsJson 0 ''Get owner round results'' s d r) ctx = Inl OutOfBounds"
proof -
  let ?m = "''Get owner round results''" and ?h = "(heap_mem ctx)\<lparr>live := live (heap_mem ctx) + 2\<rparr>"
  have st: "writes (toWrappedStatusJsonObject 0 ?m) (status_fields 0 ?m)"
    using status_ok by (intro status_writes) (simp_all add: int_range_def)
  have "plenty ?h" using assms(4) by simp
  moreover have "distinct (map fst (status_fields 0 ?m))" by (simp add: status_fields_def)
  ultimately obtain ob h1 where
    "toWrappedStatusJsonObject 0 ?m (Some \<lparr>pairs = [], obj_capacity = 0\<rparr>) ?h = Inr (Some ob, h1)" using new_object [OF st] by metis
  then show ?thesis using assms
    by (simp add: answer_with_def toGetOwnerRoundResultsJson_def response_message_def to_document_def assign_document_def write_all_def
        openJsonObject_def init_plenty put_opened_def owner_results_outside split_beta)
qed

definition owner_query :: "sgx \<Rightarrow> 'w peer \<Rightarrow> evaluation \<Rightarrow> string \<Rightarrow> string \<Rightarrow> Principal \<Rightarrow> error_codes_e \<Rightarrow> nat \<Rightarrow> nat \<Rightarrow> 'w shim_ctx \<Rightarrow>
    (ErrorReport \<times> string \<times> 'w shim_ctx) run" where
  "owner_query sgx pr env junk site p e a r = call_api sgx pr env junk site (new_dynamic p e) ''getOwnerRoundResults'' [round_text (a, r)]"

definition round_over :: "DynamicAuctionState \<Rightarrow> nat \<Rightarrow> bool" where
  "round_over d r = (auctionState d = CLOCK_PHASE \<and> r < clockRound d \<or> auctionState d = ASSIGNMENT_PHASE \<or> auctionState d = CLOSED)"

lemma owner_query_cases:
  assumes "keeps_entries pr store" "plenty (heap_mem ctx)" "state_ok s d" "holds_state sgx (store (u_shim_ctx ctx)) a s d"
    and "0 < a" "small_uint a" "0 < r" "small_uint r"
  obtains ctx1 where "plenty (heap_mem ctx1)" "owner_query sgx pr env junk site p e a r ctx = run_bind (
      if \<not> principal_eq p (owner s) then Inr (Inl EC_UNRECOGNIZED_SUBMITTER, ctx1)
      else if \<not> round_over d r then Inr (Inl EC_INVALID_INPUT, ctx1)
      else answer_with (toGetOwnerRoundResultsJson 0 ''Get owner round results'' s (d\<lparr>submitterPrincipal := p, er := e\<rparr>) r) ctx1)
     (\<lambda>(q, ctx1). case q of Inl code \<Rightarrow> Inr (error_report code site, [], ctx1) | Inr t \<Rightarrow> Inr (\<lparr>ec = EC_SUCCESS, errorString = []\<rparr>, t, ctx1))"
proof -
  define d1 where "d1 = d\<lparr>submitterPrincipal := p, er := e\<rparr>"
  obtain h where h: "fromGetOwnerRoundResultsJson (round_text (a, r)) (heap_mem ctx) = Inr (Some (a, r), h)" "plenty h"
    using from_auctionId_round_request [OF assms(6,8,2)] assms(5,7) by (auto simp: fromGetOwnerRoundResultsJson_def)
  have c: "plenty (heap_mem (ctx\<lparr>heap_mem := h\<rparr>))" "holds_state sgx (store (u_shim_ctx (ctx\<lparr>heap_mem := h\<rparr>))) a s d"
    using h(2) assms(4) by simp_all
  obtain ctx1 where l: "loadAuctionState sgx pr junk a new_static (new_dynamic p e) (ctx\<lparr>heap_mem := h\<rparr>) = Inr (Some (s, d1), ctx1)"
    "plenty (heap_mem ctx1)" using loadAuctionState_holds [OF assms(1) c(1) assms(3) c(2)] unfolding d1_def by metis
  show thesis
    by (rule that [OF l(2)])
      (auto simp: owner_query_def round_over_def call_api_def fMap_def index_def SpectrumAuction_getOwnerRoundResults_def with_round_def with_state_def
        h(1) l(1) d1_def isValidOwner_def isPrincipalOwner_def past_start_def isStateClockPhase_def isStateAssignmentPhase_def isStateClosedPhase_def)
qed

text \<open>C19. The query for the results of a round, on an auction that the ledger holds: only the owner is answered, and not
  before the round is over. The answer lists, for every territory, the posted price, the excess demand and the number
  of bidders with a license. Once the auction is closed the round is no longer compared with the current one: for a
  round that was never played the query reads outside the vector of licenses.\<close>

theorem owner_results_query:
  assumes "keeps_entries pr store" "plenty (heap_mem ctx)" "state_ok s d" "holds_state sgx (store (u_shim_ctx ctx)) a s d"
    and "0 < a" "small_uint a" "0 < r" "small_uint r"
  shows "(\<not> principal_eq p (owner s) \<longrightarrow>
       (\<exists>ctx'. owner_query sgx pr env junk site p e a r ctx = Inr (error_report EC_UNRECOGNIZED_SUBMITTER site, [], ctx'))) \<and>
    (principal_eq p (owner s) \<and> \<not> round_over d r \<longrightarrow>
       (\<exists>ctx'. owner_query sgx pr env junk site p e a r ctx = Inr (error_report EC_INVALID_INPUT site, [], ctx'))) \<and>
    (principal_eq p (owner s) \<and> round_over d r \<and> round_recorded s d r \<longrightarrow>
       (\<exists>ctx'. owner_query sgx pr env junk site p e a r ctx = Inr (\<lparr>ec = EC_SUCCESS, errorString = []\<rparr>, owner_text s d r, ctx'))) \<and>
    (principal_eq p (owner s) \<and> round_over d r \<and> territories s \<noteq> [] \<and> bidders s \<noteq> [] \<and> length (processedLicenses d) \<le> r \<longrightarrow>
       owner_query sgx pr env junk site p e a r ctx = Inl OutOfBounds)"
proof -
  let ?d = "d\<lparr>submitterPrincipal := p, er := e\<rparr>"
  obtain ctx1 where o: "plenty (heap_mem ctx1)" "owner_query sgx pr env junk site p e a r ctx = run_bind (
      if \<not> principal_eq p (owner s) then Inr (Inl EC_UNRECOGNIZED_SUBMITTER, ctx1)
      else if \<not> round_over d r then Inr (Inl EC_INVALID_INPUT, ctx1)
      else answer_with (toGetOwnerRoundResultsJson 0 ''Get owner round results'' s ?d r) ctx1)
     (\<lambda>(q, ctx1). case q of Inl code \<Rightarrow> Inr (error_report code site, [], ctx1) | Inr t \<Rightarrow> Inr (\<lparr>ec = EC_SUCCESS, errorString = []\<rparr>, t, ctx1))"
    by (rule owner_query_cases [OF assms, of env junk site p e]) (rule that, assumption+)
  have "owner_row s ?d r = owner_row s d r" by (rule ext) (simp add: owner_row_def active_bidders_def)
  then have d: "owner_text s ?d r = owner_text s d r" by (simp only: owner_text_def owner_fields_def)
  have d': "state_ok s ?d" "round_recorded s ?d r = round_recorded s d r"
    by (simp_all only: state_ok_submitter assms(3)) (simp add: round_recorded_def)
  have "\<exists>ctx'. answer_with (toGetOwnerRoundResultsJson 0 ''Get owner round results'' s ?d r) ctx1 = Inr (Inr (owner_text s d r), ctx')" if "round_recorded s d r"
    using owner_answer [of s ?d r ctx1] that d d' o(1) by simp
  moreover have "answer_with (toGetOwnerRoundResultsJson 0 ''Get owner round results'' s ?d r) ctx1 = Inl OutOfBounds"
    if "territories s \<noteq> []" "bidders s \<noteq> []" "length (processedLicenses d) \<le> r"
    using owner_answer_outside [of ?d r s ctx1] that o(1) by simp
  ultimately show ?thesis unfolding o(2) by auto
qed

text \<open>The sample auction, closed after its first round.\<close>

definition closed_dynamic :: DynamicAuctionState where
  "closed_dynamic = spectrum_dynamic\<lparr>auctionState := CLOSED, clockRound := 1, roundActive := False\<rparr>"

lemma closed_state_ok: "state_ok spectrum_static closed_dynamic"
proof -
  have dy: "dynamic_ok closed_dynamic" using spectrum_dynamic_ok by (simp add: closed_dynamic_def dynamic_ok_def dynamic_writable_def small_uint_def)
  have n: "numbers_ok (image_of dynamic_fields closed_dynamic)"
    using dynamic_printable [of closed_dynamic] dy by (auto simp: image_of_def dynamic_ok_def)
  have "text_bound (image_of dynamic_fields closed_dynamic) < 10000"
    by (simp add: image_of_def dynamic_fields_def closed_dynamic_def spectrum_dynamic_def matrix_json_def bid_fields_def demand_fields_def spectrum_bid_def)
  then have "length (dynamic_text closed_dynamic) < 10000" using length_json_text(1) [OF n, of False 0] by (simp add: dynamic_text_def)
  then show ?thesis using spectrum_state_ok dy by (simp add: state_ok_def state_writable_def dynamic_ok_def)
qed

theorem owner_results_query_witness:
  "\<exists>ctx ctx'. owner_query sample_sgx sample_peer (spectrum_env 0) [] ''site'' (spectrum_principal ''owner'') EC_ERROR 1 1 ctx =
       Inr (\<lparr>ec = EC_SUCCESS, errorString = []\<rparr>, owner_text spectrum_static closed_dynamic 1, ctx') \<and>
     owner_query sample_sgx sample_peer (spectrum_env 0) [] ''site'' (spectrum_principal ''owner'') EC_ERROR 1 2 ctx = Inl OutOfBounds"
proof -
  let ?c = "sample_ctx [] []" and ?p = "spectrum_principal ''owner''"
  have c: "plenty (heap_mem ?c)" "map_wf (sample_store (u_shim_ctx ?c))" by (simp_all add: sample_ctx_def plenty_def sample_store_def)
  obtain ctx :: "(string, string) std_map shim_ctx" where "storeAuctionState sample_sgx sample_peer 1 spectrum_static closed_dynamic ?c = Inr ctx"
    and ctx: "plenty (heap_mem ctx)" "holds_state sample_sgx (sample_store (u_shim_ctx ctx)) 1 spectrum_static closed_dynamic"
    using storeAuctionState_holds [OF sample_gcm sample_keeps c(1) state_ok_writable [OF closed_state_ok] c(2), of 1] by metis
  have "round_recorded spectrum_static closed_dynamic 1" "length (processedLicenses closed_dynamic) \<le> 2"
    "round_over closed_dynamic 1" "round_over closed_dynamic 2"
    by (simp_all add: round_recorded_def closed_dynamic_def spectrum_dynamic_def grid_def spectrum_static_sizes small_uint_def round_over_def)
  moreover have "principal_eq ?p (owner spectrum_static)" "territories spectrum_static \<noteq> []" "bidders spectrum_static \<noteq> []"
    by (simp_all add: principal_eq_def spectrum_static_def)
  moreover have "(0::nat) < 1" "small_uint 1" "(0::nat) < 2" "small_uint 2" by (simp_all add: small_uint_def)
  note n = this
  ultimately show ?thesis
    using owner_results_query [OF sample_keeps ctx(1) closed_state_ok ctx(2) n(1,2) n(1,2), of ?p "spectrum_env 0" "[]" "''site''" EC_ERROR]
      owner_results_query [OF sample_keeps ctx(1) closed_state_ok ctx(2) n(1,2) n(3,4), of ?p "spectrum_env 0" "[]" "''site''" EC_ERROR] by blast
qed

end
