(* ===== verification/Parson_Compare.thy ===== *)
theory Parson_Compare
  imports Parson_Roundtrip Cpp_Double
begin

text \<open>
  The operations of \<^verbatim>\<open>common/json/parson.c\<close> on whole values: \<open>json_value_deep_copy\<close>,
  \<open>json_value_equals\<close> and \<open>json_validate\<close>. Their loops over the entries of an object look the value of
  an entry up by its name again; the loops are functions of the index \<open>i\<close>.

  A copy has the contents of the original and owns its blocks, and a copy that fails leaves nothing
  behind. Comparison and validation decide two relations that do not mention the order of entries:
  \<open>json_same\<close> and \<open>conforms\<close>.
\<close>

section \<open>Sizes, for termination\<close>

definition value_size :: "json_value option \<Rightarrow> nat" where
  "value_size v = (case v of None \<Rightarrow> 0 | Some v \<Rightarrow> Suc (size v))"

definition array_size :: "json_array option \<Rightarrow> nat" where
  "array_size ar = (case ar of None \<Rightarrow> 0 | Some ar \<Rightarrow> Suc (size_list size (items ar)))"

definition object_size :: "json_object option \<Rightarrow> nat" where
  "object_size ob = (case ob of None \<Rightarrow> 0 | Some ob \<Rightarrow> Suc (size_list (size_prod (\<lambda>_. 0) size) (pairs ob)))"

lemma array_size_value [simp]:
  "json_value_get_type v = JSONArray_t \<Longrightarrow> array_size (json_value_get_array v) < value_size v"
  by (cases v rule: json_value_get_array.cases) (auto simp: array_size_def value_size_def)

lemma object_size_value [simp]:
  "json_value_get_type v = JSONObject_t \<Longrightarrow> object_size (json_value_get_object v) < value_size v"
  by (cases v rule: json_value_get_object.cases) (auto simp: object_size_def value_size_def)

lemma size_list_item: "x \<in> set xs \<Longrightarrow> f x < size_list f xs"
  by (induction xs) auto

lemma value_size_item [simp]:
  assumes "i < json_array_get_count ar"
  shows "value_size (json_array_get_value ar i) < array_size ar"
proof -
  obtain a where a: "ar = Some a" and i: "i < length (items a)"
    using assms by (cases ar) (auto simp: json_array_get_count_def)
  have "size (items a ! i) < size_list size (items a)"
    using i by (simp add: size_list_item)
  then show ?thesis
    using i by (simp add: a value_size_def array_size_def json_array_get_value_def json_array_get_count_def)
qed

lemma value_size_first [simp]:
  assumes "json_value_get_type v = JSONArray_t" "0 < json_array_get_count (json_value_get_array v)"
  shows "value_size (json_array_get_value (json_value_get_array v) 0) < value_size v"
  using value_size_item [OF assms(2)] array_size_value [OF assms(1)] by (rule less_trans)

lemma getn_loop_value: "getn_loop fs name len = Some v \<Longrightarrow> v \<in> snd ` set fs"
  by (induction fs) (auto split: if_splits)

lemma value_size_entry [simp]:
  assumes "i < json_object_get_count ob"
  shows "value_size (json_object_get_value ob name) < object_size ob"
proof (cases "json_object_get_value ob name")
  case None
  then show ?thesis using assms by (cases ob) (auto simp: value_size_def object_size_def json_object_get_count_def)
next
  case (Some v)
  then obtain b where b: "ob = Some b" and "v \<in> snd ` set (pairs b)"
    by (auto simp: json_object_get_value_def json_object_getn_value_def dest: getn_loop_value split: option.splits)
  then have "size v < size_list (size_prod (\<lambda>_. 0) size) (pairs b)"
    by (auto intro!: size_list_estimation)
  then show ?thesis using Some b by (simp add: value_size_def object_size_def)
qed

section \<open>Copying\<close>

text \<open>The \<open>switch\<close> of \<open>json_value_deep_copy\<close> and its two loops. \<open>acc\<close> is the container of the copy,
  \<open>return_value\<close> in the source.\<close>

function json_value_deep_copy :: "json_value option \<Rightarrow> heap \<Rightarrow> json_value option \<times> heap"
  and deep_copy_items :: "json_array option \<Rightarrow> nat \<Rightarrow> json_array \<Rightarrow> heap \<Rightarrow> json_value option \<times> heap"
  and deep_copy_entries :: "json_object option \<Rightarrow> nat \<Rightarrow> json_object \<Rightarrow> heap \<Rightarrow> json_value option \<times> heap" where
  "json_value_deep_copy value h =
     (case json_value_get_type value of
        JSONArray_t \<Rightarrow>
          (case json_value_init_array h of
             (None, h1) \<Rightarrow> (None, h1)
           | (Some return_value, h1) \<Rightarrow>
               (case json_value_get_array (Some return_value) of
                  None \<Rightarrow> (Some return_value, h1)
                | Some acc \<Rightarrow> deep_copy_items (json_value_get_array value) 0 acc h1))
      | JSONObject_t \<Rightarrow>
          (case json_value_init_object h of
             (None, h1) \<Rightarrow> (None, h1)
           | (Some return_value, h1) \<Rightarrow>
               (case json_value_get_object (Some return_value) of
                  None \<Rightarrow> (Some return_value, h1)
                | Some acc \<Rightarrow> deep_copy_entries (json_value_get_object value) 0 acc h1))
      | JSONBoolean_t \<Rightarrow> json_value_init_boolean (json_value_get_boolean value) h
      | JSONNumber_t \<Rightarrow> json_value_init_number (json_value_get_number value) h
      | JSONString_t \<Rightarrow>
          (case json_value_get_string value of
             None \<Rightarrow> (None, h)
           | Some temp_string \<Rightarrow>
               (case parson_strdup temp_string h of
                  (None, h1) \<Rightarrow> (None, h1)
                | (Some temp_string_copy, h1) \<Rightarrow>
                    (case json_value_init_string_no_copy temp_string_copy h1 of
                       (None, h2) \<Rightarrow> (None, free_ptr True h2)
                     | (Some return_value, h2) \<Rightarrow> (Some return_value, h2))))
      | JSONNull_t \<Rightarrow> json_value_init_null h
      | JSONError_t \<Rightarrow> (None, h))"
| "deep_copy_items temp_array i acc h =
     (if i < json_array_get_count temp_array
      then (case json_value_deep_copy (json_array_get_value temp_array i) h of
              (None, h1) \<Rightarrow> (None, json_value_free (JSONArray_of acc) h1)
            | (Some temp_value_copy, h1) \<Rightarrow>
                (case json_array_add acc temp_value_copy h1 of
                   (JSONFailure, acc1, h2) \<Rightarrow>
                     (None, json_value_free temp_value_copy (json_value_free (JSONArray_of acc1) h2))
                 | (JSONSuccess, acc1, h2) \<Rightarrow> deep_copy_items temp_array (Suc i) acc1 h2))
      else (Some (JSONArray_of acc), h))"
| "deep_copy_entries temp_object i acc h =
     (if i < json_object_get_count temp_object
      then (let temp_key = json_object_get_name temp_object i in
            case json_value_deep_copy (json_object_get_value temp_object temp_key) h of
              (None, h1) \<Rightarrow> (None, json_value_free (JSONObject_of acc) h1)
            | (Some temp_value_copy, h1) \<Rightarrow>
                (case json_object_add (Some acc) temp_key (Some temp_value_copy) h1 of
                   (JSONSuccess, Some acc1, h2) \<Rightarrow> deep_copy_entries temp_object (Suc i) acc1 h2
                 | (_, acc1, h2) \<Rightarrow>
                     (None, json_value_free temp_value_copy (free_value_ptr (map_option JSONObject_of acc1) h2))))
      else (Some (JSONObject_of acc), h))"
  by pat_completeness auto
termination
  by (relation "measures [case_sum (\<lambda>(v, h). value_size v)
         (case_sum (\<lambda>(ar, i, acc, h). array_size ar) (\<lambda>(ob, i, acc, h). object_size ob)),
       case_sum (\<lambda>_. 0) (case_sum (\<lambda>(ar, i, acc, h). json_array_get_count ar - i)
         (\<lambda>(ob, i, acc, h). json_object_get_count ob - i))]")
    auto

declare json_value_deep_copy.simps [simp del] deep_copy_items.simps [simp del] deep_copy_entries.simps [simp del]

section \<open>Comparing\<close>

fun fabs :: "double \<Rightarrow> double" where
  "fabs (Finite s m e) = Finite False m e"
| "fabs (Infinite s) = Infinite False"
| "fabs NaN = NaN"

text \<open>The literal \<open>0.000001\<close>.\<close>

definition EPSILON :: double where
  "EPSILON = fst (round_to_double False 1 1000000)"

definition numbers_close :: "double \<Rightarrow> double \<Rightarrow> bool" where
  "numbers_close a b = dless (fabs (dsub a b)) EPSILON"

function json_value_equals :: "json_value option \<Rightarrow> json_value option \<Rightarrow> bool"
  and equal_items :: "json_array option \<Rightarrow> json_array option \<Rightarrow> nat \<Rightarrow> bool"
  and equal_entries :: "json_object option \<Rightarrow> json_object option \<Rightarrow> nat \<Rightarrow> bool" where
  "json_value_equals a b =
     (if json_value_get_type a \<noteq> json_value_get_type b then False
      else case json_value_get_type a of
        JSONArray_t \<Rightarrow>
          (let a_array = json_value_get_array a; b_array = json_value_get_array b in
           if json_array_get_count a_array \<noteq> json_array_get_count b_array then False
           else equal_items a_array b_array 0)
      | JSONObject_t \<Rightarrow>
          (let a_object = json_value_get_object a; b_object = json_value_get_object b in
           if json_object_get_count a_object \<noteq> json_object_get_count b_object then False
           else equal_entries a_object b_object 0)
      | JSONString_t \<Rightarrow>
          (case (json_value_get_string a, json_value_get_string b) of
             (Some a_string, Some b_string) \<Rightarrow> streq a_string b_string
           | _ \<Rightarrow> False)
      | JSONBoolean_t \<Rightarrow> json_value_get_boolean a = json_value_get_boolean b
      | JSONNumber_t \<Rightarrow> numbers_close (json_value_get_number a) (json_value_get_number b)
      | JSONError_t \<Rightarrow> True
      | JSONNull_t \<Rightarrow> True)"
| "equal_items a_array b_array i =
     (if i < json_array_get_count a_array
      then if \<not> json_value_equals (json_array_get_value a_array i) (json_array_get_value b_array i) then False
           else equal_items a_array b_array (Suc i)
      else True)"
| "equal_entries a_object b_object i =
     (if i < json_object_get_count a_object
      then let key = json_object_get_name a_object i in
           if \<not> json_value_equals (json_object_get_value a_object key) (json_object_get_value b_object key) then False
           else equal_entries a_object b_object (Suc i)
      else True)"
  by pat_completeness auto
termination
  by (relation "measures [case_sum (\<lambda>(a, b). value_size a)
         (case_sum (\<lambda>(a, b, i). array_size a) (\<lambda>(a, b, i). object_size a)),
       case_sum (\<lambda>_. 0) (case_sum (\<lambda>(a, b, i). json_array_get_count a - i)
         (\<lambda>(a, b, i). json_object_get_count a - i))]")
    auto

declare json_value_equals.simps [simp del] equal_items.simps [simp del] equal_entries.simps [simp del]

section \<open>Validating\<close>

function json_validate :: "json_value option \<Rightarrow> json_value option \<Rightarrow> json_status"
  and validate_items :: "json_value option \<Rightarrow> json_array option \<Rightarrow> nat \<Rightarrow> json_status"
  and validate_entries :: "json_object option \<Rightarrow> json_object option \<Rightarrow> nat \<Rightarrow> json_status" where
  "json_validate schema value =
     (if schema = None \<or> value = None then JSONFailure
      else let schema_type = json_value_get_type schema; value_type = json_value_get_type value in
        if schema_type \<noteq> value_type \<and> schema_type \<noteq> JSONNull_t then JSONFailure
        else case schema_type of
          JSONArray_t \<Rightarrow>
            (let schema_array = json_value_get_array schema; value_array = json_value_get_array value in
             if json_array_get_count schema_array = 0 then JSONSuccess
             else validate_items (json_array_get_value schema_array 0) value_array 0)
        | JSONObject_t \<Rightarrow>
            (let schema_object = json_value_get_object schema; value_object = json_value_get_object value;
                 count = json_object_get_count schema_object in
             if count = 0 then JSONSuccess
             else if json_object_get_count value_object < count then JSONFailure
             else validate_entries schema_object value_object 0)
        | JSONError_t \<Rightarrow> JSONFailure
        | _ \<Rightarrow> JSONSuccess)"
| "validate_items temp_schema_value value_array i =
     (if i < json_array_get_count value_array
      then if json_validate temp_schema_value (json_array_get_value value_array i) = JSONFailure then JSONFailure
           else validate_items temp_schema_value value_array (Suc i)
      else JSONSuccess)"
| "validate_entries schema_object value_object i =
     (if i < json_object_get_count schema_object
      then let key = json_object_get_name schema_object i;
               temp_schema_value = json_object_get_value schema_object key;
               temp_value = json_object_get_value value_object key in
           if temp_value = None then JSONFailure
           else if json_validate temp_schema_value temp_value = JSONFailure then JSONFailure
           else validate_entries schema_object value_object (Suc i)
      else JSONSuccess)"
  by pat_completeness auto
termination
  by (relation "measures [case_sum (\<lambda>(s, v). value_size s)
         (case_sum (\<lambda>(s, v, i). value_size s) (\<lambda>(s, v, i). object_size s)),
       case_sum (\<lambda>_. 0) (case_sum (\<lambda>(s, v, i). Suc (json_array_get_count v - i))
         (\<lambda>(s, v, i). json_object_get_count s - i))]")
    (auto dest: sym)

declare json_validate.simps [simp del] validate_items.simps [simp del] validate_entries.simps [simp del]

section \<open>What comparison decides\<close>

text \<open>Two values are the same when they have the same shape, whatever the order of the entries of their
  objects, equal strings, and numbers that differ by less than \<open>EPSILON\<close>.\<close>

inductive json_same :: "json_value \<Rightarrow> json_value \<Rightarrow> bool" where
  same_null: "json_same JSONNull JSONNull"
| same_string: "json_same (JSONString s) (JSONString s)"
| same_boolean: "json_same (JSONBoolean b) (JSONBoolean b)"
| same_number: "numbers_close x y \<Longrightarrow> json_same (JSONNumber x) (JSONNumber y)"
| same_array: "list_all2 json_same xs ys \<Longrightarrow> json_same (JSONArray xs c) (JSONArray ys d)"
| same_object:
    "dom (map_of fs) = dom (map_of gs) \<Longrightarrow>
     (\<And>k v w. map_of fs k = Some v \<Longrightarrow> map_of gs k = Some w \<Longrightarrow> json_same v w) \<Longrightarrow>
     json_same (JSONObject fs c) (JSONObject gs d)"
  monos list.rel_mono_strong

inductive_simps json_same_simps [simp]:
  "json_same JSONNull v" "json_same (JSONString s) v" "json_same (JSONBoolean b) v" "json_same (JSONNumber x) v"

inductive_simps json_same_array: "json_same (JSONArray xs c) v"

inductive_simps json_same_object: "json_same (JSONObject fs c) v"

text \<open>A loop that counts up and stops at the first failure.\<close>

lemma count_up:
  assumes "\<And>i. P i = (i < n \<longrightarrow> Q i \<and> P (Suc i))"
  shows "P i = (\<forall>j<n. i \<le> j \<longrightarrow> Q j)"
proof (induction "n - i" arbitrary: i)
  case 0
  then show ?case using assms [of i] by auto
next
  case (Suc k)
  then have "P (Suc i) = (\<forall>j<n. Suc i \<le> j \<longrightarrow> Q j)" by simp
  moreover have "i < n" using Suc.hyps by simp
  ultimately show ?case using assms [of i] by (auto simp: Suc_le_eq le_less)
qed

lemma entry_value:
  assumes "wf_object ob" "i < length (pairs ob)"
  shows "json_object_get_value (Some ob) (Some (fst (pairs ob ! i))) = Some (snd (pairs ob ! i))"
proof -
  have "pairs ob ! i \<in> set (pairs ob)" using assms(2) by simp
  moreover have "nul_free (fst (pairs ob ! i))" using assms by (simp add: JSONObject_of.simps list_all_length)
  ultimately show ?thesis
    using assms(1) by (simp add: get_value_map obj_map_def JSONObject_of.simps)
qed

lemma equal_items_iff:
  "equal_items (Some a) b i =
     (\<forall>j<length (items a). i \<le> j \<longrightarrow> json_value_equals (Some (items a ! j)) (json_array_get_value b j))"
  by (rule count_up, subst equal_items.simps)
    (auto simp: json_array_get_count_def json_array_get_value_def)

lemma equal_entries_iff:
  assumes "wf_object a"
  shows "equal_entries (Some a) b i =
     (\<forall>j<length (pairs a). i \<le> j \<longrightarrow>
        json_value_equals (Some (snd (pairs a ! j))) (json_object_get_value b (Some (fst (pairs a ! j)))))"
  by (rule count_up, subst equal_entries.simps)
    (auto simp: json_object_get_count_def json_object_get_name_def entry_value [OF assms])

lemma equals_None [simp]: "\<not> json_value_equals (Some a) None"
  by (subst json_value_equals.simps) (cases a; simp)

lemma equals_scalars [simp]:
  "json_value_equals (Some JSONNull) (Some b) = (b = JSONNull)"
  "json_value_equals (Some (JSONBoolean p)) (Some b) = (b = JSONBoolean p)"
  "json_value_equals (Some (JSONString s)) (Some b) = (\<exists>t. b = JSONString t \<and> streq s t)"
  "json_value_equals (Some (JSONNumber x)) (Some b) = (\<exists>y. b = JSONNumber y \<and> numbers_close x y)"
  by (cases b; subst json_value_equals.simps; simp)+

lemma equals_array:
  "json_value_equals (Some (JSONArray xs c)) (Some b) =
     (\<exists>ys d. b = JSONArray ys d \<and> list_all2 (\<lambda>x y. json_value_equals (Some x) (Some y)) xs ys)"
proof (cases b)
  case (JSONArray ys d)
  show ?thesis
    by (subst json_value_equals.simps)
      (auto simp: JSONArray equal_items_iff json_array_get_count_def json_array_get_value_def list_all2_conv_all_nth)
qed (subst json_value_equals.simps; simp)+

lemma equals_object:
  assumes "wf_json (JSONObject fs c)"
  shows "json_value_equals (Some (JSONObject fs c)) (Some b) =
     (\<exists>gs d. b = JSONObject gs d \<and> length fs = length gs \<and>
        (\<forall>(k, v) \<in> set fs. json_value_equals (Some v) (json_object_get_value (Some \<lparr>pairs = gs, obj_capacity = d\<rparr>) (Some k))))"
proof (cases b)
  case (JSONObject gs d)
  have "wf_object \<lparr>pairs = fs, obj_capacity = c\<rparr>" using assms by (simp add: JSONObject_of.simps)
  from equal_entries_iff [OF this] show ?thesis
    by (subst json_value_equals.simps)
      (auto simp: JSONObject json_object_get_count_def all_set_conv_all_nth split_beta)
qed (subst json_value_equals.simps; simp)+

text \<open>Two lists of entries with distinct names and the same number of entries.\<close>

lemma same_names:
  assumes "distinct (map fst fs)" "distinct (map fst gs)"
  shows "dom (map_of fs) = dom (map_of gs) \<longleftrightarrow> length fs = length gs \<and> fst ` set fs \<subseteq> fst ` set gs"
proof -
  have c: "card (fst ` set xs) = length xs" if "distinct (map fst xs)" for xs :: "('a \<times> 'b) list"
    using distinct_card [OF that] by simp
  have "card (fst ` set gs) = length gs" using assms(2) distinct_card [of "map fst gs"] by simp
  moreover have "card (fst ` set fs) = length fs" using c [OF assms(1)] .
  ultimately show ?thesis
    by (auto simp: dom_map_of_conv_image_fst) (metis List.finite_set card_subset_eq finite_imageI imageI fst_conv)+
qed

lemma same_object_iff:
  assumes "distinct (map fst fs)" "distinct (map fst gs)"
  shows "json_same (JSONObject fs c) (JSONObject gs d) \<longleftrightarrow>
    length fs = length gs \<and> (\<forall>(k, v) \<in> set fs. \<exists>w. map_of gs k = Some w \<and> json_same v w)" (is "_ \<longleftrightarrow> _ \<and> ?entries")
proof
  assume "json_same (JSONObject fs c) (JSONObject gs d)"
  then have dm: "dom (map_of fs) = dom (map_of gs)"
    and sm: "\<And>k v w. map_of fs k = Some v \<Longrightarrow> map_of gs k = Some w \<Longrightarrow> json_same v w"
    by (auto simp: json_same_object)
  have "\<exists>w. map_of gs k = Some w \<and> json_same v w" if "(k, v) \<in> set fs" for k v
    using map_fst_distinct_lookup [OF assms(1) that] dm sm by blast
  then show "length fs = length gs \<and> ?entries" using dm same_names [OF assms] by auto
next
  assume r: "length fs = length gs \<and> ?entries"
  then have "fst ` set fs \<subseteq> fst ` set gs" by (force dest: map_of_SomeD)
  then have "dom (map_of fs) = dom (map_of gs)" using r same_names [OF assms] by blast
  moreover have "json_same v w" if "map_of fs k = Some v" "map_of gs k = Some w" for k v w
    using r map_of_SomeD [OF that(1)] that(2) by force
  ultimately show "json_same (JSONObject fs c) (JSONObject gs d)" by (auto simp: json_same_object)
qed

lemma get_value_entries:
  assumes "wf_json (JSONObject gs d)" "nul_free k"
  shows "json_object_get_value (Some \<lparr>pairs = gs, obj_capacity = d\<rparr>) (Some k) = map_of gs k"
proof -
  have "wf_object \<lparr>pairs = gs, obj_capacity = d\<rparr>" using assms(1) by (simp add: JSONObject_of.simps)
  from get_value_map(1) [OF this] show ?thesis using assms(2) by (simp add: obj_map_def)
qed

lemma equals_same: "wf_json a \<Longrightarrow> wf_json b \<Longrightarrow> json_value_equals (Some a) (Some b) \<longleftrightarrow> json_same a b"
proof (induction a arbitrary: b)
  case (JSONString s)
  then show ?case by auto
next
  case (JSONArray xs c)
  have "json_value_equals (Some x) (Some y) = json_same x y" if "x \<in> set xs" "y \<in> set ys" "wf_json (JSONArray ys d)" for x y ys d
    using JSONArray that by (auto simp: list_all_iff)
  then have "list_all2 (\<lambda>x y. json_value_equals (Some x) (Some y)) xs ys = list_all2 json_same xs ys"
    if "wf_json (JSONArray ys d)" for ys d
    using that by (intro list.rel_cong) auto
  then show ?case using JSONArray.prems(2) by (auto simp: equals_array json_same_array)
next
  case (JSONObject fs c)
  show ?case
  proof (cases b)
    case b: (JSONObject gs d)
    have names: "nul_free k" if "(k, v) \<in> set fs" for k v using JSONObject.prems(1) that by (auto simp: list_all_iff)
    have d: "distinct (map fst fs)" "distinct (map fst gs)" using JSONObject.prems b by auto
    have ih: "json_value_equals (Some v) (Some w) = json_same v w" if "(k, v) \<in> set fs" "(k', w) \<in> set gs" for k k' v w
      using JSONObject that b by (force simp: list_all_iff)
    have "json_value_equals (Some v) (map_of gs k) \<longleftrightarrow> (\<exists>w. map_of gs k = Some w \<and> json_same v w)" if "(k, v) \<in> set fs" for k v
      using ih [OF that] by (cases "map_of gs k") (auto dest: map_of_SomeD)
    then have "json_value_equals (Some (JSONObject fs c)) (Some b) \<longleftrightarrow> length fs = length gs \<and>
        (\<forall>(k, v) \<in> set fs. \<exists>w. map_of gs k = Some w \<and> json_same v w)"
      using names b JSONObject.prems(2) by (auto simp: equals_object [OF JSONObject.prems(1)] get_value_entries)
    also have "\<dots> \<longleftrightarrow> json_same (JSONObject fs c) b"
      unfolding b using d by (simp add: same_object_iff)
    finally show ?thesis .
  qed (subst json_value_equals.simps; simp add: json_same_object)+
qed auto

lemma epsilon_positive: "\<exists>m e. EPSILON = Finite False m e \<and> 0 < m"
  by (simp add: EPSILON_def round_to_double_def ratio_log_def ilog.simps scale_def round_half_even_def Let_def)

lemma zero_less_epsilon: "dless (Finite False 0 (- 1074)) EPSILON"
proof -
  obtain m e where eps: "EPSILON = Finite False m e" and "0 < m" using epsilon_positive by blast
  then show ?thesis unfolding eps by (simp add: mag_def with_sign_def)
qed

lemma numbers_close_refl [simp]: "\<not> times_zero_nonzero x \<Longrightarrow> numbers_close x x"
proof (cases x)
  case (Finite s m e)
  obtain n d where m: "mag m e = (n, d)" by fastforce
  have "with_sign s n * int d + with_sign (\<not> s) n * int d = 0" by (simp add: with_sign_def)
  then have "dsub x x = Finite False 0 (- 1074)"
    unfolding Finite dsub_def dneg.simps dadd.simps m prod.case by (simp add: round_to_double_def)
  then show ?thesis by (simp add: numbers_close_def zero_less_epsilon)
qed auto

lemma fabs_round: "fabs (fst (round_to_double s n d)) = fabs (fst (round_to_double t n d))"
  by (auto simp: round_to_double_def Let_def split: prod.splits)

lemma numbers_close_sym: "numbers_close x y = numbers_close y x"
proof -
  have "fabs (dsub x y) = fabs (dsub y x)"
  proof (cases x; cases y)
    fix s m e s' m' e' assume xy: "x = Finite s m e" "y = Finite s' m' e'"
    obtain n d n' d' where m: "mag m e = (n, d)" "mag m' e' = (n', d')" by fastforce
    have "with_sign s n * int d' + with_sign (\<not> s') n' * int d = - (with_sign s' n' * int d + with_sign (\<not> s) n * int d')"
      by (simp add: with_sign_def)
    then show ?thesis
      unfolding xy dsub_def dneg.simps dadd.simps m prod.case Let_def
      by (metis abs_minus_cancel fabs_round mult.commute)
  qed (auto simp: dsub_def)
  then show ?thesis by (simp add: numbers_close_def)
qed

lemma json_same_sym: "json_same a b \<Longrightarrow> json_same b a"
proof (induction rule: json_same.induct)
  case (same_number x y)
  then show ?case using numbers_close_sym by simp
next
  case (same_array xs ys c d)
  then show ?case by (auto simp: json_same_array list_all2_conv_all_nth)
next
  case (same_object fs gs c d)
  then show ?case by (auto simp: json_same_object)
qed simp_all

text \<open>The contents of a value, without the capacities, determine what it is the same as.\<close>

lemma contents_entries: "map_of (map (\<lambda>f. (fst f, contents (snd f))) fs) k = map_option contents (map_of fs k)"
  by (induction fs) auto

lemma contents_same: "wf_json a \<Longrightarrow> contents b = contents a \<Longrightarrow> json_same a b"
proof (induction a arbitrary: b)
  case (JSONArray xs c)
  from JSONArray.prems(2) obtain ys d where b: "b = JSONArray ys d" "map contents ys = map contents xs" by (cases b) auto
  then have l: "length ys = length xs" by (metis length_map)
  have "json_same (xs ! i) (ys ! i)" if "i < length xs" for i
    using JSONArray.IH [of "xs ! i" "ys ! i"] JSONArray.prems(1) that l b(2)
    by (simp add: list_all_length) (metis nth_map)
  then show ?case using l by (simp add: b json_same_array list_all2_conv_all_nth)
next
  case (JSONObject fs c)
  from JSONObject.prems(2) obtain gs d where b: "b = JSONObject gs d"
    and e: "map (\<lambda>f. (fst f, contents (snd f))) gs = map (\<lambda>f. (fst f, contents (snd f))) fs" by (cases b) auto
  have m: "map_option contents (map_of gs k) = map_option contents (map_of fs k)" for k
    using e by (metis contents_entries)
  have "json_same v w" if "map_of fs k = Some v" "map_of gs k = Some w" for k v w
    using JSONObject.IH [of "(k, v)" v w] JSONObject.prems(1) m [of k] that
    by (force dest: map_of_SomeD simp: list_all_iff)
  moreover have "map_of fs k = None \<longleftrightarrow> map_of gs k = None" for k using m [of k] by (metis option.map_disc_iff)
  then have "dom (map_of fs) = dom (map_of gs)" by (auto simp: dom_def)
  ultimately show ?case by (auto simp: b json_same_object)
qed (simp_all, (case_tac b; simp)+)

section \<open>What validation decides\<close>

text \<open>A schema \<open>null\<close> admits every value, the first item of a schema array is the schema of all items,
  and every name of a schema object must be there with a value that conforms.\<close>

inductive conforms :: "json_value \<Rightarrow> json_value \<Rightarrow> bool" where
  any_value: "conforms JSONNull v"
| any_string: "conforms (JSONString s) (JSONString t)"
| any_boolean: "conforms (JSONBoolean p) (JSONBoolean q)"
| any_number: "conforms (JSONNumber x) (JSONNumber y)"
| any_array: "conforms (JSONArray [] c) (JSONArray ys d)"
| array_of: "(\<And>y. y \<in> set ys \<Longrightarrow> conforms x y) \<Longrightarrow> conforms (JSONArray (x # xs) c) (JSONArray ys d)"
| object_with: "(\<And>k s. map_of fs k = Some s \<Longrightarrow> \<exists>v. map_of gs k = Some v \<and> conforms s v) \<Longrightarrow>
     conforms (JSONObject fs c) (JSONObject gs d)"

inductive_simps conforms_scalar [simp]:
  "conforms JSONNull v" "conforms (JSONString s) v" "conforms (JSONBoolean b) v" "conforms (JSONNumber x) v"
  "conforms (JSONArray [] c) v" "conforms (JSONArray (x # xs) c) v"

inductive_simps conforms_object: "conforms (JSONObject fs c) v"

abbreviation valid :: "json_value option \<Rightarrow> json_value option \<Rightarrow> bool" where
  "valid s v \<equiv> json_validate s v = JSONSuccess"

lemma status_not_failure [simp]: "st \<noteq> JSONFailure \<longleftrightarrow> st = JSONSuccess" "JSONFailure \<noteq> st \<longleftrightarrow> st = JSONSuccess"
  by (cases st; simp)+

lemma validate_items_iff:
  "validate_items s (Some ar) i = JSONSuccess \<longleftrightarrow> (\<forall>j<length (items ar). i \<le> j \<longrightarrow> valid s (Some (items ar ! j)))"
  by (rule count_up, subst validate_items.simps) (auto simp: json_array_get_count_def json_array_get_value_def)

lemma valid_None [simp]: "\<not> valid s None" "\<not> valid None v"
  by (subst json_validate.simps; simp)+

lemma validate_entries_iff:
  assumes "wf_object so"
  shows "validate_entries (Some so) vo i = JSONSuccess \<longleftrightarrow>
    (\<forall>j<length (pairs so). i \<le> j \<longrightarrow>
       valid (Some (snd (pairs so ! j))) (json_object_get_value vo (Some (fst (pairs so ! j)))))"
  by (rule count_up, subst validate_entries.simps)
    (auto simp: json_object_get_count_def json_object_get_name_def entry_value [OF assms] Let_def)

lemma validate_scalars [simp]:
  "valid (Some JSONNull) (Some v)"
  "valid (Some (JSONString s)) (Some v) \<longleftrightarrow> (\<exists>t. v = JSONString t)"
  "valid (Some (JSONBoolean p)) (Some v) \<longleftrightarrow> (\<exists>q. v = JSONBoolean q)"
  "valid (Some (JSONNumber x)) (Some v) \<longleftrightarrow> (\<exists>y. v = JSONNumber y)"
  by (cases v; subst json_validate.simps; simp)+

lemma validate_array:
  "valid (Some (JSONArray xs c)) (Some v) \<longleftrightarrow>
     (\<exists>ys d. v = JSONArray ys d \<and> (xs = [] \<or> (\<forall>y \<in> set ys. valid (Some (hd xs)) (Some y))))"
proof (cases v)
  case (JSONArray ys d)
  show ?thesis
    by (subst json_validate.simps)
      (auto simp: JSONArray validate_items_iff json_array_get_count_def json_array_get_value_def all_set_conv_all_nth hd_conv_nth)
qed (subst json_validate.simps; simp)+

lemma validate_object:
  assumes "wf_json (JSONObject fs c)"
  shows "valid (Some (JSONObject fs c)) (Some v) \<longleftrightarrow>
     (\<exists>gs d. v = JSONObject gs d \<and> length fs \<le> length gs \<and>
        (\<forall>(k, s) \<in> set fs. valid (Some s) (json_object_get_value (Some \<lparr>pairs = gs, obj_capacity = d\<rparr>) (Some k))))
     \<or> fs = [] \<and> (\<exists>gs d. v = JSONObject gs d)"
proof (cases v)
  case (JSONObject gs d)
  have "wf_object \<lparr>pairs = fs, obj_capacity = c\<rparr>" using assms by (simp add: JSONObject_of.simps)
  from validate_entries_iff [OF this] show ?thesis
    by (subst json_validate.simps)
      (auto simp: JSONObject json_object_get_count_def all_set_conv_all_nth split_beta Let_def)
qed (subst json_validate.simps; simp)+

lemma validate_conforms: "wf_json s \<Longrightarrow> wf_json v \<Longrightarrow> valid (Some s) (Some v) \<longleftrightarrow> conforms s v"
proof (induction s arbitrary: v)
  case (JSONArray xs c)
  then show ?case by (cases xs) (auto simp: validate_array list_all_iff)
next
  case (JSONObject fs c)
  show ?case
  proof (cases v)
    case v: (JSONObject gs d)
    have names: "nul_free k" if "(k, s) \<in> set fs" for k s using JSONObject.prems(1) that by (auto simp: list_all_iff)
    have d: "distinct (map fst fs)" "distinct (map fst gs)" using JSONObject.prems v by auto
    have ih: "valid (Some s) (Some w) = conforms s w" if "(k, s) \<in> set fs" "(k', w) \<in> set gs" for k k' s w
      using JSONObject that v by (force simp: list_all_iff)
    then have one: "valid (Some s) (map_of gs k) \<longleftrightarrow> (\<exists>w. map_of gs k = Some w \<and> conforms s w)" if "(k, s) \<in> set fs" for k s
      using that by (cases "map_of gs k") (auto dest: map_of_SomeD)
    have count: "length fs \<le> length gs" if "\<forall>(k, s) \<in> set fs. \<exists>w. map_of gs k = Some w \<and> conforms s w"
    proof -
      have "fst ` set fs \<subseteq> fst ` set gs" using that by (force dest: map_of_SomeD)
      then have "card (fst ` set fs) \<le> card (fst ` set gs)" by (simp add: card_mono)
      then show ?thesis using distinct_card [OF d(1)] distinct_card [OF d(2)] by simp
    qed
    have "valid (Some (JSONObject fs c)) (Some v) \<longleftrightarrow> (\<forall>(k, s) \<in> set fs. \<exists>w. map_of gs k = Some w \<and> conforms s w)"
      using names one count v JSONObject.prems(2)
      by (auto simp: validate_object [OF JSONObject.prems(1)] get_value_entries)
    also have "\<dots> \<longleftrightarrow> conforms (JSONObject fs c) v"
      using map_fst_distinct_lookup [OF d(1)] by (auto simp: conforms_object v dest: map_of_SomeD)
    finally show ?thesis .
  qed (simp_all add: validate_object [OF JSONObject.prems(1)] conforms_object)
qed simp_all

text \<open>Validation looks at shapes only: it does not distinguish values that are the same.\<close>

lemma same_conforms: "conforms s v \<Longrightarrow> json_same v w \<Longrightarrow> conforms s w"
proof (induction arbitrary: w rule: conforms.induct)
  case (array_of ys x xs c d)
  then obtain zs e where w: "w = JSONArray zs e" "list_all2 json_same ys zs" by (auto simp: json_same_array)
  have "conforms x z" if "z \<in> set zs" for z
    using w(2) that array_of.IH by (metis in_set_conv_nth list_all2_conv_all_nth nth_mem)
  then show ?case by (simp add: w)
next
  case (object_with fs gs c d)
  from object_with.prems obtain hs e where w: "w = JSONObject hs e" "dom (map_of gs) = dom (map_of hs)"
    and same: "\<And>k v u. map_of gs k = Some v \<Longrightarrow> map_of hs k = Some u \<Longrightarrow> json_same v u"
    by (auto simp: json_same_object)
  have "\<exists>u. map_of hs k = Some u \<and> conforms s u" if ks: "map_of fs k = Some s" for k s
  proof -
    obtain v where v: "map_of gs k = Some v" "\<And>u. json_same v u \<Longrightarrow> conforms s u"
      using object_with.IH [OF ks] by blast
    moreover obtain u where "map_of hs k = Some u" using v(1) w(2) by blast
    ultimately show ?thesis using same by blast
  qed
  then show ?case by (simp add: w conforms_object)
qed (auto simp: json_same_array)

section \<open>What copying promises\<close>

text \<open>\<open>base\<close> is the number of blocks that are live without the copy.\<close>

definition copied :: "json_value \<Rightarrow> int \<Rightarrow> heap \<Rightarrow> json_value option \<times> heap \<Rightarrow> bool" where
  "copied v base h r =
     ((plenty h \<longrightarrow> fst r \<noteq> None \<and> plenty (snd r)) \<and>
      (case r of
         (None, h') \<Rightarrow> live h' = base
       | (Some w, h') \<Rightarrow> wf_json w \<and> contents w = contents v \<and> live h' = base + blocks w))"

lemma copy_scalars:
  "copied JSONNull (live h) h (json_value_deep_copy (Some JSONNull) h)"
  "copied (JSONBoolean b) (live h) h (json_value_deep_copy (Some (JSONBoolean b)) h)"
  "wf_json (JSONNumber d) \<Longrightarrow> copied (JSONNumber d) (live h) h (json_value_deep_copy (Some (JSONNumber d)) h)"
  "wf_json (JSONString s) \<Longrightarrow> copied (JSONString s) (live h) h (json_value_deep_copy (Some (JSONString s)) h)"
proof -
  note defs = copied_def json_value_init_null_def json_value_init_boolean_def json_value_init_number_def
    json_value_init_string_no_copy_def parson_strdup_def parson_strndup_def plenty_def malloc_def
  show "copied JSONNull (live h) h (json_value_deep_copy (Some JSONNull) h)"
    by (subst json_value_deep_copy.simps) (simp add: defs split: list.split)
  show "copied (JSONBoolean b) (live h) h (json_value_deep_copy (Some (JSONBoolean b)) h)"
    by (subst json_value_deep_copy.simps) (simp add: defs split: list.split)
  show "copied (JSONNumber d) (live h) h (json_value_deep_copy (Some (JSONNumber d)) h)" if "wf_json (JSONNumber d)"
    using that by (subst json_value_deep_copy.simps) (simp add: defs split: list.split)
  show "copied (JSONString s) (live h) h (json_value_deep_copy (Some (JSONString s)) h)" if "wf_json (JSONString s)"
    using that by (subst json_value_deep_copy.simps) (auto simp: defs split: list.splits)
qed

lemma add_item:
  assumes "wf_array ar" "wf_json v" "json_array_add ar v h = (st, ar1, h1)"
  shows "wf_array ar1" "items ar1 = (if st = JSONSuccess then items ar @ [v] else items ar)"
    "live h1 = live h + ablocks ar1 - ablocks ar - (if st = JSONSuccess then blocks v else 0)"
    "plenty h \<Longrightarrow> st = JSONSuccess \<and> plenty h1"
proof -
  show "wf_array ar1" "items ar1 = (if st = JSONSuccess then items ar @ [v] else items ar)"
    "live h1 = live h + ablocks ar1 - ablocks ar - (if st = JSONSuccess then blocks v else 0)"
    using append_value_effect [OF assms(1,2), of h] assms(3) by (auto simp: array_effect_def json_array_append_value_def)
  show "st = JSONSuccess \<and> plenty h1" if "plenty h"
    using array_add_plenty [OF that, of ar v] assms(3) by (metis prod.inject)
qed

lemma copy_items:
  assumes ih: "\<And>x h. x \<in> set (items ar) \<Longrightarrow> copied x (live h) h (json_value_deep_copy (Some x) h)"
  shows "wf_array acc \<Longrightarrow> i \<le> length (items ar) \<Longrightarrow> map contents (items acc) = map contents (take i (items ar)) \<Longrightarrow>
    copied (JSONArray_of ar) (live h - ablocks acc) h (deep_copy_items (Some ar) i acc h)"
proof (induction "length (items ar) - i" arbitrary: i acc h)
  case 0
  then show ?case
    by (subst deep_copy_items.simps) (simp add: copied_def json_array_get_count_def JSONArray_of.simps)
next
  case (Suc k)
  then have i: "i < length (items ar)" by simp
  let ?x = "items ar ! i"
  obtain r h1 where c: "json_value_deep_copy (Some ?x) h = (r, h1)" by fastforce
  have good: "copied ?x (live h) h (r, h1)" using ih [of ?x h] i c by simp
  note step = deep_copy_items.simps [of "Some ar" i acc h]
  show ?case
  proof (cases r)
    case None
    then show ?thesis using good i c by (subst step) (simp add: copied_def json_array_get_count_def json_array_get_value_def)
  next
    case (Some w)
    obtain st acc1 h2 where a: "json_array_add acc w h1 = (st, acc1, h2)" by (rule prod_cases3)
    have w: "wf_json w" "contents w = contents ?x" "live h1 = live h + blocks w" "plenty h \<Longrightarrow> plenty h1"
      using good Some by (auto simp: copied_def)
    note add = add_item [OF Suc.prems(1) w(1) a]
    show ?thesis
    proof (cases st)
      case JSONFailure
      then show ?thesis
        using w(3,4) add(2-4) i c Some a
        by (subst step) (auto simp: copied_def json_array_get_count_def json_array_get_value_def)
    next
      case JSONSuccess
      have "map contents (items acc1) = map contents (take (Suc i) (items ar))"
        using add(2) JSONSuccess Suc.prems(3) w(2) i by (simp add: take_Suc_conv_app_nth)
      then have rest: "copied (JSONArray_of ar) (live h2 - ablocks acc1) h2 (deep_copy_items (Some ar) (Suc i) acc1 h2)"
        using Suc.hyps i add(1) by (intro Suc.hyps(1)) auto
      have base: "live h2 - ablocks acc1 = live h - ablocks acc" using add(3) w(3) JSONSuccess by simp
      have "copied (JSONArray_of ar) (live h - ablocks acc) h (deep_copy_items (Some ar) (Suc i) acc1 h2)"
        using rest w(4) add(4) unfolding base by (auto simp: copied_def)
      then show ?thesis
        using i c Some a JSONSuccess by (subst step) (simp add: json_array_get_count_def json_array_get_value_def)
    qed
  qed
qed

lemma add_entry:
  assumes "wf_object ob" "wf_json v" "nul_free k" "k \<notin> fst ` set (pairs ob)"
    and a: "json_object_add (Some ob) (Some k) (Some v) h = (st, ob1, h1)"
  obtains ob' where "ob1 = Some ob'" "wf_object ob'"
    "pairs ob' = (if st = JSONSuccess then pairs ob @ [(k, v)] else pairs ob)"
    "live h1 = live h + oblocks ob' - oblocks ob - (if st = JSONSuccess then blocks v else 0)"
    "plenty h \<Longrightarrow> st = JSONSuccess \<and> plenty h1"
proof -
  have an: "json_object_addn (Some ob) (Some k) (strlen k) (Some v) h = (st, ob1, h1)"
    using a by (simp add: json_object_add_def)
  obtain ob' where ob': "ob1 = Some ob'"
    "st = JSONSuccess \<Longrightarrow> pairs ob' = pairs ob @ [(take (strlen k) (cstr k), v)] \<and> obj_map ob (take (strlen k) (cstr k)) = None"
    "st = JSONFailure \<Longrightarrow> pairs ob' = pairs ob"
    using json_object_addn_cases [OF an assms(1)] by (metis order_refl)
  have e: "object_effect ob h (st, ob1, h1) ((obj_map ob)(cstr k \<mapsto> v)) (blocks v)"
    using add_effect [OF assms(1,2), of h k] a by simp
  have "st = JSONSuccess \<and> plenty h1" if "plenty h"
    using object_add_plenty [OF that wf_names_ok [OF assms(1)] assms(3,4), of v] a by (metis prod.inject)
  then show thesis
    using e ob' assms(3) by (intro that [of ob']) (cases st; auto simp: object_effect_def)+
qed

lemma copy_entries:
  assumes ih: "\<And>k x h. (k, x) \<in> set (pairs ob) \<Longrightarrow> copied x (live h) h (json_value_deep_copy (Some x) h)"
    and wf: "wf_object ob"
  shows "wf_object acc \<Longrightarrow> i \<le> length (pairs ob) \<Longrightarrow>
    map (\<lambda>f. (fst f, contents (snd f))) (pairs acc) = map (\<lambda>f. (fst f, contents (snd f))) (take i (pairs ob)) \<Longrightarrow>
    copied (JSONObject_of ob) (live h - oblocks acc) h (deep_copy_entries (Some ob) i acc h)"
proof (induction "length (pairs ob) - i" arbitrary: i acc h)
  case 0
  then show ?case
    by (subst deep_copy_entries.simps) (simp add: copied_def json_object_get_count_def JSONObject_of.simps)
next
  case (Suc j)
  then have i: "i < length (pairs ob)" by simp
  obtain k x where kx: "pairs ob ! i = (k, x)" by fastforce
  have mem: "(k, x) \<in> set (pairs ob)" using i kx nth_mem by metis
  have "map fst (pairs acc) = map fst (take i (pairs ob))"
    using arg_cong [OF Suc.prems(3), of "map fst"] by (simp add: o_def)
  moreover have "distinct (map fst (pairs ob))" using wf by (simp add: JSONObject_of.simps)
  then have "k \<notin> set (map fst (take i (pairs ob)))"
    using kx i by (metis distinct_take fst_conv id_take_nth_drop map_append list.simps(9) distinct_append disjoint_iff list.set_intros(1))
  ultimately have k: "k \<notin> fst ` set (pairs acc)" "nul_free k"
    using mem wf by (auto simp: JSONObject_of.simps list_all_iff simp flip: set_map)
  obtain r h1 where c: "json_value_deep_copy (Some x) h = (r, h1)" by fastforce
  have good: "copied x (live h) h (r, h1)" using ih [OF mem, of h] c by simp
  have get: "json_object_get_value (Some ob) (Some k) = Some x" using entry_value [OF wf i] kx by simp
  note step = deep_copy_entries.simps [of "Some ob" i acc h]
  note lookup = json_object_get_count_def json_object_get_name_def get kx
  show ?case
  proof (cases r)
    case None
    then show ?thesis using good i c by (subst step) (simp add: copied_def lookup)
  next
    case (Some w)
    obtain st oacc h2 where a: "json_object_add (Some acc) (Some k) (Some w) h1 = (st, oacc, h2)" by (rule prod_cases3)
    have w: "wf_json w" "contents w = contents x" "live h1 = live h + blocks w" "plenty h \<Longrightarrow> plenty h1"
      using good Some by (auto simp: copied_def)
    obtain acc1 where oacc: "oacc = Some acc1" and add: "wf_object acc1"
      "pairs acc1 = (if st = JSONSuccess then pairs acc @ [(k, w)] else pairs acc)"
      "live h2 = live h1 + oblocks acc1 - oblocks acc - (if st = JSONSuccess then blocks w else 0)"
      "plenty h1 \<Longrightarrow> st = JSONSuccess \<and> plenty h2"
      using add_entry [OF Suc.prems(1) w(1) k(2,1) a] by metis
    show ?thesis
    proof (cases st)
      case JSONFailure
      then show ?thesis
        using w(3,4) add(3,4) i c Some a oacc by (subst step) (auto simp: copied_def lookup free_value_ptr_def)
    next
      case JSONSuccess
      have "map (\<lambda>f. (fst f, contents (snd f))) (pairs acc1) = map (\<lambda>f. (fst f, contents (snd f))) (take (Suc i) (pairs ob))"
        using add(2) JSONSuccess Suc.prems(3) w(2) i kx by (simp add: take_Suc_conv_app_nth)
      then have rest: "copied (JSONObject_of ob) (live h2 - oblocks acc1) h2 (deep_copy_entries (Some ob) (Suc i) acc1 h2)"
        using Suc.hyps i add(1) by (intro Suc.hyps(1)) auto
      have base: "live h2 - oblocks acc1 = live h - oblocks acc" using add(3) w(3) JSONSuccess by simp
      have "copied (JSONObject_of ob) (live h - oblocks acc) h (deep_copy_entries (Some ob) (Suc i) acc1 h2)"
        using rest w(4) add(4) unfolding base by (auto simp: copied_def)
      then show ?thesis using i c Some a JSONSuccess oacc by (subst step) (simp add: lookup)
    qed
  qed
qed

lemma init_containers:
  "json_value_init_array h = (Some v, h1) \<Longrightarrow> v = JSONArray [] 0 \<and> live h1 = live h + 2"
  "json_value_init_object h = (Some v, h1) \<Longrightarrow> v = JSONObject [] 0 \<and> live h1 = live h + 2"
  "json_value_init_array h = (None, h1) \<Longrightarrow> live h1 = live h"
  "json_value_init_object h = (None, h1) \<Longrightarrow> live h1 = live h"
  using init_balanced(2,3) [of h]
  by (auto simp: balanced_new_def json_value_init_array_def json_value_init_object_def json_array_init_def
      json_object_init_def JSONArray_of.simps JSONObject_of.simps split: prod.splits bool.splits)

lemma init_containers_plenty:
  assumes "plenty h"
  shows "plenty (snd (json_value_init_array h))" "fst (json_value_init_array h) \<noteq> None"
    "plenty (snd (json_value_init_object h))" "fst (json_value_init_object h) \<noteq> None"
  using assms init_plenty [OF assms] by simp_all

lemma deep_copy_copied: "wf_json v \<Longrightarrow> copied v (live h) h (json_value_deep_copy (Some v) h)"
proof (induction v arbitrary: h)
  case (JSONArray xs c)
  obtain r h1 where r: "json_value_init_array h = (r, h1)" by fastforce
  show ?case
  proof (cases r)
    case None
    then show ?thesis using r init_containers(3) init_containers_plenty(2)
      by (subst json_value_deep_copy.simps) (force simp: copied_def)
  next
    case (Some v)
    note new = init_containers(1) [of h v h1] init_containers_plenty(1) [of h]
    let ?acc = "\<lparr>items = [], arr_capacity = 0\<rparr>"
    have base: "live h1 - ablocks ?acc = live h" using new(1) r Some by (simp add: JSONArray_of.simps)
    have "copied (JSONArray_of \<lparr>items = xs, arr_capacity = c\<rparr>) (live h1 - ablocks ?acc) h1
        (deep_copy_items (Some \<lparr>items = xs, arr_capacity = c\<rparr>) 0 ?acc h1)"
      using JSONArray by (intro copy_items) (auto simp: JSONArray_of.simps list_all_iff)
    then show ?thesis
      unfolding base using r Some new by (subst json_value_deep_copy.simps) (auto simp: copied_def JSONArray_of.simps)
  qed
next
  case (JSONObject fs c)
  obtain r h1 where r: "json_value_init_object h = (r, h1)" by fastforce
  show ?case
  proof (cases r)
    case None
    then show ?thesis using r init_containers(4) init_containers_plenty(4)
      by (subst json_value_deep_copy.simps) (force simp: copied_def)
  next
    case (Some v)
    note new = init_containers(2) [of h v h1] init_containers_plenty(3) [of h]
    let ?acc = "\<lparr>pairs = [], obj_capacity = 0\<rparr>"
    have base: "live h1 - oblocks ?acc = live h" using new(1) r Some by (simp add: JSONObject_of.simps)
    have "copied (JSONObject_of \<lparr>pairs = fs, obj_capacity = c\<rparr>) (live h1 - oblocks ?acc) h1
        (deep_copy_entries (Some \<lparr>pairs = fs, obj_capacity = c\<rparr>) 0 ?acc h1)"
      using JSONObject by (intro copy_entries) (auto simp: JSONObject_of.simps list_all_iff)
    then show ?thesis
      unfolding base using r Some new by (subst json_value_deep_copy.simps) (auto simp: copied_def JSONObject_of.simps)
  qed
qed (simp_all add: copy_scalars)

section \<open>Properties\<close>

text \<open>C26. \<open>json_value_deep_copy\<close> of a well-formed value returns a well-formed value with the same contents,
  which \<open>json_value_equals\<close> accepts and which owns exactly the blocks that were allocated; a copy that
  is cut short by a failing allocation, at whatever depth, has released everything it had allocated.\<close>

theorem deep_copy_faithful:
  assumes "wf_json v"
  shows "case json_value_deep_copy (Some v) h of
      (None, h') \<Rightarrow> \<not> plenty h \<and> live h' = live h
    | (Some w, h') \<Rightarrow> wf_json w \<and> contents w = contents v \<and> live h' = live h + blocks w \<and>
        json_value_equals (Some v) (Some w)"
proof -
  have "json_value_equals (Some v) (Some w)" if "wf_json w" "contents w = contents v" for w
    using contents_same [OF assms that(2)] equals_same [OF assms that(1)] by simp
  then show ?thesis
    using deep_copy_copied [OF assms, of h] by (auto simp: copied_def split: prod.splits option.splits)
qed

theorem deep_copy_faithful_witness:
  "(\<exists>w h'. json_value_deep_copy (Some (JSONArray [JSONString ''a'', JSONNull] 16)) \<lparr>answers = [], live = 0\<rparr> = (Some w, h')
      \<and> contents w = JSONArray [JSONString ''a'', JSONNull] 0 \<and> live h' = blocks w) \<and>
   json_value_deep_copy (Some (JSONArray [JSONString ''a'', JSONNull] 16)) \<lparr>answers = [True, True, True, False], live = 0\<rparr>
      = (None, \<lparr>answers = [], live = 0\<rparr>)"
proof
  let ?v = "JSONArray [JSONString ''a'', JSONNull] 16"
  let ?h = "\<lparr>answers = [], live = 0\<rparr>"
  have "wf_json ?v" and "plenty ?h" by (simp_all add: plenty_def)
  with deep_copy_faithful [of ?v ?h]
  show "\<exists>w h'. json_value_deep_copy (Some ?v) ?h = (Some w, h')
      \<and> contents w = JSONArray [JSONString ''a'', JSONNull] 0 \<and> live h' = blocks w"
    by (auto split: prod.splits option.splits)
  show "json_value_deep_copy (Some ?v) \<lparr>answers = [True, True, True, False], live = 0\<rparr> = (None, \<lparr>answers = [], live = 0\<rparr>)"
    by code_simp
qed

text \<open>C24. On well-formed values \<open>json_value_equals\<close> decides \<open>json_same\<close>: the same shape with equal strings
  and close numbers, whatever the order of the entries of objects and whatever the capacities; it is
  symmetric, although it walks over the entries of its first argument only.\<close>

theorem json_value_equals_decides:
  assumes "wf_json a" "wf_json b"
  shows "(json_value_equals (Some a) (Some b) \<longleftrightarrow> json_same a b) \<and>
    (json_value_equals (Some b) (Some a) \<longleftrightarrow> json_value_equals (Some a) (Some b)) \<and> json_value_equals (Some a) (Some a)"
  using equals_same assms json_same_sym contents_same [OF assms(1) refl] by blast

theorem json_value_equals_decides_witness:
  "json_value_equals (Some (JSONObject [(''a'', JSONNull), (''b'', JSONArray [] 0)] 16)) (Some (JSONObject [(''b'', JSONArray [] 16), (''a'', JSONNull)] 2)) \<and>
   \<not> json_value_equals (Some (JSONObject [(''a'', JSONNull)] 16)) (Some (JSONObject [(''b'', JSONNull)] 16))"
  using json_value_equals_decides [of "JSONObject [(''a'', JSONNull), (''b'', JSONArray [] 0)] 16" "JSONObject [(''b'', JSONArray [] 16), (''a'', JSONNull)] 2"]
    json_value_equals_decides [of "JSONObject [(''a'', JSONNull)] 16" "JSONObject [(''b'', JSONNull)] 16"]
  by (auto simp: json_same_object json_same_array split: if_splits)

text \<open>C25. \<open>json_validate\<close> accepts exactly the values that conform to the schema; the test on the number
  of entries is implied by the search for every name of the schema. Values that \<open>json_value_equals\<close>
  takes for equal are accepted by the same schemas.\<close>

theorem json_validate_decides:
  assumes "wf_json s" "wf_json v" "wf_json w"
  shows "json_validate (Some s) (Some v) = (if conforms s v then JSONSuccess else JSONFailure) \<and>
    (json_value_equals (Some v) (Some w) \<longrightarrow> json_validate (Some s) (Some v) = json_validate (Some s) (Some w))"
proof (intro conjI impI)
  have v: "json_validate (Some s) (Some u) = (if conforms s u then JSONSuccess else JSONFailure)" if "wf_json u" for u
    using validate_conforms [OF assms(1) that] by (cases "json_validate (Some s) (Some u)") auto
  then show "json_validate (Some s) (Some v) = (if conforms s v then JSONSuccess else JSONFailure)" using assms(2) .
  assume "json_value_equals (Some v) (Some w)"
  then have "json_same v w" using equals_same [OF assms(2,3)] by blast
  then have "conforms s v \<longleftrightarrow> conforms s w" using same_conforms json_same_sym by blast
  then show "json_validate (Some s) (Some v) = json_validate (Some s) (Some w)" using v assms(2,3) by simp
qed

theorem json_validate_decides_witness:
  "json_validate (Some (JSONObject [(''name'', JSONString []), (''tags'', JSONArray [JSONString []] 16)] 16))
     (Some (JSONObject [(''tags'', JSONArray [JSONString ''x'', JSONString ''y''] 16), (''name'', JSONString ''n''), (''more'', JSONNull)] 16)) = JSONSuccess"
  using json_validate_decides [of "JSONObject [(''name'', JSONString []), (''tags'', JSONArray [JSONString []] 16)] 16"
    "JSONObject [(''tags'', JSONArray [JSONString ''x'', JSONString ''y''] 16), (''name'', JSONString ''n''), (''more'', JSONNull)] 16" JSONNull]
  by (auto simp: conforms_object split: if_splits)

end
