(* ===== verification/Tlcc_Crypto.thy ===== *)
theory Tlcc_Crypto
  imports Cpp_Base
begin

text \<open>
  \<^verbatim>\<open>tlcc_enclave/enclave/crypto.cpp\<close>: certificates and signatures in the ledger enclave. OpenSSL
  is a parameter, the record \<open>openssl\<close> of the functions the sources call: certificates, keys and
  signatures are opaque library objects named by byte strings, a certificate store by the list
  of its certificates, and \<open>NULL\<close> is \<open>None\<close>. The arguments of log calls are not modelled (one of
  them reads a context that was just released).
\<close>

type_synonym x509_store = "string list"

record openssl =
  PEM_read_bio_X509 :: "string \<Rightarrow> string option"
  X509_STORE_add_cert :: "x509_store option \<Rightarrow> string \<Rightarrow> int \<times> x509_store option"
  X509_verify_cert :: "x509_store option \<Rightarrow> string \<Rightarrow> int"
  X509_get_pubkey :: "string \<Rightarrow> string option"
  EVP_PKEY_get1_EC_KEY :: "string option \<Rightarrow> string option"
  d2i_PUBKEY :: "string \<Rightarrow> string option"
  d2i_ECDSA_SIG :: "string \<Rightarrow> string option"
  ECDSA_do_verify :: "string \<Rightarrow> string option \<Rightarrow> string option \<Rightarrow> int"
  SHA256 :: "string \<Rightarrow> string"
  i2d_ASN1BlockHeader :: "int \<Rightarrow> string \<Rightarrow> string \<Rightarrow> string"

definition store_root_cert ::
  "'a openssl_scheme \<Rightarrow> string \<Rightarrow> x509_store option \<Rightarrow> int \<times> x509_store option" where
  "store_root_cert lib cert_bytes root_certs =
     (case PEM_read_bio_X509 lib cert_bytes of
        None \<Rightarrow> (-1, root_certs)
      | Some cert \<Rightarrow> X509_STORE_add_cert lib root_certs cert)"

definition validate_cert :: "'a openssl_scheme \<Rightarrow> string \<Rightarrow> x509_store option \<Rightarrow> int" where
  "validate_cert lib cert_bytes root_certs =
     (case PEM_read_bio_X509 lib cert_bytes of
        None \<Rightarrow> -1
      | Some cert \<Rightarrow> X509_verify_cert lib root_certs cert)"

definition verify_signature ::
  "'a openssl_scheme \<Rightarrow> string \<Rightarrow> string \<Rightarrow> string \<Rightarrow> x509_store option \<Rightarrow> int" where
  "verify_signature lib sig_bytes input cert_bytes root_certs =
     (case PEM_read_bio_X509 lib cert_bytes of
        None \<Rightarrow> -1
      | Some cert \<Rightarrow>
          if X509_verify_cert lib root_certs cert = 0 then 0
          else ECDSA_do_verify lib input (d2i_ECDSA_SIG lib sig_bytes)
                 (EVP_PKEY_get1_EC_KEY lib (X509_get_pubkey lib cert)))"

definition verify_enclave_signature ::
  "'a openssl_scheme \<Rightarrow> string \<Rightarrow> string \<Rightarrow> string \<Rightarrow> int" where
  "verify_enclave_signature lib sig_bytes input pk =
     ECDSA_do_verify lib input (d2i_ECDSA_SIG lib sig_bytes) (EVP_PKEY_get1_EC_KEY lib (d2i_PUBKEY lib pk))"

text \<open>What \<open>verify_signature\<close> returning 1 means: the certificate parses, its chain was not
  found invalid, and the signature verifies under its key. A chain whose verification ends in
  an internal error (a negative answer of \<open>X509_verify_cert\<close>) counts as not invalid, so such a
  certificate is accepted on its signature alone.\<close>

theorem verify_signature_accepts:
  "verify_signature lib sig input cert_bytes store = 1 \<longleftrightarrow>
     (\<exists>cert. PEM_read_bio_X509 lib cert_bytes = Some cert \<and> X509_verify_cert lib store cert \<noteq> 0 \<and>
        ECDSA_do_verify lib input (d2i_ECDSA_SIG lib sig) (EVP_PKEY_get1_EC_KEY lib (X509_get_pubkey lib cert)) = 1)"
  by (simp add: verify_signature_def split: option.split)

end
