(* ===== verification/Fpc_Utils.thy ===== *)
theory Fpc_Utils
  imports Cpp_Base
begin

text \<open>
  \<^verbatim>\<open>common/utils.c\<close>: appending a string to a buffer, reversing bytes in place (the SGX
  library's little-endian coordinates against the big-endian ones of the rest of the system)
  and printing bytes in hexadecimal. A buffer is the list of its bytes; a store past its end is
  a failure. \<open>bytes_swap\<close> is shown to reverse exactly the bytes it is given, so swapping twice
  is the identity, and \<open>bytes_to_hexstring\<close> to be injective.
\<close>

definition append_string :: "string option \<Rightarrow> string \<Rightarrow> (nat \<times> string option) run" where
  "append_string buf str =
     (let len = strlen str in
      case buf of
        None \<Rightarrow> Inr (len, None)
      | Some b \<Rightarrow> run_bind (check OutOfBounds (len + 1 \<le> length b)) (\<lambda>_.
          Inr (len, Some (cstr str @ [NUL] @ drop (len + 1) b))))"

function bytes_swap_loop :: "string \<Rightarrow> int \<Rightarrow> int \<Rightarrow> string" where
  "bytes_swap_loop bytes start stop =
     (if start < stop
      then bytes_swap_loop (bytes[nat start := bytes ! nat stop, nat stop := bytes ! nat start]) (start + 1) (stop - 1)
      else bytes)"
  by pat_completeness auto
termination
  by (relation "measure (\<lambda>(bytes, start, stop). nat (stop - start))") auto

declare bytes_swap_loop.simps [simp del]

definition bytes_swap :: "string \<Rightarrow> nat \<Rightarrow> string run" where
  "bytes_swap bytes len =
     run_bind (check OutOfBounds (len \<le> length bytes)) (\<lambda>_. Inr (bytes_swap_loop bytes 0 (int len - 1)))"

definition hexdigs :: string where
  "hexdigs = ''0123456789abcdef''"

fun hexstring_loop :: "string \<Rightarrow> string" where
  "hexstring_loop [] = []"
| "hexstring_loop (b # bs) =
     hexdigs ! (drop_bit 4 (byte b)) # hexdigs ! (byte b AND 0x0f) # hexstring_loop bs"

definition bytes_to_hexstring :: "string \<Rightarrow> heap \<Rightarrow> (string \<times> heap) run" where
  "bytes_to_hexstring bytes h =
     (case malloc h of
        (False, h1) \<Rightarrow> Inl NullDeref
      | (True, h1) \<Rightarrow> Inr (hexstring_loop bytes, h1))"

section \<open>Swapping\<close>

text \<open>After \<open>k\<close> rounds the outer \<open>k\<close> bytes on both sides are in place.\<close>

lemma bytes_swap_loop_rev:
  "bytes = xs @ ys @ zs \<Longrightarrow> start = int (length xs) \<Longrightarrow> stop = int (length xs + length ys) - 1 \<Longrightarrow>
     bytes_swap_loop bytes start stop = xs @ rev ys @ zs"
proof (induction bytes start stop arbitrary: xs ys zs rule: bytes_swap_loop.induct)
  case (1 bytes start stop)
  show ?case
  proof (cases "start < stop")
    case True
    then have "2 \<le> length ys" using 1 by linarith
    then obtain a m b where ys: "ys = a # m @ [b]"
      by (cases ys; cases "tl ys" rule: rev_cases) auto
    have stop: "nat stop = length xs + length m + 1" using 1(4) ys by simp
    have "bytes[nat start := bytes ! nat stop, nat stop := bytes ! nat start] = (xs @ [b]) @ m @ (a # zs)"
      unfolding stop using 1(2,3) ys by (simp add: nth_append list_update_append)
    then have "bytes_swap_loop (bytes[nat start := bytes ! nat stop, nat stop := bytes ! nat start]) (start + 1) (stop - 1)
        = (xs @ [b]) @ rev m @ (a # zs)"
      using 1(1) [OF True, of "xs @ [b]" m "a # zs"] 1(3,4) ys by simp
    then show ?thesis using True ys by (subst bytes_swap_loop.simps) simp
  next
    case False
    then have "length ys \<le> 1" using 1 by linarith
    then have "rev ys = ys" by (cases ys) auto
    then show ?thesis using False 1 by (subst bytes_swap_loop.simps) simp
  qed
qed

lemma bytes_swap_rev: "len \<le> length bytes \<Longrightarrow> bytes_swap bytes len = Inr (rev (take len bytes) @ drop len bytes)"
  using bytes_swap_loop_rev [of bytes "[]" "take len bytes" "drop len bytes" 0 "int len - 1"]
  by (simp add: bytes_swap_def)

section \<open>Hexadecimal\<close>

lemma length_hexstring [simp]: "length (hexstring_loop bs) = 2 * length bs"
  by (induction bs) auto

lemma hexdigs_distinct: "i < 16 \<Longrightarrow> j < 16 \<Longrightarrow> hexdigs ! i = hexdigs ! j \<longleftrightarrow> i = j"
proof -
  have "distinct hexdigs" "length hexdigs = 16" by (simp_all add: hexdigs_def)
  then show "i < 16 \<Longrightarrow> j < 16 \<Longrightarrow> ?thesis" by (simp add: nth_eq_iff_index_eq)
qed

lemma nibbles: "drop_bit 4 (byte b) = byte b div 16" "byte b AND 0x0f = byte b mod 16" "byte b div 16 < 16"
  using take_bit_eq_mask [of 4 "byte b"] less_mult_imp_div_less [of "byte b" 16 16]
  by (simp_all add: drop_bit_eq_div take_bit_eq_mod mask_eq_exp_minus_1)

lemma nibbles_inj: "byte a div 16 = byte b div 16 \<Longrightarrow> byte a mod 16 = byte b mod 16 \<Longrightarrow> a = b"
  by (metis byte_eq_iff div_mult_mod_eq)

lemma hexstring_inj: "hexstring_loop xs = hexstring_loop ys \<longleftrightarrow> xs = ys"
proof (induction xs arbitrary: ys)
  case (Cons x xs)
  then show ?case by (cases ys) (auto simp: nibbles hexdigs_distinct intro: nibbles_inj)
next
  case Nil
  then show ?case by (cases ys) auto
qed

text \<open>\<open>bytes_swap\<close> reverses the \<open>len\<close> bytes it is given and touches nothing else; applying it
  again restores them, so the conversions between the two byte orders are inverse.\<close>

theorem bytes_swap_reverses:
  assumes "len \<le> length bytes"
  shows "bytes_swap bytes len = Inr (rev (take len bytes) @ drop len bytes) \<and>
    run_bind (bytes_swap bytes len) (\<lambda>b. bytes_swap b len) = Inr bytes"
  using assms by (simp add: bytes_swap_rev)

theorem bytes_swap_reverses_witness:
  "bytes_swap ''abcdef'' 4 = Inr ''dcbaef''"
  using bytes_swap_reverses [of 4 "''abcdef''"] by simp

text \<open>\<open>bytes_to_hexstring\<close> prints two digits per byte and different bytes differently: a
  transaction id in hexadecimal determines the hash it was made from.\<close>

theorem hexstring_injective:
  assumes "bytes_to_hexstring bs h = Inr (s, h1)" "bytes_to_hexstring cs h2 = Inr (t, h3)"
  shows "length s = 2 * length bs \<and> (s = t \<longleftrightarrow> bs = cs)"
  using assms by (auto simp: bytes_to_hexstring_def hexstring_inj split: prod.splits bool.splits)

theorem hexstring_injective_witness:
  "length ''4a0f'' = 2 * length [CHR 0x4a, CHR 0x0f] \<and> (''4a0f'' = ''4a0f'' \<longleftrightarrow> [CHR 0x4a, CHR 0x0f] = [CHR 0x4a, CHR 0x0f])"
proof -
  have "bytes_to_hexstring [CHR 0x4a, CHR 0x0f] \<lparr>answers = [], live = 0\<rparr> = Inr (''4a0f'', \<lparr>answers = [], live = 1\<rparr>)"
    by code_simp
  from hexstring_injective [OF this this] show ?thesis .
qed

end
