(* ===== verification/Ledger.thy ===== *)
theory Ledger
  imports Tlcc_Crypto Ecc_Json Fpc_Utils
begin

text \<open>
  \<^verbatim>\<open>tlcc_enclave/enclave/ledger.cpp\<close> and \<^verbatim>\<open>ledger.h\<close>: the trusted ledger. The global variables of
  the file are the record \<open>ledger\<close>: the two certificate stores, the key/value state with the
  version of each entry, the sequence number (a \<open>uint32_t\<close> that starts at \<open>-1\<close>), whether the spin
  lock is held, and the heap. \<open>alarms\<close> lists the validation failures the code reports with
  \<open>LOG_ERROR\<close> and otherwise ignores.

  The protobuf messages are records of the fields the code reads. A field that nanopb allocates
  is an option, \<open>None\<close> when it is absent; reading through it is a failure. The decoders and
  OpenSSL are the record \<open>tlcc_env\<close>, a parameter of every operation; \<open>uninit n\<close> is the contents of
  an uninitialised buffer of \<open>n\<close> bytes and \<open>past_end b\<close> the memory that follows the block \<open>b\<close>.
  \<open>decode_pb\<close> is the macro of \<^verbatim>\<open>ledger.h\<close> that leaves the function when a message does not
  decode: such functions return an optional code with the state, \<open>None\<close> while they go on.
\<close>

section \<open>Versions and state\<close>

definition LEDGER_SUCCESS :: int where "LEDGER_SUCCESS = 0"

definition LEDGER_ERROR_DECODING :: int where "LEDGER_ERROR_DECODING = -1"

definition LEDGER_INVALID_BLOCK_NUMBER :: int where "LEDGER_INVALID_BLOCK_NUMBER = -3"

definition LEDGER_ERROR_CRYPTO :: int where "LEDGER_ERROR_CRYPTO = -5"

definition LEDGER_NOT_FOUND :: int where "LEDGER_NOT_FOUND = -9"

lemmas ledger_codes = LEDGER_SUCCESS_def LEDGER_ERROR_DECODING_def LEDGER_INVALID_BLOCK_NUMBER_def
  LEDGER_ERROR_CRYPTO_def LEDGER_NOT_FOUND_def

record version =
  block_num :: "64 word"
  tx_num :: "64 word"

definition cmp_version :: "version \<Rightarrow> version \<Rightarrow> int" where
  "cmp_version v1 v2 =
     (if block_num v1 > block_num v2 then 1
      else if block_num v1 < block_num v2 then -1
      else if tx_num v1 > tx_num v2 then 1
      else if tx_num v1 < tx_num v2 then -1
      else 0)"

type_synonym kvs = "(string, string \<times> version) std_map"

datatype alarm =
    BlockSignatureInvalid | EnvelopeSignatureInvalid | IncorrectTxID | InvalidEnvelopeType
  | UnknownGroup string | RootCertNotStored | InvalidAdminCert | ErccExpectsSingleWrite | EccSignatureInvalid

record ledger =
  root_certs_orderer :: "x509_store option"
  root_certs_apps :: "x509_store option"
  kvs_state :: kvs
  sequence_number :: "32 word"
  locked :: bool
  mem :: heap
  alarms :: "alarm list"

definition raise_alarm :: "bool \<Rightarrow> alarm \<Rightarrow> ledger \<Rightarrow> ledger" where
  "raise_alarm b a L = (if b then L\<lparr>alarms := alarms L @ [a]\<rparr> else L)"

definition spin_lock :: "ledger \<Rightarrow> ledger run" where
  "spin_lock L = (if locked L then Inl Diverges else Inr (L\<lparr>locked := True\<rparr>))"

definition spin_unlock :: "ledger \<Rightarrow> ledger" where
  "spin_unlock L = L\<lparr>locked := False\<rparr>"

section \<open>Messages\<close>

record common_BlockHeader =
  header_number :: "64 word"
  previous_hash :: string
  data_hash :: string

record common_Block =
  block_header :: common_BlockHeader
  block_data :: "string list"
  block_metadata :: "string list"

record common_MetadataSignature =
  ms_signature_header :: "string option"
  ms_signature :: "string option"

record common_Metadata =
  metadata_value :: "string option"
  metadata_signatures :: "common_MetadataSignature list"

record common_SignatureHeader =
  creator :: "string option"
  nonce :: "string option"

record common_Envelope =
  envelope_payload :: "string option"
  envelope_signature :: "string option"

record common_Payload =
  channel_header :: "string option"
  signature_header :: "string option"
  payload_data :: "string option"

record common_ChannelHeader =
  header_type :: int
  tx_id :: "string option"

text \<open>A configuration group: its subgroups and its values, each with its key.\<close>

record config_org =
  org_values :: "(string option \<times> string option) list"

type_synonym config_group = "string option \<times> config_org list"

record msp_FabricMSPConfig =
  msp_root_certs :: "string list"
  msp_admins :: "string list"

record protos_ChaincodeActionPayload =
  chaincode_proposal_payload :: "string option"
  proposal_response_payload :: "string option"

record protos_ChaincodeAction =
  cc_results :: "string option"
  cc_name :: "string option"
  cc_response_payload :: "string option"

record kv_read =
  read_key :: "string option"
  read_version :: version

record kv_write =
  write_key :: "string option"
  write_value :: "string option"

record kvrwset =
  range_reads :: "kv_read list list"
  kv_reads :: "kv_read list"
  kv_writes :: "kv_write list"

record ns_rwset =
  rw_ns :: "string option"
  rw_set :: "string option"

record tlcc_env = openssl +
  dec_Block :: "string \<Rightarrow> common_Block option"
  dec_Metadata :: "string \<Rightarrow> common_Metadata option"
  dec_SignatureHeader :: "string \<Rightarrow> common_SignatureHeader option"
  dec_SerializedIdentity :: "string \<Rightarrow> string option option"
  dec_Envelope :: "string \<Rightarrow> common_Envelope option"
  dec_Payload :: "string \<Rightarrow> common_Payload option"
  dec_ChannelHeader :: "string \<Rightarrow> common_ChannelHeader option"
  dec_ConfigEnvelope :: "string \<Rightarrow> config_group list option"
  dec_MSPConfig :: "string \<Rightarrow> string option option"
  dec_FabricMSPConfig :: "string \<Rightarrow> msp_FabricMSPConfig option"
  dec_Transaction :: "string \<Rightarrow> string option list option"
  dec_ChaincodeActionPayload :: "string \<Rightarrow> protos_ChaincodeActionPayload option"
  dec_ChaincodeProposalPayload :: "string \<Rightarrow> string option option"
  dec_ChaincodeInvocationSpec :: "string \<Rightarrow> string list option"
  dec_ProposalResponsePayload :: "string \<Rightarrow> string option option"
  dec_ChaincodeAction :: "string \<Rightarrow> protos_ChaincodeAction option"
  dec_TxReadWriteSet :: "string \<Rightarrow> ns_rwset list option"
  dec_KVRWSet :: "string \<Rightarrow> kvrwset option"
  uninit :: "nat \<Rightarrow> string"
  past_end :: "string \<Rightarrow> string"

text \<open>The enumeration constants of the Fabric protocol definitions.\<close>

definition common_HeaderType_CONFIG :: int where "common_HeaderType_CONFIG = 1"

definition common_HeaderType_ENDORSER_TRANSACTION :: int where "common_HeaderType_ENDORSER_TRANSACTION = 3"

definition common_BlockMetadataIndex_SIGNATURES :: nat where "common_BlockMetadataIndex_SIGNATURES = 0"

definition common_BlockMetadataIndex_TRANSACTIONS_FILTER :: nat where "common_BlockMetadataIndex_TRANSACTIONS_FILTER = 2"

lemmas fabric_constants = common_HeaderType_CONFIG_def common_HeaderType_ENDORSER_TRANSACTION_def
  common_BlockMetadataIndex_SIGNATURES_def common_BlockMetadataIndex_TRANSACTIONS_FILTER_def

text \<open>The macro \<open>decode_pb\<close>: leave the function with the state as it is, or go on with the message.\<close>

definition decode_pb :: "'m option \<Rightarrow> 's \<Rightarrow> ('m \<Rightarrow> (int option \<times> 's) run) \<Rightarrow> (int option \<times> 's) run" where
  "decode_pb msg s k = (case msg of None \<Rightarrow> Inr (Some LEDGER_ERROR_DECODING, s) | Some m \<Rightarrow> k m)"

text \<open>Going on after a part of a function that may have left it.\<close>

definition unless_left :: "(int option \<times> 's) run \<Rightarrow> ('s \<Rightarrow> (int option \<times> 's) run) \<Rightarrow> (int option \<times> 's) run" where
  "unless_left m k = run_bind m (\<lambda>(left, s). case left of None \<Rightarrow> k s | Some c \<Rightarrow> Inr (Some c, s))"

fun each :: "('x \<Rightarrow> 's \<Rightarrow> (int option \<times> 's) run) \<Rightarrow> 'x list \<Rightarrow> 's \<Rightarrow> (int option \<times> 's) run" where
  "each f [] s = Inr (None, s)"
| "each f (x # xs) s = unless_left (f x s) (each f xs)"

section \<open>Initialisation\<close>

text \<open>\<open>init_ledger\<close>, on what the two calls of \<open>X509_STORE_new\<close> return.\<close>

definition init_ledger :: "x509_store option \<Rightarrow> x509_store option \<Rightarrow> ledger \<Rightarrow> int \<times> ledger" where
  "init_ledger store1 store2 L =
     (let L1 = L\<lparr>root_certs_orderer := store1\<rparr> in
      if store1 = None then (LEDGER_ERROR_CRYPTO, L1)
      else let L2 = L1\<lparr>root_certs_apps := store2\<rparr> in
           if store2 = None then (LEDGER_ERROR_CRYPTO, L2) else (LEDGER_SUCCESS, L2))"

section \<open>Version checks\<close>

definition has_version_conflict :: "string \<Rightarrow> kvs \<Rightarrow> version \<Rightarrow> bool" where
  "has_version_conflict key st v =
     (case map_of st key of None \<Rightarrow> False | Some (val, ver) \<Rightarrow> cmp_version v ver = -1)"

text \<open>The loop that replaces the zero bytes of a composite key by dots. The argument is the key
  from \<open>idx\<close> on with the terminator nanopb appends.\<close>

function composite_loop :: "string \<Rightarrow> string run" where
  "composite_loop [] = Inl OutOfBounds"
| "composite_loop (c # cs) =
     (if c = NUL then Inr []
      else run_bind (composite_loop (drop (strlen (c # cs) + 1) (c # cs))) (\<lambda>rest. Inr (cstr (c # cs) @ ''.'' @ rest)))"
  by pat_completeness auto
termination
  by (relation "measure length") (auto simp: strlen_def)

declare composite_loop.simps [simp del]

definition composite_key :: "string \<Rightarrow> string run" where
  "composite_key key = composite_loop (tl (key @ [NUL]))"

section \<open>Endorser transactions\<close>

text \<open>A read of the read set: its key in the ledger and in the transaction's own namespace.\<close>

definition range_read_keys :: "string \<Rightarrow> kv_read \<Rightarrow> (string \<times> string) run" where
  "range_read_keys ns r =
     run_bind (deref (read_key r)) (\<lambda>k.
     run_bind (composite_key k) (\<lambda>parts. Inr (ns @ ''.'' @ parts, parts)))"

definition plain_read_keys :: "string \<Rightarrow> kv_read \<Rightarrow> (string \<times> string) run" where
  "plain_read_keys ns r = run_bind (deref (read_key r)) (\<lambda>k. Inr (ns @ ''.'' @ cstr k, cstr k))"

fun check_reads ::
  "(kv_read \<Rightarrow> (string \<times> string) run) \<Rightarrow> kvs \<Rightarrow> kvs \<Rightarrow> bool \<Rightarrow> kv_read list \<Rightarrow> bool \<times> string list \<Rightarrow>
     (bool \<times> string list) run" where
  "check_reads keys st updates own [] (valid_tx, ecc_read_set) = Inr (valid_tx, ecc_read_set)"
| "check_reads keys st updates own (r # rs) (valid_tx, ecc_read_set) =
     run_bind (keys r) (\<lambda>(key, kkey).
       let rset = (if own then set_insert kkey ecc_read_set else ecc_read_set);
           conflict = has_version_conflict key st (read_version r) \<or> has_version_conflict key updates (read_version r)
       in check_reads keys st updates own rs (valid_tx \<and> \<not> conflict, rset))"

fun check_read_sets ::
  "'a tlcc_env_scheme \<Rightarrow> kvs \<Rightarrow> kvs \<Rightarrow> string \<Rightarrow> ns_rwset list \<Rightarrow> bool \<times> string list \<Rightarrow>
     (int option \<times> bool \<times> string list) run" where
  "check_read_sets e st updates ecc_namespace [] acc = Inr (None, acc)"
| "check_read_sets e st updates ecc_namespace (rw # rws) acc =
     run_bind (deref (rw_set rw)) (\<lambda>bytes.
     decode_pb (dec_KVRWSet e bytes) acc (\<lambda>kvrwset.
     run_bind (deref (rw_ns rw)) (\<lambda>ns.
       let own = (cstr ns = ecc_namespace) in
     run_bind (check_reads (range_read_keys (cstr ns)) st updates own (concat (range_reads kvrwset)) acc) (\<lambda>acc1.
     run_bind (check_reads (plain_read_keys (cstr ns)) st updates own (kv_reads kvrwset) acc1) (\<lambda>acc2.
       check_read_sets e st updates ecc_namespace rws acc2)))))"

definition entry_version :: "version \<Rightarrow> version" where
  "entry_version tx_version = \<lparr>block_num = block_num tx_version, tx_num = tx_num tx_version\<rparr>"

definition lscc_write :: "string \<Rightarrow> version \<Rightarrow> kv_write \<Rightarrow> kvs \<Rightarrow> kvs run" where
  "lscc_write ns tx_version w updates =
     run_bind (deref (write_key w)) (\<lambda>k.
     run_bind (deref (write_value w)) (\<lambda>val.
       Inr (map_insert (ns @ ''.'' @ cstr k) (val, entry_version tx_version) updates)))"

definition ecc_write :: "string \<Rightarrow> version \<Rightarrow> kv_write \<Rightarrow> kvs \<times> (string, string) std_map \<Rightarrow> (kvs \<times> (string, string) std_map) run" where
  "ecc_write ns tx_version w acc =
     (case acc of (updates, ecc_write_set) \<Rightarrow>
       run_bind (deref (write_key w)) (\<lambda>k.
       run_bind (if nthc k 0 = NUL
                 then run_bind (composite_key k) (\<lambda>parts. Inr (ns @ ''.'' @ parts, ''.'' @ parts))
                 else Inr (ns @ ''.'' @ cstr k, cstr k)) (\<lambda>(key, kkey).
       run_bind (deref (write_value w)) (\<lambda>val.
         Inr (map_insert key (val, entry_version tx_version) updates, map_insert kkey val ecc_write_set)))))"

text \<open>The writes of one namespace: \<open>lscc\<close>, \<open>ercc\<close> (the attestation registry, which should write
  once), a private chaincode, or another chaincode, whose writes the ledger does not keep. The
  state is the updates of the block, the write set of the transaction and the ledger.\<close>

definition apply_writes ::
  "'a tlcc_env_scheme \<Rightarrow> version \<Rightarrow> ns_rwset \<Rightarrow> kvs \<times> (string, string) std_map \<times> ledger \<Rightarrow>
     (int option \<times> kvs \<times> (string, string) std_map \<times> ledger) run" where
  "apply_writes e tx_version rw s =
     (case s of (updates, ecc_write_set, L) \<Rightarrow>
       run_bind (deref (rw_set rw)) (\<lambda>bytes.
       decode_pb (dec_KVRWSet e bytes) s (\<lambda>kvrwset.
       run_bind (deref (rw_ns rw)) (\<lambda>nsp.
         let ns = cstr nsp in
         if ns = ''lscc'' then
           run_bind (run_fold (lscc_write ns tx_version) (kv_writes kvrwset) updates) (\<lambda>updates1.
             Inr (None, updates1, ecc_write_set, L))
         else if ns = ''ercc'' then
           let L1 = raise_alarm (length (kv_writes kvrwset) \<noteq> 1) ErccExpectsSingleWrite L in
           run_bind (index (kv_writes kvrwset) 0) (\<lambda>w.
           run_bind (lscc_write ns tx_version w updates) (\<lambda>updates1.
             Inr (None, updates1, ecc_write_set, L1)))
         else if take 3 ns = ''ecc'' then
           run_bind (run_fold (ecc_write ns tx_version) (kv_writes kvrwset) (updates, ecc_write_set)) (\<lambda>(updates1, wset).
             Inr (None, updates1, wset, L))
         else Inr (None, updates, ecc_write_set, L)))))"

text \<open>The bytes the enclave of a private chaincode signs.\<close>

definition ecc_digest :: "'a openssl_scheme \<Rightarrow> string \<Rightarrow> string \<Rightarrow> string \<Rightarrow> string list \<Rightarrow> (string, string) std_map \<Rightarrow> string" where
  "ecc_digest lib txType encoded_args response read_set write_set =
     SHA256 lib (txType @ encoded_args @ response @ concat read_set @ concat (map (\<lambda>(k, v). k @ v) write_set))"

definition validate_ecc_tx ::
  "'a tlcc_env_scheme \<Rightarrow> string \<Rightarrow> string list \<Rightarrow> string option \<Rightarrow> string list \<Rightarrow> (string, string) std_map \<Rightarrow> ledger \<Rightarrow> ledger run" where
  "validate_ecc_tx e fn args response_payload ecc_read_set ecc_write_set L =
     run_bind (deref response_payload) (\<lambda>payload.
     run_bind (unmarshal_ecc_response (cstr (payload @ past_end e payload))
                 (Some (uninit e (length payload), length payload)) (Some (uninit e 96, 96)) (Some (uninit e 96, 96)) (mem L))
       (\<lambda>(_, r, s, p, h1).
     run_bind (deref r) (\<lambda>(response_data, response_len).
     run_bind (deref s) (\<lambda>(signature, signature_len).
     run_bind (deref p) (\<lambda>(pk, pk_len).
       let txType = (if fn = ''__init'' then ''init'' else ''invoke'');
           argss = (if fn = ''__init'' then tl args else args) in
     run_bind (marshal_ecc_args argss [] h1) (\<lambda>(_, encoded_args, h2).
       let hash = ecc_digest e txType encoded_args (take response_len response_data) ecc_read_set ecc_write_set;
           hash2 = SHA256 e hash;
           err = verify_enclave_signature e (take signature_len signature) hash2 (take pk_len pk)
       in Inr (raise_alarm (err \<noteq> 1) EccSignatureInvalid (L\<lparr>mem := h2\<rparr>))))))))"

text \<open>The results of one action: read set, write set, enclave signature.\<close>

definition process_results ::
  "'a tlcc_env_scheme \<Rightarrow> version \<Rightarrow> string list \<Rightarrow> protos_ChaincodeAction \<Rightarrow> string \<Rightarrow> kvs \<times> ledger \<Rightarrow>
     (int option \<times> kvs \<times> ledger) run" where
  "process_results e tx_version args cc_action results s =
     (case s of (updates, L) \<Rightarrow>
       let fn = (case args of [] \<Rightarrow> [] | a # _ \<Rightarrow> a) in
       decode_pb (dec_TxReadWriteSet e results) s (\<lambda>tx_rw_set.
       run_bind (deref (cc_name cc_action)) (\<lambda>name.
         let ecc_namespace = (if take 3 (cstr name) = ''ecc'' then cstr name else []) in
       run_bind (check_read_sets e (kvs_state L) updates ecc_namespace tx_rw_set (True, [])) (\<lambda>(left, valid_tx, ecc_read_set).
         case left of Some c \<Rightarrow> Inr (Some c, s) | None \<Rightarrow>
         if \<not> valid_tx then Inr (None, s)
         else
       run_bind (each (apply_writes e tx_version) tx_rw_set (updates, [], L)) (\<lambda>(left, updates1, ecc_write_set, L1).
         case left of Some c \<Rightarrow> Inr (Some c, updates1, L1) | None \<Rightarrow>
         if ecc_namespace \<noteq> [] \<and> fn \<noteq> ''__setup''
         then run_bind (validate_ecc_tx e fn args (cc_response_payload cc_action) ecc_read_set ecc_write_set L1) (\<lambda>L2.
                Inr (None, updates1, L2))
         else Inr (None, updates1, L1))))))"

definition process_action ::
  "'a tlcc_env_scheme \<Rightarrow> version \<Rightarrow> string option \<Rightarrow> kvs \<times> ledger \<Rightarrow> (int option \<times> kvs \<times> ledger) run" where
  "process_action e tx_version payload s =
     run_bind (deref payload) (\<lambda>payload_bytes.
     decode_pb (dec_ChaincodeActionPayload e payload_bytes) s (\<lambda>action_payload.
     run_bind (deref (chaincode_proposal_payload action_payload)) (\<lambda>cpp.
     decode_pb (dec_ChaincodeProposalPayload e cpp) s (\<lambda>proposal_input.
     run_bind (deref proposal_input) (\<lambda>input.
     decode_pb (dec_ChaincodeInvocationSpec e input) s (\<lambda>args.
     run_bind (deref (proposal_response_payload action_payload)) (\<lambda>prp.
     decode_pb (dec_ProposalResponsePayload e prp) s (\<lambda>extension.
     run_bind (deref extension) (\<lambda>ext.
     decode_pb (dec_ChaincodeAction e ext) s (\<lambda>cc_action.
       case cc_results cc_action of
         None \<Rightarrow> Inr (None, s)
       | Some results \<Rightarrow> process_results e tx_version args cc_action results s))))))))))"

definition parse_endorser_transaction ::
  "'a tlcc_env_scheme \<Rightarrow> string \<Rightarrow> kvs \<Rightarrow> version \<Rightarrow> ledger \<Rightarrow> (int \<times> kvs \<times> ledger) run" where
  "parse_endorser_transaction e tx_data updates tx_version L =
     run_bind (decode_pb (dec_Transaction e tx_data) (updates, L) (\<lambda>actions.
                 each (process_action e tx_version) actions (updates, L)))
       (\<lambda>(left, s). Inr (case left of None \<Rightarrow> LEDGER_SUCCESS | Some c \<Rightarrow> c, s))"

section \<open>Configuration\<close>

datatype store_name = OrdererCerts | AppCerts | NoCerts

fun get_store :: "store_name \<Rightarrow> ledger \<Rightarrow> x509_store option" where
  "get_store OrdererCerts L = root_certs_orderer L"
| "get_store AppCerts L = root_certs_apps L"
| "get_store NoCerts L = None"

fun set_store :: "store_name \<Rightarrow> x509_store option \<Rightarrow> ledger \<Rightarrow> ledger" where
  "set_store OrdererCerts c L = L\<lparr>root_certs_orderer := c\<rparr>"
| "set_store AppCerts c L = L\<lparr>root_certs_apps := c\<rparr>"
| "set_store NoCerts c L = L"

definition add_root_cert :: "'a tlcc_env_scheme \<Rightarrow> store_name \<Rightarrow> string \<Rightarrow> ledger \<Rightarrow> ledger" where
  "add_root_cert e root_certs cert L =
     (case store_root_cert e cert (get_store root_certs L) of
        (ret, c) \<Rightarrow> raise_alarm (ret \<noteq> 1) RootCertNotStored (set_store root_certs c L))"

definition check_admin_cert :: "'a tlcc_env_scheme \<Rightarrow> store_name \<Rightarrow> string \<Rightarrow> ledger \<Rightarrow> ledger" where
  "check_admin_cert e root_certs cert L =
     raise_alarm (validate_cert e cert (get_store root_certs L) \<noteq> 1) InvalidAdminCert L"

definition config_value ::
  "'a tlcc_env_scheme \<Rightarrow> store_name \<Rightarrow> string option \<times> string option \<Rightarrow> ledger \<Rightarrow> (int option \<times> ledger) run" where
  "config_value e root_certs kv L =
     run_bind (deref (fst kv)) (\<lambda>key.
       if cstr key \<noteq> ''MSP'' then Inr (None, L)
       else
     run_bind (deref (snd kv)) (\<lambda>msp.
     decode_pb (dec_MSPConfig e msp) L (\<lambda>msp_config.
     run_bind (deref msp_config) (\<lambda>config.
     decode_pb (dec_FabricMSPConfig e config) L (\<lambda>fabric_msp_config.
       Inr (None, fold (check_admin_cert e root_certs) (msp_admins fabric_msp_config)
                    (fold (add_root_cert e root_certs) (msp_root_certs fabric_msp_config) L)))))))"

definition config_group ::
  "'a tlcc_env_scheme \<Rightarrow> config_group \<Rightarrow> ledger \<Rightarrow> (int option \<times> ledger) run" where
  "config_group e g L =
     run_bind (deref (fst g)) (\<lambda>group.
       let root_certs = (if cstr group = ''Orderer'' then OrdererCerts
                         else if cstr group = ''Application'' then AppCerts else NoCerts);
           L1 = raise_alarm (root_certs = NoCerts) (UnknownGroup (cstr group)) L
       in each (config_value e root_certs) (concat (map org_values (snd g))) L1)"

definition parse_config :: "'a tlcc_env_scheme \<Rightarrow> string \<Rightarrow> ledger \<Rightarrow> (int \<times> ledger) run" where
  "parse_config e config_data L =
     run_bind (decode_pb (dec_ConfigEnvelope e config_data) L (\<lambda>groups. each (config_group e) groups L))
       (\<lambda>(left, L1). Inr (case left of None \<Rightarrow> LEDGER_SUCCESS | Some c \<Rightarrow> c, L1))"

section \<open>Blocks\<close>

definition block_header2DER :: "'a openssl_scheme \<Rightarrow> common_BlockHeader \<Rightarrow> heap \<Rightarrow> (string \<times> heap) run" where
  "block_header2DER lib header h =
     (let prev_hash = (if header_number header > 0 then take 32 (previous_hash header) else []);
          der = i2d_ASN1BlockHeader lib (sint (header_number header)) prev_hash (take 32 (data_hash header))
      in case malloc h of (False, h1) \<Rightarrow> Inl NullDeref | (True, h1) \<Rightarrow> Inr (der, h1))"

definition verify_block_signature ::
  "'a tlcc_env_scheme \<Rightarrow> string \<Rightarrow> string \<Rightarrow> common_MetadataSignature \<Rightarrow> ledger \<Rightarrow> (int option \<times> ledger) run" where
  "verify_block_signature e value header_DER ms L =
     run_bind (deref (ms_signature_header ms)) (\<lambda>sig_header.
     decode_pb (dec_SignatureHeader e sig_header) L (\<lambda>header.
     run_bind (deref (creator header)) (\<lambda>cr.
     decode_pb (dec_SerializedIdentity e cr) L (\<lambda>identity.
       let sig_hash = SHA256 e (value @ sig_header @ header_DER) in
     run_bind (deref (ms_signature ms)) (\<lambda>sig.
     run_bind (deref identity) (\<lambda>id_bytes.
       Inr (None, raise_alarm (verify_signature e sig sig_hash id_bytes (root_certs_orderer L) \<noteq> 1)
                    BlockSignatureInvalid L)))))))"

definition verify_block_signatures ::
  "'a tlcc_env_scheme \<Rightarrow> common_Block \<Rightarrow> string \<Rightarrow> ledger \<Rightarrow> (int option \<times> ledger) run" where
  "verify_block_signatures e block header_DER L =
     run_bind (index (block_metadata block) common_BlockMetadataIndex_SIGNATURES) (\<lambda>metadata_bytes.
     decode_pb (dec_Metadata e metadata_bytes) L (\<lambda>metadata.
     (case metadata_value metadata of
        Some value \<Rightarrow> each (verify_block_signature e value header_DER) (metadata_signatures metadata) L
      | None \<Rightarrow>
          (case malloc (mem L) of
             (False, h1) \<Rightarrow> Inl NullDeref
           | (True, h1) \<Rightarrow>
               unless_left (each (verify_block_signature e [] header_DER) (metadata_signatures metadata) (L\<lparr>mem := h1\<rparr>))
                 (\<lambda>L1. Inr (None, L1\<lparr>mem := free_blocks 1 (mem L1)\<rparr>))))))"

text \<open>The transaction filter: an array of zero bytes, one per transaction, overwritten by the
  bytes of the metadata.\<close>

definition prepare_tx_filter :: "common_Block \<Rightarrow> string run" where
  "prepare_tx_filter block =
     run_bind (index (block_metadata block) common_BlockMetadataIndex_TRANSACTIONS_FILTER) (\<lambda>filter_pb.
     run_bind (check OutOfBounds (length filter_pb \<le> length (block_data block))) (\<lambda>_.
       Inr (filter_pb @ replicate (length (block_data block) - length filter_pb) NUL)))"

definition check_tx_id :: "'a tlcc_env_scheme \<Rightarrow> common_SignatureHeader \<Rightarrow> common_ChannelHeader \<Rightarrow> ledger \<Rightarrow> ledger run" where
  "check_tx_id e header chdr L =
     run_bind (deref (nonce header)) (\<lambda>n.
     run_bind (deref (creator header)) (\<lambda>cr.
     run_bind (bytes_to_hexstring (SHA256 e (n @ cr)) (mem L)) (\<lambda>(txid, h1).
     run_bind (deref (tx_id chdr)) (\<lambda>claimed.
       let wrong = (length txid = strlen claimed \<and> txid \<noteq> take (length txid) (cstr claimed))
       in Inr (raise_alarm wrong IncorrectTxID (L\<lparr>mem := free_blocks 1 h1\<rparr>))))))"

text \<open>One transaction of the block; \<open>s\<close> is the updates of the block and the ledger.\<close>

definition process_envelope ::
  "'a tlcc_env_scheme \<Rightarrow> 64 word \<Rightarrow> string \<Rightarrow> nat \<times> string \<Rightarrow> kvs \<times> ledger \<Rightarrow> (int option \<times> kvs \<times> ledger) run" where
  "process_envelope e number tx_filter tx s =
     (case (tx, s) of ((i, data), updates, L) \<Rightarrow>
       if byte (tx_filter ! i) = 1 then Inr (None, s)
       else let version = \<lparr>block_num = number, tx_num = of_nat i\<rparr> in
       decode_pb (dec_Envelope e data) s (\<lambda>envelope.
       run_bind (deref (envelope_payload envelope)) (\<lambda>pl.
       decode_pb (dec_Payload e pl) s (\<lambda>payload.
       run_bind (deref (signature_header payload)) (\<lambda>sh.
       decode_pb (dec_SignatureHeader e sh) s (\<lambda>header.
       run_bind (deref (creator header)) (\<lambda>cr.
       decode_pb (dec_SerializedIdentity e cr) s (\<lambda>identity.
         let sig_hash = SHA256 e pl in
       run_bind (if number > 0
                 then run_bind (deref (envelope_signature envelope)) (\<lambda>sig.
                      run_bind (deref identity) (\<lambda>id_bytes.
                        Inr (raise_alarm (verify_signature e sig sig_hash id_bytes (root_certs_apps L) \<noteq> 1)
                               EnvelopeSignatureInvalid L)))
                 else Inr L) (\<lambda>L1.
       run_bind (deref (channel_header payload)) (\<lambda>ch.
       decode_pb (dec_ChannelHeader e ch) (updates, L1) (\<lambda>chdr.
       run_bind (if number > 0 then check_tx_id e header chdr L1 else Inr L1) (\<lambda>L2.
       run_bind (spin_lock L2) (\<lambda>L3.
       run_bind (if header_type chdr = common_HeaderType_CONFIG
                 then (if number = 0
                       then run_bind (deref (payload_data payload)) (\<lambda>d.
                            run_bind (parse_config e d L3) (\<lambda>(_, L4). Inr (updates, L4)))
                       else Inr (updates, L3))
                 else if header_type chdr = common_HeaderType_ENDORSER_TRANSACTION
                 then run_bind (deref (payload_data payload)) (\<lambda>d.
                      run_bind (parse_endorser_transaction e d updates version L3) (\<lambda>(_, updates1, L4).
                        Inr (updates1, L4)))
                 else Inr (updates, raise_alarm True InvalidEnvelopeType L3)) (\<lambda>(updates1, L4).
         Inr (None, updates1, spin_unlock L4)))))))))))))))"

definition commit_state_updates :: "kvs \<Rightarrow> 32 word \<Rightarrow> ledger \<Rightarrow> (int \<times> ledger) run" where
  "commit_state_updates updates block_sequence_number L =
     run_bind (spin_lock L) (\<lambda>L1.
     run_bind (check AssertFailed (block_sequence_number = sequence_number L1 + 1)) (\<lambda>_.
       let L2 = L1\<lparr>sequence_number := block_sequence_number,
                   kvs_state := fold (\<lambda>(k, v). map_assign k v) updates (kvs_state L1)\<rparr>
       in Inr (LEDGER_SUCCESS, spin_unlock L2)))"

definition parse_block :: "'a tlcc_env_scheme \<Rightarrow> string \<Rightarrow> ledger \<Rightarrow> (int \<times> ledger) run" where
  "parse_block e block_data_bytes L =
     (case dec_Block e block_data_bytes of
        None \<Rightarrow> Inr (LEDGER_ERROR_DECODING, L)
      | Some block \<Rightarrow>
          let number = header_number (block_header block);
              block_sequence_number = (ucast number :: 32 word) in
          run_bind (block_header2DER e (block_header block) (mem L)) (\<lambda>(header_DER, h1).
            let L1 = L\<lparr>mem := h1\<rparr> in
            if block_sequence_number \<noteq> sequence_number L1 + 1
            then Inr (LEDGER_INVALID_BLOCK_NUMBER, L1\<lparr>mem := free_blocks 1 (mem L1)\<rparr>)
            else
          run_bind (verify_block_signatures e block header_DER L1) (\<lambda>(left, L2).
            case left of Some c \<Rightarrow> Inr (c, L2) | None \<Rightarrow>
            let L3 = L2\<lparr>mem := free_blocks 1 (mem L2)\<rparr> in
          run_bind (prepare_tx_filter block) (\<lambda>tx_filter.
          run_bind (each (process_envelope e number tx_filter) (enumerate 0 (block_data block)) ([], L3)) (\<lambda>(left, updates, L4).
            case left of Some c \<Rightarrow> Inr (c, L4) | None \<Rightarrow>
          run_bind (commit_state_updates updates block_sequence_number L4) (\<lambda>(_, L5).
            Inr (LEDGER_SUCCESS, L5)))))))"

section \<open>Queries\<close>

definition ledger_get_state_hash :: "'a tlcc_env_scheme \<Rightarrow> string \<Rightarrow> ledger \<Rightarrow> (int \<times> string option \<times> ledger) run" where
  "ledger_get_state_hash e key L =
     run_bind (spin_lock L) (\<lambda>L1.
       case map_of (kvs_state L1) (cstr key) of
         Some (val, ver) \<Rightarrow> Inr (LEDGER_SUCCESS, Some (SHA256 e val), spin_unlock L1)
       | None \<Rightarrow> Inr (LEDGER_NOT_FOUND, None, spin_unlock L1))"

text \<open>A key from its first dot on.\<close>

definition erase_prefix :: "string \<Rightarrow> string" where
  "erase_prefix key = (if CHR ''.'' \<in> set key then dropWhile (\<lambda>c. c \<noteq> CHR ''.'') key else key)"

fun multi_state_loop :: "string \<Rightarrow> kvs \<Rightarrow> string" where
  "multi_state_loop k [] = []"
| "multi_state_loop k ((key, val, ver) # m) =
     (if take (length k) key \<noteq> k then [] else erase_prefix key @ val @ multi_state_loop k m)"

definition ledger_get_multi_state_hash :: "'a tlcc_env_scheme \<Rightarrow> string \<Rightarrow> ledger \<Rightarrow> (int \<times> string \<times> ledger) run" where
  "ledger_get_multi_state_hash e comp_key L =
     run_bind (spin_lock L) (\<lambda>L1.
       let k = cstr comp_key in
       Inr (LEDGER_SUCCESS, SHA256 e (multi_state_loop k (map_lower_bound k (kvs_state L1))), spin_unlock L1))"

end
