(* ===== verification/Ledger_Laws.thy ===== *)
theory Ledger_Laws
  imports Ledger
begin

text \<open>
  The laws of the trusted ledger. Two relations describe what a part of block processing may
  change: \<open>keeps\<close> for parts that only validate, and \<open>grows P\<close> for parts that collect updates whose
  versions satisfy \<open>P\<close>. The locale \<open>step_frame\<close> carries such a relation through decoding, loops
  and early exits. From them: a block is applied completely or not at all, what it changes
  carries its version, a stale read invalidates a transaction, and the scan of a composite key
  meets exactly the entries with that prefix.
\<close>

section \<open>Frames\<close>

locale step_frame =
  fixes R :: "'s \<Rightarrow> 's \<Rightarrow> bool"
  assumes R_refl: "R s s" and R_trans: "R s t \<Longrightarrow> R t u \<Longrightarrow> R s u"
begin

lemma decode_frame:
  assumes "decode_pb m s k = Inr (c, s')" and "\<And>x. m = Some x \<Longrightarrow> k x = Inr (c, s') \<Longrightarrow> R s s'"
  shows "R s s'"
  using assms by (auto simp: decode_pb_def R_refl split: option.splits)

lemma unless_left_frame:
  assumes "unless_left m k = Inr (c, s')" and "\<And>d t. m = Inr (d, t) \<Longrightarrow> R s t"
    and "\<And>t. m = Inr (None, t) \<Longrightarrow> k t = Inr (c, s') \<Longrightarrow> R t s'"
  shows "R s s'"
proof -
  obtain d t where m: "m = Inr (d, t)" and k: "(case d of None \<Rightarrow> k t | Some c' \<Rightarrow> Inr (Some c', t)) = Inr (c, s')"
    using assms(1) by (auto simp: unless_left_def run_simps)
  show ?thesis
  proof (cases d)
    case None
    then show ?thesis using R_trans [OF assms(2) [OF m] assms(3)] m k by simp
  next
    case (Some c')
    then show ?thesis using assms(2) [OF m] k by simp
  qed
qed

lemma each_frame:
  assumes "\<And>x s c s'. x \<in> set xs \<Longrightarrow> f x s = Inr (c, s') \<Longrightarrow> R s s'"
  shows "each f xs s = Inr (c, s') \<Longrightarrow> R s s'"
  using assms
proof (induction xs arbitrary: s)
  case (Cons x xs)
  have "unless_left (f x s) (each f xs) = Inr (c, s')" using Cons.prems(1) by simp
  then show ?case
  proof (rule unless_left_frame)
    show "R s t" if "f x s = Inr (d, t)" for d t using Cons.prems(2) [OF _ that] by simp
    show "R t s'" if "each f xs t = Inr (c, s')" for t
      by (rule Cons.IH [OF that]) (use Cons.prems(2) in auto)
  qed
qed (simp add: R_refl)

end

definition keeps :: "ledger \<Rightarrow> ledger \<Rightarrow> bool" where
  "keeps L L' = (kvs_state L' = kvs_state L \<and> sequence_number L' = sequence_number L \<and> locked L' = locked L)"

definition grows :: "(version \<Rightarrow> bool) \<Rightarrow> kvs \<times> ledger \<Rightarrow> kvs \<times> ledger \<Rightarrow> bool" where
  "grows P s s' = (keeps (snd s) (snd s') \<and> (map_wf (fst s) \<longrightarrow> map_wf (fst s') \<and>
     map_of (fst s) \<subseteq>\<^sub>m map_of (fst s') \<and>
     (\<forall>k x. map_of (fst s') k = Some x \<longrightarrow> map_of (fst s) k = Some x \<or> P (snd x))))"

interpretation kf: step_frame keeps
  by unfold_locales (auto simp: keeps_def)

interpretation gf: step_frame "grows P" for P
proof unfold_locales
  show "grows P s s" for s by (simp add: grows_def keeps_def)
  show "grows P s u" if a: "grows P s t" and b: "grows P t u" for s t u
  proof -
    have "keeps (snd s) (snd u)" using a b by (auto simp: grows_def intro: kf.R_trans)
    moreover have "map_wf (fst u) \<and> map_of (fst s) \<subseteq>\<^sub>m map_of (fst u) \<and>
        (\<forall>k x. map_of (fst u) k = Some x \<longrightarrow> map_of (fst s) k = Some x \<or> P (snd x))" if wf: "map_wf (fst s)"
    proof -
      have t: "map_wf (fst t)" "map_of (fst s) \<subseteq>\<^sub>m map_of (fst t)"
        "\<And>k x. map_of (fst t) k = Some x \<Longrightarrow> map_of (fst s) k = Some x \<or> P (snd x)"
        using a wf unfolding grows_def by blast+
      have u: "map_wf (fst u)" "map_of (fst t) \<subseteq>\<^sub>m map_of (fst u)"
        "\<And>k x. map_of (fst u) k = Some x \<Longrightarrow> map_of (fst t) k = Some x \<or> P (snd x)"
        using b t(1) unfolding grows_def by blast+
      show ?thesis using t u map_le_trans by blast
    qed
    ultimately show ?thesis by (simp add: grows_def)
  qed
qed

lemma keeps_refl [simp]: "keeps L L"
  by (rule kf.R_refl)

lemma keeps_alarm [simp]: "keeps L (raise_alarm b a L') = keeps L L'"
  by (simp add: keeps_def raise_alarm_def)

lemma keeps_mem [simp]: "keeps L (L'\<lparr>mem := h\<rparr>) = keeps L L'"
  by (simp add: keeps_def)

lemma keeps_set_store [simp]: "keeps L (set_store r c L') = keeps L L'"
  by (cases r) (simp_all add: keeps_def)

lemma grows_same_updates: "keeps L L' \<Longrightarrow> grows P (u, L) (u, L')"
  by (simp add: grows_def)

lemma grows_insert: "keeps L L' \<Longrightarrow> P (snd x) \<Longrightarrow> grows P (u, L) (map_insert k x u, L')"
  by (auto simp: grows_def map_wf_insert map_of_map_insert map_le_def)

section \<open>Validation keeps the state\<close>

lemma fold_keeps: "(\<And>x L. keeps L (f x L)) \<Longrightarrow> keeps L (fold f xs L)"
  by (induction xs arbitrary: L) (auto intro: kf.R_trans)

lemma add_root_cert_keeps: "keeps L (add_root_cert e r c L)"
  by (simp add: add_root_cert_def split: prod.split)

lemma check_admin_cert_keeps: "keeps L (check_admin_cert e r c L)"
  by (simp add: check_admin_cert_def)

lemma config_value_keeps: "config_value e r kv L = Inr (c, L') \<Longrightarrow> keeps L L'"
  unfolding config_value_def
  by (auto simp: run_simps split: if_splits elim!: kf.decode_frame
      intro!: kf.R_trans [OF fold_keeps fold_keeps] add_root_cert_keeps check_admin_cert_keeps)

lemma config_values_keep: "each (config_value e r) kvs L = Inr (c, L') \<Longrightarrow> keeps L L'"
  by (erule kf.each_frame [rotated]) (erule config_value_keeps)

lemma config_group_keeps: "config_group e g L = Inr (c, L') \<Longrightarrow> keeps L L'"
proof -
  assume "config_group e g L = Inr (c, L')"
  then have "\<exists>r b a. each (config_value e r) (concat (map org_values (snd g))) (raise_alarm b a L) = Inr (c, L')"
    by (auto simp: config_group_def run_simps Let_def)
  then obtain r b a where "each (config_value e r) (concat (map org_values (snd g))) (raise_alarm b a L) = Inr (c, L')" by blast
  then have "keeps (raise_alarm b a L) L'" by (rule config_values_keep)
  then show ?thesis using kf.R_trans [of L "raise_alarm b a L"] by simp
qed

lemma config_groups_keep: "each (config_group e) gs L = Inr (c, L') \<Longrightarrow> keeps L L'"
  by (erule kf.each_frame [rotated]) (erule config_group_keeps)

lemma parse_config_keeps: "parse_config e d L = Inr (c, L') \<Longrightarrow> keeps L L'"
  unfolding parse_config_def
  by (auto simp: run_simps elim!: kf.decode_frame dest: config_groups_keep)

lemma verify_block_signature_keeps: "verify_block_signature e v d ms L = Inr (c, L') \<Longrightarrow> keeps L L'"
  unfolding verify_block_signature_def
  by (auto simp: run_simps Let_def elim!: kf.decode_frame)

lemma verify_signatures_keep: "each (verify_block_signature e v d) ms L = Inr (c, L') \<Longrightarrow> keeps L L'"
  by (erule kf.each_frame [rotated]) (erule verify_block_signature_keeps)

lemma verify_block_signatures_keeps:
  assumes "verify_block_signatures e block d L = Inr (c, L')"
  shows "keeps L L'"
proof -
  obtain bytes where b: "decode_pb (dec_Metadata e bytes) L (\<lambda>metadata.
     (case metadata_value metadata of
        Some value \<Rightarrow> each (verify_block_signature e value d) (metadata_signatures metadata) L
      | None \<Rightarrow>
          (case malloc (mem L) of
             (False, h1) \<Rightarrow> Inl NullDeref
           | (True, h1) \<Rightarrow>
               unless_left (each (verify_block_signature e [] d) (metadata_signatures metadata) (L\<lparr>mem := h1\<rparr>))
                 (\<lambda>L1. Inr (None, L1\<lparr>mem := free_blocks 1 (mem L1)\<rparr>))))) = Inr (c, L')"
    using assms by (auto simp: verify_block_signatures_def run_simps)
  have loop: "keeps L L1" if "each (verify_block_signature e [] d) ms (L\<lparr>mem := h\<rparr>) = Inr (c1, L1)" for ms h c1 L1
    using verify_signatures_keep [OF that] by (simp add: keeps_def)
  show ?thesis
    using b by (rule kf.decode_frame)
      (auto split: option.splits prod.splits bool.splits elim!: kf.unless_left_frame dest: verify_signatures_keep loop)
qed

lemma check_tx_id_keeps: "check_tx_id e header chdr L = Inr L' \<Longrightarrow> keeps L L'"
  by (auto simp: check_tx_id_def run_simps Let_def)

lemma validate_ecc_tx_keeps: "validate_ecc_tx e fn args p rs ws L = Inr L' \<Longrightarrow> keeps L L'"
  by (auto simp: validate_ecc_tx_def run_simps Let_def)

section \<open>Transactions add updates\<close>

lemma entry_version_id [simp]: "entry_version v = v"
  by (simp add: entry_version_def)

lemma lscc_write_grows:
  "lscc_write ns v w u = Inr u' \<Longrightarrow> keeps L L' \<Longrightarrow> P v \<Longrightarrow> grows P (u, L) (u', L')"
  by (auto simp: lscc_write_def run_simps intro: grows_insert)

lemma ecc_write_grows:
  "ecc_write ns v w (u, ws) = Inr (u', ws') \<Longrightarrow> keeps L L' \<Longrightarrow> P v \<Longrightarrow> grows P (u, L) (u', L')"
  by (auto simp: ecc_write_def run_simps intro: grows_insert split: if_splits)

lemma run_fold_lscc_grows:
  "run_fold (lscc_write ns v) wl u = Inr u' \<Longrightarrow> P v \<Longrightarrow> grows P (u, L) (u', L)"
proof (induction wl arbitrary: u)
  case (Cons w wl)
  then obtain u1 where u1: "lscc_write ns v w u = Inr u1" "run_fold (lscc_write ns v) wl u1 = Inr u'"
    by (auto simp: run_simps)
  show ?case using gf.R_trans [OF lscc_write_grows [OF u1(1) keeps_refl] Cons.IH [OF u1(2)]] Cons.prems(2) by blast
qed (simp add: gf.R_refl)

lemma run_fold_ecc_grows:
  "run_fold (ecc_write ns v) wl (u, ws) = Inr (u', ws') \<Longrightarrow> P v \<Longrightarrow> grows P (u, L) (u', L)"
proof (induction wl arbitrary: u ws)
  case (Cons w wl)
  then obtain u1 ws1 where u1: "ecc_write ns v w (u, ws) = Inr (u1, ws1)" "run_fold (ecc_write ns v) wl (u1, ws1) = Inr (u', ws')"
    by (auto simp: run_simps)
  show ?case using gf.R_trans [OF ecc_write_grows [OF u1(1) keeps_refl] Cons.IH [OF u1(2)]] Cons.prems(2) by blast
qed (simp add: gf.R_refl)

text \<open>\<open>apply_writes\<close> carries the write set of the transaction along: the frame ignores it.\<close>

definition grows3 :: "(version \<Rightarrow> bool) \<Rightarrow> kvs \<times> (string, string) std_map \<times> ledger \<Rightarrow> kvs \<times> (string, string) std_map \<times> ledger \<Rightarrow> bool" where
  "grows3 P s s' = grows P (fst s, snd (snd s)) (fst s', snd (snd s'))"

interpretation gf3: step_frame "grows3 P" for P
  by unfold_locales (auto simp: grows3_def gf.R_refl intro: gf.R_trans)

lemma apply_writes_grows:
  assumes "apply_writes e v rw s = Inr (c, s')" "P v"
  shows "grows3 P s s'"
proof -
  obtain u ws L where s: "s = (u, ws, L)" by (cases s)
  show ?thesis
    using assms unfolding apply_writes_def s prod.case
    by (auto simp: run_simps elim!: gf3.decode_frame)
      (auto simp: run_simps Let_def grows3_def gf.R_refl split: if_splits
        dest: run_fold_lscc_grows [where P = P] run_fold_ecc_grows [where P = P] intro: lscc_write_grows [where P = P])
qed

lemma process_results_grows:
  assumes "process_results e v args cc results s = Inr (c, s')" "P v"
  shows "grows P s s'"
proof -
  obtain u L where s: "s = (u, L)" by (cases s)
  have writes: "grows P (u, L) (u1, L1)" if "each (apply_writes e v) rws (u, [], L) = Inr (c1, u1, ws, L1)" for rws c1 u1 ws L1
    using gf3.each_frame [OF apply_writes_grows that] assms(2) by (simp add: grows3_def)
  have validated: "grows P (u, L) (u1, L2)"
    if "each (apply_writes e v) rws (u, [], L) = Inr (c1, u1, ws, L1)" "keeps L1 L2" for rws c1 u1 ws L1 L2
    using gf.R_trans [OF writes [OF that(1)] grows_same_updates [OF that(2)]] .
  show ?thesis
    using assms unfolding process_results_def s prod.case Let_def
    by (auto simp: run_simps gf.R_refl elim!: gf.decode_frame split: option.splits if_splits
        dest!: validate_ecc_tx_keeps) (erule writes | erule (1) validated)+
qed

lemma process_action_grows: "process_action e v p s = Inr (c, s') \<Longrightarrow> P v \<Longrightarrow> grows P s s'"
  unfolding process_action_def
  by (auto simp: run_simps gf.R_refl elim!: gf.decode_frame split: option.splits)
    (erule (1) process_results_grows)

lemma parse_endorser_grows:
  "parse_endorser_transaction e d u v L = Inr (c, u', L') \<Longrightarrow> P v \<Longrightarrow> grows P (u, L) (u', L')"
  unfolding parse_endorser_transaction_def
  by (auto simp: run_simps elim!: gf.decode_frame gf.each_frame [rotated] process_action_grows [where P = P])


section \<open>Blocks\<close>

lemma spin_lock_Inr: "spin_lock L = Inr L' \<longleftrightarrow> \<not> locked L \<and> L' = L\<lparr>locked := True\<rparr>"
  by (auto simp: spin_lock_def)

text \<open>A transaction runs under the lock: what it keeps of the locked ledger it keeps of the
  ledger before.\<close>

lemma under_lock: "keeps L L2 \<Longrightarrow> \<not> locked L2 \<Longrightarrow> grows P (u, L2\<lparr>locked := True\<rparr>) (u', L4) \<Longrightarrow> grows P (u, L) (u', spin_unlock L4)"
  by (simp add: grows_def keeps_def spin_unlock_def)

lemma under_lock_keeps: "keeps L L2 \<Longrightarrow> \<not> locked L2 \<Longrightarrow> keeps (L2\<lparr>locked := True\<rparr>) L4 \<Longrightarrow> grows P (u, L) (u, spin_unlock L4)"
  by (simp add: grows_def keeps_def spin_unlock_def)

lemma process_envelope_grows:
  assumes "process_envelope e number tx_filter tx s = Inr (c, s')" "\<And>i. P \<lparr>block_num = number, tx_num = i\<rparr>"
  shows "grows P s s'"
proof -
  obtain i data u L where s: "tx = (i, data)" "s = (u, L)" by (cases tx; cases s)
  have validated: "keeps L L1"
    if "(if number > 0
         then run_bind (deref sg) (\<lambda>sig. run_bind (deref idt) (\<lambda>id_bytes.
                Inr (raise_alarm (verify_signature e sig hs id_bytes (root_certs_apps L) \<noteq> 1) EnvelopeSignatureInvalid L)))
         else Inr L) = Inr L1" for sg idt hs L1
    using that by (auto simp: run_simps split: if_splits)
  have idchecked: "keeps L L2" if "keeps L L1" "(if number > 0 then check_tx_id e header chdr L1 else Inr L1) = Inr L2" for L1 L2 header chdr
    using that by (auto split: if_splits intro: kf.R_trans check_tx_id_keeps)
  have run: "grows P (u, L) (u1, spin_unlock L4)"
    if "keeps L L2" "spin_lock L2 = Inr L3"
      "(if header_type chdr = common_HeaderType_CONFIG
        then (if number = 0 then run_bind (deref pd) (\<lambda>d. run_bind (parse_config e d L3) (\<lambda>(_, L4). Inr (u, L4))) else Inr (u, L3))
        else if header_type chdr = common_HeaderType_ENDORSER_TRANSACTION
        then run_bind (deref pd) (\<lambda>d. run_bind (parse_endorser_transaction e d u \<lparr>block_num = number, tx_num = of_nat i\<rparr> L3)
               (\<lambda>(_, updates1, L4). Inr (updates1, L4)))
        else Inr (u, raise_alarm True InvalidEnvelopeType L3)) = Inr (u1, L4)" for L2 L3 L4 chdr pd u1
    using that
    by (auto simp: spin_lock_Inr run_simps split: if_splits dest!: parse_config_keeps
        intro: under_lock under_lock_keeps parse_endorser_grows [where P = P, OF _ assms(2)])
  have rest: "grows P (u, L) s'"
    if "keeps L L1"
      "decode_pb m (u, L1) (\<lambda>chdr.
         run_bind (if number > 0 then check_tx_id e header chdr L1 else Inr L1) (\<lambda>L2.
         run_bind (spin_lock L2) (\<lambda>L3.
         run_bind (if header_type chdr = common_HeaderType_CONFIG
                   then (if number = 0 then run_bind (deref pd) (\<lambda>d. run_bind (parse_config e d L3) (\<lambda>(_, L4). Inr (u, L4))) else Inr (u, L3))
                   else if header_type chdr = common_HeaderType_ENDORSER_TRANSACTION
                   then run_bind (deref pd) (\<lambda>d. run_bind (parse_endorser_transaction e d u \<lparr>block_num = number, tx_num = of_nat i\<rparr> L3)
                          (\<lambda>(_, updates1, L4). Inr (updates1, L4)))
                   else Inr (u, raise_alarm True InvalidEnvelopeType L3)) (\<lambda>(updates1, L4).
           Inr (None, updates1, spin_unlock L4))))) = Inr (c, s')" for m L1 header pd
  proof (cases m)
    case None
    then show ?thesis using that by (auto simp: decode_pb_def intro: grows_same_updates)
  next
    case (Some chdr)
    then show ?thesis
      using that(2) unfolding decode_pb_def Some option.case
      by (auto simp: run_bind_eq_Inr intro: run [OF idchecked [OF that(1)]])
  qed
  show ?thesis
    using assms(1) unfolding process_envelope_def s prod.case Let_def
    by (cases "byte (tx_filter ! i) = (1::nat)")
      (auto simp: run_simps gf.R_refl elim!: gf.decode_frame dest!: validated rest)
qed

section \<open>Early exits\<close>

text \<open>A part that leaves its function does so with the decoding error.\<close>

named_theorems exits \<open>rules for early exits\<close>

definition decoding_exit :: "(int option \<times> 's) run \<Rightarrow> bool" where
  "decoding_exit m = (\<forall>c s. m = Inr (Some c, s) \<longrightarrow> c = LEDGER_ERROR_DECODING)"

lemma decoding_exitD: "decoding_exit m \<Longrightarrow> m = Inr (Some c, s) \<Longrightarrow> c = LEDGER_ERROR_DECODING"
  by (simp add: decoding_exit_def)

lemma decoding_exit_done [exits]: "decoding_exit (Inr (None, s))" "decoding_exit (Inl f)"
  by (simp_all add: decoding_exit_def)

lemma decoding_exit_bind [exits]: "(\<And>x. m = Inr x \<Longrightarrow> decoding_exit (f x)) \<Longrightarrow> decoding_exit (run_bind m f)"
  by (auto simp: decoding_exit_def run_simps)

lemma decoding_exit_decode [exits]: "(\<And>x. decoding_exit (k x)) \<Longrightarrow> decoding_exit (decode_pb m s k)"
  by (auto simp: decoding_exit_def decode_pb_def split: option.splits)

lemma decoding_exit_if [exits]: "(b \<Longrightarrow> decoding_exit x) \<Longrightarrow> (\<not> b \<Longrightarrow> decoding_exit y) \<Longrightarrow> decoding_exit (if b then x else y)"
  by simp

lemma decoding_exit_unless_left [exits]:
  "decoding_exit m \<Longrightarrow> (\<And>s. decoding_exit (k s)) \<Longrightarrow> decoding_exit (unless_left m k)"
  unfolding decoding_exit_def unless_left_def run_bind_eq_Inr by (fastforce split: option.splits)

lemma decoding_exit_each: "(\<And>x s. decoding_exit (f x s)) \<Longrightarrow> decoding_exit (each f xs s)"
  by (induction xs arbitrary: s) (auto intro: exits)

lemma verify_block_signature_exit: "decoding_exit (verify_block_signature e v d ms L)"
  by (auto simp: verify_block_signature_def Let_def intro!: exits)

lemma verify_block_signatures_exit: "decoding_exit (verify_block_signatures e block d L)"
  by (auto simp: verify_block_signatures_def intro!: exits decoding_exit_each verify_block_signature_exit
      split: option.split prod.split bool.split)

lemma process_envelope_exit: "decoding_exit (process_envelope e number tx_filter tx s)"
  by (auto simp: process_envelope_def Let_def split_beta intro!: exits split: prod.split)

lemma process_envelopes_exit: "decoding_exit (each (process_envelope e number tx_filter) txs s)"
  by (rule decoding_exit_each, rule process_envelope_exit)

section \<open>Applying a block\<close>

lemma process_envelopes_grow:
  assumes "each (process_envelope e number tx_filter) txs s = Inr (c, s')" "\<And>i. P \<lparr>block_num = number, tx_num = i\<rparr>"
  shows "grows P s s'"
  using assms(1) by (rule gf.each_frame [rotated]) (erule process_envelope_grows, rule assms(2))

lemma commit_Inr:
  "commit_state_updates u n L = Inr (c, L') \<longleftrightarrow>
     \<not> locked L \<and> n = sequence_number L + 1 \<and> c = LEDGER_SUCCESS \<and>
     L' = L\<lparr>sequence_number := n, kvs_state := fold (\<lambda>(k, v). map_assign k v) u (kvs_state L)\<rparr>"
proof -
  have "(L\<lparr>locked := True, sequence_number := n, kvs_state := m\<rparr>)\<lparr>locked := False\<rparr> = L\<lparr>sequence_number := n, kvs_state := m\<rparr>"
    if "\<not> locked L" for m
    using that by (cases L) simp
  then show ?thesis
    by (auto simp: commit_state_updates_def run_simps spin_lock_Inr spin_unlock_def Let_def)
qed

text \<open>What a call of \<open>parse_block\<close> that returns has done.\<close>

lemma parse_block_cases:
  assumes "parse_block e b L = Inr (c, L')"
  obtains (rejected) "c = LEDGER_ERROR_DECODING \<or> c = LEDGER_INVALID_BLOCK_NUMBER" "keeps L L'"
  | (applied) block updates L1 where "c = LEDGER_SUCCESS" "dec_Block e b = Some block" "keeps L L1" "\<not> locked L"
      "ucast (header_number (block_header block)) = sequence_number L + (1 :: 32 word)"
      "grows (\<lambda>v. block_num v = header_number (block_header block)) ([], L) (updates, L1)"
      "L' = L1\<lparr>sequence_number := sequence_number L + 1, kvs_state := fold (\<lambda>(k, v). map_assign k v) updates (kvs_state L)\<rparr>"
proof (cases "dec_Block e b")
  case None
  then show thesis using assms rejected by (simp add: parse_block_def)
next
  case (Some block)
  let ?n = "header_number (block_header block)"
  obtain der h1 where der: "block_header2DER e (block_header block) (mem L) = Inr (der, h1)"
    using assms Some by (auto simp: parse_block_def Let_def run_simps)
  show thesis
  proof (cases "ucast ?n = sequence_number L + (1 :: 32 word)")
    case False
    then have "c = LEDGER_INVALID_BLOCK_NUMBER" "keeps L L'" using assms Some der by (auto simp: parse_block_def)
    then show thesis using rejected by simp
  next
    case seq: True
    obtain left L2 where v: "verify_block_signatures e block der (L\<lparr>mem := h1\<rparr>) = Inr (left, L2)"
      using assms Some der seq by (auto simp: parse_block_def Let_def run_simps)
    have k2: "keeps L L2" using verify_block_signatures_keeps [OF v] by (simp add: keeps_def)
    show thesis
    proof (cases left)
      case (Some d)
      then have "c = d" "L' = L2" using assms \<open>dec_Block e b = _\<close> der seq v by (auto simp: parse_block_def Let_def)
      then show thesis
        using rejected decoding_exitD [OF verify_block_signatures_exit] v k2 Some by blast
    next
      case None
      let ?L3 = "L2\<lparr>mem := free_blocks 1 (mem L2)\<rparr>"
      obtain tx_filter left4 updates L4 where
        p: "each (process_envelope e ?n tx_filter) (enumerate 0 (block_data block)) ([], ?L3) = Inr (left4, updates, L4)"
        and r: "(case left4 of Some c \<Rightarrow> Inr (c, L4) | None \<Rightarrow>
          run_bind (commit_state_updates updates (ucast ?n) L4) (\<lambda>(_, L5). Inr (LEDGER_SUCCESS, L5))) = Inr (c, L')"
        using assms Some der seq v None by (auto simp: parse_block_def Let_def run_bind_eq_Inr)
      have g3: "grows (\<lambda>v. block_num v = ?n) ([], ?L3) (updates, L4)"
        using process_envelopes_grow [OF p] by simp
      have g: "grows (\<lambda>v. block_num v = ?n) ([], L) (updates, L4)"
        using g3 k2 by (simp add: grows_def keeps_def)
      then have k4: "keeps L L4" by (simp add: grows_def)
      show thesis
      proof (cases left4)
        case (Some d)
        then have "d = LEDGER_ERROR_DECODING"
          using decoding_exitD [OF process_envelopes_exit] p by blast
        then show thesis using rejected Some r k4 by simp
      next
        case None
        then have c: "c = LEDGER_SUCCESS" "\<not> locked L4"
          "L' = L4\<lparr>sequence_number := ucast ?n, kvs_state := fold (\<lambda>(k, v). map_assign k v) updates (kvs_state L4)\<rparr>"
          using r by (auto simp: run_bind_eq_Inr commit_Inr)
        moreover have "\<not> locked L" "kvs_state L4 = kvs_state L" using k4 c(2) by (auto simp: keeps_def)
        ultimately show thesis using applied [OF _ \<open>dec_Block e b = _\<close> k4 _ seq g] seq by simp
      qed
    qed
  qed
qed

section \<open>Read sets\<close>

definition conflicts :: "kvs \<Rightarrow> kvs \<Rightarrow> string \<Rightarrow> version \<Rightarrow> bool" where
  "conflicts st updates key v = (has_version_conflict key st v \<or> has_version_conflict key updates v)"

lemma check_reads_valid:
  "check_reads keys st u own rs acc = Inr (True, rset) \<Longrightarrow>
     fst acc \<and> (\<forall>r \<in> set rs. \<exists>key kkey. keys r = Inr (key, kkey) \<and> \<not> conflicts st u key (read_version r))"
proof (induction rs arbitrary: acc)
  case Nil
  then show ?case by (cases acc) simp
next
  case (Cons r rs)
  obtain v rset0 where acc: "acc = (v, rset0)" by fastforce
  obtain key kkey where k: "keys r = Inr (key, kkey)"
    "check_reads keys st u own rs (v \<and> \<not> (has_version_conflict key st (read_version r) \<or> has_version_conflict key u (read_version r)),
       if own then set_insert kkey rset0 else rset0) = Inr (True, rset)"
    using Cons.prems by (auto simp: acc run_bind_eq_Inr Let_def)
  from Cons.IH [OF k(2)] k(1) acc show ?case by (auto simp: conflicts_def)
qed

lemma check_read_sets_ConsE:
  assumes "check_read_sets e st u ens (x # rws) acc = Inr (None, res)"
  obtains b ks n acc1 acc2 where "rw_set x = Some b" "dec_KVRWSet e b = Some ks" "rw_ns x = Some n"
    "check_reads (range_read_keys (cstr n)) st u (cstr n = ens) (concat (range_reads ks)) acc = Inr acc1"
    "check_reads (plain_read_keys (cstr n)) st u (cstr n = ens) (kv_reads ks) acc1 = Inr acc2"
    "check_read_sets e st u ens rws acc2 = Inr (None, res)"
  using assms that by (auto simp: run_bind_eq_Inr deref_eq_Inr decode_pb_def Let_def split: option.splits)

lemma check_reads_mono: "check_reads keys st u own rs acc = Inr acc' \<Longrightarrow> fst acc' \<Longrightarrow> fst acc"
  using check_reads_valid [of keys st u own rs acc "snd acc'"] by (cases acc') simp

lemma check_read_sets_mono: "check_read_sets e st u ens ws acc = Inr (None, True, r) \<Longrightarrow> fst acc"
proof (induction ws arbitrary: acc)
  case (Cons w ws)
  show ?case using Cons.prems by (rule check_read_sets_ConsE) (meson Cons.IH check_reads_mono)
qed simp

lemma check_read_sets_valid:
  assumes "check_read_sets e st u ens rws acc = Inr (None, True, rset)" "rw \<in> set rws"
    and "rw_set rw = Some bytes" "dec_KVRWSet e bytes = Some kv" "rw_ns rw = Some ns"
  shows "(\<forall>r \<in> set (kv_reads kv). \<exists>key kkey. plain_read_keys (cstr ns) r = Inr (key, kkey) \<and> \<not> conflicts st u key (read_version r)) \<and>
    (\<forall>r \<in> set (concat (range_reads kv)). \<exists>key kkey. range_read_keys (cstr ns) r = Inr (key, kkey) \<and> \<not> conflicts st u key (read_version r))"
  using assms(1,2)
proof (induction rws arbitrary: acc)
  case (Cons x rws)
  show ?case using Cons.prems(1)
  proof (rule check_read_sets_ConsE)
    fix b ks n acc1 acc2
    assume x: "rw_set x = Some b" "dec_KVRWSet e b = Some ks" "rw_ns x = Some n"
      "check_reads (range_read_keys (cstr n)) st u (cstr n = ens) (concat (range_reads ks)) acc = Inr acc1"
      "check_reads (plain_read_keys (cstr n)) st u (cstr n = ens) (kv_reads ks) acc1 = Inr acc2"
      "check_read_sets e st u ens rws acc2 = Inr (None, True, rset)"
    have "acc2 = (True, snd acc2)" using check_read_sets_mono [OF x(6)] by (cases acc2) simp
    then have c2: "fst acc1 \<and> (\<forall>r \<in> set (kv_reads ks). \<exists>key kkey. plain_read_keys (cstr n) r = Inr (key, kkey) \<and> \<not> conflicts st u key (read_version r))"
      using check_reads_valid [of "plain_read_keys (cstr n)" st u "cstr n = ens" "kv_reads ks" acc1 "snd acc2"] x(5) by simp
    then have "acc1 = (True, snd acc1)" by (cases acc1) simp
    then have c1: "\<forall>r \<in> set (concat (range_reads ks)). \<exists>key kkey. range_read_keys (cstr n) r = Inr (key, kkey) \<and> \<not> conflicts st u key (read_version r)"
      using check_reads_valid [of "range_read_keys (cstr n)" st u "cstr n = ens" "concat (range_reads ks)" acc "snd acc1"] x(4) by simp
    show ?thesis
    proof (cases "rw = x")
      case True
      then have "ks = kv" "n = ns" using assms(3-5) x(1-3) by simp_all
      then show ?thesis using c1 c2 by blast
    next
      case False
      then show ?thesis using Cons.IH [OF x(6)] Cons.prems(2) by simp
    qed
  qed
qed simp

section \<open>Composite keys\<close>

lemma composite_loop_parts:
  "list_all (\<lambda>a. a \<noteq> [] \<and> nul_free a) parts \<Longrightarrow>
     composite_loop (concat (map (\<lambda>a. a @ [NUL]) parts) @ [NUL]) = Inr (concat (map (\<lambda>a. a @ ''.'') parts))"
proof (induction parts)
  case Nil
  then show ?case by (simp add: composite_loop.simps)
next
  case (Cons a parts)
  then obtain c cs where a: "a = c # cs" "c \<noteq> NUL" "nul_free a" by (cases a) auto
  let ?rest = "concat (map (\<lambda>a. a @ [NUL]) parts) @ [NUL]"
  have "composite_loop (a @ NUL # ?rest) = run_bind (composite_loop ?rest) (\<lambda>rest. Inr (a @ ''.'' @ rest))"
    using a cstr_append_NUL [OF a(3), of ?rest] by (simp add: composite_loop.simps)
  then show ?case using Cons by simp
qed

section \<open>Scanning a prefix\<close>

lemma lex_between: "p \<le> x \<Longrightarrow> x \<le> p @ s \<Longrightarrow> take (length p) x = (p :: string)"
proof (induction p arbitrary: x)
  case (Cons c p)
  then show ?case by (cases x) auto
qed simp

lemma prefix_le: "take (length p) x = p \<Longrightarrow> p \<le> (x :: string)"
proof (induction p arbitrary: x)
  case (Cons c p)
  then show ?case by (cases x) auto
qed simp

lemma prefix_after:
  assumes "p \<le> x" "take (length p) x \<noteq> p" "x \<le> y"
  shows "take (length p) y \<noteq> (p :: string)"
proof
  assume "take (length p) y = p"
  then have "y = p @ drop (length p) y" by (metis append_take_drop_id)
  then have "take (length p) x = p" using lex_between [OF assms(1), of "drop (length p) y"] assms(3) by simp
  then show False using assms(2) by simp
qed

lemma multi_state_loop_filter:
  "map_wf m \<Longrightarrow> \<forall>kv \<in> set m. k \<le> fst kv \<Longrightarrow>
     multi_state_loop k m = concat (map (\<lambda>(key, val, ver). erase_prefix key @ val) (filter (\<lambda>kv. take (length k) (fst kv) = k) m))"
proof (induction k m rule: multi_state_loop.induct)
  case (2 k key val ver m)
  show ?case
  proof (cases "take (length k) key = k")
    case True
    then show ?thesis using 2 by simp
  next
    case False
    then have "take (length k) (fst kv) \<noteq> k" if "kv \<in> set m" for kv
    proof -
      have "k \<le> key" using 2(3) by simp
      moreover have "key \<le> fst kv" using 2(2) that by fastforce
      ultimately show ?thesis using prefix_after [of k key "fst kv"] False by blast
    qed
    then have "filter (\<lambda>kv. take (length k) (fst kv) = k) m = []" by (auto simp: filter_empty_conv)
    then show ?thesis using False by simp
  qed
qed simp

lemma lower_bound_split:
  assumes "map_wf m"
  shows "map_wf (map_lower_bound k m)" "\<forall>kv \<in> set (map_lower_bound k m). k \<le> fst kv"
    "filter (\<lambda>kv. take (length k) (fst kv) = k) (map_lower_bound k m) = filter (\<lambda>kv. take (length k) (fst kv) = (k :: string)) m"
  using assms
proof (induction m)
  case (Cons kv m)
  obtain key v where kv: "kv = (key, v)" by fastforce
  { case 1 then show ?case using Cons kv by (simp add: map_lower_bound_def) }
  { case 2 then show ?case using Cons kv by (auto simp: map_lower_bound_def) }
  { case 3 then show ?case using Cons kv prefix_le [of k key] by (auto simp: map_lower_bound_def) }
qed (simp_all add: map_lower_bound_def)

end
