(* ===== verification/Ledger_Props.thy ===== *)
theory Ledger_Props
  imports Ledger_Laws
begin

text \<open>
  The properties of the trusted ledger, over the laws of \<open>Ledger_Laws\<close>, and the sample
  environment their witnesses run in: decoders that know one genesis block with one transaction
  that writes one key of \<open>lscc\<close>.
\<close>

section \<open>A sample environment\<close>

definition sample_env :: tlcc_env where
  "sample_env =
     \<lparr>PEM_read_bio_X509 = (\<lambda>_. None), X509_STORE_add_cert = (\<lambda>s c. (1, map_option (\<lambda>l. l @ [c]) s)),
      X509_verify_cert = (\<lambda>_ _. 1), X509_get_pubkey = Some, EVP_PKEY_get1_EC_KEY = (\<lambda>k. k),
      d2i_PUBKEY = Some, d2i_ECDSA_SIG = Some, ECDSA_do_verify = (\<lambda>_ _ _. 0), SHA256 = (\<lambda>s. s),
      i2d_ASN1BlockHeader = (\<lambda>_ _ _. []),
      dec_Block = (\<lambda>b. if b = [] then None else Some
        \<lparr>block_header = \<lparr>header_number = 0, previous_hash = [], data_hash = []\<rparr>,
         block_data = [''tx''], block_metadata = [''sigs'', [], []]\<rparr>),
      dec_Metadata = (\<lambda>_. Some \<lparr>metadata_value = Some [], metadata_signatures = []\<rparr>),
      dec_SignatureHeader = (\<lambda>_. Some \<lparr>creator = Some ''c'', nonce = Some ''n''\<rparr>),
      dec_SerializedIdentity = (\<lambda>_. Some (Some ''id'')),
      dec_Envelope = (\<lambda>_. Some \<lparr>envelope_payload = Some ''p'', envelope_signature = Some ''s''\<rparr>),
      dec_Payload = (\<lambda>_. Some \<lparr>channel_header = Some ''ch'', signature_header = Some ''sh'', payload_data = Some ''d''\<rparr>),
      dec_ChannelHeader = (\<lambda>_. Some \<lparr>header_type = 3, tx_id = Some ''id''\<rparr>),
      dec_ConfigEnvelope = (\<lambda>_. None), dec_MSPConfig = (\<lambda>_. None), dec_FabricMSPConfig = (\<lambda>_. None),
      dec_Transaction = (\<lambda>_. Some [Some ''a'']),
      dec_ChaincodeActionPayload = (\<lambda>_. Some \<lparr>chaincode_proposal_payload = Some ''cpp'', proposal_response_payload = Some ''prp''\<rparr>),
      dec_ChaincodeProposalPayload = (\<lambda>_. Some (Some ''in'')),
      dec_ChaincodeInvocationSpec = (\<lambda>_. Some [''deploy'']),
      dec_ProposalResponsePayload = (\<lambda>_. Some (Some ''ext'')),
      dec_ChaincodeAction = (\<lambda>_. Some \<lparr>cc_results = Some ''rs'', cc_name = Some ''lscc'', cc_response_payload = None\<rparr>),
      dec_TxReadWriteSet = (\<lambda>_. Some [\<lparr>rw_ns = Some ''lscc'', rw_set = Some ''kv''\<rparr>]),
      dec_KVRWSet = (\<lambda>_. Some \<lparr>range_reads = [],
         kv_reads = [\<lparr>read_key = Some ''k'', read_version = \<lparr>block_num = 0, tx_num = 0\<rparr>\<rparr>],
         kv_writes = [\<lparr>write_key = Some ''k'', write_value = Some ''v''\<rparr>]\<rparr>),
      uninit = (\<lambda>n. replicate n NUL), past_end = (\<lambda>_. [NUL])\<rparr>"

text \<open>The ledger before the first block, and after the sample block.\<close>

definition fresh_ledger :: ledger where
  "fresh_ledger = \<lparr>root_certs_orderer = Some [], root_certs_apps = Some [], kvs_state = [], sequence_number = -1,
     locked = False, mem = \<lparr>answers = [], live = 0\<rparr>, alarms = []\<rparr>"

definition sample_ledger :: ledger where
  "sample_ledger = fresh_ledger\<lparr>kvs_state := [(''lscc.k'', ''v'', \<lparr>block_num = 0, tx_num = 0\<rparr>)], sequence_number := 0\<rparr>"

lemma sample_run: "parse_block sample_env ''block'' fresh_ledger = Inr (LEDGER_SUCCESS, sample_ledger)"
  by code_simp

section \<open>Properties\<close>







text \<open>Within a block the first write of a key stays: once an earlier transaction has put a key
  into the updates, no later transaction changes it, even one that is valid and writes the key
  again. (In Fabric the last valid write of a block is the one that counts.)\<close>

theorem first_write_of_block_stays:
  assumes "parse_endorser_transaction e d u v L = Inr (c, u', L')" "map_wf u" "map_of u k = Some x"
  shows "map_of u' k = Some x"
  using parse_endorser_grows [OF assms(1), of "\<lambda>_. True"] assms(2,3) by (auto simp: grows_def map_le_def dom_def)

theorem first_write_of_block_stays_witness:
  "\<exists>c u' L'. parse_endorser_transaction sample_env ''tx'' [(''lscc.k'', ''old'', \<lparr>block_num = 0, tx_num = 0\<rparr>)]
      \<lparr>block_num = 0, tx_num = 1\<rparr> fresh_ledger = Inr (c, u', L') \<and>
     map_of u' ''lscc.k'' = Some (''old'', \<lparr>block_num = 0, tx_num = 0\<rparr>)"
proof -
  let ?u = "[(''lscc.k'', ''old'', \<lparr>block_num = 0, tx_num = 0\<rparr>)]"
  have run: "parse_endorser_transaction sample_env ''tx'' ?u \<lparr>block_num = 0, tx_num = 1\<rparr> fresh_ledger
      = Inr (LEDGER_SUCCESS, ?u, fresh_ledger)"
    by code_simp
  show ?thesis using run first_write_of_block_stays [OF run, of "''lscc.k''"] by auto
qed

text \<open>Composite keys: the key a chaincode composes from non-empty attributes (each followed by a
  zero byte, after a leading one) becomes the attributes each followed by a dot.\<close>

theorem composite_key_dotted:
  assumes "list_all (\<lambda>a. a \<noteq> [] \<and> nul_free a) parts"
  shows "composite_key (NUL # concat (map (\<lambda>a. a @ [NUL]) parts)) = Inr (concat (map (\<lambda>a. a @ ''.'') parts))"
  using composite_loop_parts [OF assms] by (simp add: composite_key_def)

theorem composite_key_dotted_witness:
  "composite_key [NUL, CHR ''b'', CHR ''i'', CHR ''d'', NUL, CHR ''x'', NUL] = Inr ''bid.x.''"
  using composite_key_dotted [of "[''bid'', ''x'']"] by simp

text \<open>The read set and the write set of a private chaincode name a composite key differently:
  read through a range query and written back, the key of the ledger is the same, but the write
  set has it with a leading dot and the read set without. The chaincode's enclave uses the form
  with the dot in both, so the digest the ledger recomputes for such a transaction is over other
  bytes than the one the enclave signed.\<close>

theorem composite_read_write_keys:
  assumes "range_read_keys ns r = Inr (key, rkey)" "read_key r = Some k" "write_key w = Some k" "nthc k 0 = NUL"
    and "ecc_write ns v w (u, []) = Inr (u', ws)"
  shows "map fst ws = [''.'' @ rkey] \<and> key = ns @ ''.'' @ rkey \<and> (\<exists>x. u' = map_insert key x u)"
  using assms by (auto simp: range_read_keys_def ecc_write_def run_simps)

theorem composite_read_write_keys_witness:
  "range_read_keys ''ecc'' \<lparr>read_key = Some [NUL, CHR ''a'', NUL], read_version = \<lparr>block_num = 0, tx_num = 0\<rparr>\<rparr> = Inr (''ecc.a.'', ''a.'') \<and>
   (\<exists>u' ws. ecc_write ''ecc'' \<lparr>block_num = 0, tx_num = 0\<rparr> \<lparr>write_key = Some [NUL, CHR ''a'', NUL], write_value = Some ''v''\<rparr> ([], [])
      = Inr (u', ws) \<and> map fst ws = [''.a.''])"
proof -
  let ?r = "\<lparr>read_key = Some [NUL, CHR ''a'', NUL], read_version = \<lparr>block_num = 0, tx_num = 0\<rparr>\<rparr>"
    and ?w = "\<lparr>write_key = Some [NUL, CHR ''a'', NUL], write_value = Some ''v''\<rparr>" and ?v = "\<lparr>block_num = 0, tx_num = 0\<rparr>"
  have r: "range_read_keys ''ecc'' ?r = Inr (''ecc.a.'', ''a.'')" by code_simp
  have w: "ecc_write ''ecc'' ?v ?w ([], []) = Inr ([(''ecc.a.'', ''v'', ?v)], [(''.a.'', ''v'')])" by code_simp
  have "map fst [(''.a.'', ''v'')] = [''.'' @ ''a.'']"
    by (rule composite_read_write_keys [OF r _ _ _ w, where k = "[NUL, CHR ''a'', NUL]", THEN conjunct1]) simp_all
  then show ?thesis unfolding r w by simp
qed

text \<open>C17. The scan of \<open>ledger_get_multi_state_hash\<close>, which starts at the lower bound of the prefix and
  stops at the first key without it, meets exactly the entries whose key has the prefix, in
  order: the hash is over their keys (from the first dot on) and values.\<close>

theorem multi_state_hash_exact:
  assumes "map_wf (kvs_state L)" "\<not> locked L"
  shows "ledger_get_multi_state_hash e k L =
    Inr (LEDGER_SUCCESS, SHA256 e (concat (map (\<lambda>(key, val, ver). erase_prefix key @ val)
      (filter (\<lambda>kv. take (length (cstr k)) (fst kv) = cstr k) (kvs_state L)))), L)"
  using multi_state_loop_filter [OF lower_bound_split(1,2) [OF assms(1)]] lower_bound_split(3) [OF assms(1)] assms(2)
  by (cases L) (simp add: ledger_get_multi_state_hash_def spin_lock_def spin_unlock_def Let_def)

theorem multi_state_hash_exact_witness:
  "ledger_get_multi_state_hash sample_env ''lscc.k'' sample_ledger = Inr (LEDGER_SUCCESS, ''.kv'', sample_ledger)"
  using multi_state_hash_exact [of sample_ledger sample_env "''lscc.k''"]
  by (simp add: sample_ledger_def fresh_ledger_def erase_prefix_def sample_env_def)

end
