(* ===== verification/Tlcc_Enclave.thy ===== *)
theory Tlcc_Enclave
  imports Ledger_Props Sgx
begin

text \<open>
  \<^verbatim>\<open>tlcc_enclave/enclave/enclave.cpp\<close>: the entry points of the ledger enclave over the ledger model.
  \<open>tlcc_reachable e L n\<close> are the ledgers the enclave can be in after accepting \<open>n\<close> blocks: the
  sequence number counts them, the state stays an ordered map, and the lock is free between
  calls.
\<close>

definition session_key :: string where
  "session_key = session_key_bytes"

text \<open>What \<open>X509_STORE_new\<close> returns for \<open>init_ledger\<close> are arguments.\<close>

definition ecall_join_channel ::
  "'a tlcc_env_scheme \<Rightarrow> x509_store option \<Rightarrow> x509_store option \<Rightarrow> string \<Rightarrow> ledger \<Rightarrow> (int \<times> ledger) run" where
  "ecall_join_channel e store1 store2 genesis L =
     (case init_ledger store1 store2 L of (_, L1) \<Rightarrow>
       run_bind (parse_block e genesis L1) (\<lambda>(sgx_ret, L2).
         if sgx_ret \<noteq> SGX_SUCCESS then Inr (sgx_ret, L2) else Inr (SGX_SUCCESS, L2)))"

definition ecall_next_block :: "'a tlcc_env_scheme \<Rightarrow> string \<Rightarrow> ledger \<Rightarrow> (int \<times> ledger) run" where
  "ecall_next_block e block_bytes L = parse_block e block_bytes L"

definition ecall_get_state_metadata ::
  "'a tlcc_env_scheme \<Rightarrow> sgx \<Rightarrow> string \<Rightarrow> ledger \<Rightarrow> (int \<times> string \<times> ledger) run" where
  "ecall_get_state_metadata e sgx key L =
     run_bind (ledger_get_state_hash e key L) (\<lambda>(_, hash, L1).
       let state_hash = (case hash of None \<Rightarrow> replicate 32 NUL | Some h \<Rightarrow> h);
           k = cstr key;
           kkey = (if CHR ''.'' \<in> set k then tl (dropWhile (\<lambda>c. c \<noteq> CHR ''.'') k) else k)
       in Inr (SGX_SUCCESS, sgx_cmac128 sgx session_key (kkey @ state_hash), L1))"

definition ecall_get_multi_state_metadata ::
  "'a tlcc_env_scheme \<Rightarrow> sgx \<Rightarrow> string \<Rightarrow> ledger \<Rightarrow> (int \<times> string \<times> ledger) run" where
  "ecall_get_multi_state_metadata e sgx comp_key L =
     run_bind (ledger_get_multi_state_hash e comp_key L) (\<lambda>(_, state_hash, L1).
       Inr (SGX_SUCCESS, sgx_cmac128 sgx session_key (erase_prefix (cstr comp_key) @ state_hash), L1))"

section \<open>Reachable ledgers\<close>

inductive tlcc_reachable :: "'a tlcc_env_scheme \<Rightarrow> ledger \<Rightarrow> nat \<Rightarrow> bool" for e where
  start: "kvs_state L = [] \<Longrightarrow> sequence_number L = -1 \<Longrightarrow> \<not> locked L \<Longrightarrow> tlcc_reachable e L 0"
| join: "tlcc_reachable e L n \<Longrightarrow> ecall_join_channel e s1 s2 b L = Inr (c, L') \<Longrightarrow>
    tlcc_reachable e L' (if c = SGX_SUCCESS then Suc n else n)"
| next_block: "tlcc_reachable e L n \<Longrightarrow> ecall_next_block e b L = Inr (c, L') \<Longrightarrow>
    tlcc_reachable e L' (if c = LEDGER_SUCCESS then Suc n else n)"
| metadata: "tlcc_reachable e L n \<Longrightarrow> ecall_get_state_metadata e sgx k L = Inr (c, m, L') \<Longrightarrow> tlcc_reachable e L' n"
| multi_metadata: "tlcc_reachable e L n \<Longrightarrow> ecall_get_multi_state_metadata e sgx k L = Inr (c, m, L') \<Longrightarrow> tlcc_reachable e L' n"

definition ledger_inv :: "nat \<Rightarrow> ledger \<Rightarrow> bool" where
  "ledger_inv n L = (map_wf (kvs_state L) \<and> sequence_number L = of_nat n - 1 \<and> \<not> locked L)"

lemma parse_block_inv:
  assumes "parse_block e b L = Inr (c, L')" "ledger_inv n L"
  shows "ledger_inv (if c = LEDGER_SUCCESS then Suc n else n) L'"
  using assms(1)
proof (cases rule: parse_block_cases)
  case rejected
  then show ?thesis using assms(2) by (auto simp: ledger_inv_def keeps_def ledger_codes)
next
  case (applied block updates L1)
  have "map_wf updates" using applied(6) by (simp add: grows_def)
  then have "map_wf (kvs_state L')" using om.assign_all [of "kvs_state L" updates] assms(2) applied(7) by (simp add: ledger_inv_def)
  then show ?thesis using applied assms(2) by (simp add: ledger_inv_def keeps_def)
qed

lemma unlock_lock: "\<not> locked L \<Longrightarrow> spin_unlock (L\<lparr>locked := True\<rparr>) = L"
  by (cases L) (simp add: spin_unlock_def)

lemma queries_inv:
  "ecall_get_state_metadata e sgx k L = Inr (c, m, L') \<Longrightarrow> L' = L"
  "ecall_get_multi_state_metadata e sgx k L = Inr (c, m, L') \<Longrightarrow> L' = L"
  by (auto simp: ecall_get_state_metadata_def ecall_get_multi_state_metadata_def ledger_get_state_hash_def
      ledger_get_multi_state_hash_def run_simps spin_lock_Inr unlock_lock Let_def split: option.splits)

text \<open>C9. In every reachable state of the ledger enclave the key/value state is an ordered map, the
  lock is free, and the sequence number is one less than the number of accepted blocks, modulo
  \<open>2\<^sup>3\<^sup>2\<close>: no sequence of calls skips, repeats or loses a block.\<close>

theorem tlcc_reachable_inv:
  assumes "tlcc_reachable e L n"
  shows "map_wf (kvs_state L) \<and> sequence_number L = of_nat n - 1 \<and> \<not> locked L"
proof -
  have "ledger_inv n L"
    using assms
  proof induction
    case (join L n s1 s2 b c L')
    obtain L1 where i: "snd (init_ledger s1 s2 L) = L1" "ledger_inv n L1"
      using join.IH by (auto simp: init_ledger_def ledger_inv_def Let_def split: if_splits)
    then have pb: "parse_block e b L1 = Inr (c, L')"
      using join.hyps(2) by (auto simp: ecall_join_channel_def run_simps split: prod.splits if_splits)
    then show ?case using parse_block_inv [OF pb i(2)] by (simp add: LEDGER_SUCCESS_def)
  next
    case (next_block L n b c L')
    then show ?case using parse_block_inv [of e b L c L' n] by (simp add: ecall_next_block_def)
  qed (auto simp: ledger_inv_def dest: queries_inv)
  then show ?thesis by (simp add: ledger_inv_def)
qed

theorem tlcc_reachable_inv_witness:
  "tlcc_reachable sample_env sample_ledger 1 \<and> sequence_number sample_ledger = 0"
proof -
  have "tlcc_reachable sample_env fresh_ledger 0" by (rule start) (simp_all add: fresh_ledger_def)
  from next_block [OF this] sample_run have "tlcc_reachable sample_env sample_ledger 1"
    by (fastforce simp: ecall_next_block_def)
  with tlcc_reachable_inv [OF this] show ?thesis by simp
qed

end
