(* ===== verification/Ecc_Enclave.thy ===== *)
theory Ecc_Enclave
  imports Shim Fpc_Utils
begin

text \<open>
  The enclave of a private chaincode: \<^verbatim>\<open>common/enclave/common.cpp\<close> (its key pair and its report) and
  \<^verbatim>\<open>ecc_enclave/enclave/enclave.cpp\<close> (binding to the ledger enclave, invocations in clear and
  encrypted, and the signed response). The chaincode is the parameter \<open>invoke\<close>: it gets the size
  of the response buffer and the context, and returns a status, the bytes it stored in the
  buffer, the response length and the context. The generation of a PDO key pair at the first
  invocation only sets the flag \<open>crypto_created\<close>.
\<close>

record ecc_enclave =
  enclave_sk :: string
  enclave_pk :: string
  tlcc_pk :: string
  crypto_created :: bool

section \<open>Keys and reports\<close>

text \<open>\<open>ecall_init\<close>, on what opening the context and creating the key pair return.\<close>

definition ecall_init :: "int \<Rightarrow> int \<times> string \<times> string \<Rightarrow> ecc_enclave \<Rightarrow> int \<times> ecc_enclave" where
  "ecall_init open_ret pair E =
     (if open_ret \<noteq> SGX_SUCCESS then (open_ret, E)
      else case pair of (sgx_ret, sk, pk) \<Rightarrow>
        let E1 = E\<lparr>enclave_sk := sk, enclave_pk := pk\<rparr>
        in if sgx_ret \<noteq> SGX_SUCCESS then (sgx_ret, E1) else (SGX_SUCCESS, E1))"

text \<open>Swapping the two 32-byte halves of a point or signature in place.\<close>

definition swap_halves :: "string \<Rightarrow> string run" where
  "swap_halves b =
     run_bind (bytes_swap b 32) (\<lambda>b1.
     run_bind (bytes_swap (drop 32 b1) 32) (\<lambda>b2. Inr (take 32 b1 @ b2)))"

definition ecall_create_report :: "sgx \<Rightarrow> string \<Rightarrow> ecc_enclave \<Rightarrow> (int \<times> (string \<times> string) option \<times> string) run" where
  "ecall_create_report sgx target E =
     run_bind (swap_halves (take 64 (enclave_pk E))) (\<lambda>enclave_pk_be.
       let report_data = sgx_sha256 sgx enclave_pk_be @ replicate 32 NUL;
           (ret, report) = sgx_create_report sgx target report_data
       in if ret \<noteq> SGX_SUCCESS then Inr (ret, None, enclave_pk_be)
          else Inr (SGX_SUCCESS, Some report, enclave_pk_be))"

definition ecall_get_pk :: "ecc_enclave \<Rightarrow> (int \<times> string) run" where
  "ecall_get_pk E =
     run_bind (swap_halves (take 64 (enclave_pk E))) (\<lambda>enclave_pk_be. Inr (SGX_SUCCESS, enclave_pk_be))"

section \<open>Binding\<close>

definition ecall_bind_tlcc :: "sgx \<Rightarrow> (string \<times> string) option \<Rightarrow> string option \<Rightarrow> ecc_enclave \<Rightarrow> (int \<times> ecc_enclave) run" where
  "ecall_bind_tlcc sgx report pubkey E =
     (if report = None \<and> pubkey = None then Inr (SGX_SUCCESS, E)
      else
     run_bind (deref pubkey) (\<lambda>pk.
       let pk_hash = sgx_sha256 sgx (take 64 pk) in
     run_bind (deref report) (\<lambda>r.
       if pk_hash \<noteq> take 32 (fst r) then Inr (SGX_ERROR_INVALID_PARAMETER, E)
       else let ver_ret = sgx_verify_report sgx r in
            if ver_ret \<noteq> SGX_SUCCESS then Inr (ver_ret, E)
            else Inr (SGX_SUCCESS, E\<lparr>tlcc_pk := take 64 pk\<rparr>))))"

section \<open>Responses\<close>

text \<open>\<open>gen_response\<close>: the status and the signature copied out, if any.\<close>

definition gen_response ::
  "sgx \<Rightarrow> ecc_enclave \<Rightarrow> string \<Rightarrow> string \<Rightarrow> nat \<Rightarrow> 'w shim_ctx \<Rightarrow> (int \<times> string option) run" where
  "gen_response sgx E txType response response_len ctx =
     (let hash = sgx_sha256 sgx (cstr txType @ cstr (encoded_args ctx) @ take response_len response @
            concat (read_set ctx) @ concat (map (\<lambda>(k, v). k @ v) (write_set ctx)));
          (ret, sig) = sgx_ecdsa_sign sgx (enclave_sk E) hash
      in if ret \<noteq> SGX_SUCCESS then Inr (ret, None)
         else run_bind (swap_halves (take 64 sig)) (\<lambda>sig_be. Inr (ret, Some sig_be)))"

section \<open>Invocations\<close>

type_synonym 'w chaincode = "nat \<Rightarrow> 'w shim_ctx \<Rightarrow> (int \<times> string \<times> nat \<times> 'w shim_ctx) run"

text \<open>Results of an invocation: status, response buffer, response length, context.\<close>

definition invoke_enc ::
  "sgx \<Rightarrow> ecc_enclave \<Rightarrow> 'w chaincode \<Rightarrow> string \<Rightarrow> nat \<Rightarrow> 'w shim_ctx \<Rightarrow> (int \<times> string \<times> nat \<times> 'w shim_ctx) run" where
  "invoke_enc sgx E invoke pk max_response_len ctx =
     run_bind (swap_halves (base64_decode (cstr pk))) (\<lambda>pk_bytes.
       let client_pk = take 64 pk_bytes;
           (dh_ret, shared) = sgx_ecc256_compute_shared_dhkey sgx (enclave_sk E) client_pk in
       if dh_ret \<noteq> SGX_SUCCESS then Inr (dh_ret, [], 0, ctx)
       else
     run_bind (bytes_swap shared 32) (\<lambda>shared_dhkey.
       let key = take 16 (sgx_sha256 sgx (take 32 shared_dhkey));
           cipher = base64_decode (cstr (encoded_args ctx)) in
     run_bind (check OutOfBounds (SGX_AESGCM_IV_SIZE + SGX_AESGCM_MAC_SIZE \<le> length cipher)) (\<lambda>_.
       let needed_size = length cipher - SGX_AESGCM_IV_SIZE - SGX_AESGCM_MAC_SIZE;
           (ret, plain) = sgx_rijndael128GCM_decrypt sgx key (drop (SGX_AESGCM_IV_SIZE + SGX_AESGCM_MAC_SIZE) cipher)
             (take SGX_AESGCM_IV_SIZE cipher) (take SGX_AESGCM_MAC_SIZE (drop SGX_AESGCM_IV_SIZE cipher)) in
       if ret \<noteq> SGX_SUCCESS then Inr (ret, [], 0, ctx)
       else invoke max_response_len (ctx\<lparr>json_args := cstr (fill needed_size plain)\<rparr>))))"

text \<open>\<open>ecall_cc_invoke\<close> on a fresh context over the peer's state \<open>w\<close>, the heap \<open>h\<close> and \<open>n\<close> earlier calls
  of the random generator.\<close>

definition ecall_cc_invoke ::
  "sgx \<Rightarrow> 'w chaincode \<Rightarrow> string \<Rightarrow> string \<Rightarrow> nat \<Rightarrow> 'w \<Rightarrow> heap \<Rightarrow> nat \<Rightarrow> ecc_enclave \<Rightarrow>
     (int \<times> string \<times> nat \<times> string option \<times> 'w shim_ctx \<times> ecc_enclave) run" where
  "ecall_cc_invoke sgx invoke args pk response_len_in w h n E =
     (let E1 = E\<lparr>crypto_created := True\<rparr>;
          ctx = \<lparr>u_shim_ctx = w, read_set = [], write_set = [], encoded_args = cstr args, json_args = [],
                 heap_mem = h, rand_calls = n, cmac_mismatches = []\<rparr> in
      run_bind (if strlen pk = 0 then invoke response_len_in (ctx\<lparr>json_args := encoded_args ctx\<rparr>)
                else invoke_enc sgx E1 invoke pk response_len_in ctx) (\<lambda>(ret, response, len, ctx1).
        if ret \<noteq> 0 then Inr (SGX_ERROR_UNEXPECTED, response, len, None, ctx1, E1)
        else run_bind (gen_response sgx E1 ''invoke'' response len ctx1) (\<lambda>(ret2, sig).
          Inr (ret2, response, len, sig, ctx1, E1))))"

section \<open>Lemmas\<close>

lemma swap_halves_rev: "length b = 64 \<Longrightarrow> swap_halves b = Inr (rev (take 32 b) @ rev (drop 32 b))"
  by (simp add: swap_halves_def bytes_swap_rev)

lemma swap_halves_twice: "length b = 64 \<Longrightarrow> run_bind (swap_halves b) swap_halves = Inr b"
  by (simp add: swap_halves_rev)

section \<open>Properties\<close>

text \<open>C22. Binding: an enclave accepts a key of the ledger enclave only with a report that verifies
  and whose data starts with the hash of that key, and remembers exactly that key; in every
  other case, also when it is called without report and key and reports success, what it
  remembered before stays.\<close>

theorem bind_tlcc_only_with_report:
  assumes "ecall_bind_tlcc sgx report pubkey E = Inr (ret, E')"
  shows "E' = E \<or> (ret = SGX_SUCCESS \<and> (\<exists>r pk. report = Some r \<and> pubkey = Some pk \<and>
    take 32 (fst r) = sgx_sha256 sgx (take 64 pk) \<and> sgx_verify_report sgx r = SGX_SUCCESS \<and> E' = E\<lparr>tlcc_pk := take 64 pk\<rparr>))"
  using assms by (auto simp: ecall_bind_tlcc_def run_simps Let_def split: if_splits)

theorem bind_tlcc_only_with_report_witness:
  "ecall_bind_tlcc sample_sgx (Some (replicate 32 CHR ''x'', [])) (Some (replicate 64 CHR ''p''))
     \<lparr>enclave_sk = [], enclave_pk = [], tlcc_pk = [], crypto_created = False\<rparr>
   = Inr (2, \<lparr>enclave_sk = [], enclave_pk = [], tlcc_pk = [], crypto_created = False\<rparr>)"
proof -
  let ?E = "\<lparr>enclave_sk = [], enclave_pk = [], tlcc_pk = [], crypto_created = False\<rparr>"
  have "\<exists>E'. ecall_bind_tlcc sample_sgx (Some (replicate 32 CHR ''x'', [])) (Some (replicate 64 CHR ''p'')) ?E = Inr (2, E')"
    by (simp add: ecall_bind_tlcc_def sample_sgx_def fill_def)
  then obtain E' where run: "ecall_bind_tlcc sample_sgx (Some (replicate 32 CHR ''x'', [])) (Some (replicate 64 CHR ''p'')) ?E = Inr (2, E')"
    by blast
  then show ?thesis using bind_tlcc_only_with_report [OF run] by (auto simp del: replicate.simps)
qed

text \<open>What an enclave reports about itself another enclave can bind to: the report and the key
  that \<open>ecall_create_report\<close> hands out are accepted by \<open>ecall_bind_tlcc\<close>, and the key bound is the
  one \<open>ecall_get_pk\<close> returns, the key pair's public key with both coordinates in network order.\<close>

theorem report_binds:
  assumes "length (enclave_pk T) = 64" "\<And>s. length (sgx_sha256 sgx s) = 32"
    and "\<And>t d. fst (sgx_create_report sgx t d) = SGX_SUCCESS \<and> fst (snd (sgx_create_report sgx t d)) = d"
    and "\<And>r. sgx_verify_report sgx r = SGX_SUCCESS"
  shows "\<exists>report pk. ecall_create_report sgx target T = Inr (SGX_SUCCESS, Some report, pk) \<and>
    ecall_get_pk T = Inr (SGX_SUCCESS, pk) \<and> ecall_bind_tlcc sgx (Some report) (Some pk) E = Inr (SGX_SUCCESS, E\<lparr>tlcc_pk := pk\<rparr>)"
proof -
  let ?pk = "rev (take 32 (enclave_pk T)) @ rev (drop 32 (enclave_pk T))"
  let ?d = "sgx_sha256 sgx ?pk @ replicate 32 NUL"
  obtain rest where r: "sgx_create_report sgx target ?d = (SGX_SUCCESS, ?d, rest)"
    using assms(3) [of target ?d] by (cases "sgx_create_report sgx target ?d") auto
  show ?thesis
    using assms r by (intro exI [of _ "(?d, rest)"] exI [of _ ?pk])
      (simp add: ecall_create_report_def ecall_get_pk_def ecall_bind_tlcc_def swap_halves_rev del: replicate.simps)
qed

theorem report_binds_witness:
  "\<exists>report pk. ecall_create_report sample_sgx [] \<lparr>enclave_sk = [], enclave_pk = replicate 64 CHR ''p'', tlcc_pk = [], crypto_created = False\<rparr>
      = Inr (SGX_SUCCESS, Some report, pk) \<and>
    ecall_bind_tlcc sample_sgx (Some report) (Some pk) \<lparr>enclave_sk = [], enclave_pk = [], tlcc_pk = [], crypto_created = False\<rparr>
      = Inr (SGX_SUCCESS, \<lparr>enclave_sk = [], enclave_pk = [], tlcc_pk = pk, crypto_created = False\<rparr>)"
  using report_binds [of "\<lparr>enclave_sk = [], enclave_pk = replicate 64 CHR ''p'', tlcc_pk = [], crypto_created = False\<rparr>" sample_sgx
      "[]" "\<lparr>enclave_sk = [], enclave_pk = [], tlcc_pk = [], crypto_created = False\<rparr>"]
  by (auto simp: sample_sgx_def simp del: replicate.simps)





end
