(* ===== verification/Auction.thy ===== *)
theory Auction
  imports Shim Parson_Client
begin

text \<open>
  \<^verbatim>\<open>examples/auction\<close>: the auction chaincode, \<^verbatim>\<open>auction_json.cpp\<close> (the JSON of auctions and bids)
  and \<^verbatim>\<open>auction_cc.cpp\<close> (the operations and \<open>invoke\<close>) over the models of the shim and of parson.

  The bytes a local buffer holds before it is written are an argument: \<open>junk\<close> is the stack from
  the buffer \<open>auction_bytes\<close> on, so that a parse of the buffer, which is not terminated, reads on
  into it; \<open>junk_int\<close> is the value of the uninitialised \<open>winner\<close> of \<open>auction_eval\<close>. A conversion or
  subscript with undefined behaviour is a failure.

  The lemmas here are on the JSON: every \<open>int\<close> survives the trip through a \<open>double\<close> and its text,
  and what the two marshalling functions write reads back.
\<close>

section \<open>Constants\<close>

definition MAX_VALUE_SIZE :: nat where "MAX_VALUE_SIZE = 1024"

definition OK_result :: string where "OK_result = ''OK''"

definition AUCTION_DRAW :: string where "AUCTION_DRAW = ''DRAW''"

definition AUCTION_NO_BIDS :: string where "AUCTION_NO_BIDS = ''NO_BIDS''"

definition AUCTION_ALREADY_EXISTING :: string where "AUCTION_ALREADY_EXISTING = ''AUCTION_ALREADY_EXISTING''"

definition AUCTION_NOT_EXISTING :: string where "AUCTION_NOT_EXISTING = ''AUCTION_NOT_EXISTING''"

definition AUCTION_ALREADY_CLOSED :: string where "AUCTION_ALREADY_CLOSED = ''AUCTION_ALREADY_CLOSED''"

definition AUCTION_STILL_OPEN :: string where "AUCTION_STILL_OPEN = ''AUCTION_STILL_OPEN''"

definition INITIALIZED_KEY :: string where "INITIALIZED_KEY = ''initialized''"

definition AUCTION_HOUSE_NAME_KEY :: string where "AUCTION_HOUSE_NAME_KEY = ''auction_house_name''"

definition SEP :: string where "SEP = ''.''"

definition PREFIX :: string where "PREFIX = SEP @ ''somePrefix'' @ SEP"

section \<open>JSON\<close>

record auction_t =
  name :: string
  is_open :: bool

record bid_t =
  bidder_name :: string
  bid_value :: int

definition unmarshal_auction :: "string \<Rightarrow> heap \<Rightarrow> (int \<times> auction_t \<times> heap) run" where
  "unmarshal_auction json_bytes h =
     run_bind (parse_json json_bytes h) (\<lambda>(root, h1).
     run_bind (deref (json_object_get_string (json_object_c root) (Some ''name''))) (\<lambda>nm.
       let opened = json_object_get_boolean (json_object_c root) (Some ''is_open'')
       in Inr (1, \<lparr>name = nm, is_open = (opened \<noteq> 0)\<rparr>, free_value_ptr root h1)))"

definition unmarshal_bid :: "string \<Rightarrow> heap \<Rightarrow> (int \<times> bid_t \<times> heap) run" where
  "unmarshal_bid json_bytes h =
     run_bind (parse_json json_bytes h) (\<lambda>(root, h1).
     run_bind (deref (json_object_get_string (json_object_c root) (Some ''bidder''))) (\<lambda>nm.
     run_bind (int_of_double (json_object_get_number (json_object_c root) (Some ''value''))) (\<lambda>v.
       Inr (1, \<lparr>bidder_name = nm, bid_value = v\<rparr>, free_value_ptr root h1))))"

definition marshal_auction :: "auction_t \<Rightarrow> heap \<Rightarrow> (string \<times> heap) run" where
  "marshal_auction the_auction h =
     (let (root_value, h1) = json_value_init_object h;
          root_object = json_value_get_object root_value;
          (_, root_object1, h2) = json_object_set_string root_object (Some ''name'') (Some (cstr (name the_auction))) h1;
          (_, root_object2, h3) = json_object_set_boolean root_object1 (Some ''is_open'') (if is_open the_auction then 1 else 0) h2;
          root_value2 = map_option JSONObject_of root_object2;
          (serialized_string, h4) = json_serialize_to_string root_value2 h3
      in run_bind (deref serialized_string) (\<lambda>s.
           Inr (s, free_value_ptr root_value2 (json_free_serialized_string h4))))"

definition marshal_bid :: "bid_t \<Rightarrow> heap \<Rightarrow> (string \<times> heap) run" where
  "marshal_bid bid h =
     (let (root_value, h1) = json_value_init_object h;
          root_object = json_value_get_object root_value;
          (_, root_object1, h2) = json_object_set_string root_object (Some ''bidder'') (Some (cstr (bidder_name bid))) h1;
          (_, root_object2, h3) = json_object_set_number root_object1 (Some ''value'') (double_of_int (bid_value bid)) h2;
          root_value2 = map_option JSONObject_of root_object2;
          (serialized_string, h4) = json_serialize_to_string root_value2 h3
      in run_bind (deref serialized_string) (\<lambda>s.
           Inr (s, free_value_ptr root_value2 (json_free_serialized_string h4))))"

section \<open>Operations\<close>

definition init_auction_house :: "sgx \<Rightarrow> 'w peer \<Rightarrow> string \<Rightarrow> 'w shim_ctx \<Rightarrow> (string \<times> 'w shim_ctx) run" where
  "init_auction_house sgx pr auction_house_name ctx =
     run_bind (put_state sgx pr AUCTION_HOUSE_NAME_KEY auction_house_name ctx) (\<lambda>ctx1.
     run_bind (put_state sgx pr INITIALIZED_KEY [CHR 0x01] ctx1) (\<lambda>ctx2. Inr (OK_result, ctx2)))"

definition auction_create :: "sgx \<Rightarrow> 'w peer \<Rightarrow> string \<Rightarrow> string \<Rightarrow> 'w shim_ctx \<Rightarrow> (string \<times> 'w shim_ctx) run" where
  "auction_create sgx pr junk auction_name ctx =
     run_bind (get_state sgx pr auction_name (take MAX_VALUE_SIZE junk) MAX_VALUE_SIZE ctx) (\<lambda>(auction_bytes, auction_bytes_len, ctx1).
       if auction_bytes_len > 0 then Inr (AUCTION_ALREADY_EXISTING, ctx1)
       else
     run_bind (marshal_auction \<lparr>name = cstr auction_name, is_open = True\<rparr> (heap_mem ctx1)) (\<lambda>(json, h).
     run_bind (put_state sgx pr auction_name json (ctx1\<lparr>heap_mem := h\<rparr>)) (\<lambda>ctx2.
       Inr (OK_result, ctx2))))"

definition auction_submit :: "sgx \<Rightarrow> 'w peer \<Rightarrow> string \<Rightarrow> string \<Rightarrow> string \<Rightarrow> int \<Rightarrow> 'w shim_ctx \<Rightarrow> (string \<times> 'w shim_ctx) run" where
  "auction_submit sgx pr junk auction_name bidder val ctx =
     run_bind (get_state sgx pr auction_name (take MAX_VALUE_SIZE junk) MAX_VALUE_SIZE ctx) (\<lambda>(auction_bytes, auction_bytes_len, ctx1).
       if auction_bytes_len = 0 then Inr (AUCTION_NOT_EXISTING, ctx1)
       else
     run_bind (unmarshal_auction (auction_bytes @ drop MAX_VALUE_SIZE junk) (heap_mem ctx1)) (\<lambda>(_, the_auction, h1).
       if \<not> is_open the_auction then Inr (AUCTION_ALREADY_CLOSED, ctx1\<lparr>heap_mem := h1\<rparr>)
       else let new_key = PREFIX @ auction_name @ SEP @ bidder @ SEP in
     run_bind (marshal_bid \<lparr>bidder_name = bidder, bid_value = val\<rparr> h1) (\<lambda>(json, h2).
     run_bind (put_state sgx pr new_key json (ctx1\<lparr>heap_mem := h2\<rparr>)) (\<lambda>ctx2.
       Inr (OK_result, ctx2)))))"

definition auction_close :: "sgx \<Rightarrow> 'w peer \<Rightarrow> string \<Rightarrow> string \<Rightarrow> 'w shim_ctx \<Rightarrow> (string \<times> 'w shim_ctx) run" where
  "auction_close sgx pr junk auction_name ctx =
     run_bind (get_state sgx pr auction_name (take MAX_VALUE_SIZE junk) MAX_VALUE_SIZE ctx) (\<lambda>(auction_bytes, auction_bytes_len, ctx1).
       if auction_bytes_len = 0 then Inr (AUCTION_NOT_EXISTING, ctx1)
       else
     run_bind (unmarshal_auction (auction_bytes @ drop MAX_VALUE_SIZE junk) (heap_mem ctx1)) (\<lambda>(_, the_auction, h1).
       if \<not> is_open the_auction then Inr (AUCTION_ALREADY_CLOSED, ctx1\<lparr>heap_mem := h1\<rparr>)
       else
     run_bind (marshal_auction (the_auction\<lparr>is_open := False\<rparr>) h1) (\<lambda>(json, h2).
     run_bind (put_state sgx pr auction_name json (ctx1\<lparr>heap_mem := h2\<rparr>)) (\<lambda>ctx2.
       Inr (OK_result, ctx2)))))"

text \<open>The search for the highest bid: one bid, and the loop over the decrypted values; the state is
  \<open>(winner, high, draw)\<close>.\<close>

definition consider_bid :: "bid_t \<Rightarrow> bid_t \<times> int \<times> int \<Rightarrow> bid_t \<times> int \<times> int" where
  "consider_bid b s =
     (case s of (winner, high, draw) \<Rightarrow>
        if bid_value b > high then (b, bid_value b, 0)
        else if bid_value b = high then (winner, high, 1)
        else s)"

fun eval_loop :: "(string, string) std_map \<Rightarrow> bid_t \<times> int \<times> int \<Rightarrow> heap \<Rightarrow> ((bid_t \<times> int \<times> int) \<times> heap) run" where
  "eval_loop [] s h = Inr (s, h)"
| "eval_loop (u # values) s h =
     run_bind (unmarshal_bid (cstr (snd u)) h) (\<lambda>(_, b, h1). eval_loop values (consider_bid b s) h1)"

definition auction_eval :: "sgx \<Rightarrow> 'w peer \<Rightarrow> string \<Rightarrow> int \<Rightarrow> string \<Rightarrow> 'w shim_ctx \<Rightarrow> (string \<times> 'w shim_ctx) run" where
  "auction_eval sgx pr junk junk_int auction_name ctx =
     run_bind (get_state sgx pr auction_name (take MAX_VALUE_SIZE junk) MAX_VALUE_SIZE ctx) (\<lambda>(auction_bytes, auction_bytes_len, ctx1).
       if auction_bytes_len = 0 then Inr (AUCTION_NOT_EXISTING, ctx1)
       else
     run_bind (unmarshal_auction (auction_bytes @ drop MAX_VALUE_SIZE junk) (heap_mem ctx1)) (\<lambda>(_, the_auction, h1).
       if is_open the_auction then Inr (AUCTION_STILL_OPEN, ctx1\<lparr>heap_mem := h1\<rparr>)
       else let bid_composite_key = PREFIX @ auction_name @ SEP in
     run_bind (get_state_by_partial_composite_key sgx pr bid_composite_key [] (ctx1\<lparr>heap_mem := h1\<rparr>)) (\<lambda>(values, ctx2).
     run_bind (if values = [] then Inr (AUCTION_NO_BIDS, heap_mem ctx2)
               else run_bind (eval_loop values (\<lparr>bidder_name = [], bid_value = junk_int\<rparr>, -1, 0) (heap_mem ctx2))
                      (\<lambda>((winner, high, draw), h2).
                         if draw \<noteq> 1 then marshal_bid winner h2 else Inr (AUCTION_DRAW, h2)))
       (\<lambda>(auction_result, h3).
         let auction_result_key = auction_name @ SEP @ ''outcome'' @ SEP;
             ctx3 = put_public_state pr auction_result_key auction_result (ctx2\<lparr>heap_mem := h3\<rparr>)
         in Inr (auction_result, ctx3)))))"

section \<open>Invocation\<close>

text \<open>\<open>std::stoi\<close>: blanks, a sign and decimal digits; it throws when there is no digit and when the
  number is not an \<open>int\<close>.\<close>

definition stoi :: "string \<Rightarrow> int run" where
  "stoi str =
     (let s = dropWhile isspace (cstr str);
          (neg, t) = (case s of c # cs \<Rightarrow> if c = CHR ''-'' then (True, cs) else if c = CHR ''+'' then (False, cs) else (False, s)
                      | [] \<Rightarrow> (False, s));
          ds = takeWhile isdigit t;
          v = (if neg then - int (dec_val ds) else int (dec_val ds))
      in if ds = [] \<or> \<not> int_range v then Inl (Thrown ''stoi'') else Inr v)"

definition load_house_name :: "sgx \<Rightarrow> 'w peer \<Rightarrow> 'w shim_ctx \<Rightarrow> (bool \<times> 'w shim_ctx) run" where
  "load_house_name sgx pr ctx =
     run_bind (get_state sgx pr INITIALIZED_KEY [NUL] 1 ctx) (\<lambda>(init, init_len, ctx1).
       if init_len = 0 \<or> init ! 0 = NUL then Inr (False, ctx1)
       else
     run_bind (get_state sgx pr AUCTION_HOUSE_NAME_KEY (replicate 128 NUL) 127 ctx1) (\<lambda>(buf, ahn_len, ctx2).
       if ahn_len = 0 then Inr (True, ctx2)
       else run_bind (check OutOfBounds (ahn_len + 1 < 128)) (\<lambda>_. Inr (True, ctx2))))"

definition invoke :: "sgx \<Rightarrow> 'w peer \<Rightarrow> string \<Rightarrow> int \<Rightarrow> nat \<Rightarrow> 'w shim_ctx \<Rightarrow> (int \<times> string \<times> nat \<times> 'w shim_ctx) run" where
  "invoke sgx pr junk junk_int max_response_len ctx =
     run_bind (load_house_name sgx pr ctx) (\<lambda>(initialized, ctx1).
     run_bind (get_func_and_params [] [] ctx1) (\<lambda>(_, function_name, params, ctx2).
     run_bind (index params 0) (\<lambda>auction_name.
       if \<not> initialized \<and> function_name \<noteq> ''init'' then Inr (-1, [], 0, ctx2)
       else
     run_bind (if function_name = ''init'' then run_bind (init_auction_house sgx pr auction_name ctx2) (\<lambda>r. Inr (Some r))
               else if function_name = ''create'' then run_bind (auction_create sgx pr junk auction_name ctx2) (\<lambda>r. Inr (Some r))
               else if function_name = ''submit'' then
                 run_bind (index params 2) (\<lambda>p2.
                 run_bind (stoi p2) (\<lambda>val.
                 run_bind (index params 1) (\<lambda>bidder.
                   case get_creator_name pr 1024 1024 ctx2 of (_, _, ctx3) \<Rightarrow>
                   run_bind (auction_submit sgx pr junk auction_name bidder val ctx3) (\<lambda>r. Inr (Some r)))))
               else if function_name = ''close'' then run_bind (auction_close sgx pr junk auction_name ctx2) (\<lambda>r. Inr (Some r))
               else if function_name = ''eval'' then run_bind (auction_eval sgx pr junk junk_int auction_name ctx2) (\<lambda>r. Inr (Some r))
               else Inr None) (\<lambda>res.
       case res of
         None \<Rightarrow> Inr (-1, [], 0, ctx2)
       | Some (result, ctx4) \<Rightarrow>
           if max_response_len < length result then Inr (-1, [], 0, ctx4)
           else Inr (0, result, length result, ctx4)))))"

section \<open>Lemmas on the JSON of auctions and bids\<close>

definition two_fields :: "string \<Rightarrow> json_value \<Rightarrow> string \<Rightarrow> json_value \<Rightarrow> json_value" where
  "two_fields k1 v1 k2 v2 = JSONObject [(k1, v1), (k2, v2)] 2"

definition auction_json :: "auction_t \<Rightarrow> json_value" where
  "auction_json a = two_fields ''name'' (JSONString (cstr (name a))) ''is_open'' (JSONBoolean (is_open a))"

definition bid_json :: "bid_t \<Rightarrow> json_value" where
  "bid_json b = two_fields ''bidder'' (JSONString (cstr (bidder_name b))) ''value'' (JSONNumber (double_of_int (bid_value b)))"

text \<open>Both marshalling functions: two members set in a fresh object, which is then serialized.\<close>

lemma two_fields_plenty:
  assumes "plenty h" "wf_json v1" "wf_json v2" "nul_free k1" "nul_free k2" "k1 \<noteq> k2"
  obtains ob1 h1 ob2 h2 where
    "json_object_set_value (Some \<lparr>pairs = [], obj_capacity = 0\<rparr>) (Some k1) (Detached v1) h = (JSONSuccess, Some ob1, h1)"
    "\<And>h1'. plenty h1' \<Longrightarrow> \<exists>ob2 h2. json_object_set_value (Some ob1) (Some k2) (Detached v2) h1' = (JSONSuccess, Some ob2, h2) \<and>
       plenty h2 \<and> json_serialize_to_string (Some (JSONObject_of ob2)) h2 = (Some (json_text False 0 (two_fields k1 v1 k2 v2)), h2\<lparr>live := live h2 + 1\<rparr>)"
    "plenty h1"
proof -
  let ?ob = "\<lparr>pairs = [], obj_capacity = 0\<rparr>"
  obtain ob1 h1 where s1: "json_object_set_value (Some ?ob) (Some k1) (Detached v1) h = (JSONSuccess, Some ob1, h1)"
    "pairs ob1 = [(k1, v1)]" "plenty h1" "wf_object ob1"
    by (rule set_value_plenty [of h ?ob k1 v1]) (use assms in \<open>simp_all add: JSONObject_of.simps\<close>)
  moreover have "\<exists>ob2 h2. json_object_set_value (Some ob1) (Some k2) (Detached v2) h1' = (JSONSuccess, Some ob2, h2) \<and>
       plenty h2 \<and> json_serialize_to_string (Some (JSONObject_of ob2)) h2 = (Some (json_text False 0 (two_fields k1 v1 k2 v2)), h2\<lparr>live := live h2 + 1\<rparr>)"
    if p: "plenty h1'" for h1'
  proof -
    obtain ob2 h2 where s2: "json_object_set_value (Some ob1) (Some k2) (Detached v2) h1' = (JSONSuccess, Some ob2, h2)"
      "pairs ob2 = pairs ob1 @ [(k2, v2)]" "plenty h2" "wf_object ob2"
      by (rule set_value_plenty [OF p s1(4), of k2 v2]) (use assms s1(2) in simp_all)
    have "json_text False 0 (JSONObject_of ob2) = json_text False 0 (two_fields k1 v1 k2 v2)"
      using s1(2) s2(2) by (simp add: JSONObject_of.simps two_fields_def)
    then show ?thesis using s2 serialize_string_plenty [OF s2(4,3)] by auto
  qed
  ultimately show thesis using that by blast
qed

lemma marshal_auction_plenty:
  assumes "plenty h" "utf8_arg (name a)"
  shows "\<exists>h'. marshal_auction a h = Inr (json_text False 0 (auction_json a), h') \<and> plenty h'"
proof -
  let ?h = "h\<lparr>live := live h + 2, live := live h + 2 + 2\<rparr>"
  obtain ob1 h1 where s: "json_object_set_value (Some \<lparr>pairs = [], obj_capacity = 0\<rparr>) (Some ''name'')
      (Detached (JSONString (cstr (name a)))) ?h = (JSONSuccess, Some ob1, h1)" "plenty h1"
    "\<And>h1'. plenty h1' \<Longrightarrow> \<exists>ob2 h2. json_object_set_value (Some ob1) (Some ''is_open'') (Detached (JSONBoolean (is_open a))) h1' = (JSONSuccess, Some ob2, h2) \<and>
       plenty h2 \<and> json_serialize_to_string (Some (JSONObject_of ob2)) h2 = (Some (json_text False 0 (auction_json a)), h2\<lparr>live := live h2 + 1\<rparr>)"
    by (rule two_fields_plenty [of ?h "JSONString (cstr (name a))" "JSONBoolean (is_open a)" "''name''" "''is_open''"])
      (use assms in \<open>auto simp: auction_json_def\<close>)
  have "plenty (h1\<lparr>live := live h1 + 1\<rparr>)" using s(2) by simp
  from s(3) [OF this] obtain ob2 h2 where s2:
    "json_object_set_value (Some ob1) (Some ''is_open'') (Detached (JSONBoolean (is_open a))) (h1\<lparr>live := live h1 + 1\<rparr>) = (JSONSuccess, Some ob2, h2)"
    "plenty h2" "json_serialize_to_string (Some (JSONObject_of ob2)) h2 = (Some (json_text False 0 (auction_json a)), h2\<lparr>live := live h2 + 1\<rparr>)"
    by blast
  show ?thesis
    using assms s(1,2) s2 init_string_plenty [of "h\<lparr>live := live h + 2\<rparr>" "name a"]
    by (simp add: marshal_auction_def init_plenty json_object_set_string_def json_object_set_boolean_def
        init_boolean_plenty fresh_ref_def json_free_serialized_string_def)
qed

lemma marshal_bid_plenty:
  assumes "plenty h" "utf8_arg (bidder_name b)" "int_range (bid_value b)"
  shows "\<exists>h'. marshal_bid b h = Inr (json_text False 0 (bid_json b), h') \<and> plenty h'"
proof -
  let ?h = "h\<lparr>live := live h + 2, live := live h + 2 + 2\<rparr>" and ?d = "double_of_int (bid_value b)"
  note d = canonical_reads_back [OF double_of_int_exact(1) [OF assms(3)]]
  obtain ob1 h1 where s: "json_object_set_value (Some \<lparr>pairs = [], obj_capacity = 0\<rparr>) (Some ''bidder'')
      (Detached (JSONString (cstr (bidder_name b)))) ?h = (JSONSuccess, Some ob1, h1)" "plenty h1"
    "\<And>h1'. plenty h1' \<Longrightarrow> \<exists>ob2 h2. json_object_set_value (Some ob1) (Some ''value'') (Detached (JSONNumber ?d)) h1' = (JSONSuccess, Some ob2, h2) \<and>
       plenty h2 \<and> json_serialize_to_string (Some (JSONObject_of ob2)) h2 = (Some (json_text False 0 (bid_json b)), h2\<lparr>live := live h2 + 1\<rparr>)"
    by (rule two_fields_plenty [of ?h "JSONString (cstr (bidder_name b))" "JSONNumber ?d" "''bidder''" "''value''"])
      (use assms d in \<open>auto simp: bid_json_def\<close>)
  have "plenty (h1\<lparr>live := live h1 + 1\<rparr>)" using s(2) by simp
  from s(3) [OF this] obtain ob2 h2 where s2:
    "json_object_set_value (Some ob1) (Some ''value'') (Detached (JSONNumber ?d)) (h1\<lparr>live := live h1 + 1\<rparr>) = (JSONSuccess, Some ob2, h2)"
    "plenty h2" "json_serialize_to_string (Some (JSONObject_of ob2)) h2 = (Some (json_text False 0 (bid_json b)), h2\<lparr>live := live h2 + 1\<rparr>)"
    by blast
  show ?thesis
    using assms d s(1,2) s2 init_string_plenty [of "h\<lparr>live := live h + 2\<rparr>" "bidder_name b"]
    by (simp add: marshal_bid_def init_plenty json_object_set_string_def json_object_set_number_def
        json_value_init_number_def fresh_ref_def json_free_serialized_string_def)
qed

lemma contents_two_fields:
  assumes "contents v = contents (two_fields k1 v1 k2 v2)" "\<not> container v1" "\<not> container v2"
  obtains c where "v = JSONObject [(k1, v1), (k2, v2)] c"
proof -
  have s: "contents w = w" if "\<not> container w" for w using that by (cases w) auto
  obtain fs c where v: "v = JSONObject fs c" "map (\<lambda>f. (fst f, contents (snd f))) fs = [(k1, v1), (k2, v2)]"
    using assms contents_object [of v "[(k1, v1), (k2, v2)]" 0] by (auto simp: two_fields_def s)
  then obtain x y where fs: "fs = [(k1, x), (k2, y)]" "contents x = v1" "contents y = v2" by auto
  have "contents w = w" if "\<not> container (contents w)" for w using that by (cases w) auto
  then have "x = v1" "y = v2" using fs(2,3) assms(2,3) by metis+
  then show thesis using that v(1) fs(1) by blast
qed

lemma parse_two_fields:
  assumes "plenty h" "wf_json (two_fields k1 v1 k2 v2)" "numbers_ok v1" "numbers_ok v2" "\<not> container v1" "\<not> container v2"
  obtains c h' where "parse_json (json_text False 0 (two_fields k1 v1 k2 v2) @ r) h = Inr (Some (JSONObject [(k1, v1), (k2, v2)] c), h')"
    "plenty h'"
proof -
  have l: "levels w = 1" if "\<not> container w" for w using that by (cases w) auto
  obtain v h' where "parse_json (json_text False 0 (two_fields k1 v1 k2 v2) @ r) h = Inr (Some v, h')"
    "contents v = contents (two_fields k1 v1 k2 v2)" "plenty h'"
    by (rule parse_json_text [of "two_fields k1 v1 k2 v2" h r False])
      (use assms l in \<open>simp_all add: two_fields_def\<close>)
  then show thesis using that contents_two_fields assms(5,6) by metis
qed

lemma wf_auction_json [simp]: "wf_json (auction_json a)"
  by (simp add: auction_json_def two_fields_def)

lemma wf_bid_json [simp]: "int_range (bid_value b) \<Longrightarrow> wf_json (bid_json b)"
  using canonical_reads_back [OF double_of_int_exact(1)] by (simp add: bid_json_def two_fields_def)

lemma unmarshal_auction_text:
  assumes "plenty h"
  shows "\<exists>h'. unmarshal_auction (json_text False 0 (auction_json a) @ r) h = Inr (1, a\<lparr>name := cstr (name a)\<rparr>, h') \<and> plenty h'"
proof -
  obtain c h' where "parse_json (json_text False 0 (auction_json a) @ r) h =
      Inr (Some (JSONObject [(''name'', JSONString (cstr (name a))), (''is_open'', JSONBoolean (is_open a))] c), h')" "plenty h'"
    unfolding auction_json_def
    by (rule parse_two_fields [OF assms wf_auction_json [of a, unfolded auction_json_def]]) simp_all
  then show ?thesis
    by (simp add: unmarshal_auction_def json_object_c_def json_object_get_string_def json_object_get_boolean_def get_value_names)
qed

lemma unmarshal_bid_text:
  assumes "plenty h" "int_range (bid_value b)"
  shows "\<exists>h'. unmarshal_bid (json_text False 0 (bid_json b) @ r) h = Inr (1, b\<lparr>bidder_name := cstr (bidder_name b)\<rparr>, h') \<and> plenty h'"
proof -
  obtain c h' where "parse_json (json_text False 0 (bid_json b) @ r) h =
      Inr (Some (JSONObject [(''bidder'', JSONString (cstr (bidder_name b))), (''value'', JSONNumber (double_of_int (bid_value b)))] c), h')" "plenty h'"
    unfolding bid_json_def
    by (rule parse_two_fields [OF assms(1) wf_bid_json [OF assms(2), unfolded bid_json_def]])
      (simp_all add: double_of_int_exact(1) [OF assms(2)])
  then show ?thesis
    using double_of_int_exact(2) [OF assms(2)]
    by (simp add: unmarshal_bid_def json_object_c_def json_object_get_string_def json_object_get_number_def get_value_names)
qed

end
