(* ===== verification/Auction_Laws.thy ===== *)
theory Auction_Laws
  imports Auction Shim_Store
begin

text \<open>
  The operations of the auction chaincode against a peer that keeps its store. The automaton
  \<open>spec_step\<close> is the specification of an auction: missing, open or closed, with the last bid of
  every bidder; \<open>holds_auction\<close> relates it to the encrypted entries of the store, and each operation
  is shown to answer and to move as the automaton does. The outcome of an evaluation is read off
  the bids the automaton collected.
\<close>

section \<open>The state of an auction on the ledger\<close>

text \<open>A peer that keeps a store: a read returns the entry, a write replaces it, a range query
  returns the JSON array of the entries under the prefix, in the order of the keys.\<close>

definition pair_json :: "string \<times> string \<Rightarrow> json_value" where
  "pair_json p = two_fields ''key'' (JSONString (fst p)) ''value'' (JSONString (snd p))"

definition range_json :: "(string, string) std_map \<Rightarrow> json_value" where
  "range_json kvs = JSONArray (map pair_json kvs) (length kvs)"

definition range_query :: "string \<Rightarrow> (string, string) std_map \<Rightarrow> (string, string) std_map" where
  "range_query k m = filter (\<lambda>p. take (length k) (fst p) = k) m"

definition keeps_store :: "'w peer \<Rightarrow> ('w \<Rightarrow> (string, string) std_map) \<Rightarrow> bool" where
  "keeps_store pr store =
     (keeps_entries pr store \<and>
      (\<forall>w k n. \<exists>cmac w'. ocall_get_state_by_partial_composite_key pr w k n =
          (let t = json_text False 0 (range_json (range_query k (store w))) in (t, length t, cmac, w')) \<and> store w' = store w))"

lemma keeps_storeD: "keeps_store pr store \<Longrightarrow> keeps_entries pr store"
  by (simp add: keeps_store_def)

section \<open>The life of an auction\<close>

datatype status = Missing | Opened | Closed

datatype auction_op = Create | Submit string int | Close

definition bid_key :: "string \<Rightarrow> string \<Rightarrow> string" where
  "bid_key nm b = PREFIX @ nm @ SEP @ b @ SEP"

text \<open>What each operation answers and does to the auction.\<close>

fun spec_step :: "auction_op \<Rightarrow> status \<times> (string \<rightharpoonup> int) \<Rightarrow> string \<times> status \<times> (string \<rightharpoonup> int)" where
  "spec_step Create (Missing, B) = (OK_result, Opened, B)"
| "spec_step Create (s, B) = (AUCTION_ALREADY_EXISTING, s, B)"
| "spec_step op (Missing, B) = (AUCTION_NOT_EXISTING, Missing, B)"
| "spec_step op (Closed, B) = (AUCTION_ALREADY_CLOSED, Closed, B)"
| "spec_step (Submit b v) (Opened, B) = (OK_result, Opened, B(b \<mapsto> v))"
| "spec_step Close (Opened, B) = (OK_result, Closed, B)"

fun spec_run :: "auction_op list \<Rightarrow> status \<times> (string \<rightharpoonup> int) \<Rightarrow> string list \<times> status \<times> (string \<rightharpoonup> int)" where
  "spec_run [] s = ([], s)"
| "spec_run (op # ops) s = (let (r, s1) = spec_step op s; (rs, s2) = spec_run ops s1 in (r # rs, s2))"

text \<open>The transactions of the chaincode: each starts with empty read and write sets.\<close>

fun run_op :: "sgx \<Rightarrow> 'w peer \<Rightarrow> string \<Rightarrow> string \<Rightarrow> auction_op \<Rightarrow> 'w shim_ctx \<Rightarrow> (string \<times> 'w shim_ctx) run" where
  "run_op sgx pr junk nm Create ctx = auction_create sgx pr junk nm ctx"
| "run_op sgx pr junk nm (Submit b v) ctx = auction_submit sgx pr junk nm b v ctx"
| "run_op sgx pr junk nm Close ctx = auction_close sgx pr junk nm ctx"

fun run_auction :: "sgx \<Rightarrow> 'w peer \<Rightarrow> string \<Rightarrow> string \<Rightarrow> auction_op list \<Rightarrow> 'w shim_ctx \<Rightarrow> (string list \<times> 'w shim_ctx) run" where
  "run_auction sgx pr junk nm [] ctx = Inr ([], ctx)"
| "run_auction sgx pr junk nm (op # ops) ctx =
     run_bind (run_op sgx pr junk nm op (ctx\<lparr>read_set := [], write_set := []\<rparr>)) (\<lambda>(r, ctx1).
     run_bind (run_auction sgx pr junk nm ops ctx1) (\<lambda>(rs, ctx2). Inr (r # rs, ctx2)))"

text \<open>The store holds the auction: its record under its name, and under the prefix of its bids
  exactly the bids.\<close>

definition status_text :: "string \<Rightarrow> status \<Rightarrow> string" where
  "status_text nm s = json_text False 0 (auction_json \<lparr>name = nm, is_open = (s = Opened)\<rparr>)"

definition bid_text :: "string \<Rightarrow> int \<Rightarrow> string" where
  "bid_text b v = json_text False 0 (bid_json \<lparr>bidder_name = b, bid_value = v\<rparr>)"

definition status_stored :: "sgx \<Rightarrow> (string \<rightharpoonup> string) \<Rightarrow> string \<Rightarrow> status \<Rightarrow> bool" where
  "status_stored sgx st nm s =
     (if s = Missing then st nm = None else \<exists>t. st nm = Some t \<and> sealed sgx t (status_text nm s))"

definition bid_prefix :: "string \<Rightarrow> string" where
  "bid_prefix nm = PREFIX @ nm @ SEP"

definition bidder_ok :: "string \<Rightarrow> bool" where
  "bidder_ok b = (nul_free b \<and> utf8_arg b)"

definition bids_stored :: "sgx \<Rightarrow> (string \<rightharpoonup> string) \<Rightarrow> string \<Rightarrow> (string \<rightharpoonup> int) \<Rightarrow> bool" where
  "bids_stored sgx st nm B =
     ((\<forall>k. take (length (bid_prefix nm)) k = bid_prefix nm \<longrightarrow> st k \<noteq> None \<longrightarrow> (\<exists>b. k = bid_key nm b \<and> B b \<noteq> None)) \<and>
      (\<forall>b v. B b = Some v \<longrightarrow> bidder_ok b \<and> int_range v \<and> (\<exists>t. st (bid_key nm b) = Some t \<and> sealed sgx t (bid_text b v))))"

definition holds_auction :: "sgx \<Rightarrow> (string, string) std_map \<Rightarrow> string \<Rightarrow> status \<times> (string \<rightharpoonup> int) \<Rightarrow> bool" where
  "holds_auction sgx m nm a =
     (map_wf m \<and> status_stored sgx (map_of m) nm (fst a) \<and> bids_stored sgx (map_of m) nm (snd a))"

definition name_fits :: "string \<Rightarrow> bool" where
  "name_fits nm = (nul_free nm \<and> utf8_arg nm \<and> length (status_text nm Closed) \<le> MAX_VALUE_SIZE)"

fun valid_op :: "auction_op \<Rightarrow> bool" where
  "valid_op (Submit b v) = (bidder_ok b \<and> int_range v)"
| "valid_op _ = True"

lemma take_bid_key [simp]: "take (length (bid_prefix nm)) (bid_key nm b) = bid_prefix nm"
  by (simp add: bid_key_def bid_prefix_def)

lemma bid_key_inj [simp]: "bid_key nm b = bid_key nm b' \<longleftrightarrow> b = b'"
  by (simp add: bid_key_def)

lemma bid_prefix_neq: "take (length (bid_prefix nm)) nm \<noteq> bid_prefix nm"
  by (auto simp: bid_prefix_def SEP_def dest: arg_cong [of _ _ length])

lemma name_not_bid_key [simp]: "nm \<noteq> bid_key nm b" "bid_key nm b \<noteq> nm"
  using bid_prefix_neq take_bid_key by metis+

lemma status_stored_bid [simp]: "status_stored sgx (st(bid_key nm b \<mapsto> t)) nm s = status_stored sgx st nm s"
  by (simp add: status_stored_def)

lemma bids_stored_name [simp]: "bids_stored sgx (st(nm \<mapsto> t)) nm B = bids_stored sgx st nm B"
  using bid_prefix_neq [of nm] unfolding bids_stored_def by (metis fun_upd_apply name_not_bid_key(2))

lemma bids_stored_bid:
  assumes "bids_stored sgx st nm B" "sealed sgx t (bid_text b v)" "bidder_ok b" "int_range v"
  shows "bids_stored sgx (st(bid_key nm b \<mapsto> t)) nm (B(b \<mapsto> v))"
  using assms unfolding bids_stored_def by (auto split: if_splits) (metis option.distinct(1))

lemma status_text_fits: "name_fits nm \<Longrightarrow> length (status_text nm s) \<le> MAX_VALUE_SIZE"
  by (auto simp: name_fits_def status_text_def auction_json_def two_fields_def opt_text_def)

lemma status_text_nonempty [simp]: "status_text nm s \<noteq> []"
  by (simp add: status_text_def auction_json_def two_fields_def)

lemma holds_write_status:
  assumes "holds_auction sgx m nm (s, B)" "s' \<noteq> Missing" "sealed sgx t (status_text nm s')"
  shows "holds_auction sgx (map_assign nm t m) nm (s', B)"
  using assms by (simp add: holds_auction_def map_wf_assign map_of_map_assign status_stored_def)

lemma holds_write_bid:
  assumes "holds_auction sgx m nm (s, B)" "sealed sgx t (bid_text b v)" "bidder_ok b" "int_range v"
  shows "holds_auction sgx (map_assign (bid_key nm b) t m) nm (s, B(b \<mapsto> v))"
  using assms by (simp add: holds_auction_def map_wf_assign map_of_map_assign bids_stored_bid)

lemma load_auction:
  assumes "keeps_store pr store" "holds_auction sgx (store (u_shim_ctx ctx)) nm (s, B)" "name_fits nm"
    and "MAX_VALUE_SIZE \<le> length junk" "plenty (heap_mem ctx)"
  obtains bytes len ctx1 where
    "get_state sgx pr nm (take MAX_VALUE_SIZE junk) MAX_VALUE_SIZE ctx = Inr (bytes, len, ctx1)"
    "store (u_shim_ctx ctx1) = store (u_shim_ctx ctx)" "plenty (heap_mem ctx1)" "len = 0 \<longleftrightarrow> s = Missing"
    "s \<noteq> Missing \<longrightarrow> (\<exists>h'. unmarshal_auction (bytes @ drop MAX_VALUE_SIZE junk) (heap_mem ctx1) =
       Inr (1, \<lparr>name = nm, is_open = (s = Opened)\<rparr>, h') \<and> plenty h')"
proof -
  let ?buf = "take MAX_VALUE_SIZE junk" and ?m = "store (u_shim_ctx ctx)" and ?n = "(MAX_VALUE_SIZE + 30) div 3 * 4"
  have nm: "cstr nm = nm" using assms(3) by (simp add: name_fits_def)
  obtain cmac w where g: "ocall_get_state pr (u_shim_ctx ctx) nm ?n =
      (case map_of ?m nm of None \<Rightarrow> ([], 0, cmac, w) | Some s \<Rightarrow> (s, length s, cmac, w))" "store w = ?m"
    using assms(1) unfolding keeps_store_def keeps_entries_def by blast
  show thesis
  proof (cases "s = Missing")
    case True
    then have "map_of ?m nm = None" using assms(2) by (simp add: holds_auction_def status_stored_def)
    then have "ocall_get_state pr (u_shim_ctx ctx) (cstr nm) ?n = ([], 0, cmac, w)" using g(1) nm by simp
    from get_state_absent [OF this, of sgx ?buf] show thesis using that g(2) True assms(5) by metis
  next
    case False
    then obtain t where t: "map_of ?m nm = Some t" "sealed sgx t (status_text nm s)"
      using assms(2) by (auto simp: holds_auction_def status_stored_def)
    have "ocall_get_state pr (u_shim_ctx ctx) (cstr nm) ?n = (t, length t, cmac, w)" using g(1) t(1) nm by simp
    from get_state_sealed [OF t(2) status_text_fits [OF assms(3)] _ this, of ?buf] assms(4)
    obtain ctx1 where c: "get_state sgx pr nm ?buf MAX_VALUE_SIZE ctx =
        Inr (status_text nm s @ drop (length (status_text nm s)) ?buf, length (status_text nm s), ctx1)"
      "u_shim_ctx ctx1 = w" "heap_mem ctx1 = heap_mem ctx" by auto
    have "\<exists>h'. unmarshal_auction ((status_text nm s @ drop (length (status_text nm s)) ?buf) @ drop MAX_VALUE_SIZE junk) (heap_mem ctx1) =
        Inr (1, \<lparr>name = nm, is_open = (s = Opened)\<rparr>, h') \<and> plenty h'"
      using unmarshal_auction_text [of "heap_mem ctx1" "\<lparr>name = nm, is_open = (s = Opened)\<rparr>"] assms(5) c(3) nm
      by (simp add: status_text_def)
    then show thesis using that [OF c(1)] c g(2) False assms(5) by simp
  qed
qed

definition after_op :: "sgx \<Rightarrow> ('w \<Rightarrow> (string, string) std_map) \<Rightarrow> string \<Rightarrow> string \<times> status \<times> (string \<rightharpoonup> int) \<Rightarrow> (string \<times> 'w shim_ctx) run \<Rightarrow> bool" where
  "after_op sgx store nm expected r = (\<exists>ctx'. r = Inr (fst expected, ctx') \<and> plenty (heap_mem ctx') \<and>
     holds_auction sgx (store (u_shim_ctx ctx')) nm (snd expected))"

lemma create_refines:
  assumes "gcm_correct sgx" "keeps_store pr store" "holds_auction sgx (store (u_shim_ctx ctx)) nm (s, B)" "name_fits nm"
    and "MAX_VALUE_SIZE \<le> length junk" "plenty (heap_mem ctx)"
  shows "after_op sgx store nm (spec_step Create (s, B)) (auction_create sgx pr junk nm ctx)"
proof -
  obtain bytes len ctx1 where l: "get_state sgx pr nm (take MAX_VALUE_SIZE junk) MAX_VALUE_SIZE ctx = Inr (bytes, len, ctx1)"
    "store (u_shim_ctx ctx1) = store (u_shim_ctx ctx)" "plenty (heap_mem ctx1)" "len = 0 \<longleftrightarrow> s = Missing"
    using load_auction [OF assms(2-6)] by blast
  have nm: "nul_free nm" "utf8_arg nm" using assms(4) by (auto simp: name_fits_def)
  show ?thesis
  proof (cases "s = Missing")
    case True
    let ?a = "\<lparr>name = cstr nm, is_open = True\<rparr>"
    obtain h where m: "marshal_auction ?a (heap_mem ctx1) = Inr (status_text nm Opened, h)" "plenty h"
      using marshal_auction_plenty [OF l(3), of ?a] nm by (auto simp: status_text_def)
    obtain t ctx2 where p: "put_state sgx pr nm (status_text nm Opened) (ctx1\<lparr>heap_mem := h\<rparr>) = Inr ctx2"
      "sealed sgx t (status_text nm Opened)" "store (u_shim_ctx ctx2) = map_assign nm t (store (u_shim_ctx (ctx1\<lparr>heap_mem := h\<rparr>)))"
      "heap_mem ctx2 = heap_mem (ctx1\<lparr>heap_mem := h\<rparr>)"
      using put_sealed_store [OF assms(1) keeps_storeD [OF assms(2)] nm(1)] .
    have "auction_create sgx pr junk nm ctx = Inr (OK_result, ctx2)"
      using True l m(1) p(1) by (simp add: auction_create_def)
    then show ?thesis
      using True holds_write_status [OF assms(3) _ p(2)] p(3,4) m(2) l(2) by (simp add: after_op_def)
  next
    case False
    then show ?thesis using l assms(3) by (cases s) (auto simp: after_op_def auction_create_def)
  qed
qed

lemma nul_free_bid_key: "nul_free nm \<Longrightarrow> nul_free b \<Longrightarrow> nul_free (bid_key nm b)"
  by (simp add: bid_key_def PREFIX_def SEP_def)

lemma submit_refines:
  assumes "gcm_correct sgx" "keeps_store pr store" "holds_auction sgx (store (u_shim_ctx ctx)) nm (s, B)" "name_fits nm"
    and "MAX_VALUE_SIZE \<le> length junk" "plenty (heap_mem ctx)" and bv: "bidder_ok b" "int_range v"
  shows "after_op sgx store nm (spec_step (Submit b v) (s, B)) (auction_submit sgx pr junk nm b v ctx)"
proof -
  obtain bytes len ctx1 where l: "get_state sgx pr nm (take MAX_VALUE_SIZE junk) MAX_VALUE_SIZE ctx = Inr (bytes, len, ctx1)"
    "store (u_shim_ctx ctx1) = store (u_shim_ctx ctx)" "plenty (heap_mem ctx1)" "len = 0 \<longleftrightarrow> s = Missing"
    and u: "s \<noteq> Missing \<longrightarrow> (\<exists>h'. unmarshal_auction (bytes @ drop MAX_VALUE_SIZE junk) (heap_mem ctx1) =
       Inr (1, \<lparr>name = nm, is_open = (s = Opened)\<rparr>, h') \<and> plenty h')"
    using load_auction [OF assms(2-6)] by blast
  have nm: "nul_free nm" using assms(4) by (simp add: name_fits_def)
  have b: "nul_free b" "utf8_arg b" "int_range v" using bv by (auto simp: bidder_ok_def)
  show ?thesis
  proof (cases s)
    case Opened
    then obtain h1 where h1: "unmarshal_auction (bytes @ drop MAX_VALUE_SIZE junk) (heap_mem ctx1) =
        Inr (1, \<lparr>name = nm, is_open = True\<rparr>, h1)" "plenty h1" using u by auto
    obtain h2 where m: "marshal_bid \<lparr>bidder_name = b, bid_value = v\<rparr> h1 = Inr (bid_text b v, h2)" "plenty h2"
      using marshal_bid_plenty [OF h1(2), of "\<lparr>bidder_name = b, bid_value = v\<rparr>"] b by (auto simp: bid_text_def)
    obtain t ctx2 where p: "put_state sgx pr (bid_key nm b) (bid_text b v) (ctx1\<lparr>heap_mem := h2\<rparr>) = Inr ctx2"
      "sealed sgx t (bid_text b v)" "store (u_shim_ctx ctx2) = map_assign (bid_key nm b) t (store (u_shim_ctx (ctx1\<lparr>heap_mem := h2\<rparr>)))"
      "heap_mem ctx2 = heap_mem (ctx1\<lparr>heap_mem := h2\<rparr>)"
      using put_sealed_store [OF assms(1) keeps_storeD [OF assms(2)] nul_free_bid_key [OF nm b(1)]] .
    have "auction_submit sgx pr junk nm b v ctx = Inr (OK_result, ctx2)"
      using Opened l(1,4) h1(1) m(1) p(1) by (simp add: auction_submit_def bid_key_def)
    then show ?thesis
      using Opened holds_write_bid [OF assms(3) p(2) bv] p(3,4) m(2) l(2) by (simp add: after_op_def)
  qed (use l u assms(3) in \<open>auto simp: after_op_def auction_submit_def\<close>)
qed

lemma close_refines:
  assumes "gcm_correct sgx" "keeps_store pr store" "holds_auction sgx (store (u_shim_ctx ctx)) nm (s, B)" "name_fits nm"
    and "MAX_VALUE_SIZE \<le> length junk" "plenty (heap_mem ctx)"
  shows "after_op sgx store nm (spec_step Close (s, B)) (auction_close sgx pr junk nm ctx)"
proof -
  obtain bytes len ctx1 where l: "get_state sgx pr nm (take MAX_VALUE_SIZE junk) MAX_VALUE_SIZE ctx = Inr (bytes, len, ctx1)"
    "store (u_shim_ctx ctx1) = store (u_shim_ctx ctx)" "plenty (heap_mem ctx1)" "len = 0 \<longleftrightarrow> s = Missing"
    and u: "s \<noteq> Missing \<longrightarrow> (\<exists>h'. unmarshal_auction (bytes @ drop MAX_VALUE_SIZE junk) (heap_mem ctx1) =
       Inr (1, \<lparr>name = nm, is_open = (s = Opened)\<rparr>, h') \<and> plenty h')"
    using load_auction [OF assms(2-6)] by blast
  have nm: "nul_free nm" "utf8_arg nm" using assms(4) by (auto simp: name_fits_def)
  show ?thesis
  proof (cases s)
    case Opened
    let ?a = "\<lparr>name = nm, is_open = False\<rparr>"
    obtain h1 where h1: "unmarshal_auction (bytes @ drop MAX_VALUE_SIZE junk) (heap_mem ctx1) =
        Inr (1, \<lparr>name = nm, is_open = True\<rparr>, h1)" "plenty h1" using u Opened by auto
    obtain h2 where m: "marshal_auction ?a h1 = Inr (status_text nm Closed, h2)" "plenty h2"
      using marshal_auction_plenty [OF h1(2), of ?a] nm by (auto simp: status_text_def)
    obtain t ctx2 where p: "put_state sgx pr nm (status_text nm Closed) (ctx1\<lparr>heap_mem := h2\<rparr>) = Inr ctx2"
      "sealed sgx t (status_text nm Closed)" "store (u_shim_ctx ctx2) = map_assign nm t (store (u_shim_ctx (ctx1\<lparr>heap_mem := h2\<rparr>)))"
      "heap_mem ctx2 = heap_mem (ctx1\<lparr>heap_mem := h2\<rparr>)"
      using put_sealed_store [OF assms(1) keeps_storeD [OF assms(2)] nm(1)] .
    have "auction_close sgx pr junk nm ctx = Inr (OK_result, ctx2)"
      using Opened l(1,4) h1(1) m(1) p(1) by (simp add: auction_close_def)
    then show ?thesis
      using Opened holds_write_status [OF assms(3) _ p(2)] p(3,4) m(2) l(2) by (simp add: after_op_def)
  qed (use l u assms(3) in \<open>auto simp: after_op_def auction_close_def\<close>)
qed

lemma run_op_refines:
  assumes "gcm_correct sgx" "keeps_store pr store" "holds_auction sgx (store (u_shim_ctx ctx)) nm a" "name_fits nm"
    and "MAX_VALUE_SIZE \<le> length junk" "plenty (heap_mem ctx)" "valid_op op"
  shows "after_op sgx store nm (spec_step op a) (run_op sgx pr junk nm op ctx)"
  using assms by (cases op; cases a) (auto intro: create_refines submit_refines close_refines)

lemma run_auction_refines:
  "holds_auction sgx (store (u_shim_ctx ctx)) nm a \<Longrightarrow> plenty (heap_mem ctx) \<Longrightarrow> list_all valid_op ops \<Longrightarrow>
   gcm_correct sgx \<Longrightarrow> keeps_store pr store \<Longrightarrow> name_fits nm \<Longrightarrow> MAX_VALUE_SIZE \<le> length junk \<Longrightarrow>
   \<exists>ctx'. run_auction sgx pr junk nm ops ctx = Inr (fst (spec_run ops a), ctx') \<and> plenty (heap_mem ctx') \<and>
     holds_auction sgx (store (u_shim_ctx ctx')) nm (snd (spec_run ops a))"
proof (induction ops arbitrary: ctx a)
  case (Cons op ops)
  let ?ctx = "ctx\<lparr>read_set := [], write_set := []\<rparr>"
  have "after_op sgx store nm (spec_step op a) (run_op sgx pr junk nm op ?ctx)"
    using Cons.prems by (intro run_op_refines) simp_all
  then obtain ctx1 where r: "run_op sgx pr junk nm op ?ctx = Inr (fst (spec_step op a), ctx1)" "plenty (heap_mem ctx1)"
    "holds_auction sgx (store (u_shim_ctx ctx1)) nm (snd (spec_step op a))"
    by (auto simp: after_op_def)
  from Cons.IH [OF r(3,2)] Cons.prems obtain ctx2 where
    "run_auction sgx pr junk nm ops ctx1 = Inr (fst (spec_run ops (snd (spec_step op a))), ctx2)" "plenty (heap_mem ctx2)"
    "holds_auction sgx (store (u_shim_ctx ctx2)) nm (snd (spec_run ops (snd (spec_step op a))))" by auto
  then show ?case using r(1) by (auto simp: Let_def split_beta)
qed simp

section \<open>Evaluation\<close>

text \<open>The search for the highest bid.\<close>

lemma consider_keeps_max:
  "\<forall>b \<in> set bs. bid_value b \<le> v \<Longrightarrow>
     fold consider_bid bs (w, v, d) = (w, v, if \<exists>b \<in> set bs. bid_value b = v then 1 else d)"
  by (induction bs arbitrary: d) (auto simp: consider_bid_def)

lemma consider_below:
  assumes "\<forall>b \<in> set bs. bid_value b < v" "h < v"
  shows "\<exists>w' h' d'. fold consider_bid bs (w, h, d) = (w', h', d') \<and> h' < v"
  using assms by (induction bs arbitrary: w h d) (auto simp: consider_bid_def)

lemma consider_first_max:
  assumes "bs = xs @ b # ys" "\<forall>c \<in> set xs. bid_value c < bid_value b" "\<forall>c \<in> set ys. bid_value c \<le> bid_value b" "-1 < bid_value b"
  shows "fold consider_bid bs (w, -1, 0) = (b, bid_value b, if \<exists>c \<in> set ys. bid_value c = bid_value b then 1 else 0)"
proof -
  obtain w' h' d' where "fold consider_bid xs (w, -1, 0) = (w', h', d')" "h' < bid_value b"
    using consider_below [OF assms(2,4)] by blast
  then show ?thesis using assms(1) consider_keeps_max [OF assms(3)] by (simp add: consider_bid_def)
qed

lemma unique_highest_bid:
  assumes "distinct bs" "b \<in> set bs" "\<forall>c \<in> set bs. c \<noteq> b \<longrightarrow> bid_value c < bid_value b" "-1 < bid_value b"
  shows "fold consider_bid bs (w, -1, 0) = (b, bid_value b, 0)"
proof -
  obtain xs ys where bs: "bs = xs @ b # ys" using assms(2) by (auto dest: split_list)
  then have "\<forall>c \<in> set xs. bid_value c < bid_value b" "\<forall>c \<in> set ys. bid_value c < bid_value b"
    using assms(1,3) by auto
  then show ?thesis using consider_first_max [OF bs, of w] assms(4) by fastforce
qed

lemma shared_highest_bid:
  assumes "b \<in> set bs" "c \<in> set bs" "b \<noteq> c" "bid_value c = bid_value b" "\<forall>a \<in> set bs. bid_value a \<le> bid_value b" "-1 < bid_value b"
  shows "\<exists>w'. fold consider_bid bs (w, -1, 0) = (w', bid_value b, 1)"
proof -
  let ?P = "\<lambda>a. bid_value a = bid_value b"
  obtain xs a ys where bs: "bs = xs @ a # ys" "?P a" "\<forall>z \<in> set xs. \<not> ?P z"
    using split_list_first_prop [of bs ?P] assms(1) by blast
  then have "\<forall>z \<in> set xs. bid_value z < bid_value a" "\<forall>z \<in> set ys. bid_value z \<le> bid_value a"
    using assms(5) by (auto simp: order.strict_iff_order)
  moreover have "\<exists>z \<in> set ys. ?P z" using assms(1-4) bs by (cases "a = b") auto
  ultimately show ?thesis using consider_first_max [OF bs(1), of w] assms(6) bs(2) by auto
qed

lemma eval_loop_bids:
  "plenty h \<Longrightarrow> \<forall>b \<in> set bs. nul_free (bidder_name b) \<and> int_range (bid_value b) \<Longrightarrow>
   map snd vs = map (\<lambda>b. json_text False 0 (bid_json b)) bs \<Longrightarrow>
   \<exists>h'. eval_loop vs s h = Inr (fold consider_bid bs s, h') \<and> plenty h'"
proof (induction bs arbitrary: vs s h)
  case (Cons b bs)
  obtain u us where v: "vs = u # us" "snd u = json_text False 0 (bid_json b)"
    "map snd us = map (\<lambda>b. json_text False 0 (bid_json b)) bs" using Cons.prems(3) by auto
  have "nul_free (json_text False 0 (bid_json b))" using Cons.prems(2) by (simp add: nul_free_json_text)
  then obtain h1 where "unmarshal_bid (cstr (snd u)) h = Inr (1, b, h1)" "plenty h1"
    using unmarshal_bid_text [OF Cons.prems(1), of b "[]"] Cons.prems(2) v(2) by auto
  then show ?case using Cons.IH [of h1 us "consider_bid b s"] Cons.prems(2) v by auto
qed simp

text \<open>Reading the range.\<close>

lemma map_insert_last: "\<forall>k' \<in> fst ` set m. k' < k \<Longrightarrow> map_insert k v m = m @ [(k, v)]"
  by (induction k v m rule: map_insert.induct) auto

lemma map_wf_snoc: "map_wf (m @ (k, v) # kvs) \<Longrightarrow> \<forall>k' \<in> fst ` set m. k' < k"
  by (induction m) fastforce+

lemma unmarshal_pairs:
  "map_wf (m @ kvs) \<Longrightarrow> map contents xs = map (\<lambda>p. contents (pair_json p)) kvs \<Longrightarrow>
     unmarshal_values_loop xs m = Inr (m @ kvs)"
proof (induction kvs arbitrary: xs m)
  case (Cons p kvs)
  obtain k v where p: "p = (k, v)" by fastforce
  obtain x xs' where xs: "xs = x # xs'" "contents x = contents (pair_json p)"
    "map contents xs' = map (\<lambda>p. contents (pair_json p)) kvs" using Cons.prems(2) by auto
  obtain c where x: "x = JSONObject [(''key'', JSONString k), (''value'', JSONString v)] c"
    using contents_two_fields [OF xs(2) [unfolded pair_json_def]] by (auto simp: p)
  have "map_insert k v m = m @ [(k, v)]" using Cons.prems(1) p by (intro map_insert_last map_wf_snoc) auto
  then show ?case
    using Cons.IH [of "m @ [(k, v)]" xs'] Cons.prems(1) xs(1,3) p
    by (simp add: x Let_def json_object_get_string_def get_value_names)
qed simp

abbreviation entries_ok :: "(string, string) std_map \<Rightarrow> bool" where
  "entries_ok kvs \<equiv> \<forall>p \<in> set kvs. nul_free (fst p) \<and> nul_free (snd p)"

lemma range_json_ok:
  assumes "entries_ok kvs"
  shows "wf_json (range_json kvs)" "numbers_ok (range_json kvs)" "levels (range_json kvs) \<le> 2049" "container (range_json kvs)"
proof -
  have l: "levels (pair_json p) \<le> 2" for p by (simp add: pair_json_def two_fields_def)
  have "foldr max (map (\<lambda>p. levels (pair_json p)) kvs) 0 \<le> 2"
    using foldr_max_le [of "map (\<lambda>p. levels (pair_json p)) kvs" 2] l by (auto simp: list_all_iff)
  then show "levels (range_json kvs) \<le> 2049" by (simp add: range_json_def comp_def)
qed (use assms in \<open>auto simp: range_json_def pair_json_def two_fields_def list_all_iff\<close>)

lemma unmarshal_values_range:
  assumes "map_wf kvs" "entries_ok kvs" "plenty h"
  shows "\<exists>h'. unmarshal_values [] (json_text False 0 (range_json kvs)) h = Inr (1, kvs, h') \<and> plenty h'"
proof -
  obtain v h' where p: "parse_json (json_text False 0 (range_json kvs) @ []) h = Inr (Some v, h')"
    "contents v = contents (range_json kvs)" "plenty h'"
    using parse_json_text [OF range_json_ok(1-3) [OF assms(2)] assms(3), of "[]"] by auto
  obtain xs c where v: "v = JSONArray xs c" "map contents xs = map (\<lambda>p. contents (pair_json p)) kvs"
    using p(2) by (cases v) (auto simp: range_json_def comp_def)
  show ?thesis
    using p unmarshal_pairs [of "[]" kvs xs] assms(1) v by (simp add: unmarshal_values_def)
qed

lemma cstr_zeros: "nul_free s \<Longrightarrow> cstr (s @ replicate n NUL) = s"
  by (induction s) (cases n; simp)+

lemma range_query_reads:
  assumes "keeps_store pr store" "plenty (heap_mem ctx)" "nul_free k"
    and "kvs = range_query k (store (u_shim_ctx ctx))" "map_wf kvs" "entries_ok kvs"
    and "length (json_text False 0 (range_json kvs)) \<le> 262144"
  obtains ctx1 where "get_public_state_by_partial_composite_key sgx pr k [] ctx = Inr (kvs, ctx1)"
    "store (u_shim_ctx ctx1) = store (u_shim_ctx ctx)" "plenty (heap_mem ctx1)"
proof -
  let ?t = "json_text False 0 (range_json kvs)"
  obtain cmac w where q: "ocall_get_state_by_partial_composite_key pr (u_shim_ctx ctx) k 262144 = (?t, length ?t, cmac, w)"
    "store w = store (u_shim_ctx ctx)"
    using assms(1,4) unfolding keeps_store_def Let_def by blast
  have nf: "nul_free ?t" using nul_free_json_text(1) [OF range_json_ok(1) [OF assms(6)]] .
  have "fill 262144 ?t = ?t @ replicate (262144 - length ?t) NUL" using assms(7) by (simp add: fill_def)
  then have "cstr (fill 262144 ?t) = ?t" using cstr_zeros [OF nf] by simp
  then obtain h' where "unmarshal_values [] (cstr (fill 262144 ?t)) (heap_mem ctx) = Inr (1, kvs, h')" "plenty h'"
    using unmarshal_values_range [OF assms(5,6,2)] by auto
  then have "\<exists>ctx1. get_public_state_by_partial_composite_key sgx pr k [] ctx = Inr (kvs, ctx1) \<and>
      store (u_shim_ctx ctx1) = store (u_shim_ctx ctx) \<and> plenty (heap_mem ctx1)"
    using q assms(3,7) by (simp add: get_public_state_by_partial_composite_key_def Let_def)
  then show thesis using that by blast
qed

lemma decrypt_values_sealed:
  "list_all2 (\<lambda>p q. fst p = fst q \<and> sealed sgx (snd p) (snd q)) kvs vals \<Longrightarrow> decrypt_values sgx kvs = Inr vals"
proof (induction kvs vals rule: list_all2_induct)
  case (Cons p kvs q vals)
  obtain k s val where pq: "p = (k, s)" "q = (k, val)" "sealed sgx s val" using Cons.hyps by (cases p; cases q) auto
  obtain cipher where c: "s = base64_encode cipher" "length cipher = length val + 28"
    "decrypt_state sgx state_encryption_key cipher (length val) = Inr (0, val)"
    using pq(3) by (auto simp: sealed_def)
  then show ?case using pq Cons.IH by (simp add: Let_def fill_exact)
qed simp

text \<open>The bids of an auction, read off the keys of the store.\<close>

definition key_bidder :: "string \<Rightarrow> string \<Rightarrow> string" where
  "key_bidder nm k = butlast (drop (length (bid_prefix nm)) k)"

lemma key_bidder_key [simp]: "key_bidder nm (bid_key nm b) = b"
  by (simp add: key_bidder_def bid_key_def bid_prefix_def SEP_def)

definition stored_bid :: "string \<Rightarrow> (string \<rightharpoonup> int) \<Rightarrow> string \<Rightarrow> bid_t" where
  "stored_bid nm B k = \<lparr>bidder_name = key_bidder nm k, bid_value = the (B (key_bidder nm k))\<rparr>"

lemma range_entries:
  assumes "holds_auction sgx m nm (s, B)" "nul_free nm" and kvs: "kvs = range_query (bid_prefix nm) m"
  shows "map_wf kvs" "p \<in> set kvs \<Longrightarrow> \<exists>b v. fst p = bid_key nm b \<and> B b = Some v \<and> bidder_ok b \<and> int_range v \<and> sealed sgx (snd p) (bid_text b v)"
    "B b = Some v \<Longrightarrow> \<exists>p \<in> set kvs. fst p = bid_key nm b"
proof -
  have wf: "map_wf m" and bs: "bids_stored sgx (map_of m) nm B" using assms(1) by (simp_all add: holds_auction_def)
  show "map_wf kvs" using wf unfolding kvs range_query_def by (induction m) auto
  show "\<exists>b v. fst p = bid_key nm b \<and> B b = Some v \<and> bidder_ok b \<and> int_range v \<and> sealed sgx (snd p) (bid_text b v)"
    if "p \<in> set kvs"
  proof -
    have p: "p \<in> set m" "take (length (bid_prefix nm)) (fst p) = bid_prefix nm" using that by (auto simp: kvs range_query_def)
    have look: "map_of m (fst p) = Some (snd p)" using om.distinct_entries [OF wf] p(1) by (cases p) simp
    then obtain b v where b: "fst p = bid_key nm b" "B b = Some v" using bs p(2) unfolding bids_stored_def by blast
    then obtain t where "bidder_ok b" "int_range v" "map_of m (bid_key nm b) = Some t" "sealed sgx t (bid_text b v)"
      using bs unfolding bids_stored_def by blast
    then show ?thesis using look b by auto
  qed
  show "\<exists>p \<in> set kvs. fst p = bid_key nm b" if B: "B b = Some v"
  proof -
    obtain t where "map_of m (bid_key nm b) = Some t" using bs B unfolding bids_stored_def by blast
    then have "(bid_key nm b, t) \<in> set m" by (rule map_of_SomeD)
    then show ?thesis by (intro bexI [of _ "(bid_key nm b, t)"]) (auto simp: kvs range_query_def)
  qed
qed

text \<open>The bids in the order of the keys.\<close>

lemma range_bids:
  assumes "holds_auction sgx m nm (s, B)" "nul_free nm" and kvs: "kvs = range_query (bid_prefix nm) m"
    and bl: "bl = map (\<lambda>p. stored_bid nm B (fst p)) kvs"
  shows "distinct bl" "set bl = {\<lparr>bidder_name = b, bid_value = v\<rparr> | b v. B b = Some v}"
    "\<forall>b \<in> set bl. bidder_ok (bidder_name b) \<and> int_range (bid_value b)"
    "list_all2 (\<lambda>p q. fst p = fst q \<and> sealed sgx (snd p) (snd q)) kvs
       (map (\<lambda>p. (fst p, json_text False 0 (bid_json (stored_bid nm B (fst p))))) kvs)"
    "entries_ok kvs" "kvs = [] \<longleftrightarrow> B = Map.empty"
proof -
  note re = range_entries [OF assms(1-3)]
  have e: "\<exists>b v. fst p = bid_key nm b \<and> B b = Some v \<and> bidder_ok b \<and> int_range v \<and> sealed sgx (snd p) (bid_text b v) \<and>
      stored_bid nm B (fst p) = \<lparr>bidder_name = b, bid_value = v\<rparr>" if "p \<in> set kvs" for p
    using re(2) [OF that] by (auto simp: stored_bid_def)
  have "inj_on (\<lambda>p. stored_bid nm B (fst p)) (set kvs)"
  proof (rule inj_onI)
    fix p q assume "p \<in> set kvs" "q \<in> set kvs" "stored_bid nm B (fst p) = stored_bid nm B (fst q)"
    then have "fst p = fst q" using e [of p] e [of q] by auto
    with \<open>p \<in> set kvs\<close> \<open>q \<in> set kvs\<close> show "p = q"
      using om.distinct_entries [OF re(1)] by (metis eq_key_imp_eq_value prod.collapse)
  qed
  moreover have "distinct kvs" using om.distinct_entries [OF re(1)] by (simp add: distinct_map)
  ultimately show "distinct bl" by (simp add: bl distinct_map)
  show "set bl = {\<lparr>bidder_name = b, bid_value = v\<rparr> | b v. B b = Some v}"
  proof (intro equalityI subsetI)
    fix x assume "x \<in> set bl"
    then obtain p where "p \<in> set kvs" "x = stored_bid nm B (fst p)" by (auto simp: bl)
    then show "x \<in> {\<lparr>bidder_name = b, bid_value = v\<rparr> | b v. B b = Some v}" using e [of p] by auto
  next
    fix x assume "x \<in> {\<lparr>bidder_name = b, bid_value = v\<rparr> | b v. B b = Some v}"
    then obtain b v where x: "x = \<lparr>bidder_name = b, bid_value = v\<rparr>" "B b = Some v" by blast
    then obtain p where "p \<in> set kvs" "fst p = bid_key nm b" using re(3) by blast
    then show "x \<in> set bl" using x by (auto simp: bl stored_bid_def image_iff intro!: bexI [of _ p])
  qed
  show "\<forall>b \<in> set bl. bidder_ok (bidder_name b) \<and> int_range (bid_value b)" using e by (fastforce simp: bl)
  show "list_all2 (\<lambda>p q. fst p = fst q \<and> sealed sgx (snd p) (snd q)) kvs
       (map (\<lambda>p. (fst p, json_text False 0 (bid_json (stored_bid nm B (fst p))))) kvs)"
    unfolding list_all2_map2 by (rule list.rel_refl_strong) (use e in \<open>force simp: bid_text_def\<close>)
  show "entries_ok kvs"
  proof
    fix p assume "p \<in> set kvs"
    from e [OF this] obtain b v where "fst p = bid_key nm b" "bidder_ok b" "sealed sgx (snd p) (bid_text b v)" by blast
    then show "nul_free (fst p) \<and> nul_free (snd p)"
      using assms(2) by (auto simp: bidder_ok_def sealed_def nul_free_bid_key)
  qed
  show "kvs = [] \<longleftrightarrow> B = Map.empty" using re(3) e by (fastforce simp: neq_Nil_conv fun_eq_iff)
qed

definition outcome_of :: "(string \<rightharpoonup> int) \<Rightarrow> string \<Rightarrow> bool" where
  "outcome_of B r =
     ((B = Map.empty \<longrightarrow> r = AUCTION_NO_BIDS) \<and>
      (\<forall>b v. B b = Some v \<longrightarrow> 0 \<le> v \<longrightarrow> (\<forall>b' v'. B b' = Some v' \<longrightarrow> b' \<noteq> b \<longrightarrow> v' < v) \<longrightarrow> r = bid_text b v) \<and>
      (\<forall>b c v. B b = Some v \<longrightarrow> B c = Some v \<longrightarrow> b \<noteq> c \<longrightarrow> 0 \<le> v \<longrightarrow> (\<forall>b' v'. B b' = Some v' \<longrightarrow> v' \<le> v) \<longrightarrow> r = AUCTION_DRAW))"

lemma winner_is_a_bid: "fst (fold consider_bid bs s) \<in> insert (fst s) (set bs)"
proof (induction bs arbitrary: s)
  case (Cons b bs)
  have "fst (consider_bid b s) \<in> {b, fst s}" by (auto simp: consider_bid_def split: prod.splits)
  then show ?case using Cons.IH [of "consider_bid b s"] by auto
qed simp

text \<open>The result of an evaluation, once the bids are in a list.\<close>

definition result_of :: "bid_t list \<Rightarrow> int \<Rightarrow> string" where
  "result_of bl junk_int =
     (if bl = [] then AUCTION_NO_BIDS
      else case fold consider_bid bl (\<lparr>bidder_name = [], bid_value = junk_int\<rparr>, -1, 0) of (winner, high, draw) \<Rightarrow>
        if draw \<noteq> 1 then json_text False 0 (bid_json winner) else AUCTION_DRAW)"

lemma result_of_outcome:
  assumes "distinct bl" "set bl = {\<lparr>bidder_name = b, bid_value = v\<rparr> | b v. B b = Some v}"
  shows "outcome_of B (result_of bl junk_int)"
proof -
  let ?w = "\<lparr>bidder_name = [], bid_value = junk_int\<rparr>"
  have mem: "\<lparr>bidder_name = b, bid_value = v\<rparr> \<in> set bl \<longleftrightarrow> B b = Some v" for b v using assms(2) by auto
  have "result_of bl junk_int = AUCTION_NO_BIDS" if "B = Map.empty"
    using assms(2) that by (simp add: result_of_def)
  moreover have "result_of bl junk_int = bid_text b v"
    if "B b = Some v" "0 \<le> v" and less: "\<And>b' v'. B b' = Some v' \<Longrightarrow> b' \<noteq> b \<Longrightarrow> v' < v" for b v
  proof -
    have "fold consider_bid bl (?w, -1, 0) = (\<lparr>bidder_name = b, bid_value = v\<rparr>, bid_value \<lparr>bidder_name = b, bid_value = v\<rparr>, 0)"
      using that(1,2) assms(1) mem [of b v] less by (intro unique_highest_bid) (force simp: assms(2))+
    then show ?thesis using mem [of b v] that(1) by (auto simp: result_of_def bid_text_def)
  qed
  moreover have "result_of bl junk_int = AUCTION_DRAW"
    if "B b = Some v" "B c = Some v" "b \<noteq> c" "0 \<le> v" and le: "\<And>b' v'. B b' = Some v' \<Longrightarrow> v' \<le> v" for b c v
  proof -
    have "\<exists>w'. fold consider_bid bl (?w, -1, 0) = (w', bid_value \<lparr>bidder_name = b, bid_value = v\<rparr>, 1)"
      using that mem [of b v] mem [of c v]
      by (intro shared_highest_bid [of _ _ "\<lparr>bidder_name = c, bid_value = v\<rparr>"]) (auto simp: assms(2))
    then show ?thesis using mem [of b v] that(1) by (auto simp: result_of_def)
  qed
  ultimately show ?thesis unfolding outcome_of_def by blast
qed

lemma result_of_computed:
  assumes "plenty h" "int_range junk_int" "\<forall>b \<in> set bl. bidder_ok (bidder_name b) \<and> int_range (bid_value b)"
    and "map snd vs = map (\<lambda>b. json_text False 0 (bid_json b)) bl"
  shows "\<exists>h'. (if vs = [] then Inr (AUCTION_NO_BIDS, h)
               else run_bind (eval_loop vs (\<lparr>bidder_name = [], bid_value = junk_int\<rparr>, -1, 0) h)
                      (\<lambda>((winner, high, draw), h2).
                         if draw \<noteq> 1 then marshal_bid winner h2 else Inr (AUCTION_DRAW, h2))) = Inr (result_of bl junk_int, h') \<and> plenty h'"
proof (cases "vs = []")
  case True
  then show ?thesis using assms(1,4) by (simp add: result_of_def)
next
  case False
  let ?w = "\<lparr>bidder_name = [], bid_value = junk_int\<rparr>"
  obtain winner high draw where f: "fold consider_bid bl (?w, -1, 0) = (winner, high, draw)" by (metis prod_cases3)
  obtain h2 where e: "eval_loop vs (?w, -1, 0) h = Inr ((winner, high, draw), h2)" "plenty h2"
    using eval_loop_bids [OF assms(1) _ assms(4), of "(?w, -1, 0)"] assms(3) f by (auto simp: bidder_ok_def)
  have "winner \<in> insert ?w (set bl)" using winner_is_a_bid [of bl "(?w, -1, 0)"] f by simp
  then have "utf8_arg (bidder_name winner)" "int_range (bid_value winner)"
    using assms(2,3) ascii_valid_utf8 [of "[]"] by (auto simp: bidder_ok_def)
  then obtain h3 where "marshal_bid winner h2 = Inr (json_text False 0 (bid_json winner), h3)" "plenty h3"
    using marshal_bid_plenty [OF e(2)] by blast
  then show ?thesis using False assms(4) e f by (auto simp: result_of_def)
qed

lemma eval_refines:
  assumes "gcm_correct sgx" "keeps_store pr store" "holds_auction sgx (store (u_shim_ctx ctx)) nm (Closed, B)" "name_fits nm"
    and "MAX_VALUE_SIZE \<le> length junk" "plenty (heap_mem ctx)" "int_range junk_int"
    and size: "length (json_text False 0 (range_json (range_query (bid_prefix nm) (store (u_shim_ctx ctx))))) \<le> 262144"
  shows "\<exists>r ctx'. auction_eval sgx pr junk junk_int nm ctx = Inr (r, ctx') \<and> outcome_of B r \<and>
    map_of (store (u_shim_ctx ctx')) (nm @ ''.outcome.'') = Some r"
proof -
  let ?m = "store (u_shim_ctx ctx)"
  define kvs where "kvs = range_query (bid_prefix nm) ?m"
  define bl where "bl = map (\<lambda>p. stored_bid nm B (fst p)) kvs"
  define vs where "vs = map (\<lambda>p. (fst p, json_text False 0 (bid_json (stored_bid nm B (fst p))))) kvs"
  have nm: "nul_free nm" using assms(4) by (simp add: name_fits_def)
  note rb = range_bids [OF assms(3) nm kvs_def bl_def]
  obtain bytes len ctx1 h1 where l: "get_state sgx pr nm (take MAX_VALUE_SIZE junk) MAX_VALUE_SIZE ctx = Inr (bytes, len, ctx1)"
    "store (u_shim_ctx ctx1) = ?m" "len \<noteq> 0"
    "unmarshal_auction (bytes @ drop MAX_VALUE_SIZE junk) (heap_mem ctx1) = Inr (1, \<lparr>name = nm, is_open = False\<rparr>, h1)" "plenty h1"
    using load_auction [OF assms(2-6), where thesis = thesis] by auto
  have nk: "nul_free (bid_prefix nm)" using nm by (simp add: bid_prefix_def PREFIX_def SEP_def)
  obtain ctx2 where q: "get_public_state_by_partial_composite_key sgx pr (bid_prefix nm) [] (ctx1\<lparr>heap_mem := h1\<rparr>) = Inr (kvs, ctx2)"
    "store (u_shim_ctx ctx2) = ?m" "plenty (heap_mem ctx2)"
    by (rule range_query_reads [OF assms(2) _ nk, where ctx = "ctx1\<lparr>heap_mem := h1\<rparr>" and kvs = kvs])
      (use l kvs_def rb size range_entries(1) [OF assms(3) nm kvs_def] in auto)
  have d: "get_state_by_partial_composite_key sgx pr (PREFIX @ nm @ SEP) [] (ctx1\<lparr>heap_mem := h1\<rparr>) = Inr (vs, ctx2)"
    using q(1) decrypt_values_sealed [OF rb(4)]
    by (simp add: get_state_by_partial_composite_key_def bid_prefix_def vs_def)
  have "map snd vs = map (\<lambda>b. json_text False 0 (bid_json b)) bl" by (simp add: vs_def bl_def)
  from result_of_computed [OF q(3) assms(7) rb(3) this] obtain h3 where r: "(if vs = [] then Inr (AUCTION_NO_BIDS, heap_mem ctx2)
               else run_bind (eval_loop vs (\<lparr>bidder_name = [], bid_value = junk_int\<rparr>, -1, 0) (heap_mem ctx2))
                      (\<lambda>((winner, high, draw), h2).
                         if draw \<noteq> 1 then marshal_bid winner h2 else Inr (AUCTION_DRAW, h2))) = Inr (result_of bl junk_int, h3)"
    by blast
  let ?ctx3 = "put_public_state pr (nm @ SEP @ ''outcome'' @ SEP) (result_of bl junk_int) (ctx2\<lparr>heap_mem := h3\<rparr>)"
  have "auction_eval sgx pr junk junk_int nm ctx = Inr (result_of bl junk_int, ?ctx3)"
    using l(1,3,4) by (simp add: auction_eval_def d r Let_def)
  moreover have "map_of (store (u_shim_ctx ?ctx3)) (nm @ ''.outcome.'') = Some (result_of bl junk_int)"
    using assms(3) nm q(2) by (simp add: store_put_public(1) [OF keeps_storeD [OF assms(2)]] SEP_def holds_auction_def map_of_map_assign)
  ultimately show ?thesis using result_of_outcome [OF rb(1,2)] by blast
qed

end
