(* ===== verification/Auction_Props.thy ===== *)
theory Auction_Props
  imports Auction_Laws
begin

text \<open>
  The properties of the auction chaincode, with a sample peer whose store is an association list.
\<close>

section \<open>A sample peer\<close>

definition store_peer :: "((string, string) std_map) peer" where
  "store_peer = \<lparr>ocall_get_state = (\<lambda>w k n. case map_of w k of None \<Rightarrow> ([], 0, [], w) | Some v \<Rightarrow> (v, length v, [], w)),
     ocall_put_state = (\<lambda>w k v. map_assign k v w),
     ocall_get_state_by_partial_composite_key = (\<lambda>w k n.
        let t = json_text False 0 (range_json (range_query k w)) in (t, length t, [], w)),
     ocall_get_creator_name = (\<lambda>w n m. (''msp'', ''dn'', w))\<rparr>"

lemma store_peer_keeps: "keeps_store store_peer (\<lambda>w. w)"
  by (auto simp: keeps_store_def keeps_entries_def store_peer_def split: option.splits)

lemma sample_name: "name_fits ''a''"
  using ascii_valid_utf8 [of "''a''"]
  by (simp add: name_fits_def status_text_def auction_json_def two_fields_def opt_text_def quoted_def escape_char_def MAX_VALUE_SIZE_def)

lemma holds_nothing:
  assumes "map_wf m" "map_of m nm = None" "range_query (bid_prefix nm) m = []"
  shows "holds_auction sgx m nm (Missing, Map.empty)"
proof -
  have "map_of m k = None" if "take (length (bid_prefix nm)) k = bid_prefix nm" for k
    using assms(3) that by (auto simp: range_query_def filter_empty_conv map_of_eq_None_iff)
  then show ?thesis using assms(1,2) by (simp add: holds_auction_def status_stored_def bids_stored_def)
qed

lemma spec_run_full:
  "spec_run (map (\<lambda>(b, v). Submit b v) bs @ [Close]) (Opened, B) = (replicate (length bs + 1) OK_result, Closed, B ++ map_of (rev bs))"
  by (induction bs arbitrary: B) (auto simp: Let_def)

lemma sealed_length: "sealed sgx s val \<Longrightarrow> length s = (length val + 30) div 3 * 4"
  by (auto simp: sealed_def)

lemma length_bid_text:
  assumes "nul_free b" "int_range v"
  shows "length (bid_text b v) \<le> 6 * length b + 60"
proof -
  have "length (sprintf_g17 (double_of_int v)) \<le> 24"
    using length_sprintf_g17 canonical_reads_back [OF double_of_int_exact(1) [OF assms(2)]] by blast
  then show ?thesis
    using length_quoted [of b] assms(1)
    by (simp add: bid_text_def bid_json_def two_fields_def opt_text_def quoted_def escape_char_def)
qed

lemma length_range_one: "length (json_text False 0 (range_json [(k, s)])) \<le> 6 * length k + 6 * length s + 40"
  using length_quoted [of k] length_quoted [of s]
  by (simp add: range_json_def pair_json_def two_fields_def opt_text_def quoted_def escape_char_def)

text \<open>One short bid fits the buffer of a range query.\<close>

lemma one_bid_fits:
  assumes "holds_auction sgx m nm (s, [b \<mapsto> v])" "nul_free nm" "length nm + length b \<le> 100"
  shows "length (json_text False 0 (range_json (range_query (bid_prefix nm) m))) \<le> 262144"
proof -
  define kvs where "kvs = range_query (bid_prefix nm) m"
  note re = range_entries [OF assms(1,2) kvs_def]
  have one: "fst p = bid_key nm b \<and> nul_free b \<and> int_range v \<and> sealed sgx (snd p) (bid_text b v)" if "p \<in> set kvs" for p
    using re(2) [OF that] by (auto simp: bidder_ok_def split: if_splits)
  then have "fst ` set kvs \<subseteq> {bid_key nm b}" by blast
  then have "card (set (map fst kvs)) \<le> 1" using card_mono [of "{bid_key nm b}" "fst ` set kvs"] by simp
  then have "length kvs \<le> 1" using om.distinct_entries [OF re(1)] distinct_card [of "map fst kvs"] by simp
  moreover obtain p where "p \<in> set kvs" using re(3) [of b v] by auto
  ultimately have kvs: "kvs = [p]" by (cases kvs) auto
  have "length (snd p) \<le> 2 * length (bid_text b v) + 40" using one [OF \<open>p \<in> set kvs\<close>] sealed_length by fastforce
  moreover have "length (fst p) \<le> length nm + length b + 14"
    using one [OF \<open>p \<in> set kvs\<close>] by (simp add: bid_key_def PREFIX_def SEP_def)
  moreover have "kvs = [(fst p, snd p)]" using kvs by simp
  ultimately show ?thesis
    using length_range_one [of "fst p" "snd p"] length_bid_text [of b v] one [OF \<open>p \<in> set kvs\<close>] assms(3)
    unfolding kvs_def [symmetric] by simp
qed

section \<open>Properties\<close>

text \<open>JSON round trip: with memory to spare, the text \<open>marshal_auction\<close> and \<open>marshal_bid\<close> write
  for an auction and a bid with UTF-8 names reads back as the same auction and bid, for every
  value of a C \<open>int\<close>, and whatever bytes follow the text: the operations parse a buffer that is not
  terminated.\<close>

theorem auction_json_roundtrip:
  assumes "plenty h" "bidder_ok (name a)" "bidder_ok (bidder_name b)" "int_range (bid_value b)"
  shows "(\<exists>s h1 h2. marshal_auction a h = Inr (s, h1) \<and> unmarshal_auction (s @ junk) h1 = Inr (1, a, h2)) \<and>
    (\<exists>s h1 h2. marshal_bid b h = Inr (s, h1) \<and> unmarshal_bid (s @ junk) h1 = Inr (1, b, h2))"
proof -
  obtain h1 where h1: "marshal_auction a h = Inr (json_text False 0 (auction_json a), h1)" "plenty h1"
    using marshal_auction_plenty [OF assms(1)] assms(2) by (auto simp: bidder_ok_def)
  obtain h2 where h2: "marshal_bid b h = Inr (json_text False 0 (bid_json b), h2)" "plenty h2"
    using marshal_bid_plenty [OF assms(1)] assms(3,4) by (auto simp: bidder_ok_def)
  have "cstr (name a) = name a" "cstr (bidder_name b) = bidder_name b" using assms by (auto simp: bidder_ok_def)
  then show ?thesis
    using h1 h2 unmarshal_auction_text [OF h1(2), of a junk] unmarshal_bid_text [OF h2(2) assms(4), of junk] by fastforce
qed

theorem auction_json_roundtrip_witness:
  "\<exists>s h1 h2. marshal_bid \<lparr>bidder_name = ''b'', bid_value = -7\<rparr> \<lparr>answers = [], live = 0\<rparr> = Inr (s, h1) \<and>
     unmarshal_bid (s @ ''}}'') h1 = Inr (1, \<lparr>bidder_name = ''b'', bid_value = -7\<rparr>, h2)"
  using auction_json_roundtrip [of "\<lparr>answers = [], live = 0\<rparr>" "\<lparr>name = ''a'', is_open = True\<rparr>" "\<lparr>bidder_name = ''b'', bid_value = -7\<rparr>" "''}}''"]
    ascii_valid_utf8 [of "''a''"] ascii_valid_utf8 [of "''b''"]
  by (simp add: plenty_def bidder_ok_def int_range_def)

text \<open>C2. The chaincode refines the life of an auction: on a peer that keeps its store, any sequence of
  create, submit and close transactions on an auction answers exactly what the automaton
  \<open>spec_step\<close> of the states missing, open and closed answers, and leaves the store holding the
  automaton's state, its last bid of every bidder included.\<close>

theorem auction_refines_spec:
  assumes "gcm_correct sgx" "keeps_store pr store" "name_fits nm" "MAX_VALUE_SIZE \<le> length junk"
    and "holds_auction sgx (store (u_shim_ctx ctx)) nm a" "plenty (heap_mem ctx)" "list_all valid_op ops"
  shows "\<exists>ctx'. run_auction sgx pr junk nm ops ctx = Inr (fst (spec_run ops a), ctx') \<and>
    holds_auction sgx (store (u_shim_ctx ctx')) nm (snd (spec_run ops a))"
  using run_auction_refines [OF assms(5-7,1-4)] by blast

theorem auction_refines_spec_witness:
  "\<exists>ctx'. run_auction sample_sgx store_peer (replicate 1024 NUL) ''a'' [Submit ''b'' 5, Create, Create, Submit ''b'' 5, Close, Submit ''b'' 6] (sample_ctx [] [])
     = Inr ([AUCTION_NOT_EXISTING, OK_result, AUCTION_ALREADY_EXISTING, OK_result, OK_result, AUCTION_ALREADY_CLOSED], ctx')"
proof -
  have "holds_auction sample_sgx (u_shim_ctx (sample_ctx [] [])) ''a'' (Missing, Map.empty)"
    by (rule holds_nothing) (simp_all add: sample_ctx_def range_query_def)
  moreover have "plenty (heap_mem (sample_ctx [] []))" by (simp add: sample_ctx_def plenty_def)
  ultimately show ?thesis
    using auction_refines_spec [OF sample_gcm store_peer_keeps sample_name, of "replicate 1024 NUL" "sample_ctx [] []" "(Missing, Map.empty)"
        "[Submit ''b'' 5, Create, Create, Submit ''b'' 5, Close, Submit ''b'' 6]"] ascii_valid_utf8 [of "''b''"]
    by (auto simp: MAX_VALUE_SIZE_def bidder_ok_def int_range_def Let_def)
qed



text \<open>C39. An auction house whose name has 127 bytes makes every later invocation write past the end
  of the name buffer: \<open>invoke\<close> reads at most 127 bytes into a buffer of 128 and then writes the
  terminator at index 128.\<close>

theorem long_house_name_overflows:
  assumes "gcm_correct sgx" "keeps_store pr store"
    and "map_of (store (u_shim_ctx ctx)) INITIALIZED_KEY = Some s" "sealed sgx s [CHR 0x01]"
    and "map_of (store (u_shim_ctx ctx)) AUCTION_HOUSE_NAME_KEY = Some t" "sealed sgx t house" "length house = 127"
  shows "invoke sgx pr junk junk_int max_len ctx = Inl OutOfBounds"
proof -
  have get: "\<exists>cmac w. ocall_get_state pr w0 k n = (v, length v, cmac, w) \<and> store w = store w0"
    if "map_of (store w0) k = Some v" for w0 k n v
  proof -
    obtain cmac w where "ocall_get_state pr w0 k n =
        (case map_of (store w0) k of None \<Rightarrow> ([], 0, cmac, w) | Some s \<Rightarrow> (s, length s, cmac, w))" "store w = store w0"
      using assms(2) unfolding keeps_store_def keeps_entries_def by blast
    then show ?thesis using that by auto
  qed
  have keys: "cstr INITIALIZED_KEY = INITIALIZED_KEY" "cstr AUCTION_HOUSE_NAME_KEY = AUCTION_HOUSE_NAME_KEY"
    by (simp_all add: INITIALIZED_KEY_def AUCTION_HOUSE_NAME_KEY_def)
  obtain cmac w where g: "ocall_get_state pr (u_shim_ctx ctx) INITIALIZED_KEY ((1 + 30) div 3 * 4) = (s, length s, cmac, w)"
    "store w = store (u_shim_ctx ctx)" using get [OF assms(3)] by blast
  obtain ctx1 where c1: "get_state sgx pr INITIALIZED_KEY [NUL] 1 ctx = Inr ([CHR 0x01], 1, ctx1)" "u_shim_ctx ctx1 = w"
    using get_state_sealed [OF assms(4), of 1 "[NUL]" pr ctx INITIALIZED_KEY cmac w] g(1) keys by auto
  have "map_of (store (u_shim_ctx ctx1)) AUCTION_HOUSE_NAME_KEY = Some t" using c1(2) g(2) assms(5) by simp
  from get [OF this, of "(127 + 30) div 3 * 4"] obtain cmac' w' where
    g': "ocall_get_state pr (u_shim_ctx ctx1) AUCTION_HOUSE_NAME_KEY ((127 + 30) div 3 * 4) = (t, length t, cmac', w')" by blast
  obtain buf ctx2 where c2: "get_state sgx pr AUCTION_HOUSE_NAME_KEY (replicate 128 NUL) 127 ctx1 = Inr (buf, 127, ctx2)"
    using get_state_sealed [OF assms(6), of 127 "replicate 128 NUL" pr ctx1 AUCTION_HOUSE_NAME_KEY cmac' w'] g' keys assms(7) by auto
  have "load_house_name sgx pr ctx = Inl OutOfBounds"
    unfolding load_house_name_def c1(1) run_bind_simps prod.case using c2 by (simp add: check_def del: replicate.simps)
  then show ?thesis by (simp add: invoke_def)
qed

theorem long_house_name_overflows_witness:
  "\<exists>ctx1. init_auction_house sample_sgx store_peer (replicate 127 CHR ''h'') (sample_ctx [] []) = Inr (OK_result, ctx1) \<and>
     invoke sample_sgx store_peer (replicate 1024 NUL) 0 100 (ctx1\<lparr>json_args := ''[]''\<rparr>) = Inl OutOfBounds"
proof -
  let ?house = "replicate 127 CHR ''h''" and ?ctx = "sample_ctx [] []"
  have keys: "nul_free INITIALIZED_KEY" "nul_free AUCTION_HOUSE_NAME_KEY" "INITIALIZED_KEY \<noteq> AUCTION_HOUSE_NAME_KEY"
    by (simp_all add: INITIALIZED_KEY_def AUCTION_HOUSE_NAME_KEY_def)
  obtain t ctx0 where p0: "put_state sample_sgx store_peer AUCTION_HOUSE_NAME_KEY ?house ?ctx = Inr ctx0"
    "sealed sample_sgx t ?house" "u_shim_ctx ctx0 = map_assign AUCTION_HOUSE_NAME_KEY t (u_shim_ctx ?ctx)"
    using put_sealed_store [OF sample_gcm keeps_storeD [OF store_peer_keeps] keys(2)] .
  obtain s ctx1 where p1: "put_state sample_sgx store_peer INITIALIZED_KEY [CHR 0x01] ctx0 = Inr ctx1"
    "sealed sample_sgx s [CHR 0x01]" "u_shim_ctx ctx1 = map_assign INITIALIZED_KEY s (u_shim_ctx ctx0)"
    using put_sealed_store [OF sample_gcm keeps_storeD [OF store_peer_keeps] keys(1)] .
  have st: "map_of (u_shim_ctx ctx1) INITIALIZED_KEY = Some s" "map_of (u_shim_ctx ctx1) AUCTION_HOUSE_NAME_KEY = Some t"
    using p0(3) p1(3) keys(3) by (simp_all add: map_of_map_assign map_wf_assign sample_ctx_def)
  show ?thesis
    using p0(1) p1(1) st long_house_name_overflows [OF sample_gcm store_peer_keeps _ p1(2) _ p0(2), of "ctx1\<lparr>json_args := ''[]''\<rparr>"]
    by (simp add: init_auction_house_def del: replicate.simps)
qed

text \<open>Bids below \<open>-1\<close> are never considered: an evaluation in which every bid is such answers a bid
  of the empty bidder whose value is the uninitialised local variable.\<close>

theorem negative_bids_ignored:
  assumes "\<forall>b \<in> set bs. bid_value b < -1" "plenty h" "\<forall>b \<in> set bs. bidder_ok (bidder_name b) \<and> int_range (bid_value b)"
    and "map snd vs = map (\<lambda>b. json_text False 0 (bid_json b)) bs"
  shows "\<exists>h'. eval_loop vs (winner, -1, 0) h = Inr ((winner, -1, 0), h')"
proof -
  have "fold consider_bid bs (winner, -1, 0) = (winner, -1, 0)"
    using consider_keeps_max [of bs "-1" winner 0] assms(1) by fastforce
  then show ?thesis
    using eval_loop_bids [OF assms(2) _ assms(4), of "(winner, -1, 0)"] assms(3) by (auto simp: bidder_ok_def)
qed

end
