(* ===== verification/Example_Chaincodes.thy ===== *)
theory Example_Chaincodes
  imports Auction Shim_Store
begin

text \<open>
  The small example chaincodes, \<^verbatim>\<open>examples/echo/echo_cc.cpp\<close> and \<^verbatim>\<open>examples/helloworld/helloworld_cc.cpp\<close>, over the
  model of the shim: the return value, the bytes of the response, the reported length if it is set, and the
  context. \<open>junk\<close> are the bytes of a local buffer before it is written.
\<close>

section \<open>echo\<close>

definition respond :: "string \<Rightarrow> nat \<Rightarrow> int \<times> string \<times> nat option" where
  "respond result max_response_len =
     (if max_response_len < length result then (- 1, [], Some 0) else (0, result, Some (length result)))"

definition echo_invoke :: "nat \<Rightarrow> 'w shim_ctx \<Rightarrow> ((int \<times> string \<times> nat option) \<times> 'w shim_ctx) run" where
  "echo_invoke max_response_len ctx =
     run_bind (get_string_args [] ctx) (\<lambda>(_, argss, ctx1).
     run_bind (index argss 0) (\<lambda>result. Inr (respond result max_response_len, ctx1)))"

section \<open>helloworld\<close>

definition NOT_FOUND :: string where
  "NOT_FOUND = ''Asset not found''"

text \<open>The four bytes of an \<open>int\<close> in memory.\<close>

definition int_bytes :: "int \<Rightarrow> string" where
  "int_bytes v = map (\<lambda>i. char_of (nat (v div 256 ^ i mod 256))) [0..<4]"

definition storeAsset :: "sgx \<Rightarrow> 'w peer \<Rightarrow> string \<Rightarrow> int \<Rightarrow> 'w shim_ctx \<Rightarrow> (string \<times> 'w shim_ctx) run" where
  "storeAsset sgx pr asset_name val ctx =
     run_bind (put_state sgx pr asset_name (int_bytes val) ctx) (\<lambda>ctx1. Inr (OK_result, ctx1))"

text \<open>The number that is reported is the first byte of the stored value.\<close>

definition retrieveAsset :: "sgx \<Rightarrow> 'w peer \<Rightarrow> string \<Rightarrow> string \<Rightarrow> 'w shim_ctx \<Rightarrow> (string \<times> 'w shim_ctx) run" where
  "retrieveAsset sgx pr junk asset_name ctx =
     run_bind (get_state sgx pr asset_name (fill MAX_VALUE_SIZE junk) MAX_VALUE_SIZE ctx) (\<lambda>(asset_bytes, asset_bytes_len, ctx1).
       Inr (if 0 < asset_bytes_len then asset_name @ '':'' @ nat_digits (byte (asset_bytes ! 0)) else NOT_FOUND, ctx1))"

definition helloworld_invoke ::
  "sgx \<Rightarrow> 'w peer \<Rightarrow> string \<Rightarrow> nat \<Rightarrow> 'w shim_ctx \<Rightarrow> ((int \<times> string \<times> nat option) \<times> 'w shim_ctx) run" where
  "helloworld_invoke sgx pr junk max_response_len ctx =
     run_bind (get_func_and_params [] [] ctx) (\<lambda>(_, function_name, params, ctx1).
     run_bind (index params 0) (\<lambda>asset_name.
       if function_name = ''storeAsset''
       then run_bind (index params 1) (\<lambda>p1.
            run_bind (stoi p1) (\<lambda>val.
            run_bind (storeAsset sgx pr asset_name val ctx1) (\<lambda>(result, ctx2). Inr (respond result max_response_len, ctx2))))
       else if function_name = ''retrieveAsset''
       then run_bind (retrieveAsset sgx pr junk asset_name ctx1) (\<lambda>(result, ctx2). Inr (respond result max_response_len, ctx2))
       else Inr ((- 1, [], None), ctx1)))"

section \<open>Properties\<close>

text \<open>C40. An asset that was stored is found again under its name, but only the lowest byte of its value is reported,
  so a value outside 0 to 255 comes back as another number.\<close>

theorem stored_asset_reported:
  assumes "gcm_correct sgx" "keeps_entries pr store" "map_wf (store (u_shim_ctx ctx))" "nul_free asset_name"
  shows "\<exists>ctx1. storeAsset sgx pr asset_name val ctx = Inr (OK_result, ctx1) \<and>
    (store (u_shim_ctx ctx2) = store (u_shim_ctx ctx1) \<longrightarrow>
       (\<exists>ctx3. retrieveAsset sgx pr junk asset_name ctx2 = Inr (asset_name @ '':'' @ nat_digits (nat (val mod 256)), ctx3)))"
proof -
  obtain t ctx1 where 1: "put_state sgx pr asset_name (int_bytes val) ctx = Inr ctx1" "sealed sgx t (int_bytes val)"
    "store (u_shim_ctx ctx1) = map_assign asset_name t (store (u_shim_ctx ctx))" "heap_mem ctx1 = heap_mem ctx"
    using put_sealed_store [OF assms(1,2,4)] .
  have b: "length (int_bytes val) = 4" "int_bytes val ! 0 = char_of (nat (val mod 256))" by (simp_all add: int_bytes_def)
  have "\<exists>ctx3. retrieveAsset sgx pr junk asset_name ctx2 = Inr (asset_name @ '':'' @ nat_digits (nat (val mod 256)), ctx3)"
    if st: "store (u_shim_ctx ctx2) = store (u_shim_ctx ctx1)"
  proof -
    have m: "map_of (store (u_shim_ctx ctx2)) asset_name = Some t" using 1(3) st assms(3) by (simp add: map_of_map_assign)
    obtain ctx3 where "get_state sgx pr asset_name (fill MAX_VALUE_SIZE junk) MAX_VALUE_SIZE ctx2 =
        Inr (int_bytes val @ drop (length (int_bytes val)) (fill MAX_VALUE_SIZE junk), length (int_bytes val), ctx3)"
      by (rule get_sealed_store [OF assms(2,4) m 1(2), of MAX_VALUE_SIZE "fill MAX_VALUE_SIZE junk"]) (simp_all add: b MAX_VALUE_SIZE_def)
    then show ?thesis using b by (simp add: retrieveAsset_def nth_append)
  qed
  then show ?thesis using 1(1) by (auto simp: storeAsset_def)
qed

theorem stored_asset_reported_witness:
  "\<exists>ctx1 ctx3. storeAsset sample_sgx sample_peer ''a'' 300 (sample_ctx [] []) = Inr (OK_result, ctx1) \<and>
     retrieveAsset sample_sgx sample_peer [] ''a'' ctx1 = Inr (''a:44'', ctx3)"
proof -
  have wf: "map_wf (sample_store (u_shim_ctx (sample_ctx [] [])))" by (simp add: sample_ctx_def sample_store_def)
  have n: "nul_free ''a''" by simp
  note th = stored_asset_reported [OF sample_gcm sample_keeps wf n, of 300]
  obtain ctx1 where 1: "storeAsset sample_sgx sample_peer ''a'' 300 (sample_ctx [] []) = Inr (OK_result, ctx1)" using th by blast
  have "nat_digits 44 = ''44''" by code_simp
  then show ?thesis using th [of ctx1 "[]"] 1 by auto
qed

end
