(* ===== verification/Spec2Isabelle.thy ===== *)
theory Spec2Isabelle
  imports Spectrum_Props Spectrum_Queries Parson_Roundtrip Parson_Compare Ledger_Props Tlcc_Enclave Ecc_Enclave Auction_Props Example_Chaincodes
begin

text \<open>
  A verification development for the Fabric Private Chaincode repository: chaincode that runs inside
  an SGX enclave, a second enclave that keeps a trusted copy of the ledger, and the JSON library, the
  base64 code and the example chaincodes they use.

  \<^bold>\<open>The parts and how they interact.\<close> A client sends arguments as a JSON array. The chaincode enclave
  (\<^verbatim>\<open>ecc_enclave/enclave\<close>) parses them with parson (\<^verbatim>\<open>common/json\<close>), runs the chaincode
  (\<^verbatim>\<open>examples/auction\<close>, \<^verbatim>\<open>demo/chaincode/fpc\<close>), which reads and writes the state of an untrusted peer through the shim, and
  signs arguments, response, read set and write set. State is encrypted and sent in base64
  (\<^verbatim>\<open>common/base64\<close>); what the peer returns is checked against a tag from the ledger enclave. That
  enclave (\<^verbatim>\<open>tlcc_enclave/enclave\<close>) receives every block, validates transactions, recomputes the
  digest of a private chaincode, and keeps keys, values and versions.

  \<^bold>\<open>The theories.\<close> Sources are relative to \<^verbatim>\<open>src/\<close>.
  \<^item> \<open>Prelude\<close>: C strings (a NUL-terminated text is a list of characters, reads past the terminator
    yield NUL), the heap as a count of live blocks with a stream that says which allocations succeed,
    and the locale \<open>map_provider\<close>, whose client lemmas \<open>Parson_Laws\<close> uses for JSON objects.
  \<^item> \<open>Cpp_Base\<close>: C++ computations that may fail (\<open>run\<close>), and \<open>std::map\<close> with the locale
    \<open>ordered_map\<close>.
  \<^item> \<open>Parson_Chars\<close>, \<open>Parson_Value\<close>, \<open>Parson_Number\<close>, \<open>Parson_Parse\<close>, \<open>Parson_Serialize\<close> model
    \<^verbatim>\<open>common/json/parson.c\<close> function by function; \<open>Parson_Laws\<close>, \<open>Parson_Paths\<close> and
    \<open>Parson_Roundtrip\<close> hold the laws: objects refine finite maps, no operation leaks or frees twice
    whichever allocation fails (except the setters named in the findings), dotted paths, the parser
    returns on every text with a well-formed value, and what the serializer writes is read back.
    \<open>Parson_Compare\<close> has the functions on two trees: deep copies have the contents and are all or nothing under
    failing allocations, \<open>json_value_equals\<close> and \<open>json_validate\<close> decide the relations that specify them.
    \<open>Parson_Client\<close> collects what the chaincodes that keep JSON need of the library.
  \<^item> \<open>Base64\<close>: \<^verbatim>\<open>common/base64/base64.cpp\<close>; decoding inverts encoding. \<open>Fpc_Utils\<close>:
    \<^verbatim>\<open>common/utils.c\<close>.
  \<^item> \<open>Sgx\<close>: the functions of the SGX SDK as a record, a parameter of both enclaves.
  \<^item> \<open>Ecc_Json\<close>, \<open>Tlcc_Crypto\<close>, \<open>Ledger\<close>, \<open>Tlcc_Enclave\<close>: \<^verbatim>\<open>tlcc_enclave/enclave/\<close> with
    \<^verbatim>\<open>ecc_json.cpp\<close>, \<^verbatim>\<open>crypto.cpp\<close>, \<^verbatim>\<open>ledger.cpp\<close> and \<^verbatim>\<open>enclave.cpp\<close>. The record \<open>ledger\<close> holds the
    global variables; \<open>parse_block\<close> is split where the C++ nests its loops. \<open>Ledger_Laws\<close> has the
    locale \<open>step_frame\<close> (what a phase of a block may change), \<open>Ledger_Props\<close> the properties: blocks are
    applied completely or not at all, versions, stale reads, state hashes.
  \<^item> \<open>Shim\<close>, \<open>Ecc_Enclave\<close>: \<^verbatim>\<open>ecc_enclave/enclave/\<close> with \<^verbatim>\<open>crypto.cpp\<close>, \<^verbatim>\<open>shim.cpp\<close>, \<^verbatim>\<open>enclave.cpp\<close>,
    and \<^verbatim>\<open>common/enclave/common.cpp\<close>: state access, signed responses, binding to the ledger enclave.
    \<open>Shim_Store\<close>: private state on a peer that keeps its entries.
  \<^item> \<open>Auction\<close>, \<open>Auction_Laws\<close>, \<open>Auction_Props\<close>: \<^verbatim>\<open>examples/auction\<close>; its operations refine an
    automaton of auctions, and an evaluation answers with the highest bid.
  \<^item> \<open>Cpp_Double\<close>: floating point arithmetic with correct rounding. \<open>Spectrum\<close> models the clock auction
    of \<^verbatim>\<open>demo/chaincode/fpc\<close> (\<^verbatim>\<open>auction-state.cpp\<close>, \<^verbatim>\<open>bid.cpp\<close>, \<^verbatim>\<open>evaluate.cpp\<close> and the transactions of
    \<^verbatim>\<open>spectrum-auction.cpp\<close> between loading and storing the state). \<open>Spectrum_Queue\<close> shows that the loop
    over queued bids ends and keeps its books, \<open>Spectrum_Rounds\<close> has the invariant of the clock phase and
    the processing of a round, \<open>Spectrum_Laws\<close> the assignment of channels and the end of a round,
    \<open>Spectrum_Props\<close> the properties.
  \<^item> \<open>Spectrum_Json\<close> models \<^verbatim>\<open>utils.cpp\<close> and the members \<open>toJsonObject\<close> and \<open>fromJsonObject\<close> of the classes of
    the clock auction, \<open>Spectrum_Chaincode\<close> the rest of its chaincode: \<^verbatim>\<open>storage.cpp\<close>,
    \<^verbatim>\<open>spectrum-auction-message.cpp\<close>, the loading, the storing and all transactions of \<^verbatim>\<open>spectrum-auction.cpp\<close>,
    \<^verbatim>\<open>dispatcher.cpp\<close>, \<^verbatim>\<open>error-codes.cpp\<close> and \<^verbatim>\<open>entry.cpp\<close>. \<open>Spectrum_Codec\<close> has the locale \<open>json_codec\<close>, the
    contract of a class that is written to JSON and read back; \<open>Spectrum_Codecs\<close> interprets it for every class.
    \<open>Spectrum_Store\<close> relates the encrypted entries of the ledger to a map from identifiers to auctions,
    \<open>Spectrum_Api\<close> shows that a call of the chaincode acts on that map as its specification \<open>spec_op\<close> does,
    and \<open>Spectrum_Ledger_Props\<close> has the properties: sequences of calls, storing and loading, refused calls and queries
    write nothing, the response, and the price that makes an auction unreadable. \<open>Spectrum_Queries\<close> has the query of
    an owner for the results of a round.
  \<^item> \<open>Example_Chaincodes\<close>: \<^verbatim>\<open>examples/echo\<close> and \<^verbatim>\<open>examples/helloworld\<close>.
  \<^item> This theory: properties that span the enclaves. The ledger enclave accepts what the chaincode
    enclave signed, and its tags accept exactly the values it holds.

  \<^bold>\<open>How the model reads.\<close> State is passed explicitly: the heap through parson, the \<open>shim_ctx\<close> record
  through the shim, the \<open>ledger\<close> record through block processing. A failing call is a value
  (\<open>None\<close>, a status, \<open>Inl\<close>). Reads and writes outside a buffer, and exceptions that nobody catches, are
  \<open>Inl\<close> branches of \<open>run\<close>, so that a theorem with an \<open>Inr\<close> result says that they do not happen.
  Fixed-width integers keep their width where the code can wrap. The parser recurses on a fuel of
  \<open>3 * n + 1\<close> for a text of \<open>n\<close> characters; the theorems show that it never runs out.

  \<^bold>\<open>Parameters.\<close> The SGX SDK, OpenSSL, the nanopb decoders and the peer are not part of the sources;
  they are records of functions, and what a property needs of them is a hypothesis (authenticated
  decryption inverts encryption, a report verifies as it was made, the peer keeps its store), with a
  witness on a concrete instance. Uninitialised stack bytes are arguments.

  \<^bold>\<open>Limits.\<close> JSON values are trees: sharing and cycles, which the C interface does not prevent, are
  not represented, and parent pointers only as the optional reference an operation receives. Element
  counts are natural numbers without the limit of \<open>size_t\<close>. Where C leaves the choice of \<open>ERANGE\<close> for
  subnormal numbers open, the model follows glibc. The spin lock is a flag of sequential code. The
  arguments of log messages are not modelled, the alarms that accompany a log message are. The file and
  line that the clock auction puts into the text of an error are an argument. The specification of its
  calls covers states that JSON and the conversions of the code keep (\<open>state_ok\<close>): whole prices in bids,
  numbers below the limits of the conversions, documents below a gigabyte; what happens to others is
  shown for prices.

  \<^bold>\<open>Not modelled.\<close> The check of attestation reports of \<^verbatim>\<open>ias.cpp\<close>, which no code calls; the untrusted hosts of
  the enclaves and logging, which are glue; the vendored Private Data Objects library with its
  WebAssembly runtime, TinyScheme and CCF, which no part of the chaincode or of the two enclaves calls.
\<close>

section \<open>The enclave of a chaincode and the ledger enclave\<close>

text \<open>The response of a chaincode as the peer sends it: the fields in base64.\<close>

definition response_json :: "string \<Rightarrow> string \<Rightarrow> string \<Rightarrow> json_value" where
  "response_json response sig pk =
     JSONObject [(''ResponseData'', JSONString (base64_encode response)), (''Signature'', JSONString (base64_encode sig)),
       (''PublicKey'', JSONString (base64_encode pk))] 3"

lemma parse_response:
  assumes "plenty h"
  obtains c h' where "parse_json (json_text False 0 (response_json x y z) @ r) h =
      Inr (Some (JSONObject [(''ResponseData'', JSONString (base64_encode x)), (''Signature'', JSONString (base64_encode y)),
        (''PublicKey'', JSONString (base64_encode z))] c), h')" "plenty h'"
proof -
  obtain v h' where p: "parse_json (json_text False 0 (response_json x y z) @ r) h = Inr (Some v, h')"
    "contents v = contents (response_json x y z)" "plenty h'"
    by (rule parse_json_text [of "response_json x y z" h r False]) (simp_all add: response_json_def assms)
  obtain fs c where v: "v = JSONObject fs c" "map (\<lambda>f. (fst f, contents (snd f))) fs =
      [(''ResponseData'', JSONString (base64_encode x)), (''Signature'', JSONString (base64_encode y)), (''PublicKey'', JSONString (base64_encode z))]"
    using p(2) contents_object [of v] by (force simp: response_json_def)
  then obtain a b d where "fs = [(''ResponseData'', a), (''Signature'', b), (''PublicKey'', d)]"
    "contents a = JSONString (base64_encode x)" "contents b = JSONString (base64_encode y)" "contents d = JSONString (base64_encode z)"
    by auto
  then show thesis using that p v by auto
qed

lemma unmarshal_response:
  assumes "plenty h" "length x \<le> rl" "length y \<le> sl" "length z \<le> pl"
  obtains h' where "unmarshal_ecc_response (json_text False 0 (response_json x y z) @ r) (Some (rb, rl)) (Some (sb, sl)) (Some (pb, pl)) h =
      Inr (1, Some (x @ drop (length x) rb, length x), Some (y @ drop (length y) sb, length y), Some (z @ drop (length z) pb, length z), h')"
    "plenty h'"
proof -
  obtain c h1 where "parse_json (json_text False 0 (response_json x y z) @ r) h =
      Inr (Some (JSONObject [(''ResponseData'', JSONString (base64_encode x)), (''Signature'', JSONString (base64_encode y)),
        (''PublicKey'', JSONString (base64_encode z))] c), h1)" "plenty h1"
    using parse_response [OF assms(1)] .
  then show thesis
    using assms(2-4) that
    by (simp add: unmarshal_ecc_response_def copy_out_def json_object_c_def json_object_get_string_def get_value_names)
qed

lemma length_quoted_ge: "length s \<le> length (quoted s)"
proof -
  have "length s \<le> length (concat (map escape_char s))"
    by (induction s) (simp_all add: escape_char_def Suc_le_eq add_strict_increasing)
  then show ?thesis by (simp add: quoted_def)
qed


definition joint_env :: tlcc_env where
  "joint_env = sample_env\<lparr>SHA256 := sgx_sha256 sample_sgx, ECDSA_do_verify := (\<lambda>_ _ _. 1)\<rparr>"


section \<open>The ledger's tags\<close>

text \<open>C12. The tag of the ledger enclave is the check of the shim: for a key of a chaincode that the ledger
  holds, \<open>get_public_state\<close> with the ledger's tag notes no violation when the peer returns the
  ledger's value, and with any other value only if hash or tag collide. Hypotheses: both SHA-256 implementations
  compute the same function; the chaincode's name has no dot.\<close>

theorem state_tag_checks_value:
  assumes "map_of (kvs_state L) (cc @ ''.'' @ key) = Some (val, ver)" "CHR ''.'' \<notin> set cc" "nul_free (cc @ key)"
    and "SHA256 e = sgx_sha256 sgx"
    and "ecall_get_state_metadata e sgx (cc @ ''.'' @ key) L = Inr (ret, tag, L')"
    and "ocall_get_state pr (u_shim_ctx ctx) key max_len = (v, length v, tag, w)" "length v \<le> max_len"
  shows "\<exists>ctx'. get_public_state sgx pr key max_len ctx = Inr (fill max_len v, length v, ctx') \<and>
    (cmac_mismatches ctx' = cmac_mismatches ctx \<longleftrightarrow>
       sgx_cmac128 sgx session_key_bytes (key @ sgx_sha256 sgx v) = sgx_cmac128 sgx session_key_bytes (key @ sgx_sha256 sgx val))"
proof -
  let ?k = "cc @ ''.'' @ key"
  have nf: "cstr ?k = ?k" "cstr key = key" using assms(3) by simp_all
  have "tl (dropWhile (\<lambda>c. c \<noteq> CHR ''.'') ?k) = key"
    using assms(2) by (induction cc) auto
  then have tag: "tag = sgx_cmac128 sgx session_key_bytes (key @ sgx_sha256 sgx val)"
    using assms(1,4,5) nf(1)
    by (auto simp: ecall_get_state_metadata_def ledger_get_state_hash_def run_simps session_key_def spin_lock_def split: if_splits)
  have "take (length v) (fill max_len v) = v" using fill_prefix [OF assms(7)] .
  then show ?thesis
    using assms(6,7) nf(2) tag
    by (auto simp: get_public_state_def check_cmac_def note_cmac_def ecc_session_key_def)
qed

theorem state_tag_checks_value_witness:
  "\<exists>ctx'. get_public_state sample_sgx (sample_peer\<lparr>ocall_get_state := (\<lambda>w k n. (''v'', 1, ''k'' @ fill 32 ''v'', w))\<rparr>) ''k'' 10 (sample_ctx [] []) =
      Inr (fill 10 ''v'', 1, ctx') \<and> cmac_mismatches ctx' = []"
proof -
  have "ecall_get_state_metadata joint_env sample_sgx (''lscc'' @ ''.'' @ ''k'') sample_ledger = Inr (SGX_SUCCESS, ''k'' @ fill 32 ''v'', sample_ledger)"
    by (simp add: ecall_get_state_metadata_def ledger_get_state_hash_def sample_ledger_def fresh_ledger_def spin_lock_def
        spin_unlock_def joint_env_def sample_sgx_def)
  from state_tag_checks_value [OF _ _ _ _ this, where val = "''v''" and v = "''v''" and max_len = 10 and ctx = "sample_ctx [] []" and w = "[]"
      and pr = "sample_peer\<lparr>ocall_get_state := (\<lambda>w k n. (''v'', 1, ''k'' @ fill 32 ''v'', w))\<rparr>"]
  show ?thesis by (simp add: sample_ledger_def joint_env_def sample_ctx_def)
qed

text \<open>C35. The two enclaves disagree on absent keys: the ledger tags a key it does not hold with a hash of 32
  zero bytes, and the shim compares with the hash of the empty string, because its test for a
  value compares a pointer. The true answer of an honest peer for an absent key is noted as a violation,
  unless two different messages have the same tag.\<close>

theorem absent_key_noted_as_violation:
  assumes "map_of (kvs_state L) (cc @ ''.'' @ key) = None" "CHR ''.'' \<notin> set cc" "nul_free (cc @ key)"
    and "ecall_get_state_metadata e sgx (cc @ ''.'' @ key) L = Inr (ret, tag, L')"
    and "ocall_get_state pr (u_shim_ctx ctx) key max_len = ([], 0, tag, w)"
    and "sgx_cmac128 sgx session_key_bytes (key @ replicate 32 NUL) \<noteq> sgx_cmac128 sgx session_key_bytes (key @ sgx_sha256 sgx [])"
  shows "\<exists>ctx'. get_public_state sgx pr key max_len ctx = Inr (fill max_len [], 0, ctx') \<and>
    cmac_mismatches ctx' = cmac_mismatches ctx @ [key]"
proof -
  let ?k = "cc @ ''.'' @ key"
  have nf: "cstr ?k = ?k" "cstr key = key" using assms(3) by simp_all
  have "tl (dropWhile (\<lambda>c. c \<noteq> CHR ''.'') ?k) = key"
    using assms(2) by (induction cc) auto
  then have tag: "tag = sgx_cmac128 sgx session_key_bytes (key @ replicate 32 NUL)"
    using assms(1,4) nf(1)
    by (auto simp: ecall_get_state_metadata_def ledger_get_state_hash_def run_simps session_key_def spin_lock_def split: if_splits)
  then show ?thesis
    using assms(5,6) nf(2) by (auto simp: get_public_state_def check_cmac_def note_cmac_def ecc_session_key_def)
qed

theorem absent_key_noted_as_violation_witness:
  "\<exists>ctx'. get_public_state (sample_sgx\<lparr>sgx_sha256 := (\<lambda>s. fill 32 (CHR ''h'' # s))\<rparr>)
      (sample_peer\<lparr>ocall_get_state := (\<lambda>w k n. ([], 0, ''x'' @ replicate 32 NUL, w))\<rparr>) ''x'' 10 (sample_ctx [] []) =
      Inr (fill 10 [], 0, ctx') \<and> cmac_mismatches ctx' = [''x'']"
proof -
  let ?sgx = "sample_sgx\<lparr>sgx_sha256 := (\<lambda>s. fill 32 (CHR ''h'' # s))\<rparr>"
  have "ecall_get_state_metadata joint_env ?sgx (''lscc'' @ ''.'' @ ''x'') sample_ledger = Inr (SGX_SUCCESS, ''x'' @ replicate 32 NUL, sample_ledger)"
    by (simp add: ecall_get_state_metadata_def ledger_get_state_hash_def sample_ledger_def fresh_ledger_def spin_lock_def
        spin_unlock_def joint_env_def sample_sgx_def del: replicate.simps)
  from absent_key_noted_as_violation [OF _ _ _ this, where max_len = 10 and ctx = "sample_ctx [] []" and w = "[]"
      and pr = "sample_peer\<lparr>ocall_get_state := (\<lambda>w k n. ([], 0, ''x'' @ replicate 32 NUL, w))\<rparr>"]
  show ?thesis by (simp add: sample_ledger_def sample_ctx_def sample_sgx_def fill_def numeral_eq_Suc)
qed

end
